(* ===== verification/Prelude.thy ===== *)
theory Prelude
  imports Main "HOL-Library.Word" "HOL-Library.Monad_Syntax"
begin

text \<open>
  Shared vocabulary of the development: the machine integer types, the memory model, the C
  operators whose undefined cases matter, and the lemmas on words and byte strings that every
  component uses.

  The model is of a 64-bit little-endian target (arm64 device, x86_64 simulator). A computation
  of type \<open>'a option\<close> is \<open>None\<close> when the process faults (a plain C dereference of an address
  that is not mapped) or when the C standard leaves the behaviour undefined (an \<open>int\<close> shifted by
  its width or more); a returned \<open>false\<close> of the source is always a value, never \<open>None\<close>.
\<close>

unbundle bit_operations_syntax

type_synonym u8 = "8 word"
type_synonym u16 = "16 word"
type_synonym u32 = "32 word"
type_synonym u64 = "64 word"
type_synonym addr = "64 word"

named_theorems mem_simps \<open>reading bytes that are known to be in memory\<close>

named_theorems eval_simps \<open>unfolding of the model's loops at a numeral, to run it\<close>

section \<open>Memory\<close>

text \<open>\<open>m a = None\<close>: no readable byte is mapped at address \<open>a\<close>.\<close>

type_synonym mem = "addr \<Rightarrow> u8 option"

fun load_bytes :: "mem \<Rightarrow> addr \<Rightarrow> nat \<Rightarrow> u8 list option" where
  "load_bytes m a 0 = Some []"
| "load_bytes m a (Suc n) =
     do { b \<leftarrow> m a; bs \<leftarrow> load_bytes m (a + 1) n; Some (b # bs) }"

fun le_nat :: "u8 list \<Rightarrow> nat" where
  "le_nat [] = 0"
| "le_nat (b # bs) = unat b + 256 * le_nat bs"

fun le_bytes :: "nat \<Rightarrow> nat \<Rightarrow> u8 list" where
  "le_bytes 0 v = []"
| "le_bytes (Suc n) v = word_of_nat (v mod 256) # le_bytes n (v div 256)"

text \<open>A little-endian load of \<open>n\<close> bytes, as an unsigned number.\<close>

definition load_le :: "mem \<Rightarrow> addr \<Rightarrow> nat \<Rightarrow> nat option" where
  "load_le m a n = map_option le_nat (load_bytes m a n)"

definition load8 :: "mem \<Rightarrow> addr \<Rightarrow> u8 option" where
  "load8 m a = m a"

definition load16 :: "mem \<Rightarrow> addr \<Rightarrow> u16 option" where
  "load16 m a = map_option word_of_nat (load_le m a 2)"

definition load32 :: "mem \<Rightarrow> addr \<Rightarrow> u32 option" where
  "load32 m a = map_option word_of_nat (load_le m a 4)"

definition load64 :: "mem \<Rightarrow> addr \<Rightarrow> u64 option" where
  "load64 m a = map_option word_of_nat (load_le m a 8)"

text \<open>\<open>bytes_at m a bs\<close>: the bytes \<open>bs\<close> are mapped at \<open>a\<close>, consecutively.\<close>

fun bytes_at :: "mem \<Rightarrow> addr \<Rightarrow> u8 list \<Rightarrow> bool" where
  "bytes_at m a [] = True"
| "bytes_at m a (b # bs) = (m a = Some b \<and> bytes_at m (a + 1) bs)"

text \<open>A memory holding exactly the bytes \<open>bs\<close> from \<open>a\<close> on; used to run the model.\<close>

definition mem_of :: "addr \<Rightarrow> u8 list \<Rightarrow> mem" where
  "mem_of a bs = (\<lambda>x. let i = unat (x - a) in if i < length bs then Some (bs ! i) else None)"

lemma unat_less: "unat (w :: 'a::len word) < 2 ^ LENGTH('a)"
  by (rule unsigned_less)

lemma unat_of_nat_small: "n < 2 ^ LENGTH('a) \<Longrightarrow> unat (of_nat n :: 'a::len word) = n"
  by (simp add: unat_of_nat)

lemma unat_add_of_nat_small:
  "unat (a :: 'a::len word) + n < 2 ^ LENGTH('a) \<Longrightarrow> unat (a + of_nat n) = unat a + n"
  by (simp add: unat_word_ariths unat_of_nat mod_add_right_eq)

lemma bytes_at_append [mem_simps]:
  "bytes_at m a (xs @ ys) \<longleftrightarrow> bytes_at m a xs \<and> bytes_at m (a + of_nat (length xs)) ys"
  by (induction xs arbitrary: a) (auto simp: algebra_simps)

lemma load_bytes_at: "bytes_at m a bs \<Longrightarrow> load_bytes m a (length bs) = Some bs"
  by (induction bs arbitrary: a) auto

lemma load_bytes_at_prefix:
  "bytes_at m a bs \<Longrightarrow> n \<le> length bs \<Longrightarrow> load_bytes m a n = Some (take n bs)"
  by (metis bytes_at_append append_take_drop_id length_take load_bytes_at min.absorb2)

lemma load_bytes_length: "load_bytes m a n = Some bs \<Longrightarrow> length bs = n"
  by (induction n arbitrary: a bs) (auto split: bind_splits)

lemma load_bytes_iff: "load_bytes m a n = Some bs \<longleftrightarrow> bytes_at m a bs \<and> length bs = n"
proof
  show "load_bytes m a n = Some bs \<Longrightarrow> bytes_at m a bs \<and> length bs = n"
    by (induction n arbitrary: a bs) (auto split: bind_splits)
qed (auto simp: load_bytes_at)

lemma load_bytes_add:
  "load_bytes m a (n + k) =
     do { xs \<leftarrow> load_bytes m a n; ys \<leftarrow> load_bytes m (a + of_nat n) k; Some (xs @ ys) }"
proof (induction n arbitrary: a)
  case (Suc n)
  then show ?case by (cases "m a") (simp_all add: bind_assoc add.assoc)
qed (cases "load_bytes m a k", simp_all)

lemma bytes_at_mem_of_aux:
  "k + length bs = length xs \<Longrightarrow> drop k xs = bs \<Longrightarrow> length xs < 2 ^ 64 \<Longrightarrow>
   bytes_at (mem_of a xs) (a + of_nat k) bs"
proof (induction bs arbitrary: k)
  case Nil
  then show ?case by simp
next
  case (Cons b bs)
  have k: "k < length xs" using Cons.prems by auto
  have u: "unat (of_nat k :: addr) = k"
    using k Cons.prems(3) by (simp add: unat_of_nat_small)
  have hd: "xs ! k = b" using Cons.prems(2) k by (metis Cons_nth_drop_Suc list.inject)
  have "bytes_at (mem_of a xs) (a + of_nat (Suc k)) bs"
    using Cons by (intro Cons.IH) (auto simp: drop_Suc drop_tl)
  then show ?case using k hd u by (simp add: mem_of_def Let_def algebra_simps)
qed

lemma bytes_at_mem_of: "length bs < 2 ^ 64 \<Longrightarrow> bytes_at (mem_of a bs) a bs"
  using bytes_at_mem_of_aux [of 0 bs bs a] by simp

section \<open>Little-endian numbers\<close>

lemma length_le_bytes [simp]: "length (le_bytes n v) = n"
  by (induction n arbitrary: v) auto

lemma le_bytes_numeral [eval_simps]:
  "le_bytes (numeral k) v = of_nat (v mod 256) # le_bytes (pred_numeral k) (v div 256)"
  by (simp only: numeral_eq_Suc [of k] le_bytes.simps)

lemma load_bytes_numeral [eval_simps]:
  "load_bytes m a (numeral k) =
     do { b \<leftarrow> m a; bs \<leftarrow> load_bytes m (a + 1) (pred_numeral k); Some (b # bs) }"
  by (simp only: numeral_eq_Suc [of k] load_bytes.simps)

lemma le_nat_bound: "le_nat bs < 256 ^ length bs"
proof (induction bs)
  case (Cons b bs)
  have "unat b < 256" using unat_less [of b] by simp
  with Cons show ?case by simp
qed simp

lemma load_le_bound: "load_le m a n = Some x \<Longrightarrow> x < 256 ^ n"
  using le_nat_bound by (auto simp: load_le_def dest: load_bytes_length)

lemma load_le_one: "load_le m a 1 = map_option unat (load8 m a)"
  by (cases "m a") (simp_all add: load_le_def load8_def)

lemma ucast_of_nat_small:
  "x < 2 ^ LENGTH('a) \<Longrightarrow> (ucast (of_nat x :: 'a::len word) :: 'b::len word) = of_nat x"
  by (simp add: unsigned_of_nat take_bit_nat_eq_self)

lemma unat_ucast_u32: "unat (ucast a :: u64) = unat (a :: u32)"
  using unsigned_less [of a, where ?'a = nat]
  by (simp add: unsigned_ucast_eq take_bit_nat_eq_self)

lemma le_nat_le_bytes: "le_nat (le_bytes n v) = v mod 256 ^ n"
proof (induction n arbitrary: v)
  case (Suc n)
  have "unat (word_of_nat (v mod 256) :: u8) = v mod 256"
    by (simp add: unat_of_nat)
  with Suc show ?case by (simp add: mod_mult2_eq)
qed simp

lemma le_bytes_le_nat: "le_bytes (length bs) (le_nat bs) = bs"
proof (induction bs)
  case (Cons b bs)
  have b: "unat b < 256" using unat_less [of b] by simp
  then have "(unat b + 256 * le_nat bs) mod 256 = unat b"
    and "(unat b + 256 * le_nat bs) div 256 = le_nat bs" by auto
  with Cons show ?case by simp
qed simp

lemma load_le_at [mem_simps]: "bytes_at m a (le_bytes n v) \<Longrightarrow> load_le m a n = Some (v mod 256 ^ n)"
  using load_bytes_at [of m a "le_bytes n v"] by (simp add: load_le_def le_nat_le_bytes)

lemma load64_at [mem_simps]: "bytes_at m a (le_bytes 8 (unat w)) \<Longrightarrow> load64 m a = Some w"
  using unat_less [of w] by (simp add: load64_def load_le_at)

lemma load32_at [mem_simps]: "bytes_at m a (le_bytes 4 (unat w)) \<Longrightarrow> load32 m a = Some w"
  using unat_less [of w] by (simp add: load32_def load_le_at)

lemma load16_at [mem_simps]: "bytes_at m a (le_bytes 2 (unat w)) \<Longrightarrow> load16 m a = Some w"
  using unat_less [of w] by (simp add: load16_def load_le_at)

section \<open>Words\<close>

lemma word_or_push_bit:
  fixes a c :: "'a::len word"
  assumes "take_bit s a = a"
  shows "a OR push_bit s c = a + push_bit s c"
proof (rule disjunctive_add [symmetric])
  fix n
  show "\<not> bit a n \<or> \<not> bit (push_bit s c) n"
    using bit_take_bit_iff [of s a n] assms by (auto simp: bit_push_bit_iff)
qed

lemma take_bit_of_nat_small:
  assumes "k < 2 ^ s" shows "take_bit s (of_nat k :: 'a::len word) = of_nat k"
proof -
  have "take_bit s (of_nat k :: 'a word) = of_nat (take_bit s k)"
    by (simp add: take_bit_of_nat)
  with assms show ?thesis by (simp add: take_bit_nat_eq_self)
qed

lemma word_or_of_nat:
  assumes "k < 2 ^ s"
  shows "(of_nat k OR of_nat (d * 2 ^ s)) = (of_nat (k + d * 2 ^ s) :: 'a::len word)"
proof -
  have "of_nat (d * 2 ^ s) = push_bit s (of_nat d :: 'a word)"
    by (simp add: push_bit_eq_mult)
  with word_or_push_bit [OF take_bit_of_nat_small [OF assms], of "of_nat d"] show ?thesis
    by simp
qed

lemma scast_of_nat_small:
  assumes "x < 2 ^ (LENGTH('a) - 1)"
  shows "(scast (of_nat x :: 'a::len word) :: 'b::len word) = of_nat x"
proof -
  have "signed_take_bit (LENGTH('a) - Suc 0) (int x) = int x"
  proof (rule signed_take_bit_int_eq_self)
    show "- (2 ^ (LENGTH('a) - Suc 0)) \<le> int x" by (rule order_trans [of _ 0]) simp_all
    show "int x < 2 ^ (LENGTH('a) - Suc 0)" using assms by simp
  qed
  then show ?thesis
    by (simp add: signed_of_nat)
qed

lemma and_7f: "unat (0x7F AND b :: u8) = unat b mod 128"
proof -
  have "0x7F AND b = take_bit 7 b" 
    by (simp add: take_bit_eq_mask mask_eq_exp_minus_1 and.commute)
  then have "unat (0x7F AND b) = take_bit 7 (unat b)" by (simp only: unsigned_take_bit_eq)
  then show ?thesis by (simp add: take_bit_eq_mod)
qed

lemma and_80: "0x80 AND b = (0 :: u8) \<longleftrightarrow> unat b < 128"
proof -
  have "0x80 AND b = (0 :: u8) \<longleftrightarrow> \<not> bit b 7"
    using and_exp_eq_0_iff_not_bit [of b 7] by (simp add: and.commute)
  also have "\<dots> \<longleftrightarrow> unat b < 128"
  proof -
   have "bit b 7 \<longleftrightarrow> bit (unat b) 7" by (simp add: bit_unsigned_iff)
   also have "\<dots> \<longleftrightarrow> odd (unat b div 128)" by (simp add: bit_iff_odd)
   also have "\<dots> \<longleftrightarrow> \<not> unat b < 128"
   proof (cases "unat b < 128")
     case False
     have "unat b < 256" using unat_less [of b] by simp
     with False have "unat b div 128 = 1" by arith
     with False show ?thesis by simp
   qed simp
   finally show ?thesis by simp
  qed
  finally show ?thesis .
qed

lemma byte_of_nat: "n < 256 \<Longrightarrow> unat (of_nat n :: u8) = n"
  by (simp add: unat_of_nat_small)

lemma scast_of_int_small:
  assumes "- (2 ^ (LENGTH('a) - 1)) \<le> x" "x < 2 ^ (LENGTH('a) - 1)"
  shows "(scast (of_int x :: 'a::len word) :: 'b::len word) = of_int x"
proof -
  have "signed_take_bit (LENGTH('a) - Suc 0) x = x"
    using assms by (intro signed_take_bit_int_eq_self) auto
  then show ?thesis by (simp add: signed_of_int)
qed

lemma ucast_of_int_narrow:
  "LENGTH('b) \<le> LENGTH('a) \<Longrightarrow> (ucast (of_int x :: 'a::len word) :: 'b::len word) = of_int x"
  by (simp add: unsigned_of_int word_of_int_eq_iff min_def)

lemma scast_ucast_small:
  fixes d :: "'a::len word"
  assumes "LENGTH('b) \<le> LENGTH('a)" "- (2 ^ (LENGTH('b) - 1)) \<le> sint d" "sint d < 2 ^ (LENGTH('b) - 1)"
  shows "(scast (ucast d :: 'b::len word) :: 'a word) = d"
proof -
  define x where "x = sint d"
  have d: "d = of_int x" by (simp add: x_def)
  have "(ucast d :: 'b word) = of_int x" unfolding d by (rule ucast_of_int_narrow [OF assms(1)])
  moreover have "(scast (of_int x :: 'b word) :: 'a word) = of_int x"
    using assms(2,3) by (intro scast_of_int_small) (auto simp: x_def)
  ultimately show ?thesis by (simp add: d)
qed

text \<open>\<open>those\<close>, entry by entry.\<close>

lemma those_nth: "those xs = Some ys \<Longrightarrow> length ys = length xs \<and> (\<forall>i < length xs. xs ! i = Some (ys ! i))"
proof (induction xs arbitrary: ys)
  case (Cons x xs)
  then obtain y zs where "x = Some y" "those xs = Some zs" "ys = y # zs"
    by (auto split: option.splits)
  with Cons.IH show ?case by (auto simp: nth_Cons split: nat.splits)
qed simp

end
