(* ===== verification/DataParsing.thy ===== *)
theory DataParsing
  imports Prelude
begin

text \<open>
  The cursor-based readers of \<open>Unwind/Dwarf/FIRCLSDataParsing.c\<close>. A C function
  \<open>T parse(const void** cursor)\<close> is modelled by \<open>mem \<Rightarrow> addr \<Rightarrow> (T \<times> addr) option\<close>: the value read
  and the advanced cursor. \<open>None\<close> is a fault (an unmapped byte) or an undefined \<open>int\<close> shift.

  \<open>char\<close> is signed on both targets; only its low seven bits and bit 7 are used, so the byte is
  kept as \<open>u8\<close>. \<open>(0x7F & byte) << shift\<close> has type \<open>int\<close>: it is a 32-bit shift whose result
  is sign-extended when it is or-ed into the \<open>uint64_t\<close> accumulator.
\<close>

section \<open>Fixed-width readers\<close>

definition FIRCLSParseUint8AndAdvance :: "mem \<Rightarrow> addr \<Rightarrow> (u8 \<times> addr) option" where
  "FIRCLSParseUint8AndAdvance m cursor =
     do { tmp \<leftarrow> load8 m cursor; Some (tmp, cursor + 1) }"

definition FIRCLSParseUint16AndAdvance :: "mem \<Rightarrow> addr \<Rightarrow> (u16 \<times> addr) option" where
  "FIRCLSParseUint16AndAdvance m cursor =
     do { tmp \<leftarrow> load16 m cursor; Some (tmp, cursor + 2) }"

text \<open>The signed readers return the same bits; the caller's conversion reads them as signed.\<close>

definition FIRCLSParseInt16AndAdvance :: "mem \<Rightarrow> addr \<Rightarrow> (16 word \<times> addr) option" where
  "FIRCLSParseInt16AndAdvance m cursor =
     do { tmp \<leftarrow> load16 m cursor; Some (tmp, cursor + 2) }"

definition FIRCLSParseUint32AndAdvance :: "mem \<Rightarrow> addr \<Rightarrow> (u32 \<times> addr) option" where
  "FIRCLSParseUint32AndAdvance m cursor =
     do { tmp \<leftarrow> load32 m cursor; Some (tmp, cursor + 4) }"

definition FIRCLSParseInt32AndAdvance :: "mem \<Rightarrow> addr \<Rightarrow> (32 word \<times> addr) option" where
  "FIRCLSParseInt32AndAdvance m cursor =
     do { tmp \<leftarrow> load32 m cursor; Some (tmp, cursor + 4) }"

definition FIRCLSParseUint64AndAdvance :: "mem \<Rightarrow> addr \<Rightarrow> (u64 \<times> addr) option" where
  "FIRCLSParseUint64AndAdvance m cursor =
     do { tmp \<leftarrow> load64 m cursor; Some (tmp, cursor + 8) }"

definition FIRCLSParseInt64AndAdvance :: "mem \<Rightarrow> addr \<Rightarrow> (64 word \<times> addr) option" where
  "FIRCLSParseInt64AndAdvance m cursor =
     do { tmp \<leftarrow> load64 m cursor; Some (tmp, cursor + 8) }"

definition FIRCLSParsePointerAndAdvance :: "mem \<Rightarrow> addr \<Rightarrow> (u64 \<times> addr) option" where
  "FIRCLSParsePointerAndAdvance m cursor =
     do { tmp \<leftarrow> load64 m cursor; Some (tmp, cursor + 8) }"

section \<open>LEB128\<close>

text \<open>
  \<open>int << shift\<close>: undefined for a count of 32 or more. (Shifting into or past the sign bit wraps,
  as on every compiler these targets use.)
\<close>

definition shl_int :: "32 word \<Rightarrow> nat \<Rightarrow> 32 word option" where
  "shl_int x s = (if s < 32 then Some (push_bit s x) else None)"

text \<open>
  The loop \<open>for (i = 0; i < sizeof(uint64_t); ++i)\<close>; the first argument is the number of
  iterations left.
\<close>

fun uleb128_loop :: "nat \<Rightarrow> mem \<Rightarrow> u64 \<Rightarrow> nat \<Rightarrow> addr \<Rightarrow> (u64 \<times> addr) option" where
  "uleb128_loop 0 m result shift cursor = Some (result, cursor)"
| "uleb128_loop (Suc i) m result shift cursor =
     do { byte \<leftarrow> load8 m cursor;
          part \<leftarrow> shl_int (ucast (0x7F AND byte)) shift;
          let result' = result OR scast part;
          if 0x80 AND byte = 0 then Some (result', cursor + 1)
          else uleb128_loop i m result' (shift + 7) (cursor + 1) }"

definition FIRCLSParseULEB128AndAdvance :: "mem \<Rightarrow> addr \<Rightarrow> (u64 \<times> addr) option" where
  "FIRCLSParseULEB128AndAdvance m cursor = uleb128_loop 8 m 0 0 cursor"

text \<open>The signed loop also returns the final \<open>shift\<close> and the last byte, which it reads afterwards.\<close>

fun sleb128_loop :: "nat \<Rightarrow> mem \<Rightarrow> u64 \<Rightarrow> nat \<Rightarrow> u8 \<Rightarrow> addr \<Rightarrow> (u64 \<times> nat \<times> u8 \<times> addr) option" where
  "sleb128_loop 0 m result shift byte cursor = Some (result, shift, byte, cursor)"
| "sleb128_loop (Suc i) m result shift _ cursor =
     do { byte \<leftarrow> load8 m cursor;
          part \<leftarrow> shl_int (ucast (0x7F AND byte)) shift;
          let result' = result OR scast part;
          if 0x80 AND byte = 0 then Some (result', shift + 7, byte, cursor + 1)
          else sleb128_loop i m result' (shift + 7) byte (cursor + 1) }"

definition FIRCLSParseLEB128AndAdvance :: "mem \<Rightarrow> addr \<Rightarrow> (64 word \<times> addr) option" where
  "FIRCLSParseLEB128AndAdvance m cursor =
     do { (result, shift, byte, cursor') \<leftarrow> sleb128_loop 8 m 0 0 0 cursor;
          if shift < 64 \<and> 0x40 AND byte \<noteq> 0
          then do { one \<leftarrow> shl_int 1 shift; Some (result OR scast (- one), cursor') }
          else Some (result, cursor') }"

section \<open>Strings and record lengths\<close>

text \<open>\<open>strlen\<close>, from offset \<open>n\<close> on; it does not return when no byte is zero and none is unmapped.\<close>

partial_function (option) c_strlen :: "mem \<Rightarrow> addr \<Rightarrow> u64 \<Rightarrow> u64 option" where
  "c_strlen m s n =
     do { c \<leftarrow> load8 m (s + n); if c = 0 then Some n else c_strlen m s (n + 1) }"

definition FIRCLSParseStringAndAdvance :: "mem \<Rightarrow> addr \<Rightarrow> (addr \<times> addr) option" where
  "FIRCLSParseStringAndAdvance m cursor =
     do { len \<leftarrow> c_strlen m cursor 0; Some (cursor, cursor + len + 1) }"

abbreviation DWARF_EXTENDED_LENGTH_FLAG :: u64 where
  "DWARF_EXTENDED_LENGTH_FLAG \<equiv> 0xffffffff"

definition FIRCLSParseRecordLengthAndAdvance :: "mem \<Rightarrow> addr \<Rightarrow> (u64 \<times> addr) option" where
  "FIRCLSParseRecordLengthAndAdvance m cursor =
     do { (len32, c) \<leftarrow> FIRCLSParseUint32AndAdvance m cursor;
          let length = (ucast len32 :: u64);
          if length = DWARF_EXTENDED_LENGTH_FLAG then FIRCLSParseUint64AndAdvance m c
          else Some (length, c) }"

section \<open>Encoded pointers\<close>

definition CLS_INVALID_ADDRESS :: u64 where
  "CLS_INVALID_ADDRESS = 0xffffffffffffffff"

text \<open>The value part: \<open>None\<close> inside is the \<open>default\<close> case, which returns without advancing.\<close>

definition parse_encoded_value ::
    "mem \<Rightarrow> addr \<Rightarrow> u8 \<Rightarrow> (u64 \<times> addr) option option" where
  "parse_encoded_value m cursor value_enc =
    (if value_enc = 0x00 then map_option Some (FIRCLSParsePointerAndAdvance m cursor)
     else if value_enc = 0x01 then map_option Some (FIRCLSParseULEB128AndAdvance m cursor)
     else if value_enc = 0x02 then
       map_option (\<lambda>(v, c). Some (ucast v, c)) (FIRCLSParseUint16AndAdvance m cursor)
     else if value_enc = 0x03 then
       map_option (\<lambda>(v, c). Some (ucast v, c)) (FIRCLSParseUint32AndAdvance m cursor)
     else if value_enc = 0x04 then map_option Some (FIRCLSParseUint64AndAdvance m cursor)
     else if value_enc = 0x09 then map_option Some (FIRCLSParseLEB128AndAdvance m cursor)
     else if value_enc = 0x0A then
       map_option (\<lambda>(v, c). Some (scast v, c)) (FIRCLSParseInt16AndAdvance m cursor)
     else if value_enc = 0x0B then
       map_option (\<lambda>(v, c). Some (scast v, c)) (FIRCLSParseInt32AndAdvance m cursor)
     else if value_enc = 0x0C then map_option Some (FIRCLSParseInt64AndAdvance m cursor)
     else Some None)"

definition FIRCLSParseAddressWithEncodingAndAdvance ::
    "mem \<Rightarrow> addr \<Rightarrow> u8 \<Rightarrow> (u64 \<times> addr) option" where
  "FIRCLSParseAddressWithEncodingAndAdvance m cursor encoding =
    (if encoding = 0xFF then Some (0, cursor)
     else if cursor = 0 then Some (CLS_INVALID_ADDRESS, cursor)
     else do {
       value \<leftarrow> parse_encoded_value m cursor (encoding AND 0x0F);
       case value of
         None \<Rightarrow> Some (CLS_INVALID_ADDRESS, cursor)
       | Some (a, c) \<Rightarrow>
           let rel = encoding AND 0x70 in
           if rel \<noteq> 0x00 \<and> rel \<noteq> 0x10 then Some (CLS_INVALID_ADDRESS, c)
           else let a' = (if rel = 0x10 then a + cursor else a) in
           if encoding AND 0x80 \<noteq> 0 then
             (if a' = 0 then Some (CLS_INVALID_ADDRESS, c)
              else do { v \<leftarrow> load64 m a'; Some (v, c) })
           else Some (a', c) })"

section \<open>Reference encodings\<close>

text \<open>The DWARF standard's unsigned and signed LEB128 encodings.\<close>

fun uleb128_encode :: "nat \<Rightarrow> u8 list" where
  "uleb128_encode v =
     (if v < 128 then [of_nat v] else of_nat (128 + v mod 128) # uleb128_encode (v div 128))"

declare uleb128_encode.simps [simp del]

function sleb128_encode :: "int \<Rightarrow> u8 list" where
  "sleb128_encode v =
     (if -64 \<le> v \<and> v < 64 then [of_int (v mod 128)]
      else of_int (128 + v mod 128) # sleb128_encode (v div 128))"
  by pat_completeness auto
termination
  by (relation "measure (\<lambda>v. nat \<bar>v\<bar>)") auto

declare sleb128_encode.simps [simp del]

lemma length_uleb128_encode:
  "v < 128 ^ n \<Longrightarrow> 0 < n \<Longrightarrow> length (uleb128_encode v) \<le> n"
proof (induction n arbitrary: v)
  case (Suc n)
  show ?case
  proof (cases "v < 128")
    case True then show ?thesis by (simp add: uleb128_encode.simps)
  next
    case False
    with Suc.prems have n: "0 < n" by (cases n) auto
    have "v div 128 < 128 ^ n" using Suc.prems by (simp add: less_mult_imp_div_less mult.commute)
    with Suc.IH n have "length (uleb128_encode (v div 128)) \<le> n" by simp
    with False show ?thesis by (simp add: uleb128_encode.simps [of v])
  qed
qed simp

lemma leb_part:
  assumes "k < 2 ^ s" "k + d * 2 ^ s < 2 ^ 31" "s < 32" "unat (byte :: u8) mod 128 = d"
  shows "\<exists>part. shl_int (ucast (0x7F AND byte)) s = Some part \<and>
           (of_nat k OR scast part :: u64) = of_nat (k + d * 2 ^ s)"
proof -
  have "ucast (0x7F AND byte) = (of_nat d :: 32 word)"
    using assms(4) and_7f [of byte] by (metis of_nat_unat)
  then have "push_bit s (ucast (0x7F AND byte) :: 32 word) = of_nat (d * 2 ^ s)"
    by (simp add: push_bit_eq_mult)
  moreover have "(scast (of_nat (d * 2 ^ s) :: 32 word) :: u64) = of_nat (d * 2 ^ s)"
    using assms(2) by (intro scast_of_nat_small) auto
  ultimately show ?thesis
    using assms(3) word_or_of_nat [OF assms(1), of d] by (simp add: shl_int_def)
qed

lemma uleb128_loop_encode:
  "bytes_at m c (uleb128_encode v) \<Longrightarrow> k < 2 ^ s \<Longrightarrow> s < 32 \<Longrightarrow> k + v * 2 ^ s < 2 ^ 31 \<Longrightarrow>
   length (uleb128_encode v) \<le> i \<Longrightarrow>
   uleb128_loop i m (of_nat k) s c =
     Some (of_nat (k + v * 2 ^ s), c + of_nat (length (uleb128_encode v)))"
proof (induction v arbitrary: i c k s rule: uleb128_encode.induct)
  case (1 v)
  obtain j where i: "i = Suc j" using "1.prems"(5) by (cases i) (auto simp: uleb128_encode.simps [of v] split: if_splits)
  show ?case
  proof (cases "v < 128")
    case True
    then have enc: "uleb128_encode v = [of_nat v]" by (simp add: uleb128_encode.simps)
    have b: "unat (of_nat v :: u8) = v" using True by (intro byte_of_nat) simp
    obtain part where "shl_int (ucast (0x7F AND (of_nat v :: u8))) s = Some part"
      "(of_nat k OR scast part :: u64) = of_nat (k + v * 2 ^ s)"
      using leb_part [of k s v "of_nat v"] "1.prems" True b by auto
    with enc i "1.prems"(1) True b show ?thesis by (simp add: load8_def and_80)
  next
    case False
    let ?d = "v mod 128" and ?v = "v div 128"
    have enc: "uleb128_encode v = of_nat (128 + ?d) # uleb128_encode ?v"
      using False by (simp add: uleb128_encode.simps)
    have b: "unat (of_nat (128 + ?d) :: u8) = 128 + ?d" by (intro byte_of_nat) simp
    have split: "k + v * 2 ^ s = (k + ?d * 2 ^ s) + ?v * 2 ^ (s + 7)"
    proof -
      have "v * 2 ^ s = (?d + 128 * ?v) * 2 ^ s" by simp
      then show ?thesis by (simp only: power_add add_mult_distrib) (simp)
    qed
    have "?v * 2 ^ (s + 7) < 2 ^ 31" using split "1.prems"(4) by linarith
    moreover have "1 \<le> ?v" using False by arith
    ultimately have "2 ^ (s + 7) < (2::nat) ^ 31" by (metis le_less_trans mult.commute mult.right_neutral mult_le_mono2)
    then have s: "s + 7 < 31" by (simp only: power_strict_increasing_iff)
    have k: "k + ?d * 2 ^ s < 2 ^ (s + 7)"
    proof -
      have "?d * 2 ^ s \<le> 127 * 2 ^ s" by (rule mult_le_mono1) simp
      moreover have "2 ^ (s + 7) = 128 * (2::nat) ^ s" by (simp add: power_add)
      ultimately show ?thesis using "1.prems"(2) by linarith
    qed
    obtain part where p: "shl_int (ucast (0x7F AND (of_nat (128 + ?d) :: u8))) s = Some part"
      "(of_nat k OR scast part :: u64) = of_nat (k + ?d * 2 ^ s)"
      using leb_part [of k s ?d "of_nat (128 + ?d)"] "1.prems" b split by auto
    have "uleb128_loop j m (of_nat (k + ?d * 2 ^ s)) (s + 7) (c + 1) =
        Some (of_nat (k + ?d * 2 ^ s + ?v * 2 ^ (s + 7)), c + 1 + of_nat (length (uleb128_encode ?v)))"
      using "1.prems" enc i split s k by (intro "1.IH" [OF False]) auto
    moreover have "c + of_nat (length (uleb128_encode v)) = c + 1 + of_nat (length (uleb128_encode ?v))"
      by (simp add: enc)
    moreover have "m c = Some (of_nat (128 + ?d))" using "1.prems"(1) enc by simp
    moreover have "0x80 AND (of_nat (128 + ?d) :: u8) \<noteq> 0" using b and_80 by simp
    ultimately show ?thesis
      using p by (simp only: i split) (simp only: uleb128_loop.simps load8_def Option.bind.simps Let_def if_False)
  qed
qed


definition sleb_finish :: "(u64 \<times> nat \<times> u8 \<times> addr) \<Rightarrow> (64 word \<times> addr) option" where
  "sleb_finish = (\<lambda>(result, shift, byte, cursor').
     if shift < 64 \<and> 0x40 AND byte \<noteq> 0
     then do { one \<leftarrow> shl_int 1 shift; Some (result OR scast (- one), cursor') }
     else Some (result, cursor'))"

lemma and_40: "0x40 AND b = (0 :: u8) \<longleftrightarrow> unat b mod 128 < 64"
proof -
  have "0x40 AND b = (0 :: u8) \<longleftrightarrow> \<not> bit b 6"
    using and_exp_eq_0_iff_not_bit [of b 6] by (simp add: and.commute)
  moreover have "bit b 6 \<longleftrightarrow> bit (unat b) 6" by (simp add: bit_unsigned_iff)
  moreover have "bit (unat b) 6 \<longleftrightarrow> odd (unat b div 64)" by (simp add: bit_iff_odd)
  moreover have "odd (unat b div 64) \<longleftrightarrow> \<not> unat b mod 128 < 64" for b :: u8
  proof -
    have "unat b mod 128 = 64 * (unat b div 64 mod 2) + unat b mod 64"
      using mod_mult2_eq [of "unat b" 64 2] by simp
    moreover have "unat b mod 64 < 64" by simp
    moreover have "unat b div 64 mod 2 = 0 \<or> unat b div 64 mod 2 = 1" by arith
    ultimately show ?thesis by (auto simp: odd_iff_mod_2_eq_one)
  qed
  ultimately show ?thesis by simp
qed

lemma sign_extend:
  assumes "r < 2 ^ t" "t < 31"
  shows "(of_nat r OR scast (- (push_bit t 1 :: 32 word)) :: u64) = of_int (int r - 2 ^ t)"
proof -
  have t: "(2::int) ^ t < 2 ^ 31" using assms(2) by (intro power_strict_increasing) auto
  have e: "- (push_bit t 1 :: 32 word) = of_int (- (2 ^ t))" by (simp add: push_bit_eq_mult)
  have "(scast (of_int (- (2 ^ t)) :: 32 word) :: u64) = of_int (- (2 ^ t))"
  proof (rule scast_of_int_small)
    show "- (2 ^ (LENGTH(32) - 1)) \<le> - (2 ^ t :: int)" using t by simp
    show "- (2 ^ t :: int) < 2 ^ (LENGTH(32) - 1)" by (rule order_less_le_trans [of _ 0]) simp_all
  qed
  also have "(of_int (- (2 ^ t)) :: u64) = push_bit t (- 1)" by (simp add: push_bit_eq_mult)
  finally have "(of_nat r OR scast (- (push_bit t 1 :: 32 word)) :: u64) = of_nat r OR push_bit t (-1)"
    by (simp only: e)
  also have "\<dots> = of_nat r + push_bit t (-1)"
    by (rule word_or_push_bit [OF take_bit_of_nat_small [OF assms(1)]])
  also have "\<dots> = of_int (int r - 2 ^ t)" by (simp add: push_bit_eq_mult)
  finally show ?thesis .
qed
lemma sleb128_loop_encode:
  "bytes_at m c (sleb128_encode v) \<Longrightarrow> k < 2 ^ s \<Longrightarrow> s < 32 \<Longrightarrow> s mod 7 = 0 \<Longrightarrow>
   (v < 0 \<Longrightarrow> s \<le> 21 \<and> - (2 ^ (27 - s)) \<le> v) \<Longrightarrow> int k + v * 2 ^ s < 2 ^ 31 \<Longrightarrow>
   length (sleb128_encode v) \<le> i \<Longrightarrow>
   do { r \<leftarrow> sleb128_loop i m (of_nat k) s b0 c; sleb_finish r } =
     Some (of_int (int k + v * 2 ^ s), c + of_nat (length (sleb128_encode v)))"
proof (induction v arbitrary: i c k s b0 rule: sleb128_encode.induct)
  case (1 v)
  obtain j where i: "i = Suc j"
    using "1.prems"(7) by (cases i) (auto simp: sleb128_encode.simps [of v] split: if_splits)
  define d where "d = nat (v mod 128)"
  have d: "int d = v mod 128" "d < 128" by (auto simp: d_def)
  have d2: "d * 2 ^ s \<le> 127 * 2 ^ s" using d(2) by (intro mult_le_mono1) simp
  have e7: "2 ^ (s + 7) = 128 * (2::nat) ^ s" by (simp add: power_add)
  have k7: "k + d * 2 ^ s < 2 ^ (s + 7)" using d2 e7 "1.prems"(2) by linarith
  have eq: "v * 2 ^ s = int d * 2 ^ s + (v div 128) * 2 ^ (s + 7)"
  proof -
    have "v * 2 ^ s = (v mod 128 + 128 * (v div 128)) * 2 ^ s" by simp
    then show ?thesis by (simp only: d power_add distrib_right) simp
  qed
  have small: "k + d * 2 ^ s < 2 ^ 31"
  proof (cases "v < 0")
    case True
    then have "(2::nat) ^ (s + 7) < 2 ^ 31" using "1.prems"(5) by (intro power_strict_increasing) auto
    with k7 show ?thesis by linarith
  next
    case False
    then have "0 \<le> (v div 128) * 2 ^ (s + 7)" by (simp add: pos_imp_zdiv_nonneg_iff)
    with eq "1.prems"(6) have "int k + int d * 2 ^ s < 2 ^ 31" by linarith
    then have "int (k + d * 2 ^ s) < int (2 ^ 31)" by simp
    then show ?thesis by (simp only: of_nat_less_iff)
  qed
  show ?case
  proof (cases "-64 \<le> v \<and> v < 64")
    case True
    define byte :: u8 where "byte = of_nat d"
    have enc: "sleb128_encode v = [byte]"
      using True by (simp add: sleb128_encode.simps byte_def d_def)
    have b: "unat byte = d" unfolding byte_def using d by (intro byte_of_nat) simp
    obtain part where p: "shl_int (ucast (0x7F AND byte)) s = Some part"
      "(of_nat k OR scast part :: u64) = of_nat (k + d * 2 ^ s)"
      using leb_part [of k s d byte] "1.prems"(2,3) small b d by auto
    have m: "m c = Some byte" "0x80 AND byte = 0" using "1.prems"(1) enc b d by (auto simp: and_80)
    have loop: "sleb128_loop i m (of_nat k) s b0 c = Some (of_nat (k + d * 2 ^ s), s + 7, byte, c + 1)"
      using p m by (simp add: i load8_def)
    show ?thesis
    proof (cases "v < 0")
      case False
      then have dv: "int d = v" using d True by simp
      then have "d < 64" using True by simp
      then have "0x40 AND byte = 0" using b d by (simp add: and_40)
      then have "sleb_finish (of_nat (k + d * 2 ^ s), s + 7, byte, c + 1) = Some (of_nat (k + d * 2 ^ s), c + 1)"
        by (simp add: sleb_finish_def)
      moreover have "(of_nat (k + d * 2 ^ s) :: u64) = of_int (int k + v * 2 ^ s)" by (simp flip: dv)
      ultimately show ?thesis using loop enc by simp
    next
      case neg: True
      have "(v + 128) mod 128 = v + 128" using True neg by (intro mod_pos_pos_trivial) auto
      then have dv: "int d = v + 128" "s + 7 < 31" using d neg "1.prems"(5) by auto
      then have "64 \<le> d" using True by simp
      then have "0x40 AND byte \<noteq> 0" using b d by (simp add: and_40)
      then have "sleb_finish (of_nat (k + d * 2 ^ s), s + 7, byte, c + 1) =
          Some (of_nat (k + d * 2 ^ s) OR scast (- (push_bit (s + 7) 1 :: 32 word)), c + 1)"
        using dv(2) by (simp add: sleb_finish_def shl_int_def)
      moreover have "int (k + d * 2 ^ s) - 2 ^ (s + 7) = int k + v * 2 ^ s"
        using dv(1) by (simp add: power_add algebra_simps)
      ultimately show ?thesis
        using loop enc sign_extend [OF k7 dv(2)] by (simp only: Option.bind.simps) simp
    qed
  next
    case False
    let ?v = "v div 128"
    define byte :: u8 where "byte = of_nat (128 + d)"
    have enc: "sleb128_encode v = byte # sleb128_encode ?v"
      using False by (simp add: sleb128_encode.simps [of v] byte_def d_def)
    have b: "unat byte = 128 + d" unfolding byte_def using d by (intro byte_of_nat) simp
    obtain part where p: "shl_int (ucast (0x7F AND byte)) s = Some part"
      "(of_nat k OR scast part :: u64) = of_nat (k + d * 2 ^ s)"
      using leb_part [of k s d byte] "1.prems"(2,3) small b d by auto
    have m: "m c = Some byte" "0x80 AND byte \<noteq> 0" using "1.prems"(1) enc b d by (auto simp: and_80)
    have s14: "s + 7 \<le> 21 \<and> - (2 ^ (27 - (s + 7))) \<le> ?v" if "?v < 0"
    proof -
      have v: "v < -64" using that False by (simp add: pos_imp_zdiv_neg_iff)
      have "(64::int) < 2 ^ (27 - s)" using v "1.prems"(5) by linarith
      then have "(2::int) ^ 6 < 2 ^ (27 - s)" by simp
      then have "s < 21" by (simp only: power_strict_increasing_iff)
      then have s: "s \<le> 14" using "1.prems"(4) by presburger
      then have "27 - s = (27 - (s + 7)) + 7" by simp
      then have "(2::int) ^ (27 - s) = 2 ^ (27 - (s + 7)) * 128" by (simp only: power_add) simp
      then have "- (2 ^ (27 - (s + 7))) * 128 \<le> v" using v "1.prems"(5) by linarith
      then have "- (2 ^ (27 - (s + 7))) \<le> ?v" 
        using zdiv_mono1 [of "- (2 ^ (27 - (s + 7))) * 128" v 128] by simp
      with s show ?thesis by simp
    qed
    have s7: "s + 7 < 32"
    proof (cases "v < 0")
      case True then show ?thesis using "1.prems"(5) by simp
    next
      case nn: False
      then have "2 ^ 6 * (2 ^ s) \<le> v * 2 ^ s" using False by (intro mult_right_mono) auto
      then have "(2::int) ^ (6 + s) < 2 ^ 31" using "1.prems"(6) unfolding power_add by linarith
      then have "6 + s < 31" by (simp only: power_strict_increasing_iff)
      then show ?thesis by simp
    qed
    have IH: "do { r \<leftarrow> sleb128_loop j m (of_nat (k + d * 2 ^ s)) (s + 7) byte (c + 1); sleb_finish r } =
        Some (of_int (int (k + d * 2 ^ s) + ?v * 2 ^ (s + 7)), c + 1 + of_nat (length (sleb128_encode ?v)))"
      using "1.prems" enc i k7 s7 s14 eq by (intro "1.IH" [OF False]) auto
    have "int (k + d * 2 ^ s) + ?v * 2 ^ (s + 7) = int k + v * 2 ^ s" using eq by simp
    moreover have "c + of_nat (length (sleb128_encode v)) = c + 1 + of_nat (length (sleb128_encode ?v))"
      by (simp add: enc)
    ultimately show ?thesis
      using IH p m by (simp only: i sleb128_loop.simps load8_def Option.bind.simps Let_def if_False)
  qed
qed

lemma length_sleb128_encode:
  "- (64 * 128 ^ n) \<le> v \<Longrightarrow> v < 64 * 128 ^ n \<Longrightarrow> length (sleb128_encode v) \<le> Suc n"
proof (induction n arbitrary: v)
  case 0
  then show ?case by (simp add: sleb128_encode.simps)
next
  case (Suc n)
  have "- (64 * 128 ^ n) \<le> v div 128"
    using Suc.prems(1) zdiv_mono1 [of "- (64 * 128 ^ n) * 128" v 128] by simp
  moreover have "v div 128 < 64 * 128 ^ n" using Suc.prems(2) by simp
  ultimately have "length (sleb128_encode (v div 128)) \<le> Suc n" by (rule Suc.IH)
  then show ?case by (simp add: sleb128_encode.simps [of v])
qed

section \<open>Properties\<close>

lemma uleb128_decode:
  assumes "v < 2 ^ 31" and "bytes_at m c (uleb128_encode v)"
  shows "FIRCLSParseULEB128AndAdvance m c = Some (of_nat v, c + of_nat (length (uleb128_encode v)))"
proof -
  have "length (uleb128_encode v) \<le> 5" using assms(1) by (intro length_uleb128_encode) auto
  with uleb128_loop_encode [of m c v 0 0 8] assms show ?thesis
    by (simp add: FIRCLSParseULEB128AndAdvance_def)
qed

lemma sleb128_decode:
  assumes "- (2 ^ 27) \<le> v" and "v < 2 ^ 31" and "bytes_at m c (sleb128_encode v)"
  shows "FIRCLSParseLEB128AndAdvance m c = Some (of_int v, c + of_nat (length (sleb128_encode v)))"
proof -
  have "length (sleb128_encode v) \<le> Suc 4"
    using assms(1,2) by (intro length_sleb128_encode) auto
  then have "do { r \<leftarrow> sleb128_loop 8 m (of_nat 0) 0 0 c; sleb_finish r } =
      Some (of_int (int 0 + v * 2 ^ 0), c + of_nat (length (sleb128_encode v)))"
    using assms by (intro sleb128_loop_encode) auto
  then show ?thesis
    by (simp add: FIRCLSParseLEB128AndAdvance_def sleb_finish_def case_prod_beta' cong: option.case_cong)
qed

text \<open>C26: Values the int-width shifts can carry (unsigned below 2^31, signed from -2^27 to 2^31) are
  read back from their LEB128 encodings and the cursor ends just past them.\<close>

theorem leb128_roundtrip:
  assumes "v < 2 ^ 31" and "- (2 ^ 27) \<le> w" and "w < 2 ^ 31"
    and "bytes_at m c (uleb128_encode v @ sleb128_encode w)"
  shows "do { (x, c1) \<leftarrow> FIRCLSParseULEB128AndAdvance m c;
              (y, c2) \<leftarrow> FIRCLSParseLEB128AndAdvance m c1;
              Some (x, y, c2) } =
    Some (of_nat v, of_int w, c + of_nat (length (uleb128_encode v @ sleb128_encode w)))"
  using assms by (simp add: uleb128_decode sleb128_decode bytes_at_append algebra_simps)

theorem leb128_roundtrip_witness:
  "(300::nat) < 2 ^ 31 \<and> - (2 ^ 27) \<le> (-200::int) \<and> (-200::int) < 2 ^ 31 \<and>
   uleb128_encode 300 @ sleb128_encode (-200) = [172, 2, 184, 126] \<and>
   do { (x, c1) \<leftarrow> FIRCLSParseULEB128AndAdvance (mem_of 4096 [172, 2, 184, 126]) 4096;
        (y, c2) \<leftarrow> FIRCLSParseLEB128AndAdvance (mem_of 4096 [172, 2, 184, 126]) c1;
        Some (x, y, c2) } = Some (300, -200, 4100)"
proof -
  have e: "uleb128_encode 300 = [172, 2]" "sleb128_encode (-200) = [184, 126]"
    by (simp_all add: uleb128_encode.simps sleb128_encode.simps)
  have b: "bytes_at (mem_of 4096 [172, 2, 184, 126]) 4096 (uleb128_encode 300 @ sleb128_encode (-200))"
    using bytes_at_mem_of [of "[172, 2, 184, 126]" 4096] by (simp add: e)
  show ?thesis using leb128_roundtrip [OF _ _ _ b] by (simp add: e)
qed

lemma uleb128_loop_numeral [eval_simps]:
  "uleb128_loop (numeral k) m result shift cursor =
     do { byte \<leftarrow> load8 m cursor;
          part \<leftarrow> shl_int (ucast (0x7F AND byte)) shift;
          let result' = result OR scast part;
          if 0x80 AND byte = 0 then Some (result', cursor + 1)
          else uleb128_loop (pred_numeral k) m result' (shift + 7) (cursor + 1) }"
  by (simp only: numeral_eq_Suc [of k] uleb128_loop.simps)

theorem uleb128_wide_values_misread:
  "uleb128_encode (2 ^ 31) = [0x80, 0x80, 0x80, 0x80, 0x08] \<and>
   FIRCLSParseULEB128AndAdvance (mem_of 4096 (uleb128_encode (2 ^ 31))) 4096
     = Some (0xffffffff80000000, 4101) \<and>
   FIRCLSParseULEB128AndAdvance (mem_of 4096 (uleb128_encode (2 ^ 32))) 4096 = Some (0, 4101) \<and>
   FIRCLSParseULEB128AndAdvance (mem_of 4096 (uleb128_encode (2 ^ 35))) 4096 = None"
  by (simp add: uleb128_encode.simps FIRCLSParseULEB128AndAdvance_def mem_of_def load8_def
      shl_int_def uleb128_loop_numeral)


lemma cursor_Suc: "c' = c + 1 + of_nat n \<Longrightarrow> n \<le> i \<Longrightarrow> \<exists>k. k \<le> Suc i \<and> (0 < Suc i \<longrightarrow> 0 < k) \<and> c' = c + of_nat k"
  for c :: addr
  by (intro exI [of _ "Suc n"]) (simp add: algebra_simps)

lemma uleb128_loop_cursor:
  "uleb128_loop i m r s c = Some (v, c') \<Longrightarrow> \<exists>n. n \<le> i \<and> (0 < i \<longrightarrow> 0 < n) \<and> c' = c + of_nat n"
proof (induction i arbitrary: r s c)
  case (Suc i)
  from Suc.prems obtain r' where "c' = c + 1 + of_nat 0 \<or> uleb128_loop i m r' (s + 7) (c + 1) = Some (v, c')"
    by (auto simp: Let_def split: bind_splits if_splits)
  then show ?case by (metis Suc.IH cursor_Suc le0)
qed simp

lemma sleb128_loop_cursor:
  "sleb128_loop i m r s b c = Some (v, t, b', c') \<Longrightarrow>
   \<exists>n. n \<le> i \<and> (0 < i \<longrightarrow> 0 < n) \<and> c' = c + of_nat n"
proof (induction i arbitrary: r s b c)
  case (Suc i)
  from Suc.prems obtain r' bb where
    "c' = c + 1 + of_nat 0 \<or> sleb128_loop i m r' (s + 7) bb (c + 1) = Some (v, t, b', c')"
    by (auto simp: Let_def split: bind_splits if_splits)
  then show ?case by (metis Suc.IH cursor_Suc le0)
qed simp

lemma leb128_cursor_bounds:
  "(FIRCLSParseULEB128AndAdvance m c = Some (v, c') \<longrightarrow> (\<exists>n. 1 \<le> n \<and> n \<le> 8 \<and> c' = c + of_nat n)) \<and>
   (FIRCLSParseLEB128AndAdvance m c = Some (w, d') \<longrightarrow> (\<exists>n. 1 \<le> n \<and> n \<le> 8 \<and> d' = c + of_nat n))"
proof (intro conjI impI)
  show "FIRCLSParseULEB128AndAdvance m c = Some (v, c') \<Longrightarrow> \<exists>n. 1 \<le> n \<and> n \<le> 8 \<and> c' = c + of_nat n"
    by (auto simp: FIRCLSParseULEB128AndAdvance_def Suc_le_eq dest: uleb128_loop_cursor)
next
  assume "FIRCLSParseLEB128AndAdvance m c = Some (w, d')"
  then obtain r t b where "sleb128_loop 8 m 0 0 0 c = Some (r, t, b, d')"
    by (auto simp: FIRCLSParseLEB128AndAdvance_def split: bind_splits if_splits)
  then show "\<exists>n. 1 \<le> n \<and> n \<le> 8 \<and> d' = c + of_nat n"
    by (auto simp: Suc_le_eq dest: sleb128_loop_cursor)
qed

lemma record_length_roundtrip:
  assumes "len < 0xffffffff \<Longrightarrow> bytes_at m c (le_bytes 4 (unat len))"
    and "0xffffffff \<le> len \<Longrightarrow> bytes_at m c (le_bytes 4 0xffffffff @ le_bytes 8 (unat len))"
  shows "FIRCLSParseRecordLengthAndAdvance m c =
    Some (len, c + (if len < 0xffffffff then 4 else 12))"
proof (cases "len < 0xffffffff")
  case True
  have u: "unat (ucast len :: u32) = unat len"
    using True by (simp add: unsigned_ucast_eq word_less_nat_alt take_bit_nat_eq_self)
  then have "load32 m c = Some (ucast len)" using assms(1) [OF True] by (metis load32_at)
  moreover have "(ucast (ucast len :: u32) :: u64) = len"
    using u by (metis of_nat_unat ucast_id)
  moreover have "len \<noteq> 0xffffffff" using True by auto
  ultimately show ?thesis
    using True by (simp add: FIRCLSParseRecordLengthAndAdvance_def FIRCLSParseUint32AndAdvance_def)
next
  case False
  then have b: "bytes_at m c (le_bytes 4 0xffffffff)" "bytes_at m (c + 4) (le_bytes 8 (unat len))"
    using assms(2) by (auto simp: bytes_at_append)
  then have "load32 m c = Some 0xffffffff" using load32_at [of m c "0xffffffff"] by simp
  then show ?thesis using b False load64_at
    by (simp add: FIRCLSParseRecordLengthAndAdvance_def FIRCLSParseUint32AndAdvance_def
        FIRCLSParseUint64AndAdvance_def add.assoc)
qed

text \<open>The encoding \<open>DW_EH_PE_pcrel | DW_EH_PE_sdata4\<close> every Apple toolchain emits.\<close>

lemma pcrel_sdata4_decode:
  assumes "c \<noteq> 0" and "- (2 ^ 31) \<le> sint (target - c)" and "sint (target - c) < 2 ^ 31"
    and "bytes_at m c (le_bytes 4 (unat (ucast (target - c) :: u32)))"
  shows "FIRCLSParseAddressWithEncodingAndAdvance m c 0x1B = Some (target, c + 4)"
proof -
  let ?d = "target - c"
  have "(scast (ucast ?d :: 32 word) :: u64) = ?d"
    using assms(2,3) by (intro scast_ucast_small) auto
  moreover have "load32 m c = Some (ucast ?d)" using assms(4) by (rule load32_at)
  ultimately show ?thesis using assms(1)
    by (simp add: FIRCLSParseAddressWithEncodingAndAdvance_def parse_encoded_value_def
        FIRCLSParseInt32AndAdvance_def)
qed

end
