(* ===== verification/ThreadState.thy ===== *)
theory ThreadState
  imports Prelude
begin

text \<open>
  The thread contexts of the two 64-bit targets: the accessors of
  \<open>Helpers/FIRCLSThreadState.c\<close> and the DWARF register numbering of \<open>Unwind/FIRCLSUnwind_arm.c\<close>,
  \<open>Unwind/FIRCLSUnwind_x86.c\<close> and \<open>Unwind/Dwarf/FIRCLSDwarfUnwindRegisters.h\<close>.

  A context is the general-purpose part \<open>__ss\<close> of the machine context. The functions take it by
  pointer only to update it; every caller passes the address of a live structure, so their guards
  for an invalid pointer never fire and the context is passed by value here. The
  \<open>arm_thread_state64_get/set\<close> macros of the SDK are field accesses on arm64 (not arm64e).

  The \<open>#if CLS_CPU_...\<close> selection is the record \<open>arch\<close>: the DWARF code is written against the
  architecture functions and constants, and is modelled once, over any \<open>arch\<close>. The locale
  \<open>register_file\<close> states what that code relies on.
\<close>

section \<open>The contexts\<close>

record arm64_context =
  arm_x :: "nat \<Rightarrow> u64"   \<comment> \<open>\<open>__x[0]\<close> to \<open>__x[28]\<close>\<close>
  arm_fp :: u64
  arm_lr :: u64
  arm_sp :: u64
  arm_pc :: u64

record x86_64_context =
  rax :: u64
  rbx :: u64
  rcx :: u64
  rdx :: u64
  rdi :: u64
  rsi :: u64
  rbp :: u64
  rsp :: u64
  r8 :: u64
  r9 :: u64
  r10 :: u64
  r11 :: u64
  r12 :: u64
  r13 :: u64
  r14 :: u64
  r15 :: u64
  rip :: u64

section \<open>Accessors, arm64\<close>

text \<open>The upper bits can hold a pointer-authentication code; only 36 bits are kept.\<close>

definition CLS_PTRAUTH_STRIP :: "u64 \<Rightarrow> u64" where
  "CLS_PTRAUTH_STRIP p = p AND 0x0000000FFFFFFFFF"

definition arm64_GetPC :: "arm64_context \<Rightarrow> u64" where
  "arm64_GetPC r = CLS_PTRAUTH_STRIP (arm_pc r)"

definition arm64_GetStackPointer :: "arm64_context \<Rightarrow> u64" where
  "arm64_GetStackPointer r = CLS_PTRAUTH_STRIP (arm_sp r)"

definition arm64_SetStackPointer :: "arm64_context \<Rightarrow> u64 \<Rightarrow> bool \<times> arm64_context" where
  "arm64_SetStackPointer r v = (True, r\<lparr>arm_sp := v\<rparr>)"

definition arm64_GetLinkRegister :: "arm64_context \<Rightarrow> u64" where
  "arm64_GetLinkRegister r = CLS_PTRAUTH_STRIP (arm_lr r)"

definition arm64_SetLinkRegister :: "arm64_context \<Rightarrow> u64 \<Rightarrow> bool \<times> arm64_context" where
  "arm64_SetLinkRegister r v = (True, r\<lparr>arm_lr := v\<rparr>)"

definition arm64_SetPC :: "arm64_context \<Rightarrow> u64 \<Rightarrow> bool \<times> arm64_context" where
  "arm64_SetPC r v = (True, r\<lparr>arm_pc := v\<rparr>)"

definition arm64_GetFramePointer :: "arm64_context \<Rightarrow> u64" where
  "arm64_GetFramePointer r = CLS_PTRAUTH_STRIP (arm_fp r)"

definition arm64_SetFramePointer :: "arm64_context \<Rightarrow> u64 \<Rightarrow> bool \<times> arm64_context" where
  "arm64_SetFramePointer r v = (True, r\<lparr>arm_fp := v\<rparr>)"

section \<open>Accessors, x86_64\<close>

definition x86_64_GetPC :: "x86_64_context \<Rightarrow> u64" where
  "x86_64_GetPC r = rip r"

definition x86_64_GetStackPointer :: "x86_64_context \<Rightarrow> u64" where
  "x86_64_GetStackPointer r = rsp r"

definition x86_64_SetStackPointer :: "x86_64_context \<Rightarrow> u64 \<Rightarrow> bool \<times> x86_64_context" where
  "x86_64_SetStackPointer r v = (True, r\<lparr>rsp := v\<rparr>)"

definition x86_64_SetPC :: "x86_64_context \<Rightarrow> u64 \<Rightarrow> bool \<times> x86_64_context" where
  "x86_64_SetPC r v = (True, r\<lparr>rip := v\<rparr>)"

definition x86_64_GetFramePointer :: "x86_64_context \<Rightarrow> u64" where
  "x86_64_GetFramePointer r = rbp r"

definition x86_64_SetFramePointer :: "x86_64_context \<Rightarrow> u64 \<Rightarrow> bool \<times> x86_64_context" where
  "x86_64_SetFramePointer r v = (True, r\<lparr>rbp := v\<rparr>)"

section \<open>DWARF register numbers\<close>

text \<open>On arm64: \<open>__x[0]\<close> to \<open>__x[28]\<close>, then FP 29, LR 30, SP 31.\<close>

definition arm64_GetRegisterValue :: "arm64_context \<Rightarrow> u64 \<Rightarrow> u64" where
  "arm64_GetRegisterValue r num =
    (if num \<le> 28 then arm_x r (unat num)
     else if num = 29 then arm64_GetFramePointer r
     else if num = 30 then arm64_GetLinkRegister r
     else if num = 31 then arm64_GetStackPointer r
     else 0)"

text \<open>Setting the link register also sets the program counter.\<close>

definition arm64_SetRegisterValue :: "arm64_context \<Rightarrow> u64 \<Rightarrow> u64 \<Rightarrow> bool \<times> arm64_context" where
  "arm64_SetRegisterValue r num v =
    (if num \<le> 28 then (True, r\<lparr>arm_x := (arm_x r)(unat num := v)\<rparr>)
     else if num = 29 then (True, snd (arm64_SetFramePointer r v))
     else if num = 31 then (True, snd (arm64_SetStackPointer r v))
     else if num = 30 then (True, snd (arm64_SetPC (snd (arm64_SetLinkRegister r v)) v))
     else (False, r))"

definition x86_64_GetRegisterValue :: "x86_64_context \<Rightarrow> u64 \<Rightarrow> u64" where
  "x86_64_GetRegisterValue r num =
    (if num = 0 then rax r else if num = 1 then rdx r else if num = 2 then rcx r
     else if num = 3 then rbx r else if num = 4 then rsi r else if num = 5 then rdi r
     else if num = 6 then rbp r else if num = 7 then rsp r else if num = 8 then r8 r
     else if num = 9 then r9 r else if num = 10 then r10 r else if num = 11 then r11 r
     else if num = 12 then r12 r else if num = 13 then r13 r else if num = 14 then r14 r
     else if num = 15 then r15 r else if num = 16 then rip r
     else 0)"

definition x86_64_SetRegisterValue :: "x86_64_context \<Rightarrow> u64 \<Rightarrow> u64 \<Rightarrow> bool \<times> x86_64_context" where
  "x86_64_SetRegisterValue r num v =
    (if num = 0 then (True, r\<lparr>rax := v\<rparr>) else if num = 1 then (True, r\<lparr>rdx := v\<rparr>)
     else if num = 2 then (True, r\<lparr>rcx := v\<rparr>) else if num = 3 then (True, r\<lparr>rbx := v\<rparr>)
     else if num = 4 then (True, r\<lparr>rsi := v\<rparr>) else if num = 5 then (True, r\<lparr>rdi := v\<rparr>)
     else if num = 6 then (True, r\<lparr>rbp := v\<rparr>) else if num = 7 then (True, r\<lparr>rsp := v\<rparr>)
     else if num = 8 then (True, r\<lparr>r8 := v\<rparr>) else if num = 9 then (True, r\<lparr>r9 := v\<rparr>)
     else if num = 10 then (True, r\<lparr>r10 := v\<rparr>) else if num = 11 then (True, r\<lparr>r11 := v\<rparr>)
     else if num = 12 then (True, r\<lparr>r12 := v\<rparr>) else if num = 13 then (True, r\<lparr>r13 := v\<rparr>)
     else if num = 14 then (True, r\<lparr>r14 := v\<rparr>) else if num = 15 then (True, r\<lparr>r15 := v\<rparr>)
     else if num = 16 then (True, r\<lparr>rip := v\<rparr>)
     else (False, r))"

section \<open>The architecture interface\<close>

record 'r arch =
  reg_get :: "'r \<Rightarrow> u64 \<Rightarrow> u64"                \<comment> \<open>\<open>FIRCLSDwarfUnwindGetRegisterValue\<close>\<close>
  reg_set :: "'r \<Rightarrow> u64 \<Rightarrow> u64 \<Rightarrow> bool \<times> 'r"   \<comment> \<open>\<open>FIRCLSDwarfUnwindSetRegisterValue\<close>\<close>
  pc_get :: "'r \<Rightarrow> u64"                        \<comment> \<open>\<open>FIRCLSThreadContextGetPC\<close>\<close>
  max_reg :: u64                                \<comment> \<open>\<open>CLS_DWARF_MAX_REGISTER_NUM\<close>\<close>
  sp_reg :: u64                                 \<comment> \<open>\<open>CLS_DWARF_REG_SP\<close>\<close>
  return_reg :: u64                             \<comment> \<open>\<open>CLS_DWARF_REG_RETURN\<close>\<close>

definition arm64_arch :: "arm64_context arch" where
  "arm64_arch = \<lparr>reg_get = arm64_GetRegisterValue, reg_set = arm64_SetRegisterValue,
     pc_get = arm64_GetPC, max_reg = 31, sp_reg = 31, return_reg = 30\<rparr>"

definition x86_64_arch :: "x86_64_context arch" where
  "x86_64_arch = \<lparr>reg_get = x86_64_GetRegisterValue, reg_set = x86_64_SetRegisterValue,
     pc_get = x86_64_GetPC, max_reg = 16, sp_reg = 7, return_reg = 16\<rparr>"

text \<open>
  What the DWARF code relies on: the registers up to \<open>max_reg\<close> can be set, are independent of
  each other, and read back as \<open>norm\<close> of what was stored (arm64 strips the upper bits of FP, LR
  and SP on every read); setting the return register sets the program counter.
\<close>

locale register_file =
  fixes A :: "'r arch" and norm :: "u64 \<Rightarrow> u64 \<Rightarrow> u64"
  assumes set_ok: "n \<le> max_reg A \<Longrightarrow> fst (reg_set A r n v)"
    and get_set_same: "n \<le> max_reg A \<Longrightarrow> reg_get A (snd (reg_set A r n v)) n = norm n v"
    and get_set_other:
      "n \<le> max_reg A \<Longrightarrow> k \<le> max_reg A \<Longrightarrow> k \<noteq> n \<Longrightarrow>
       reg_get A (snd (reg_set A r n v)) k = reg_get A r k"
    and set_invalid: "max_reg A < n \<Longrightarrow> reg_set A r n v = (False, r)"
    and get_invalid: "max_reg A < n \<Longrightarrow> reg_get A r n = 0"
    and pc_set_return: "pc_get A (snd (reg_set A r (return_reg A) v)) = norm (return_reg A) v"
    and pc_set_other: "n \<noteq> return_reg A \<Longrightarrow> pc_get A (snd (reg_set A r n v)) = pc_get A r"
    and sp_le: "sp_reg A \<le> max_reg A"
    and return_le: "return_reg A \<le> max_reg A"
    and sp_not_return: "sp_reg A \<noteq> return_reg A"
begin

lemma get_set:
  "n \<le> max_reg A \<Longrightarrow> k \<le> max_reg A \<Longrightarrow>
   reg_get A (snd (reg_set A r n v)) k = (if k = n then norm n v else reg_get A r k)"
  by (simp add: get_set_same get_set_other)

lemma set_iff: "fst (reg_set A r n v) \<longleftrightarrow> n \<le> max_reg A"
  using set_ok set_invalid by (metis fst_conv not_le)

lemma pc_set:
  "pc_get A (snd (reg_set A r n v)) = (if n = return_reg A then norm n v else pc_get A r)"
  by (simp add: pc_set_return pc_set_other)

end

definition arm64_norm :: "u64 \<Rightarrow> u64 \<Rightarrow> u64" where
  "arm64_norm n v = (if n \<le> 28 then v else CLS_PTRAUTH_STRIP v)"

lemmas arm64_defs =
  arm64_GetPC_def arm64_GetStackPointer_def arm64_SetStackPointer_def arm64_GetLinkRegister_def
  arm64_SetLinkRegister_def arm64_SetPC_def arm64_GetFramePointer_def arm64_SetFramePointer_def
  arm64_GetRegisterValue_def arm64_SetRegisterValue_def arm64_arch_def

lemmas x86_64_defs =
  x86_64_GetPC_def x86_64_GetStackPointer_def x86_64_SetStackPointer_def x86_64_SetPC_def
  x86_64_GetFramePointer_def x86_64_SetFramePointer_def
  x86_64_GetRegisterValue_def x86_64_SetRegisterValue_def x86_64_arch_def

text \<open>A register number in range is one of the numbered registers.\<close>

lemma arm64_number_cases:
  "(n::u64) \<le> 31 \<longleftrightarrow> n \<le> 28 \<or> n = 29 \<or> n = 30 \<or> n = 31"
proof -
  have "unat n \<le> 31 \<longleftrightarrow> unat n \<le> 28 \<or> unat n = 29 \<or> unat n = 30 \<or> unat n = 31" by arith
  then show ?thesis by (simp add: word_le_nat_alt word_unat_eq_iff)
qed

definition x86_64_numbers :: "u64 list" where
  "x86_64_numbers = [16, 15, 14, 13, 12, 11, 10, 9, 8, 7, 6, 5, 4, 3, 2, 1, 0]"

lemma x86_64_number_iff: "n \<le> 16 \<longleftrightarrow> n \<in> set x86_64_numbers"
proof
  assume "n \<le> 16"
  then have "unat n \<in> set (rev [0..<17])" by (simp add: word_le_nat_alt)
  then have "n \<in> of_nat ` set (rev [0..<17])" by (intro image_eqI [of _ _ "unat n"]) simp_all
  moreover have "(of_nat ` set (rev [0..<17]) :: u64 set) = set x86_64_numbers"
    by (simp add: x86_64_numbers_def upt_rec image_Un)
  ultimately show "n \<in> set x86_64_numbers" by (simp only:)
qed (auto simp: x86_64_numbers_def)

lemmas x86_64_number_cases =
  x86_64_number_iff [unfolded x86_64_numbers_def list.set insert_iff empty_iff]

lemma x86_64_get_set_other:
  assumes "n \<le> 16" "k \<noteq> n"
  shows "x86_64_GetRegisterValue (snd (x86_64_SetRegisterValue r n v)) k = x86_64_GetRegisterValue r k"
  using assms unfolding x86_64_number_cases
  by (elim disjE; simp add: x86_64_defs cong: if_cong)

lemma x86_64_get_set_same:
  assumes "n \<le> 16"
  shows "x86_64_GetRegisterValue (snd (x86_64_SetRegisterValue r n v)) n = v"
  using assms unfolding x86_64_number_cases
  by (elim disjE; simp add: x86_64_defs)

lemma x86_64_set_ok:
  assumes "n \<le> 16"
  shows "fst (x86_64_SetRegisterValue r n v)"
  using assms unfolding x86_64_number_cases
  by (elim disjE; simp add: x86_64_defs)

lemma x86_64_rip_set_other:
  assumes "n \<noteq> 16"
  shows "rip (snd (x86_64_SetRegisterValue r n v)) = rip r"
  using assms by (simp add: x86_64_SetRegisterValue_def)

lemma x86_64_invalid:
  assumes "16 < n"
  shows "x86_64_SetRegisterValue r n v = (False, r)" "x86_64_GetRegisterValue r n = 0"
proof -
  have n: "n \<noteq> k" if "k \<le> 16" for k using assms that by auto
  show "x86_64_SetRegisterValue r n v = (False, r)" "x86_64_GetRegisterValue r n = 0"
    by (simp_all add: x86_64_SetRegisterValue_def x86_64_GetRegisterValue_def n)
qed

lemma arm64_get_set_other:
  assumes "n \<le> 31" "k \<le> 31" "k \<noteq> n"
  shows "arm64_GetRegisterValue (snd (arm64_SetRegisterValue r n v)) k = arm64_GetRegisterValue r k"
proof -
  have "unat k \<noteq> unat n" using assms(3) by (simp add: word_unat_eq_iff)
  with assms show ?thesis
    unfolding arm64_number_cases by (elim disjE; simp add: arm64_defs)
qed

interpretation arm64: register_file arm64_arch arm64_norm
proof unfold_locales
  fix r n v assume "max_reg arm64_arch < n"
  then have "31 < n" by (simp add: arm64_arch_def)
  then have n: "n \<noteq> 29" "n \<noteq> 30" "n \<noteq> 31" "\<not> n \<le> 28"
    by (auto simp: word_less_nat_alt word_le_nat_alt)
  show "reg_set arm64_arch r n v = (False, r)" "reg_get arm64_arch r n = 0"
    by (simp_all add: arm64_defs n)
next
  fix r n k v
  assume "n \<le> max_reg arm64_arch" "k \<le> max_reg arm64_arch" "k \<noteq> n"
  then show "reg_get arm64_arch (snd (reg_set arm64_arch r n v)) k = reg_get arm64_arch r k"
    using arm64_get_set_other by (simp add: arm64_arch_def)
qed (auto simp: arm64_defs arm64_norm_def arm64_number_cases)

interpretation x86_64: register_file x86_64_arch "\<lambda>_ v. v"
  by unfold_locales
    (simp_all add: x86_64_arch_def x86_64_GetPC_def x86_64_get_set_other x86_64_get_set_same
      x86_64_set_ok x86_64_invalid x86_64_rip_set_other x86_64_SetRegisterValue_def [of _ 16])

end
