(* ===== verification/Utility.thy ===== *)
theory Utility
  imports Prelude
begin

text \<open>
  The pointer test and the fault-free memory read of \<open>Helpers/FIRCLSUtility.h\<close> and
  \<open>Helpers/FIRCLSUtility.m\<close>.

  \<open>vm_read_overwrite\<close> is the kernel's: it copies \<open>len\<close> bytes when all of them are mapped and fails
  otherwise, without faulting. \<open>FIRCLSReadMemory\<close> returns the bytes where the source returns \<open>true\<close>
  and \<open>None\<close> where it returns \<open>false\<close>; it never faults, so no other \<open>None\<close> is needed.
\<close>

definition FIRCLSIsValidPointer :: "u64 \<Rightarrow> bool" where
  "FIRCLSIsValidPointer x \<longleftrightarrow> x \<ge> 4096"

definition FIRCLSReadMemory :: "mem \<Rightarrow> addr \<Rightarrow> nat \<Rightarrow> u8 list option" where
  "FIRCLSReadMemory m src len =
     (if \<not> FIRCLSIsValidPointer src then None else load_bytes m src len)"

text \<open>Reading one machine word, as most callers do.\<close>

definition read_word :: "mem \<Rightarrow> addr \<Rightarrow> u64 option" where
  "read_word m src = map_option (\<lambda>bs. of_nat (le_nat bs)) (FIRCLSReadMemory m src 8)"

lemma read_word_at [mem_simps]:
  "4096 \<le> a \<Longrightarrow> bytes_at m a (le_bytes 8 (unat w)) \<Longrightarrow> read_word m a = Some w"
  using load64_at [of m a w]
  by (simp add: read_word_def FIRCLSReadMemory_def FIRCLSIsValidPointer_def load64_def load_le_def
      option.map_comp comp_def)

lemma read_word_eq_load64:
  "4096 \<le> a \<Longrightarrow> read_word m a = load64 m a"
  by (simp add: read_word_def FIRCLSReadMemory_def FIRCLSIsValidPointer_def load64_def load_le_def
      option.map_comp comp_def)

lemma read_word_low: "a < 4096 \<Longrightarrow> read_word m a = None"
  by (simp add: read_word_def FIRCLSReadMemory_def FIRCLSIsValidPointer_def not_le [symmetric])

end
