(* ===== verification/ExpressionMachine.thy ===== *)
theory ExpressionMachine
  imports DataParsing ThreadState Utility
begin

text \<open>
  The DWARF expression machine: \<open>Unwind/Dwarf/FIRCLSDwarfExpressionMachine.c\<close>, and the driver
  \<open>FIRCLSDwarfEvalulateExpression\<close> of \<open>FIRCLSDwarfUnwind.c\<close>.

  The stack is a buffer of 100 words and a pointer into it. The pointer is modelled as its
  offset from the start of the buffer, an integer, so that a pointer below or past the buffer is a
  value of the model; \<open>None\<close> is the \<open>NULL\<close> it is set to on overflow and underflow, which makes the
  stack invalid from then on. Reading or writing through a pointer that is not inside the buffer, or
  is \<open>NULL\<close>, is a fault. An operation returns the source's \<open>bool\<close> (or value) and the new
  stack or machine; an outer \<open>None\<close> is a fault. Structures of the code's own are passed by value
  (their callers pass addresses of live objects, for which the pointer guards hold).
\<close>

section \<open>The stack\<close>

definition CLS_DWARF_EXPRESSION_STACK_SIZE :: nat where
  "CLS_DWARF_EXPRESSION_STACK_SIZE = 100"

record expression_stack =
  buffer :: "u64 list"
  pointer :: "int option"

text \<open>Reading and writing \<open>buffer\<close> at an offset: a fault outside the array.\<close>

definition buffer_get :: "expression_stack \<Rightarrow> int \<Rightarrow> u64 option" where
  "buffer_get stack i =
     (if 0 \<le> i \<and> i < int CLS_DWARF_EXPRESSION_STACK_SIZE then Some (buffer stack ! nat i) else None)"

definition buffer_put :: "expression_stack \<Rightarrow> int \<Rightarrow> u64 \<Rightarrow> expression_stack option" where
  "buffer_put stack i value =
     (if 0 \<le> i \<and> i < int CLS_DWARF_EXPRESSION_STACK_SIZE
      then Some (stack\<lparr>buffer := (buffer stack)[nat i := value]\<rparr>) else None)"

definition FIRCLSDwarfExpressionStackInit :: expression_stack where
  "FIRCLSDwarfExpressionStackInit =
     \<lparr>buffer = replicate CLS_DWARF_EXPRESSION_STACK_SIZE 0, pointer = Some 0\<rparr>"

definition FIRCLSDwarfExpressionStackIsValid :: "expression_stack \<Rightarrow> bool" where
  "FIRCLSDwarfExpressionStackIsValid stack =
     (case pointer stack of
        None \<Rightarrow> False
      | Some p \<Rightarrow>
          if p < 0 then False
          else if p > int CLS_DWARF_EXPRESSION_STACK_SIZE then False
          else True)"

definition FIRCLSDwarfExpressionStackPush ::
    "expression_stack \<Rightarrow> u64 \<Rightarrow> (bool \<times> expression_stack) option" where
  "FIRCLSDwarfExpressionStackPush stack value =
     (if \<not> FIRCLSDwarfExpressionStackIsValid stack then Some (False, stack)
      else if pointer stack = Some (int CLS_DWARF_EXPRESSION_STACK_SIZE)
      then Some (False, stack\<lparr>pointer := None\<rparr>)
      else do { p \<leftarrow> pointer stack;
                stack' \<leftarrow> buffer_put stack p value;
                Some (True, stack'\<lparr>pointer := Some (p + 1)\<rparr>) })"

definition FIRCLSDwarfExpressionStackPeek ::
    "expression_stack \<Rightarrow> (u64 \<times> expression_stack) option" where
  "FIRCLSDwarfExpressionStackPeek stack =
     (if \<not> FIRCLSDwarfExpressionStackIsValid stack then Some (0, stack)
      else if pointer stack = Some 0 then Some (0, stack\<lparr>pointer := None\<rparr>)
      else do { p \<leftarrow> pointer stack;
                v \<leftarrow> buffer_get stack (p - 1);
                Some (v, stack) })"

definition FIRCLSDwarfExpressionStackPop ::
    "expression_stack \<Rightarrow> (u64 \<times> expression_stack) option" where
  "FIRCLSDwarfExpressionStackPop stack =
     (if \<not> FIRCLSDwarfExpressionStackIsValid stack then Some (0, stack)
      else if pointer stack = Some 0 then Some (0, stack\<lparr>pointer := None\<rparr>)
      else do { p \<leftarrow> pointer stack;
                v \<leftarrow> buffer_get stack (p - 1);
                Some (v, stack\<lparr>pointer := Some (p - 1)\<rparr>) })"

section \<open>The machine\<close>

record 'r machine =
  stack :: expression_stack
  dataCursor :: addr
  endAddress :: addr
  registers :: 'r

text \<open>\<open>memset\<close> clears the machine before the fields are set, so \<open>endAddress\<close> is \<open>NULL\<close>.\<close>

definition FIRCLSDwarfExpressionMachineInit ::
    "addr \<Rightarrow> 'r \<Rightarrow> u64 \<Rightarrow> (bool \<times> 'r machine) option" where
  "FIRCLSDwarfExpressionMachineInit cursor regs stackValue =
     (let machine = \<lparr>stack = FIRCLSDwarfExpressionStackInit, dataCursor = cursor, endAddress = 0,
                     registers = regs\<rparr>
      in if \<not> FIRCLSIsValidPointer cursor
         then Some (False, machine\<lparr>dataCursor := 0,
                 stack := \<lparr>buffer = replicate CLS_DWARF_EXPRESSION_STACK_SIZE 0, pointer = None\<rparr>\<rparr>)
         else do { (ok, s) \<leftarrow> FIRCLSDwarfExpressionStackPush (stack machine) stackValue;
                   Some (ok, machine\<lparr>stack := s\<rparr>) })"

definition FIRCLSDwarfExpressionMachinePrepareForExecution ::
    "mem \<Rightarrow> 'r machine \<Rightarrow> (bool \<times> 'r machine) option" where
  "FIRCLSDwarfExpressionMachinePrepareForExecution m machine =
     do { (expressionLength, c) \<leftarrow> FIRCLSParseULEB128AndAdvance m (dataCursor machine);
          let machine' = machine\<lparr>dataCursor := c\<rparr>;
          if expressionLength = 0 then Some (False, machine')
          else Some (True, machine'\<lparr>endAddress := c + expressionLength\<rparr>) }"

definition FIRCLSDwarfExpressionMachineIsFinished :: "'r machine \<Rightarrow> bool" where
  "FIRCLSDwarfExpressionMachineIsFinished machine =
     (if \<not> FIRCLSIsValidPointer (endAddress machine) \<or> \<not> FIRCLSIsValidPointer (dataCursor machine)
      then True
      else if \<not> FIRCLSDwarfExpressionStackIsValid (stack machine) then True
      else dataCursor machine \<ge> endAddress machine)"

text \<open>\<open>Some (Some v)\<close> where the source returns \<open>true\<close> and stores \<open>v\<close> in \<open>*result\<close>.\<close>

definition FIRCLSDwarfExpressionMachineGetResult :: "'r machine \<Rightarrow> u64 option option" where
  "FIRCLSDwarfExpressionMachineGetResult machine =
     (if dataCursor machine \<noteq> endAddress machine then Some None
      else do { (result, s) \<leftarrow> FIRCLSDwarfExpressionStackPeek (stack machine);
                Some (if FIRCLSDwarfExpressionStackIsValid s then Some result else None) })"

definition FIRCLSDwarfExpressionMachineStackPop :: "'r machine \<Rightarrow> (u64 \<times> 'r machine) option" where
  "FIRCLSDwarfExpressionMachineStackPop machine =
     do { (v, s) \<leftarrow> FIRCLSDwarfExpressionStackPop (stack machine);
          Some (v, machine\<lparr>stack := s\<rparr>) }"

definition FIRCLSDwarfExpressionMachineStackPush ::
    "'r machine \<Rightarrow> u64 \<Rightarrow> (bool \<times> 'r machine) option" where
  "FIRCLSDwarfExpressionMachineStackPush machine value =
     do { (ok, s) \<leftarrow> FIRCLSDwarfExpressionStackPush (stack machine) value;
          Some (ok, machine\<lparr>stack := s\<rparr>) }"

section \<open>Opcodes\<close>

definition execute_bregN ::
    "'r arch \<Rightarrow> mem \<Rightarrow> 'r machine \<Rightarrow> u8 \<Rightarrow> (bool \<times> 'r machine) option" where
  "execute_bregN A m machine opcode =
     (let regNum = opcode - 0x70 in
      if (ucast regNum :: u64) > max_reg A then Some (False, machine)
      else do { (offset, c) \<leftarrow> FIRCLSParseLEB128AndAdvance m (dataCursor machine);
                let machine' = machine\<lparr>dataCursor := c\<rparr>;
                let value = reg_get A (registers machine') (ucast regNum) + offset;
                FIRCLSDwarfExpressionMachineStackPush machine' value })"

definition execute_deref :: "mem \<Rightarrow> 'r machine \<Rightarrow> (bool \<times> 'r machine) option" where
  "execute_deref m machine =
     do { (value, machine') \<leftarrow> FIRCLSDwarfExpressionMachineStackPop machine;
          case read_word m value of
            None \<Rightarrow> Some (False, machine')
          | Some v \<Rightarrow> FIRCLSDwarfExpressionMachineStackPush machine' v }"

definition execute_plus_uconst :: "mem \<Rightarrow> 'r machine \<Rightarrow> (bool \<times> 'r machine) option" where
  "execute_plus_uconst m machine =
     do { (value, machine') \<leftarrow> FIRCLSDwarfExpressionMachineStackPop machine;
          (k, c) \<leftarrow> FIRCLSParseULEB128AndAdvance m (dataCursor machine');
          FIRCLSDwarfExpressionMachineStackPush (machine'\<lparr>dataCursor := c\<rparr>) (value + k) }"

definition execute_and :: "'r machine \<Rightarrow> (bool \<times> 'r machine) option" where
  "execute_and machine =
     do { (value, machine1) \<leftarrow> FIRCLSDwarfExpressionMachineStackPop machine;
          (value2, machine2) \<leftarrow> FIRCLSDwarfExpressionMachineStackPop machine1;
          FIRCLSDwarfExpressionMachineStackPush machine2 (value AND value2) }"

definition execute_plus :: "'r machine \<Rightarrow> (bool \<times> 'r machine) option" where
  "execute_plus machine =
     do { (value, machine1) \<leftarrow> FIRCLSDwarfExpressionMachineStackPop machine;
          (value2, machine2) \<leftarrow> FIRCLSDwarfExpressionMachineStackPop machine1;
          FIRCLSDwarfExpressionMachineStackPush machine2 (value + value2) }"

definition execute_dup :: "'r machine \<Rightarrow> (bool \<times> 'r machine) option" where
  "execute_dup machine =
     do { (value, s) \<leftarrow> FIRCLSDwarfExpressionStackPeek (stack machine);
          FIRCLSDwarfExpressionMachineStackPush (machine\<lparr>stack := s\<rparr>) value }"

definition execute_swap :: "'r machine \<Rightarrow> (bool \<times> 'r machine) option" where
  "execute_swap machine =
     do { (valueA, machine1) \<leftarrow> FIRCLSDwarfExpressionMachineStackPop machine;
          (valueB, machine2) \<leftarrow> FIRCLSDwarfExpressionMachineStackPop machine1;
          (ok, machine3) \<leftarrow> FIRCLSDwarfExpressionMachineStackPush machine2 valueA;
          if \<not> ok then Some (False, machine3)
          else FIRCLSDwarfExpressionMachineStackPush machine3 valueB }"

definition execute_deref_size :: "mem \<Rightarrow> 'r machine \<Rightarrow> (bool \<times> 'r machine) option" where
  "execute_deref_size m machine =
     do { (address, machine1) \<leftarrow> FIRCLSDwarfExpressionMachineStackPop machine;
          (readSize, c) \<leftarrow> FIRCLSParseUint8AndAdvance m (dataCursor machine1);
          let machine2 = machine1\<lparr>dataCursor := c\<rparr>;
          if readSize = 1 then
            do { (v, _) \<leftarrow> FIRCLSParseUint8AndAdvance m address;
                 FIRCLSDwarfExpressionMachineStackPush machine2 (ucast v) }
          else if readSize = 2 then
            do { (v, _) \<leftarrow> FIRCLSParseUint16AndAdvance m address;
                 FIRCLSDwarfExpressionMachineStackPush machine2 (ucast v) }
          else if readSize = 4 then
            do { (v, _) \<leftarrow> FIRCLSParseUint32AndAdvance m address;
                 FIRCLSDwarfExpressionMachineStackPush machine2 (ucast v) }
          else if readSize = 8 then
            do { (v, _) \<leftarrow> FIRCLSParseUint64AndAdvance m address;
                 FIRCLSDwarfExpressionMachineStackPush machine2 v }
          else Some (False, machine2) }"

definition execute_ne :: "'r machine \<Rightarrow> (bool \<times> 'r machine) option" where
  "execute_ne machine =
     do { (value, machine1) \<leftarrow> FIRCLSDwarfExpressionMachineStackPop machine;
          (value2, machine2) \<leftarrow> FIRCLSDwarfExpressionMachineStackPop machine1;
          FIRCLSDwarfExpressionMachineStackPush machine2 (if value \<noteq> value2 then 1 else 0) }"

definition execute_litN :: "'r machine \<Rightarrow> u8 \<Rightarrow> (bool \<times> 'r machine) option" where
  "execute_litN machine opcode =
     (let value = opcode - 0x30 in FIRCLSDwarfExpressionMachineStackPush machine (ucast value))"

definition FIRCLSDwarfExpressionMachineExecuteNextOpcode ::
    "'r arch \<Rightarrow> mem \<Rightarrow> 'r machine \<Rightarrow> (bool \<times> 'r machine) option" where
  "FIRCLSDwarfExpressionMachineExecuteNextOpcode A m machine0 =
     do { (opcode, c) \<leftarrow> FIRCLSParseUint8AndAdvance m (dataCursor machine0);
          let machine = machine0\<lparr>dataCursor := c\<rparr>;
          if opcode = 0x06 then execute_deref m machine
          else if opcode = 0x12 then execute_dup machine
          else if opcode = 0x1A then execute_and machine
          else if opcode = 0x22 then execute_plus machine
          else if opcode = 0x16 then execute_swap machine
          else if opcode = 0x23 then execute_plus_uconst m machine
          else if opcode = 0x2E then execute_ne machine
          else if 0x30 \<le> opcode \<and> opcode \<le> 0x4F then execute_litN machine opcode
          else if 0x70 \<le> opcode \<and> opcode \<le> 0x8F then execute_bregN A m machine opcode
          else if opcode = 0x94 then execute_deref_size m machine
          else Some (False, machine) }"

section \<open>What a step changes\<close>

text \<open>The opcodes touch the stack and the cursor only.\<close>

definition same_program :: "'r machine \<Rightarrow> 'r machine \<Rightarrow> bool" where
  "same_program M M' \<longleftrightarrow> endAddress M' = endAddress M \<and> registers M' = registers M"

lemma pop_frameD:
  "FIRCLSDwarfExpressionMachineStackPop M = Some (v, M') \<Longrightarrow>
   dataCursor M' = dataCursor M \<and> endAddress M' = endAddress M \<and> registers M' = registers M"
  by (auto simp: FIRCLSDwarfExpressionMachineStackPop_def bind_eq_Some_conv)

lemma push_frameD:
  "FIRCLSDwarfExpressionMachineStackPush M v = Some (ok, M') \<Longrightarrow>
   dataCursor M' = dataCursor M \<and> endAddress M' = endAddress M \<and> registers M' = registers M"
  by (auto simp: FIRCLSDwarfExpressionMachineStackPush_def bind_eq_Some_conv)

lemma execute_frameD:
  "execute_deref m M = Some (ok, M') \<Longrightarrow> dataCursor M' = dataCursor M \<and> same_program M M'"
  "execute_dup M = Some (ok, M') \<Longrightarrow> dataCursor M' = dataCursor M \<and> same_program M M'"
  "execute_and M = Some (ok, M') \<Longrightarrow> dataCursor M' = dataCursor M \<and> same_program M M'"
  "execute_plus M = Some (ok, M') \<Longrightarrow> dataCursor M' = dataCursor M \<and> same_program M M'"
  "execute_swap M = Some (ok, M') \<Longrightarrow> dataCursor M' = dataCursor M \<and> same_program M M'"
  "execute_ne M = Some (ok, M') \<Longrightarrow> dataCursor M' = dataCursor M \<and> same_program M M'"
  "execute_litN M opcode = Some (ok, M') \<Longrightarrow> dataCursor M' = dataCursor M \<and> same_program M M'"
  by (auto simp: same_program_def execute_deref_def execute_dup_def execute_and_def execute_plus_def
      execute_swap_def execute_ne_def execute_litN_def bind_eq_Some_conv
      split: option.split_asm if_split_asm dest!: pop_frameD push_frameD)

lemma uleb128_cursor:
  "FIRCLSParseULEB128AndAdvance m c = Some (v, c') \<Longrightarrow> \<exists>n \<le> 8. c' = c + of_nat n"
  using leb128_cursor_bounds by blast

lemma sleb128_cursor:
  "FIRCLSParseLEB128AndAdvance m c = Some (v, c') \<Longrightarrow> \<exists>n \<le> 8. c' = c + of_nat n"
  using leb128_cursor_bounds by blast

lemma same_program_cursor [simp]:
  "same_program M M"
  "same_program (M\<lparr>dataCursor := c\<rparr>) M' = same_program M M'"
  "same_program M (M'\<lparr>dataCursor := c\<rparr>) = same_program M M'"
  by (simp_all add: same_program_def)

lemma execute_plus_uconst_frame:
  "execute_plus_uconst m M = Some (ok, M') \<Longrightarrow>
     same_program M M' \<and> (\<exists>n \<le> 8. dataCursor M' = dataCursor M + of_nat n)"
  by (auto simp: execute_plus_uconst_def bind_eq_Some_conv same_program_def
      dest!: push_frameD pop_frameD uleb128_cursor)

lemma execute_bregN_frame:
  "execute_bregN A m M opcode = Some (ok, M') \<Longrightarrow>
     same_program M M' \<and> (\<exists>n \<le> 8. dataCursor M' = dataCursor M + of_nat n)"
  by (auto simp: execute_bregN_def Let_def bind_eq_Some_conv same_program_def
      split: if_splits dest!: push_frameD sleb128_cursor intro: exI [of _ 0])

lemma execute_deref_size_frame:
  "execute_deref_size m M = Some (ok, M') \<Longrightarrow>
     same_program M M' \<and> (\<exists>n \<le> 8. dataCursor M' = dataCursor M + of_nat n)"
  by (auto simp: execute_deref_size_def FIRCLSParseUint8AndAdvance_def Let_def same_program_def
      bind_eq_Some_conv split: if_splits dest!: push_frameD pop_frameD intro!: exI [of _ "Suc 0"])

lemma next_opcode_cases:
  assumes "FIRCLSDwarfExpressionMachineExecuteNextOpcode A m M = Some (ok, M')"
  obtains (still) "dataCursor M' = dataCursor M + 1" "same_program M M'"
    | (moved) n where "n \<le> 8" "dataCursor M' = dataCursor M + 1 + of_nat n" "same_program M M'"
proof -
  let ?M = "M\<lparr>dataCursor := dataCursor M + 1\<rparr>"
  obtain opcode where r:
    "(if opcode = 0x06 then execute_deref m ?M
      else if opcode = 0x12 then execute_dup ?M
      else if opcode = 0x1A then execute_and ?M
      else if opcode = 0x22 then execute_plus ?M
      else if opcode = 0x16 then execute_swap ?M
      else if opcode = 0x23 then execute_plus_uconst m ?M
      else if opcode = 0x2E then execute_ne ?M
      else if 0x30 \<le> opcode \<and> opcode \<le> 0x4F then execute_litN ?M opcode
      else if 0x70 \<le> opcode \<and> opcode \<le> 0x8F then execute_bregN A m ?M opcode
      else if opcode = 0x94 then execute_deref_size m ?M
      else Some (False, ?M)) = Some (ok, M')"
    using assms unfolding FIRCLSDwarfExpressionMachineExecuteNextOpcode_def
      FIRCLSParseUint8AndAdvance_def
    by (auto simp: Let_def bind_eq_Some_conv)
  then have "(dataCursor M' = dataCursor ?M \<and> same_program M M') \<or>
     (same_program M M' \<and> (\<exists>n \<le> 8. dataCursor M' = dataCursor ?M + of_nat n))"
    by (simp only: option.inject split: if_split_asm)
      (use execute_frameD [where M = ?M] execute_plus_uconst_frame [where M = ?M]
         execute_bregN_frame [where M = ?M] execute_deref_size_frame [where M = ?M] same_program_cursor in \<open>metis prod.inject\<close>)+
  then show thesis using still moved by auto
qed

lemma execute_next_frame:
  assumes "FIRCLSDwarfExpressionMachineExecuteNextOpcode A m M = Some (ok, M')"
  shows "same_program M M' \<and> (\<exists>n. 1 \<le> n \<and> n \<le> 9 \<and> dataCursor M' = dataCursor M + of_nat n)"
  using assms
proof (cases rule: next_opcode_cases)
  case still
  then show ?thesis by (intro conjI exI [of _ 1]) simp_all
next
  case (moved n)
  then show ?thesis by (intro conjI exI [of _ "Suc n"]) (simp_all add: algebra_simps)
qed

section \<open>Evaluating an expression\<close>

lemma valid_pointer_iff: "FIRCLSIsValidPointer p \<longleftrightarrow> 4096 \<le> unat p"
  by (simp add: FIRCLSIsValidPointer_def word_le_nat_alt)

definition machine_left :: "'r machine \<Rightarrow> nat" where
  "machine_left M =
     (if FIRCLSDwarfExpressionMachineIsFinished M then 0
      else unat (endAddress M) - unat (dataCursor M))"

text \<open>Each step moves the cursor by one to nine bytes; if that wraps, the cursor is no longer a
  valid pointer and the machine is finished. So the loop ends.\<close>

lemma machine_left_decreases:
  assumes "\<not> FIRCLSDwarfExpressionMachineIsFinished M"
    and "FIRCLSDwarfExpressionMachineExecuteNextOpcode A m M = Some (ok, M')"
  shows "machine_left M' < machine_left M"
proof -
  obtain n where e: "endAddress M' = endAddress M" and n: "1 \<le> n" "n \<le> 9"
    and c: "dataCursor M' = dataCursor M + of_nat n"
    using execute_next_frame [OF assms(2)] by (auto simp: same_program_def)
  have run: "unat (dataCursor M) < unat (endAddress M)"
    using assms(1) by (auto simp: FIRCLSDwarfExpressionMachineIsFinished_def not_le word_less_nat_alt
        split: if_splits)
  have u: "unat (dataCursor M') = (unat (dataCursor M) + n) mod 2 ^ 64"
    unfolding c by (simp add: unat_word_ariths unat_of_nat mod_add_right_eq)
  show ?thesis
  proof (cases "unat (dataCursor M) + n < 2 ^ 64")
    case True
    then have "unat (dataCursor M') = unat (dataCursor M) + n" using u by simp
    with run e n assms(1) show ?thesis by (simp add: machine_left_def) arith
  next
    case False
    have b: "unat (dataCursor M) < 2 ^ 64" using unat_less [of "dataCursor M"] by simp
    have "unat (dataCursor M') = unat (dataCursor M) + n - 2 ^ 64"
      unfolding u using False b n by (simp add: le_mod_geq)
    then have "unat (dataCursor M') < 4096" using b n by linarith
    then have "FIRCLSDwarfExpressionMachineIsFinished M'"
      by (simp add: FIRCLSDwarfExpressionMachineIsFinished_def valid_pointer_iff)
    with run assms(1) show ?thesis by (simp add: machine_left_def)
  qed
qed

text \<open>The \<open>while\<close> loop of \<open>FIRCLSDwarfEvalulateExpression\<close>: \<open>None\<close> is a fault, \<open>Some None\<close> an opcode
  that failed, \<open>Some (Some M)\<close> the finished machine.\<close>

function evaluate_loop :: "'r arch \<Rightarrow> mem \<Rightarrow> 'r machine \<Rightarrow> 'r machine option option" where
  "evaluate_loop A m M =
     (if FIRCLSDwarfExpressionMachineIsFinished M then Some (Some M)
      else case FIRCLSDwarfExpressionMachineExecuteNextOpcode A m M of
             None \<Rightarrow> None
           | Some (ok, M') \<Rightarrow> if \<not> ok then Some None else evaluate_loop A m M')"
  by pat_completeness auto

termination
  by (relation "measure (\<lambda>(A, m, M). machine_left M)") (auto intro: machine_left_decreases)

declare evaluate_loop.simps [simp del]

definition FIRCLSDwarfEvalulateExpression ::
    "'r arch \<Rightarrow> mem \<Rightarrow> addr \<Rightarrow> 'r \<Rightarrow> u64 \<Rightarrow> u64 option option" where
  "FIRCLSDwarfEvalulateExpression A m cursor regs stackValue =
     (if \<not> FIRCLSIsValidPointer cursor then Some None
      else do { (ok, machine) \<leftarrow> FIRCLSDwarfExpressionMachineInit cursor regs stackValue;
                if \<not> ok then Some None
                else do { (ready, machine') \<leftarrow> FIRCLSDwarfExpressionMachinePrepareForExecution m machine;
                          if \<not> ready then Some None
                          else do { finished \<leftarrow> evaluate_loop A m machine';
                                    case finished of
                                      None \<Rightarrow> Some None
                                    | Some M \<Rightarrow> FIRCLSDwarfExpressionMachineGetResult M } } })"

section \<open>Reference semantics on an abstract stack\<close>

text \<open>The operations of the DWARF standard the machine supports, their encoding, and their meaning
  on a list whose head is the top of the stack. The inner \<open>None\<close> is an expression that must be
  rejected, the outer one a fault.\<close>

datatype dwarf_op =
    Deref | Dup | And | Plus | Swap | Plus_uconst nat | Ne | Lit nat | Breg nat int
  | Deref_size nat

fun op_wf :: "'r arch \<Rightarrow> dwarf_op \<Rightarrow> bool" where
  "op_wf A (Plus_uconst k) = (k < 2 ^ 31)"
| "op_wf A (Lit n) = (n < 32)"
| "op_wf A (Breg n off) = (n < 32 \<and> n \<le> unat (max_reg A) \<and> - (2 ^ 27) \<le> off \<and> off < 2 ^ 31)"
| "op_wf A (Deref_size k) = (k < 256)"
| "op_wf A _ = True"

fun op_encode :: "dwarf_op \<Rightarrow> u8 list" where
  "op_encode Deref = [0x06]"
| "op_encode Dup = [0x12]"
| "op_encode And = [0x1A]"
| "op_encode Plus = [0x22]"
| "op_encode Swap = [0x16]"
| "op_encode (Plus_uconst k) = 0x23 # uleb128_encode k"
| "op_encode Ne = [0x2E]"
| "op_encode (Lit n) = [of_nat (0x30 + n)]"
| "op_encode (Breg n off) = of_nat (0x70 + n) # sleb128_encode off"
| "op_encode (Deref_size k) = [0x94, of_nat k]"

definition spec_push :: "u64 \<Rightarrow> u64 list \<Rightarrow> u64 list option" where
  "spec_push v st = (if length st < CLS_DWARF_EXPRESSION_STACK_SIZE then Some (v # st) else None)"

definition spec_load :: "mem \<Rightarrow> addr \<Rightarrow> nat \<Rightarrow> u64 option" where
  "spec_load m a k = map_option of_nat (load_le m a k)"

fun spec_op :: "'r arch \<Rightarrow> mem \<Rightarrow> 'r \<Rightarrow> dwarf_op \<Rightarrow> u64 list \<Rightarrow> u64 list option option" where
  "spec_op A m regs Deref (a # st) =
     Some (if a < 4096 then None else do { v \<leftarrow> spec_load m a 8; spec_push v st })"
| "spec_op A m regs Dup (a # st) = Some (spec_push a (a # st))"
| "spec_op A m regs And (a # b # st) = Some (spec_push (a AND b) st)"
| "spec_op A m regs Plus (a # b # st) = Some (spec_push (a + b) st)"
| "spec_op A m regs Swap (a # b # st) = Some (Some (b # a # st))"
| "spec_op A m regs (Plus_uconst k) (a # st) = Some (spec_push (a + of_nat k) st)"
| "spec_op A m regs Ne (a # b # st) = Some (spec_push (if a \<noteq> b then 1 else 0) st)"
| "spec_op A m regs (Lit n) st = Some (spec_push (of_nat n) st)"
| "spec_op A m regs (Breg n off) st =
     Some (spec_push (reg_get A regs (of_nat n) + of_int off) st)"
| "spec_op A m regs (Deref_size k) (a # st) =
     (if k \<in> {1, 2, 4, 8} then do { v \<leftarrow> spec_load m a k; Some (spec_push v st) } else Some None)"
| "spec_op A m regs _ st = Some None"

fun spec_run :: "'r arch \<Rightarrow> mem \<Rightarrow> 'r \<Rightarrow> dwarf_op list \<Rightarrow> u64 list \<Rightarrow> u64 list option option" where
  "spec_run A m regs [] st = Some (Some st)"
| "spec_run A m regs (p # ps) st =
     (case spec_op A m regs p st of
        Some (Some st') \<Rightarrow> spec_run A m regs ps st'
      | r \<Rightarrow> r)"

text \<open>The concrete stack that holds an abstract one.\<close>

definition stack_rep :: "expression_stack \<Rightarrow> u64 list \<Rightarrow> bool" where
  "stack_rep s st \<longleftrightarrow>
     length (buffer s) = CLS_DWARF_EXPRESSION_STACK_SIZE \<and>
     length st \<le> CLS_DWARF_EXPRESSION_STACK_SIZE \<and>
     pointer s = Some (int (length st)) \<and> take (length st) (buffer s) = rev st"

lemma stack_rep_valid: "stack_rep s st \<Longrightarrow> FIRCLSDwarfExpressionStackIsValid s"
  by (simp add: stack_rep_def FIRCLSDwarfExpressionStackIsValid_def)

lemma push_rep:
  assumes "stack_rep s st" "length st < CLS_DWARF_EXPRESSION_STACK_SIZE"
  obtains s' where "FIRCLSDwarfExpressionStackPush s v = Some (True, s')" "stack_rep s' (v # st)"
proof
  let ?s = "s\<lparr>buffer := (buffer s)[length st := v], pointer := Some (int (length st) + 1)\<rparr>"
  show "FIRCLSDwarfExpressionStackPush s v = Some (True, ?s)"
    using assms stack_rep_valid [OF assms(1)]
    by (simp add: FIRCLSDwarfExpressionStackPush_def buffer_put_def stack_rep_def)
  show "stack_rep ?s (v # st)"
    using assms by (simp add: stack_rep_def take_Suc_conv_app_nth)
qed

lemma push_full:
  "stack_rep s st \<Longrightarrow> length st = CLS_DWARF_EXPRESSION_STACK_SIZE \<Longrightarrow>
   FIRCLSDwarfExpressionStackPush s v = Some (False, s\<lparr>pointer := None\<rparr>)"
  using stack_rep_valid [of s st] by (simp add: FIRCLSDwarfExpressionStackPush_def stack_rep_def)

lemma top_rep:
  assumes "stack_rep s (v # st)"
  shows "buffer_get s (int (length st)) = Some v" "take (length st) (buffer s) = rev st"
proof -
  have t: "take (length st) (buffer s) @ [buffer s ! length st] = rev st @ [v]"
    using assms by (simp add: stack_rep_def flip: take_Suc_conv_app_nth)
  with assms show "buffer_get s (int (length st)) = Some v" "take (length st) (buffer s) = rev st"
    by (simp_all add: buffer_get_def stack_rep_def)
qed

lemma pop_rep:
  assumes "stack_rep s (v # st)"
  obtains s' where "FIRCLSDwarfExpressionStackPop s = Some (v, s')" "stack_rep s' st"
proof
  show "FIRCLSDwarfExpressionStackPop s = Some (v, s\<lparr>pointer := Some (int (length st))\<rparr>)"
    using assms top_rep [OF assms] stack_rep_valid [OF assms]
    by (simp add: FIRCLSDwarfExpressionStackPop_def stack_rep_def)
  show "stack_rep (s\<lparr>pointer := Some (int (length st))\<rparr>) st"
    using assms top_rep [OF assms] by (simp add: stack_rep_def)
qed

lemma peek_rep: "stack_rep s (v # st) \<Longrightarrow> FIRCLSDwarfExpressionStackPeek s = Some (v, s)"
  using top_rep [of s v st] stack_rep_valid [of s "v # st"]
  by (simp add: FIRCLSDwarfExpressionStackPeek_def stack_rep_def)

lemma empty_rep:
  "stack_rep s [] \<Longrightarrow> FIRCLSDwarfExpressionStackPop s = Some (0, s\<lparr>pointer := None\<rparr>)"
  "stack_rep s [] \<Longrightarrow> FIRCLSDwarfExpressionStackPeek s = Some (0, s\<lparr>pointer := None\<rparr>)"
  using stack_rep_valid [of s "[]"]
  by (simp_all add: FIRCLSDwarfExpressionStackPop_def FIRCLSDwarfExpressionStackPeek_def stack_rep_def)

lemma invalid_stack:
  "pointer s = None \<Longrightarrow> FIRCLSDwarfExpressionStackPop s = Some (0, s)"
  "pointer s = None \<Longrightarrow> FIRCLSDwarfExpressionStackPeek s = Some (0, s)"
  "pointer s = None \<Longrightarrow> FIRCLSDwarfExpressionStackPush s v = Some (False, s)"
  by (simp_all add: FIRCLSDwarfExpressionStackPop_def FIRCLSDwarfExpressionStackPeek_def
      FIRCLSDwarfExpressionStackPush_def FIRCLSDwarfExpressionStackIsValid_def)

text \<open>An operation's outcome against the reference: it does not fault, and either rejects or leaves
  the new stack with the cursor at \<open>c\<close>.\<close>

definition implements :: "addr \<Rightarrow> (bool \<times> 'r machine) option \<Rightarrow> u64 list option \<Rightarrow> bool" where
  "implements c r s \<longleftrightarrow>
     (case r of
        None \<Rightarrow> False
      | Some (ok, M) \<Rightarrow>
          (case s of
             None \<Rightarrow> \<not> ok
           | Some st \<Rightarrow> ok \<and> stack_rep (stack M) st \<and> dataCursor M = c))"

lemma machine_push_rep:
  "stack_rep (stack M) st \<Longrightarrow>
   implements (dataCursor M) (FIRCLSDwarfExpressionMachineStackPush M v) (spec_push v st)"
proof (cases "length st < CLS_DWARF_EXPRESSION_STACK_SIZE")
  case True
  moreover assume "stack_rep (stack M) st"
  ultimately obtain s' where "FIRCLSDwarfExpressionStackPush (stack M) v = Some (True, s')"
    "stack_rep s' (v # st)" by (blast elim: push_rep)
  with True show ?thesis
    by (simp add: FIRCLSDwarfExpressionMachineStackPush_def spec_push_def implements_def)
next
  case False
  moreover assume r: "stack_rep (stack M) st"
  ultimately have "length st = CLS_DWARF_EXPRESSION_STACK_SIZE" by (simp add: stack_rep_def)
  with r show ?thesis
    by (simp add: FIRCLSDwarfExpressionMachineStackPush_def spec_push_def implements_def push_full)
qed

lemma machine_pop_rep:
  assumes "stack_rep (stack M) (v # st)"
  obtains s where "FIRCLSDwarfExpressionMachineStackPop M = Some (v, M\<lparr>stack := s\<rparr>)" "stack_rep s st"
  using pop_rep [OF assms] that by (force simp: FIRCLSDwarfExpressionMachineStackPop_def)

lemma machine_pop_empty:
  "stack_rep (stack M) [] \<Longrightarrow>
   FIRCLSDwarfExpressionMachineStackPop M = Some (0, M\<lparr>stack := (stack M)\<lparr>pointer := None\<rparr>\<rparr>)"
  by (simp add: FIRCLSDwarfExpressionMachineStackPop_def empty_rep)

lemma machine_push_invalid:
  "pointer (stack M) = None \<Longrightarrow> FIRCLSDwarfExpressionMachineStackPush M v = Some (False, M)"
  by (simp add: FIRCLSDwarfExpressionMachineStackPush_def invalid_stack)

text \<open>The three binary operations share one shape.\<close>

lemma binary_implements:
  assumes r: "stack_rep (stack M) (a # st)"
    and f: "f M = do { (x, M1) \<leftarrow> FIRCLSDwarfExpressionMachineStackPop M;
              (y, M2) \<leftarrow> FIRCLSDwarfExpressionMachineStackPop M1;
              FIRCLSDwarfExpressionMachineStackPush M2 (g x y) }"
  shows "implements (dataCursor M) (f M) (case st of [] \<Rightarrow> None | b # st' \<Rightarrow> spec_push (g a b) st')"
proof -
  obtain s where p: "FIRCLSDwarfExpressionMachineStackPop M = Some (a, M\<lparr>stack := s\<rparr>)"
    and s: "stack_rep s st"
    using r by (rule machine_pop_rep)
  show ?thesis
  proof (cases st)
    case Nil
    with s have "FIRCLSDwarfExpressionMachineStackPop (M\<lparr>stack := s\<rparr>)
        = Some (0, M\<lparr>stack := s\<lparr>pointer := None\<rparr>\<rparr>)"
      by (simp add: machine_pop_empty)
    with p Nil show ?thesis by (simp add: f machine_push_invalid implements_def)
  next
    case (Cons b st')
    with s obtain s' where "FIRCLSDwarfExpressionMachineStackPop (M\<lparr>stack := s\<rparr>)
        = Some (b, M\<lparr>stack := s'\<rparr>)" "stack_rep s' st'"
      using machine_pop_rep [of "M\<lparr>stack := s\<rparr>" b st'] by force
    with p Cons machine_push_rep [of "M\<lparr>stack := s'\<rparr>" st' "g a b"] show ?thesis
      by (simp add: f)
  qed
qed

lemma swap_implements:
  assumes r: "stack_rep (stack M) (a # st)"
  shows "implements (dataCursor M) (execute_swap M)
           (case st of [] \<Rightarrow> None | b # st' \<Rightarrow> Some (b # a # st'))"
proof -
  obtain s where p: "FIRCLSDwarfExpressionMachineStackPop M = Some (a, M\<lparr>stack := s\<rparr>)"
    and s: "stack_rep s st"
    using r by (rule machine_pop_rep)
  show ?thesis
  proof (cases st)
    case Nil
    with s have "FIRCLSDwarfExpressionMachineStackPop (M\<lparr>stack := s\<rparr>)
        = Some (0, M\<lparr>stack := s\<lparr>pointer := None\<rparr>\<rparr>)"
      by (simp add: machine_pop_empty)
    with p Nil show ?thesis by (simp add: execute_swap_def machine_push_invalid implements_def)
  next
    case (Cons b st')
    with s obtain s' where q: "FIRCLSDwarfExpressionMachineStackPop (M\<lparr>stack := s\<rparr>)
        = Some (b, M\<lparr>stack := s'\<rparr>)" "stack_rep s' st'"
      using machine_pop_rep [of "M\<lparr>stack := s\<rparr>" b st'] by force
    have l: "Suc (length st') < CLS_DWARF_EXPRESSION_STACK_SIZE"
      using r Cons by (simp add: stack_rep_def)
    with machine_push_rep [of "M\<lparr>stack := s'\<rparr>" st' a] q(2)
    obtain M3 where pa: "FIRCLSDwarfExpressionMachineStackPush (M\<lparr>stack := s'\<rparr>) a = Some (True, M3)"
      "stack_rep (stack M3) (a # st')" "dataCursor M3 = dataCursor M"
      by (auto simp: implements_def spec_push_def split: option.split_asm)
    with p q Cons l machine_push_rep [of M3 "a # st'" b] show ?thesis
      by (simp add: execute_swap_def spec_push_def)
  qed
qed

lemma dup_implements:
  "stack_rep (stack M) (a # st) \<Longrightarrow>
   implements (dataCursor M) (execute_dup M) (spec_push a (a # st))"
  by (simp add: execute_dup_def peek_rep machine_push_rep)

lemma litN_implements:
  "stack_rep (stack M) st \<Longrightarrow> n < 32 \<Longrightarrow>
   implements (dataCursor M) (execute_litN M (of_nat (0x30 + n))) (spec_push (of_nat n) st)"
  using machine_push_rep [of M st "of_nat n"] 
  by (simp add: execute_litN_def unsigned_of_nat take_bit_nat_eq_self)

lemma deref_implements:
  assumes "stack_rep (stack M) (a # st)"
  shows "implements (dataCursor M) (execute_deref m M)
     (if a < 4096 then None else do { v \<leftarrow> spec_load m a 8; spec_push v st })"
proof -
  obtain s where p: "FIRCLSDwarfExpressionMachineStackPop M = Some (a, M\<lparr>stack := s\<rparr>)"
    and s: "stack_rep s st"
    using assms by (rule machine_pop_rep)
  have w: "read_word m a = (if a < 4096 then None else spec_load m a 8)"
    by (simp add: read_word_low read_word_eq_load64 spec_load_def load64_def not_less)
  show ?thesis
  proof (cases "read_word m a")
    case None
    then have "(if a < 4096 then None else do { v \<leftarrow> spec_load m a 8; spec_push v st }) = None"
      using w by (auto split: if_splits)
    with None p show ?thesis by (simp only: execute_deref_def) (simp add: implements_def)
  next
    case (Some v)
    then have "(if a < 4096 then None else do { v \<leftarrow> spec_load m a 8; spec_push v st }) = spec_push v st"
      using w by (auto split: if_splits)
    with Some p s machine_push_rep [of "M\<lparr>stack := s\<rparr>" st v] show ?thesis
      by (simp only: execute_deref_def) simp
  qed
qed

lemma plus_uconst_implements:
  assumes "stack_rep (stack M) (a # st)" "k < 2 ^ 31" "bytes_at m (dataCursor M) (uleb128_encode k)"
  shows "implements (dataCursor M + of_nat (length (uleb128_encode k))) (execute_plus_uconst m M)
     (spec_push (a + of_nat k) st)"
proof -
  obtain s where p: "FIRCLSDwarfExpressionMachineStackPop M = Some (a, M\<lparr>stack := s\<rparr>)"
    and s: "stack_rep s st"
    using assms(1) by (rule machine_pop_rep)
  show ?thesis
    using p s uleb128_decode [OF assms(2,3)]
      machine_push_rep [of "M\<lparr>stack := s, dataCursor := c\<rparr>" st "a + of_nat k" for c]
    by (simp add: execute_plus_uconst_def)
qed

lemma bregN_implements:
  assumes "stack_rep (stack M) st" "op_wf A (Breg n off)" "bytes_at m (dataCursor M) (sleb128_encode off)"
  shows "implements (dataCursor M + of_nat (length (sleb128_encode off)))
     (execute_bregN A m M (of_nat (0x70 + n)))
     (spec_push (reg_get A (registers M) (of_nat n) + of_int off) st)"
proof -
  have u: "(ucast (of_nat n :: u8) :: u64) = of_nat n"
    using assms(2) by (simp add: unsigned_of_nat take_bit_nat_eq_self)
  have "\<not> (of_nat n :: u64) > max_reg A"
    using assms(2) by (simp add: not_less word_le_nat_alt unat_of_nat_small)
  then show ?thesis
    using assms machine_push_rep [of "M\<lparr>dataCursor := c\<rparr>" st v for c v]
      sleb128_decode [OF _ _ assms(3)]
    by (simp add: execute_bregN_def u Let_def)
qed

lemma parse_as_load_le:
  "FIRCLSParseUint8AndAdvance m a = map_option (\<lambda>x. (of_nat x, a + 1)) (load_le m a 1)"
  "FIRCLSParseUint16AndAdvance m a = map_option (\<lambda>x. (of_nat x, a + 2)) (load_le m a 2)"
  "FIRCLSParseUint32AndAdvance m a = map_option (\<lambda>x. (of_nat x, a + 4)) (load_le m a 4)"
  "FIRCLSParseUint64AndAdvance m a = map_option (\<lambda>x. (of_nat x, a + 8)) (load_le m a 8)"
  by (auto simp: FIRCLSParseUint8AndAdvance_def FIRCLSParseUint16AndAdvance_def
      FIRCLSParseUint32AndAdvance_def FIRCLSParseUint64AndAdvance_def load16_def load32_def
      load64_def load_le_one load_le_one [simplified] split: option.split bind_splits)

lemma deref_size_implements:
  assumes "stack_rep (stack M) (a # st)" "k < 256" "m (dataCursor M) = Some (of_nat k)"
  shows "case spec_op A m regs (Deref_size k) (a # st) of
           None \<Rightarrow> execute_deref_size m M = None
         | Some s \<Rightarrow> implements (dataCursor M + 1) (execute_deref_size m M) s"
proof -
  obtain s where p: "FIRCLSDwarfExpressionMachineStackPop M = Some (a, M\<lparr>stack := s\<rparr>)"
    and s: "stack_rep s st"
    using assms(1) by (rule machine_pop_rep)
  have push: "implements (dataCursor M + 1)
      (FIRCLSDwarfExpressionMachineStackPush (M\<lparr>stack := s, dataCursor := dataCursor M + 1\<rparr>) v) (spec_push v st)" for v
    using machine_push_rep [of "M\<lparr>stack := s, dataCursor := dataCursor M + 1\<rparr>" st v] s by simp
  have parse: "FIRCLSParseUint8AndAdvance m (dataCursor M) = Some (of_nat k, dataCursor M + 1)"
    using assms(3) by (simp add: FIRCLSParseUint8AndAdvance_def load8_def)
  have ks: "(of_nat k :: u8) = of_nat j \<longleftrightarrow> k = j" if "j < 256" for j
    using that assms(2) by (simp add: word_of_nat_eq_iff take_bit_nat_eq_self)
  note l = parse_as_load_le [of m a]
  show ?thesis
  proof (cases "k \<in> {1, 2, 4, 8}")
    case True
    have w: "load_le m a k = Some x \<Longrightarrow> x < 256 ^ k" for x
      by (rule load_le_bound)
    from True show ?thesis
      using p push parse w unfolding execute_deref_size_def
      by (cases "load_le m a k")
        (auto simp: l spec_load_def ks [of 1, simplified] ks [of 2, simplified] ks [of 4, simplified]
          ks [of 8, simplified] ucast_of_nat_small)
  next
    case False
    then show ?thesis
      using p parse ks [of 1] ks [of 2] ks [of 4] ks [of 8]
      by (simp add: execute_deref_size_def implements_def)
  qed
qed

lemma op_encode_nonempty: "op_encode p \<noteq> []"
  by (cases p) auto

lemma spec_op_nonempty: "spec_op A m regs p st = Some (Some st') \<Longrightarrow> st' \<noteq> []"
  by (cases "(A, m, regs, p, st)" rule: spec_op.cases)
    (auto simp: spec_push_def bind_eq_Some_conv split: if_splits)

text \<open>One opcode of the machine is one operation of the reference.\<close>

lemma execute_next_implements:
  assumes code: "bytes_at m (dataCursor M) (op_encode p)" and wf: "op_wf A p"
    and rep: "stack_rep (stack M) st" and ne: "st \<noteq> []"
  shows "case spec_op A m (registers M) p st of
      None \<Rightarrow> FIRCLSDwarfExpressionMachineExecuteNextOpcode A m M = None
    | Some s \<Rightarrow> implements (dataCursor M + of_nat (length (op_encode p)))
        (FIRCLSDwarfExpressionMachineExecuteNextOpcode A m M) s"
proof -
  let ?M = "M\<lparr>dataCursor := dataCursor M + 1\<rparr>"
  obtain a st' where st: "st = a # st'" using ne by (cases st) auto
  have rep': "stack_rep (stack ?M) (a # st')" using rep st by simp
  have parse: "FIRCLSParseUint8AndAdvance m (dataCursor M) = Some (hd (op_encode p), dataCursor M + 1)"
    using code by (cases p) (simp_all add: FIRCLSParseUint8AndAdvance_def load8_def)
  note step = FIRCLSDwarfExpressionMachineExecuteNextOpcode_def parse
  show ?thesis
  proof (cases p)
    case Deref
    with deref_implements [OF rep', of m] st show ?thesis by (simp add: step)
  next
    case Dup
    with dup_implements [OF rep'] st show ?thesis by (simp add: step)
  next
    case And
    with binary_implements [OF rep', of execute_and "(AND)"] st show ?thesis
      by (cases st') (simp_all add: step execute_and_def)
  next
    case Plus
    with binary_implements [OF rep', of execute_plus "(+)"] st show ?thesis
      by (cases st') (simp_all add: step execute_plus_def)
  next
    case Swap
    with swap_implements [OF rep'] st show ?thesis by (cases st') (simp_all add: step)
  next
    case (Plus_uconst k)
    with plus_uconst_implements [OF rep', of k m] wf code st show ?thesis
      by (simp add: step add.assoc)
  next
    case Ne
    with binary_implements [OF rep', of execute_ne "\<lambda>a b. if a \<noteq> b then 1 else 0"] st show ?thesis
      by (cases st') (simp_all add: step execute_ne_def)
  next
    case (Lit n)
    with wf have n: "n < 32" by simp
    then have opc: "\<And>j. j < 256 \<Longrightarrow> (of_nat (0x30 + n) :: u8) = of_nat j \<longleftrightarrow> 0x30 + n = j"
      by (simp only: word_of_nat_eq_iff) (simp add: take_bit_nat_eq_self)
    have b: "0x30 \<le> (of_nat (0x30 + n) :: u8)" "(of_nat (0x30 + n) :: u8) \<le> 0x4F"
      using n by (simp_all only: word_le_nat_alt) (simp_all add: byte_of_nat del: of_nat_add)
    from Lit n b st rep' litN_implements [OF rep' n]
      opc [of 6] opc [of 18] opc [of 26] opc [of 34] opc [of 22] opc [of 35] opc [of 46]
    show ?thesis by (simp add: step del: of_nat_add)
  next
    case (Breg n off)
    with wf have n: "n < 32" by simp
    then have opc: "\<And>j. j < 256 \<Longrightarrow> (of_nat (0x70 + n) :: u8) = of_nat j \<longleftrightarrow> 0x70 + n = j"
      by (simp only: word_of_nat_eq_iff) (simp add: take_bit_nat_eq_self)
    have b: "0x70 \<le> (of_nat (0x70 + n) :: u8)" "(of_nat (0x70 + n) :: u8) \<le> 0x8F"
      "\<not> (of_nat (0x70 + n) :: u8) \<le> 0x4F"
      using n by (simp_all only: word_le_nat_alt) (simp_all add: byte_of_nat del: of_nat_add)
    from Breg b st bregN_implements [OF rep', of A n off m] wf code
      opc [of 6] opc [of 18] opc [of 26] opc [of 34] opc [of 22] opc [of 35] opc [of 46]
    show ?thesis by (simp add: step add.assoc del: of_nat_add)
  next
    case (Deref_size k)
    with deref_size_implements [OF rep', of k m A "registers M"] wf code st show ?thesis
      by (cases "spec_op A m (registers M) p st")
        (simp_all add: step add.assoc del: spec_op.simps)
  qed
qed

lemma evaluate_loop_implements:
  assumes "bytes_at m (dataCursor M) (concat (map op_encode ps))" "list_all (op_wf A) ps"
    and "stack_rep (stack M) st" "st \<noteq> []"
    and "unat (dataCursor M) + length (concat (map op_encode ps)) < 2 ^ 64"
    and "FIRCLSIsValidPointer (dataCursor M)"
    and "endAddress M = dataCursor M + of_nat (length (concat (map op_encode ps)))"
  shows "case spec_run A m (registers M) ps st of
      None \<Rightarrow> evaluate_loop A m M = None
    | Some None \<Rightarrow> evaluate_loop A m M = Some None
    | Some (Some st') \<Rightarrow> \<exists>M'. evaluate_loop A m M = Some (Some M') \<and>
        stack_rep (stack M') st' \<and> st' \<noteq> [] \<and> dataCursor M' = endAddress M'"
  using assms
proof (induction ps arbitrary: M st)
  case Nil
  then have "FIRCLSDwarfExpressionMachineIsFinished M"
    by (simp add: FIRCLSDwarfExpressionMachineIsFinished_def)
  with Nil show ?case by (simp add: evaluate_loop.simps [of A m M])
next
  case (Cons p ps)
  let ?n = "length (op_encode p)" and ?l = "length (concat (map op_encode ps))"
  have n: "0 < ?n" using op_encode_nonempty by simp
  have e: "unat (endAddress M) = unat (dataCursor M) + (?n + ?l)"
    using Cons.prems(5,7) unat_add_of_nat_small [of "dataCursor M" "?n + ?l"] by simp
  then have "\<not> FIRCLSDwarfExpressionMachineIsFinished M"
    using Cons.prems(3,6) n
    by (simp add: FIRCLSDwarfExpressionMachineIsFinished_def valid_pointer_iff
        FIRCLSDwarfExpressionStackIsValid_def stack_rep_def word_le_nat_alt)
  then have loop: "evaluate_loop A m M =
      (case FIRCLSDwarfExpressionMachineExecuteNextOpcode A m M of
         None \<Rightarrow> None | Some (ok, M') \<Rightarrow> if \<not> ok then Some None else evaluate_loop A m M')"
    by (subst evaluate_loop.simps) simp
  have step: "case spec_op A m (registers M) p st of
      None \<Rightarrow> FIRCLSDwarfExpressionMachineExecuteNextOpcode A m M = None
    | Some s \<Rightarrow> implements (dataCursor M + of_nat ?n)
        (FIRCLSDwarfExpressionMachineExecuteNextOpcode A m M) s"
    using Cons.prems(1-4) by (intro execute_next_implements) (simp_all add: bytes_at_append)
  show ?case
  proof (cases "spec_op A m (registers M) p st")
    case None
    with step loop show ?thesis by simp
  next
    case (Some s)
    with step obtain ok M' where x: "FIRCLSDwarfExpressionMachineExecuteNextOpcode A m M = Some (ok, M')"
      and i: "implements (dataCursor M + of_nat ?n) (Some (ok, M')) s"
      by (auto simp: implements_def split: option.split_asm)
    show ?thesis
    proof (cases s)
      case None
      with i x loop Some show ?thesis by (simp add: implements_def)
    next
      case (Some st')
      have sp: "registers M' = registers M" "endAddress M' = endAddress M"
        using execute_next_frame [OF x] by (simp_all add: same_program_def)
      from i Some have i': "ok" "stack_rep (stack M') st'" "dataCursor M' = dataCursor M + of_nat ?n"
        by (simp_all add: implements_def)
      have u: "unat (dataCursor M') = unat (dataCursor M) + ?n"
        using Cons.prems(5) by (simp add: i' unat_add_of_nat_small)
      have "st' \<noteq> []" using \<open>spec_op A m (registers M) p st = Some s\<close>
        spec_op_nonempty [of A m "registers M" p st st'] Some by simp
      then have IH: "case spec_run A m (registers M') ps st' of
          None \<Rightarrow> evaluate_loop A m M' = None
        | Some None \<Rightarrow> evaluate_loop A m M' = Some None
        | Some (Some st') \<Rightarrow> \<exists>M''. evaluate_loop A m M' = Some (Some M'') \<and>
            stack_rep (stack M'') st' \<and> st' \<noteq> [] \<and> dataCursor M'' = endAddress M''"
        using Cons.prems(1,2,5-7) i' sp u
        by (intro Cons.IH) (simp_all add: bytes_at_append valid_pointer_iff add.assoc)
      have l: "evaluate_loop A m M = evaluate_loop A m M'" using x i' loop by simp
      have r: "spec_run A m (registers M) (p # ps) st = spec_run A m (registers M') ps st'"
        using \<open>spec_op A m (registers M) p st = Some s\<close> Some sp by simp
      show ?thesis unfolding l r by (rule IH)
    qed
  qed
qed

lemma init_rep:
  "FIRCLSIsValidPointer c \<Longrightarrow> \<exists>M. FIRCLSDwarfExpressionMachineInit c regs v = Some (True, M) \<and>
     stack_rep (stack M) [v] \<and> dataCursor M = c \<and> registers M = regs"
  by (simp add: FIRCLSDwarfExpressionMachineInit_def FIRCLSDwarfExpressionStackPush_def
      FIRCLSDwarfExpressionStackInit_def FIRCLSDwarfExpressionStackIsValid_def stack_rep_def buffer_put_def
      CLS_DWARF_EXPRESSION_STACK_SIZE_def numeral_eq_Suc)

text \<open>An expression block: its length, then its operations.\<close>

definition expression_block :: "dwarf_op list \<Rightarrow> u8 list" where
  "expression_block ps =
     (let code = concat (map op_encode ps) in uleb128_encode (length code) @ code)"

lemma expression_code_nonempty: "ps \<noteq> [] \<Longrightarrow> 0 < length (concat (map op_encode ps))"
  using op_encode_nonempty by (cases ps) auto

lemma evaluate_block:
  assumes "bytes_at m c (expression_block ps)" "list_all (op_wf A) ps" "ps \<noteq> []"
    and "FIRCLSIsValidPointer c" "unat c + length (expression_block ps) < 2 ^ 64"
    and "length (concat (map op_encode ps)) < 2 ^ 31"
  shows "FIRCLSDwarfEvalulateExpression A m c regs v = map_option (map_option hd) (spec_run A m regs ps [v])"
proof -
  define code where "code = concat (map op_encode ps)"
  define n where "n = length (uleb128_encode (length code))"
  have b: "bytes_at m c (uleb128_encode (length code))" "bytes_at m (c + of_nat n) code"
    using assms(1) by (simp_all add: expression_block_def Let_def code_def n_def bytes_at_append)
  have parse: "FIRCLSParseULEB128AndAdvance m c = Some (of_nat (length code), c + of_nat n)"
    unfolding n_def using assms(6) b(1) by (intro uleb128_decode) (simp_all add: code_def)
  have len: "(of_nat (length code) :: u64) \<noteq> 0"
  proof
    assume "(of_nat (length code) :: u64) = 0"
    then have "unat (of_nat (length code) :: u64) = 0" by simp
    then show False
      using assms(6) expression_code_nonempty [OF assms(3)] by (simp add: code_def unat_of_nat_small)
  qed
  obtain M0 where M0: "FIRCLSDwarfExpressionMachineInit c regs v = Some (True, M0)"
    "stack_rep (stack M0) [v]" "dataCursor M0 = c" "registers M0 = regs"
    using init_rep [OF assms(4), of regs v] by (elim exE conjE) (rule that)
  define M where "M = M0\<lparr>dataCursor := c + of_nat n, endAddress := c + of_nat n + of_nat (length code)\<rparr>"
  have u: "unat (c + of_nat n) = unat c + n"
    using assms(5) by (intro unat_add_of_nat_small) (simp add: expression_block_def n_def code_def Let_def)
  have run: "case spec_run A m (registers M) ps [v] of
      None \<Rightarrow> evaluate_loop A m M = None
    | Some None \<Rightarrow> evaluate_loop A m M = Some None
    | Some (Some st') \<Rightarrow> \<exists>M'. evaluate_loop A m M = Some (Some M') \<and>
        stack_rep (stack M') st' \<and> st' \<noteq> [] \<and> dataCursor M' = endAddress M'"
    using assms b M0 u
    by (intro evaluate_loop_implements)
      (simp_all add: M_def code_def n_def valid_pointer_iff expression_block_def Let_def)
  have ev: "FIRCLSDwarfEvalulateExpression A m c regs v =
     do { finished \<leftarrow> evaluate_loop A m M;
          case finished of None \<Rightarrow> Some None
          | Some M \<Rightarrow> FIRCLSDwarfExpressionMachineGetResult M }"
    using assms(4) M0 parse len
    by (simp add: FIRCLSDwarfEvalulateExpression_def FIRCLSDwarfExpressionMachinePrepareForExecution_def
        M_def)
  have res: "FIRCLSDwarfExpressionMachineGetResult M' = Some (Some (hd st'))"
    if "stack_rep (stack M') st'" "st' \<noteq> []" "dataCursor M' = endAddress M'" for M' :: "'a machine" and st'
    using that peek_rep [of "stack M'" "hd st'" "tl st'"] stack_rep_valid [of "stack M'" st']
    by (simp add: FIRCLSDwarfExpressionMachineGetResult_def)
  have r: "registers M = regs" using M0 by (simp add: M_def)
  show ?thesis
  proof (cases "spec_run A m regs ps [v]")
    case None
    with run show ?thesis unfolding ev r by simp
  next
    case (Some s)
    with run res show ?thesis unfolding ev r by (cases s) auto
  qed
qed


text \<open>C1: Evaluating an assembled DWARF expression with the machine gives what the reference semantics
  on an abstract stack gives: the same value, the same rejections (underflow, overflow past 100
  entries, unreadable deref) and the same faults; the evaluation always ends.\<close>

theorem evaluate_expression_correct:
  assumes "bytes_at m c (expression_block ps)" "list_all (op_wf A) ps" "ps \<noteq> []"
    and "FIRCLSIsValidPointer c" "unat c + length (expression_block ps) < 2 ^ 64"
    and "length (concat (map op_encode ps)) < 2 ^ 31"
  shows "FIRCLSDwarfEvalulateExpression A m c regs v =
           map_option (map_option hd) (spec_run A m regs ps [v])"
  using assms by (rule evaluate_block)

theorem evaluate_expression_correct_witness:
  "\<forall>regs. FIRCLSDwarfEvalulateExpression x86_64_arch
     (mem_of 4096 [6, 0x23, 172, 2, 0x33, 0x22, 0x12]) 4096 regs 5 = Some (Some 308)"
proof
  fix regs
  let ?ps = "[Plus_uconst 300, Lit 3, Plus, Dup]" and ?code = "[6, 0x23, 172, 2, 0x33, 0x22, 0x12] :: u8 list"
  have e: "expression_block ?ps = ?code"
    by (simp add: expression_block_def uleb128_encode.simps)
  have b: "bytes_at (mem_of 4096 ?code) 4096 ?code" by (rule bytes_at_mem_of) simp
  show "FIRCLSDwarfEvalulateExpression x86_64_arch (mem_of 4096 ?code) 4096 regs 5 = Some (Some 308)"
    using evaluate_expression_correct [of "mem_of 4096 ?code" 4096 ?ps x86_64_arch regs 5] b
    by (simp add: e FIRCLSIsValidPointer_def spec_push_def CLS_DWARF_EXPRESSION_STACK_SIZE_def
        uleb128_encode.simps)
qed

section \<open>Memory safety of the stack\<close>

text \<open>The stack pointer is inside the buffer, just past it, or \<open>NULL\<close>.\<close>

definition stack_ok :: "expression_stack \<Rightarrow> bool" where
  "stack_ok s \<longleftrightarrow>
     (case pointer s of
        None \<Rightarrow> True
      | Some p \<Rightarrow> 0 \<le> p \<and> p \<le> int CLS_DWARF_EXPRESSION_STACK_SIZE)"

lemma push_safe:
  "stack_ok s \<Longrightarrow> \<exists>ok s'. FIRCLSDwarfExpressionStackPush s v = Some (ok, s') \<and> stack_ok s'"
  by (cases "pointer s")
    (auto simp: FIRCLSDwarfExpressionStackPush_def FIRCLSDwarfExpressionStackIsValid_def stack_ok_def
      buffer_put_def)

lemma peek_safe:
  "stack_ok s \<Longrightarrow> \<exists>v s'. FIRCLSDwarfExpressionStackPeek s = Some (v, s') \<and> stack_ok s'"
  by (cases "pointer s")
    (auto simp: FIRCLSDwarfExpressionStackPeek_def FIRCLSDwarfExpressionStackIsValid_def stack_ok_def
      buffer_get_def)

lemma init_safe:
  "\<exists>ok M. FIRCLSDwarfExpressionMachineInit c regs v = Some (ok, M) \<and> stack_ok (stack M)"
proof -
  have "stack_ok FIRCLSDwarfExpressionStackInit"
    by (simp add: stack_ok_def FIRCLSDwarfExpressionStackInit_def)
  then obtain ok s where "FIRCLSDwarfExpressionStackPush FIRCLSDwarfExpressionStackInit v = Some (ok, s)"
    "stack_ok s" using push_safe by blast
  then show ?thesis
    by (cases "FIRCLSIsValidPointer c")
      (simp_all add: FIRCLSDwarfExpressionMachineInit_def stack_ok_def Let_def ex_bool_eq)
qed

text \<open>The entry a pop returns, 0 for a stack that is empty or invalid.\<close>

definition stack_top :: "expression_stack \<Rightarrow> u64" where
  "stack_top s =
     (case pointer s of
        None \<Rightarrow> 0
      | Some p \<Rightarrow> if p = 0 then 0 else buffer s ! nat (p - 1))"

lemma pop_safe:
  "stack_ok s \<Longrightarrow>
   \<exists>s'. FIRCLSDwarfExpressionStackPop s = Some (stack_top s, s') \<and> stack_ok s'"
  by (cases "pointer s")
    (auto simp: FIRCLSDwarfExpressionStackPop_def FIRCLSDwarfExpressionStackIsValid_def stack_ok_def
      buffer_get_def stack_top_def)

text \<open>An operation that does not fault and leaves the stack pointer in order.\<close>

definition runs_safely :: "(bool \<times> 'r machine) option \<Rightarrow> bool" where
  "runs_safely r \<longleftrightarrow> (\<exists>ok M. r = Some (ok, M) \<and> stack_ok (stack M))"

lemma runs_safely_Some [simp]: "runs_safely (Some (ok, M)) \<longleftrightarrow> stack_ok (stack M)"
  by (simp add: runs_safely_def)

lemma machine_push_safe [intro]:
  "stack_ok (stack M) \<Longrightarrow> runs_safely (FIRCLSDwarfExpressionMachineStackPush M v)"
  using push_safe [of "stack M" v]
  by (auto simp: FIRCLSDwarfExpressionMachineStackPush_def runs_safely_def)

lemma machine_pop_safe:
  assumes "stack_ok (stack M)"
  obtains s where
    "FIRCLSDwarfExpressionMachineStackPop M = Some (stack_top (stack M), M\<lparr>stack := s\<rparr>)" "stack_ok s"
  using pop_safe [OF assms] that by (force simp: FIRCLSDwarfExpressionMachineStackPop_def)

lemma binary_safe:
  assumes "stack_ok (stack M)"
  shows "runs_safely (do { (x, M1) \<leftarrow> FIRCLSDwarfExpressionMachineStackPop M;
           (y, M2) \<leftarrow> FIRCLSDwarfExpressionMachineStackPop M1;
           FIRCLSDwarfExpressionMachineStackPush M2 (g x y) })"
proof -
  obtain s where p: "FIRCLSDwarfExpressionMachineStackPop M = Some (stack_top (stack M), M\<lparr>stack := s\<rparr>)"
    and s: "stack_ok s" using assms by (rule machine_pop_safe)
  from s obtain s' where "FIRCLSDwarfExpressionMachineStackPop (M\<lparr>stack := s\<rparr>)
      = Some (stack_top s, M\<lparr>stack := s'\<rparr>)" "stack_ok s'"
    using machine_pop_safe [of "M\<lparr>stack := s\<rparr>"] by force
  with p show ?thesis by (simp add: machine_push_safe)
qed

lemma swap_safe:
  assumes "stack_ok (stack M)"
  shows "runs_safely (execute_swap M)"
proof -
  obtain s where p: "FIRCLSDwarfExpressionMachineStackPop M = Some (stack_top (stack M), M\<lparr>stack := s\<rparr>)"
    and s: "stack_ok s" using assms by (rule machine_pop_safe)
  from s obtain s' where q: "FIRCLSDwarfExpressionMachineStackPop (M\<lparr>stack := s\<rparr>)
      = Some (stack_top s, M\<lparr>stack := s'\<rparr>)" "stack_ok s'"
    using machine_pop_safe [of "M\<lparr>stack := s\<rparr>"] by force
  have "runs_safely (FIRCLSDwarfExpressionMachineStackPush (M\<lparr>stack := s'\<rparr>) (stack_top (stack M)))"
    using q(2) by (intro machine_push_safe) simp
  then obtain ok M3 where "FIRCLSDwarfExpressionMachineStackPush (M\<lparr>stack := s'\<rparr>) (stack_top (stack M))
      = Some (ok, M3)" "stack_ok (stack M3)" by (auto simp: runs_safely_def)
  with p q show ?thesis by (simp add: execute_swap_def machine_push_safe)
qed

lemma plain_opcodes_safe:
  assumes "stack_ok (stack M)"
  shows "runs_safely (execute_deref m M)" "runs_safely (execute_dup M)" "runs_safely (execute_and M)"
    "runs_safely (execute_plus M)" "runs_safely (execute_ne M)" "runs_safely (execute_litN M opcode)"
proof -
  obtain s where "FIRCLSDwarfExpressionMachineStackPop M = Some (stack_top (stack M), M\<lparr>stack := s\<rparr>)"
    "stack_ok s" using assms by (rule machine_pop_safe)
  then show "runs_safely (execute_deref m M)"
    by (cases "read_word m (stack_top (stack M))") (auto simp: execute_deref_def intro: machine_push_safe)
  obtain v s' where "FIRCLSDwarfExpressionStackPeek (stack M) = Some (v, s')" "stack_ok s'"
    using peek_safe [OF assms] by blast
  then show "runs_safely (execute_dup M)" by (simp add: execute_dup_def machine_push_safe)
  show "runs_safely (execute_and M)" "runs_safely (execute_plus M)" "runs_safely (execute_ne M)"
    unfolding execute_and_def execute_plus_def execute_ne_def by (rule binary_safe [OF assms])+
  show "runs_safely (execute_litN M opcode)"
    using assms by (simp add: execute_litN_def machine_push_safe)
qed

text \<open>What an opcode at the cursor reads besides the stack: its operand, and for \<open>DW_OP_deref_size\<close>
  the memory at the address it pops.\<close>

definition size_operand_readable :: "mem \<Rightarrow> addr \<Rightarrow> addr \<Rightarrow> bool" where
  "size_operand_readable m c address =
     (case m c of
        None \<Rightarrow> False
      | Some k \<Rightarrow> unat k \<in> {1, 2, 4, 8} \<longrightarrow> load_bytes m address (unat k) \<noteq> None)"

definition opcode_readable :: "'r arch \<Rightarrow> mem \<Rightarrow> 'r machine \<Rightarrow> bool" where
  "opcode_readable A m M =
     (case m (dataCursor M) of
        None \<Rightarrow> False
      | Some opcode \<Rightarrow>
          let c = dataCursor M + 1 in
          if opcode = 0x23 then FIRCLSParseULEB128AndAdvance m c \<noteq> None
          else if 0x70 \<le> opcode \<and> opcode \<le> 0x8F
          then ucast (opcode - 0x70) \<le> max_reg A \<longrightarrow> FIRCLSParseLEB128AndAdvance m c \<noteq> None
          else if opcode = 0x94 then size_operand_readable m c (stack_top (stack M))
          else True)"

text \<open>An operation that runs safely if \<open>r\<close> is readable, and faults otherwise.\<close>

definition safe_iff :: "bool \<Rightarrow> (bool \<times> 'r machine) option \<Rightarrow> bool" where
  "safe_iff readable r \<longleftrightarrow> (if readable then runs_safely r else r = None)"

lemma safe_iff_True [simp]: "safe_iff True r \<longleftrightarrow> runs_safely r"
  by (simp add: safe_iff_def)

lemma plus_uconst_safe:
  assumes "stack_ok (stack M)"
  shows "safe_iff (FIRCLSParseULEB128AndAdvance m (dataCursor M) \<noteq> None) (execute_plus_uconst m M)"
proof -
  obtain s where "FIRCLSDwarfExpressionMachineStackPop M = Some (stack_top (stack M), M\<lparr>stack := s\<rparr>)"
    "stack_ok s" using assms by (rule machine_pop_safe)
  then show ?thesis
    by (cases "FIRCLSParseULEB128AndAdvance m (dataCursor M)")
      (auto simp: execute_plus_uconst_def safe_iff_def machine_push_safe)
qed

lemma bregN_safe:
  assumes "stack_ok (stack M)"
  shows "safe_iff (ucast (opcode - 0x70) \<le> max_reg A \<longrightarrow> FIRCLSParseLEB128AndAdvance m (dataCursor M) \<noteq> None)
     (execute_bregN A m M opcode)"
  using assms by (cases "FIRCLSParseLEB128AndAdvance m (dataCursor M)")
    (auto simp: execute_bregN_def Let_def safe_iff_def not_less machine_push_safe)

lemma load_le_readable: "load_le m a k = None \<longleftrightarrow> load_bytes m a k = None"
  by (simp add: load_le_def)

lemma deref_size_safe:
  assumes "stack_ok (stack M)"
  shows "safe_iff (size_operand_readable m (dataCursor M) (stack_top (stack M))) (execute_deref_size m M)"
proof -
  obtain s where p: "FIRCLSDwarfExpressionMachineStackPop M = Some (stack_top (stack M), M\<lparr>stack := s\<rparr>)"
    "stack_ok s" using assms by (rule machine_pop_safe)
  have k: "unat k = j \<longleftrightarrow> k = of_nat j" if "j < 256" for k :: u8 and j
    using that by (auto simp: unat_of_nat_small)
  show ?thesis
  proof (cases "m (dataCursor M)")
    case None
    with p show ?thesis
      by (simp add: execute_deref_size_def safe_iff_def size_operand_readable_def
          FIRCLSParseUint8AndAdvance_def load8_def)
  next
    case (Some b)
    then have b: "FIRCLSParseUint8AndAdvance m (dataCursor M) = Some (b, dataCursor M + 1)"
      by (simp add: FIRCLSParseUint8AndAdvance_def load8_def)
    have r: "size_operand_readable m (dataCursor M) (stack_top (stack M)) \<longleftrightarrow>
        (b \<in> {1, 2, 4, 8} \<longrightarrow> load_le m (stack_top (stack M)) (unat b) \<noteq> None)"
      using Some k [of 1 b] k [of 2 b] k [of 4 b] k [of 8 b]
      by (simp add: size_operand_readable_def load_le_readable)
    show ?thesis
    proof (cases "b \<in> {1, 2, 4, 8}")
      case True
      then show ?thesis
        unfolding safe_iff_def r using p b
        by (cases "load_le m (stack_top (stack M)) (unat b)")
          (auto simp: execute_deref_size_def parse_as_load_le [of m "stack_top (stack M)"]
            machine_push_safe)
    next
      case False
      with p b show ?thesis unfolding safe_iff_def r by (simp add: execute_deref_size_def)
    qed
  qed
qed

lemma execute_next_safe:
  assumes "stack_ok (stack M)"
  shows "safe_iff (opcode_readable A m M) (FIRCLSDwarfExpressionMachineExecuteNextOpcode A m M)"
proof (cases "m (dataCursor M)")
  case None
  then show ?thesis
    by (simp add: opcode_readable_def safe_iff_def FIRCLSParseUint8AndAdvance_def load8_def
        FIRCLSDwarfExpressionMachineExecuteNextOpcode_def)
next
  case (Some opcode)
  let ?M = "M\<lparr>dataCursor := dataCursor M + 1\<rparr>"
  have M: "stack_ok (stack ?M)" using assms by simp
  have b: "FIRCLSParseUint8AndAdvance m (dataCursor M) = Some (opcode, dataCursor M + 1)"
    using Some by (simp add: FIRCLSParseUint8AndAdvance_def load8_def)
  note plain = plain_opcodes_safe [OF M] swap_safe [OF M]
  have o: "112 \<le> opcode \<Longrightarrow> \<not> opcode \<le> 79 \<and> opcode \<noteq> 46" by (auto simp: word_le_nat_alt)
  show ?thesis
    using plus_uconst_safe [OF M, of m] bregN_safe [OF M, of opcode A m] deref_size_safe [OF M, of m]
    unfolding FIRCLSDwarfExpressionMachineExecuteNextOpcode_def opcode_readable_def Some Let_def b
    by (cases "112 \<le> opcode") (use o assms in \<open>simp_all add: plain\<close>)
qed

text \<open>C25: Whatever bytes an expression has, executing one opcode never reads or writes outside the
  100 entries of the stack: it faults exactly when the bytes of the opcode and its operand, or
  the memory DW_OP_deref_size is told to read, cannot be read, and otherwise leaves the stack
  pointer inside the buffer, just past it, or NULL.\<close>

theorem execute_next_stack_safe:
  assumes "stack_ok (stack M)"
  shows "case FIRCLSDwarfExpressionMachineExecuteNextOpcode A m M of
           None \<Rightarrow> \<not> opcode_readable A m M
         | Some (ok, M') \<Rightarrow> opcode_readable A m M \<and> stack_ok (stack M')"
  using execute_next_safe [OF assms, of A m]
  by (auto simp: safe_iff_def runs_safely_def split: if_split_asm)

theorem execute_next_stack_safe_witness:
  "\<forall>regs. \<exists>ok M'. FIRCLSDwarfExpressionMachineExecuteNextOpcode x86_64_arch (mem_of 4096 [0x16])
      \<lparr>stack = FIRCLSDwarfExpressionStackInit, dataCursor = 4096, endAddress = 4097, registers = regs\<rparr>
    = Some (ok, M') \<and> stack_ok (stack M')"
proof
  fix regs :: x86_64_context
  let ?M = "\<lparr>stack = FIRCLSDwarfExpressionStackInit, dataCursor = 4096, endAddress = 4097,
             registers = regs :: x86_64_context\<rparr>"
  have s: "stack_ok (stack ?M)" by (simp add: stack_ok_def FIRCLSDwarfExpressionStackInit_def)
  have "opcode_readable x86_64_arch (mem_of 4096 [0x16]) ?M"
    by (simp add: opcode_readable_def mem_of_def)
  with execute_next_stack_safe [OF s, of x86_64_arch "mem_of 4096 [0x16]"]
  show "\<exists>ok M'. FIRCLSDwarfExpressionMachineExecuteNextOpcode
      x86_64_arch (mem_of 4096 [0x16]) ?M = Some (ok, M') \<and> stack_ok (stack M')"
    by (auto split: option.split_asm)
qed

section \<open>Unreadable addresses\<close>

text \<open>\<open>DW_OP_deref\<close> reads through \<open>FIRCLSReadMemory\<close> and so rejects an address that cannot be
  read; \<open>DW_OP_deref_size\<close> dereferences it and faults.\<close>

theorem deref_checked_deref_size_not:
  assumes "a \<ge> 4096" "m a = None"
    and "bytes_at m c (expression_block [Deref])" "bytes_at m d (expression_block [Deref_size 8])"
    and "4096 \<le> unat c" "unat c < 2 ^ 63" "4096 \<le> unat d" "unat d < 2 ^ 63"
  shows "FIRCLSDwarfEvalulateExpression A m c regs a = Some None \<and>
         FIRCLSDwarfEvalulateExpression A m d regs a = None"
proof -
  have l: "load_bytes m a (Suc n) = None" for n using assms(2) by simp
  then have l: "spec_load m a 8 = None"
    using l [of 7] by (simp add: spec_load_def load_le_def)
  have "length (expression_block [Deref]) = 2" "length (expression_block [Deref_size 8]) = 3"
    by (simp_all add: expression_block_def uleb128_encode.simps)
  then show ?thesis
    using assms l evaluate_block [of m c "[Deref]" A regs a]
      evaluate_block [of m d "[Deref_size 8]" A regs a]
    by (simp add: valid_pointer_iff)
qed

theorem deref_checked_deref_size_not_witness:
  "let m = mem_of 4096 [1, 6, 2, 0x94, 8] in
   \<forall>regs. FIRCLSDwarfEvalulateExpression x86_64_arch m 4096 regs 5000 = Some None \<and>
          FIRCLSDwarfEvalulateExpression x86_64_arch m 4098 regs 5000 = None"
proof (unfold Let_def, rule allI)
  fix regs
  let ?m = "mem_of 4096 [1, 6, 2, 0x94, 8]"
  have e: "expression_block [Deref] = [1, 6]" "expression_block [Deref_size 8] = [2, 0x94, 8]"
    by (simp_all add: expression_block_def uleb128_encode.simps)
  have "bytes_at ?m 4096 ([1, 6] @ [2, 0x94, 8])"
    using bytes_at_mem_of [of "[1, 6, 2, 0x94, 8]" 4096] by simp
  then have b: "bytes_at ?m 4096 [1, 6]" "bytes_at ?m 4098 [2, 0x94, 8]"
    by (simp_all only: bytes_at_append) simp
  have "?m 5000 = None" by (simp add: mem_of_def)
  then show "FIRCLSDwarfEvalulateExpression x86_64_arch ?m 4096 regs 5000 = Some None \<and>
      FIRCLSDwarfEvalulateExpression x86_64_arch ?m 4098 regs 5000 = None"
    using deref_checked_deref_size_not [of 5000 ?m 4096 4098 x86_64_arch regs] b by (simp only: e) simp
qed

end
