(* ===== verification/DwarfUnwind.thy ===== *)
theory DwarfUnwind
  imports ExpressionMachine
begin

text \<open>
  Call-frame information: \<open>Unwind/Dwarf/FIRCLSDwarfUnwind.c\<close>. The parsers of CIE and FDE records,
  the interpreter of call-frame instructions, and the computation of the caller's registers.

  A parser that fills a record through a pointer returns the record (and the advanced cursor) here;
  the inner \<open>None\<close> is its \<open>false\<close>, after which no caller looks at the record, and the outer \<open>None\<close>
  a fault. The structures of the code's own (\<open>state\<close>, \<open>registers\<close>, \<open>codeOffset\<close>) are passed by
  value, as in the other theories; the data pointers' guards are modelled. Logging is left out.
\<close>

section \<open>Structures\<close>

record DWARFInstructions =
  instr_length :: u32
  instr_data :: addr

record DWARFCIERecord =
  cie_length :: u64
  version :: u8
  augmentation :: addr
  pointerEncoding :: u8
  lsdaEncoding :: u8
  personalityEncoding :: u8
  personalityFunction :: u64
  codeAlignFactor :: u64
  dataAlignFactor :: u64
  returnAddressRegister :: u64
  signalFrame :: bool
  cie_instructions :: DWARFInstructions

record DWARFFDERecord =
  fde_length :: u64
  cieOffset :: u64
  startAddress :: addr
  rangeSize :: u64
  fde_instructions :: DWARFInstructions

record FIRCLSDwarfCFIRecord =
  cfi_cie :: DWARFCIERecord
  cfi_fde :: DWARFFDERecord

datatype FIRCLSDwarfRegisterLocation =
    FIRCLSDwarfRegisterUnused | FIRCLSDwarfRegisterInCFA | FIRCLSDwarfRegisterOffsetFromCFA
  | FIRCLSDwarfRegisterInRegister | FIRCLSDwarfRegisterAtExpression | FIRCLSDwarfRegisterIsExpression

record FIRCLSDwarfRegister =
  location :: FIRCLSDwarfRegisterLocation
  reg_value :: u64

record FIRCLSDwarfState =
  cfaRegister :: u64
  cfaRegisterOffset :: u64
  cfaExpression :: addr
  spArgSize :: u32
  dw_registers :: "FIRCLSDwarfRegister list"

text \<open>The zeroed structures that \<open>memset\<close> leaves.\<close>

definition zero_instructions :: DWARFInstructions where
  "zero_instructions = \<lparr>instr_length = 0, instr_data = 0\<rparr>"

definition zero_cie :: DWARFCIERecord where
  "zero_cie = \<lparr>cie_length = 0, version = 0, augmentation = 0, pointerEncoding = 0, lsdaEncoding = 0,
     personalityEncoding = 0, personalityFunction = 0, codeAlignFactor = 0, dataAlignFactor = 0,
     returnAddressRegister = 0, signalFrame = False, cie_instructions = zero_instructions\<rparr>"

definition zero_register :: FIRCLSDwarfRegister where
  "zero_register = \<lparr>location = FIRCLSDwarfRegisterUnused, reg_value = 0\<rparr>"

definition zero_state :: "'r arch \<Rightarrow> FIRCLSDwarfState" where
  "zero_state A = \<lparr>cfaRegister = 0, cfaRegisterOffset = 0, cfaExpression = 0, spArgSize = 0,
     dw_registers = replicate (unat (max_reg A) + 1) zero_register\<rparr>"

section \<open>CIE records\<close>

text \<open>The loop over the augmentation string; \<open>n\<close> characters are left, the next one at \<open>a\<close>.\<close>

fun augmentation_loop ::
    "nat \<Rightarrow> mem \<Rightarrow> addr \<Rightarrow> addr \<Rightarrow> DWARFCIERecord \<Rightarrow> addr \<Rightarrow> (DWARFCIERecord \<times> addr) option option" where
  "augmentation_loop 0 m a ending record ptr = Some (Some (record, ptr))"
| "augmentation_loop (Suc n) m a ending record ptr =
     do { ch \<leftarrow> load8 m a;
          step \<leftarrow>
            (if ch = 0x4C then
               do { (enc, p) \<leftarrow> FIRCLSParseUint8AndAdvance m ptr;
                    Some (Some (record\<lparr>lsdaEncoding := enc\<rparr>, p)) }
             else if ch = 0x52 then
               do { (enc, p) \<leftarrow> FIRCLSParseUint8AndAdvance m ptr;
                    Some (Some (record\<lparr>pointerEncoding := enc\<rparr>, p)) }
             else if ch = 0x50 then
               do { (enc, p) \<leftarrow> FIRCLSParseUint8AndAdvance m ptr;
                    (f, p') \<leftarrow> FIRCLSParseAddressWithEncodingAndAdvance m p enc;
                    if f = CLS_INVALID_ADDRESS then Some None
                    else Some (Some (record\<lparr>personalityEncoding := enc, personalityFunction := f\<rparr>, p')) }
             else if ch = 0x53 then Some (Some (record\<lparr>signalFrame := True\<rparr>, ptr))
             else Some None);
          case step of
            None \<Rightarrow> Some None
          | Some (record', ptr') \<Rightarrow>
              if ptr' > ending then Some None
              else augmentation_loop n m (a + 1) ending record' ptr' }"

definition FIRCLSDwarfParseAndProcessAugmentation ::
    "mem \<Rightarrow> DWARFCIERecord \<Rightarrow> addr \<Rightarrow> (DWARFCIERecord \<times> addr) option option" where
  "FIRCLSDwarfParseAndProcessAugmentation m record ptr =
     (if augmentation record = 0 then Some None
      else do {
        c0 \<leftarrow> load8 m (augmentation record);
        if c0 = 0 then Some (Some (record, ptr))
        else if c0 \<noteq> 0x7A then Some None
        else do {
          stringLength \<leftarrow> c_strlen m (augmentation record) 0;
          (dataLength, p) \<leftarrow> FIRCLSParseULEB128AndAdvance m ptr;
          let ending = p + dataLength;
          augmentation_loop (unat stringLength - 1) m (augmentation record + 1) ending record p } })"

text \<open>A missing CIE flag and, until the return-address register is read, an unsupported version
  are only logged.\<close>

definition FIRCLSDwarfParseCIERecord :: "mem \<Rightarrow> addr \<Rightarrow> DWARFCIERecord option option" where
  "FIRCLSDwarfParseCIERecord m ptr0 =
     (if ptr0 = 0 then Some None
      else do {
        (len, p1) \<leftarrow> FIRCLSParseRecordLengthAndAdvance m ptr0;
        if len = 0 then Some None
        else do {
          let ending = p1 + len;
          (flag, p2) \<leftarrow> FIRCLSParseUint32AndAdvance m p1;
          (ver, p3) \<leftarrow> FIRCLSParseUint8AndAdvance m p2;
          (aug, p4) \<leftarrow> FIRCLSParseStringAndAdvance m p3;
          (caf, p5) \<leftarrow> FIRCLSParseULEB128AndAdvance m p4;
          (daf, p6) \<leftarrow> FIRCLSParseLEB128AndAdvance m p5;
          ra \<leftarrow> (if ver = 1 then
                    map_option (\<lambda>(r, p). Some (ucast r, p)) (FIRCLSParseUint8AndAdvance m p6)
                  else if ver = 3 then map_option Some (FIRCLSParseULEB128AndAdvance m p6)
                  else Some None);
          case ra of
            None \<Rightarrow> Some None
          | Some (rar, p7) \<Rightarrow>
              let cie = zero_cie\<lparr>cie_length := len, version := ver, pointerEncoding := 0,
                    lsdaEncoding := 0, augmentation := aug, codeAlignFactor := caf,
                    dataAlignFactor := daf, returnAddressRegister := rar\<rparr>
              in do {
                r \<leftarrow> FIRCLSDwarfParseAndProcessAugmentation m cie p7;
                case r of
                  None \<Rightarrow> Some None
                | Some (cie', p8) \<Rightarrow>
                    Some (Some (cie'\<lparr>cie_instructions :=
                      \<lparr>instr_length = ucast (ending - p8), instr_data = p8\<rparr>\<rparr>)) } } })"

definition FIRCLSDwarfCIEIsValid :: "DWARFCIERecord \<Rightarrow> bool" where
  "FIRCLSDwarfCIEIsValid cie =
     (if cie_length cie = 0 then False
      else if version cie \<noteq> 1 \<and> version cie \<noteq> 3 then False
      else True)"

definition FIRCLSDwarfCIEHasAugmentationData :: "mem \<Rightarrow> DWARFCIERecord \<Rightarrow> bool option" where
  "FIRCLSDwarfCIEHasAugmentationData m cie =
     (if augmentation cie = 0 then Some False
      else do { c \<leftarrow> load8 m (augmentation cie); Some (c = 0x7A) })"

section \<open>FDE records\<close>

definition FIRCLSDwarfParseFDERecord ::
    "mem \<Rightarrow> bool \<Rightarrow> DWARFCIERecord \<Rightarrow> addr \<Rightarrow> (DWARFFDERecord \<times> DWARFCIERecord) option option" where
  "FIRCLSDwarfParseFDERecord m parseCIE cie0 ptr =
     (if ptr = 0 then Some None
      else do {
        (len, p1) \<leftarrow> FIRCLSParseRecordLengthAndAdvance m ptr;
        if len = 0 then Some None
        else do {
          let ending = p1 + len;
          (off, p2) \<leftarrow> FIRCLSParseUint32AndAdvance m p1;
          if off = 0 then Some None
          else do {
            parsed \<leftarrow> (if parseCIE then FIRCLSDwarfParseCIERecord m (p2 - ucast off - 4)
                        else Some (Some cie0));
            case parsed of
              None \<Rightarrow> Some None
            | Some cie \<Rightarrow>
              if \<not> FIRCLSDwarfCIEIsValid cie then Some None
              else do {
                (start, p3) \<leftarrow> FIRCLSParseAddressWithEncodingAndAdvance m p2 (pointerEncoding cie);
                if start = CLS_INVALID_ADDRESS then Some None
                else do {
                  (range, p4) \<leftarrow>
                    FIRCLSParseAddressWithEncodingAndAdvance m p3 (pointerEncoding cie AND 0x0F);
                  if range = CLS_INVALID_ADDRESS then Some None
                  else do {
                    hasAug \<leftarrow> FIRCLSDwarfCIEHasAugmentationData m cie;
                    p5 \<leftarrow> (if hasAug then
                               do { (augLen, p) \<leftarrow> FIRCLSParseULEB128AndAdvance m p4; Some (p + augLen) }
                             else Some p4);
                    Some (Some (\<lparr>fde_length = len, cieOffset = ucast off, startAddress = start,
                      rangeSize = range, fde_instructions =
                        \<lparr>instr_length = ucast (ending - p5), instr_data = p5\<rparr>\<rparr>, cie)) } } } } } })"

definition FIRCLSDwarfParseCFIFromFDERecord :: "mem \<Rightarrow> addr \<Rightarrow> FIRCLSDwarfCFIRecord option option" where
  "FIRCLSDwarfParseCFIFromFDERecord m ptr =
     (if ptr = 0 then Some None
      else map_option (map_option (\<lambda>(fde, cie). \<lparr>cfi_cie = cie, cfi_fde = fde\<rparr>))
             (FIRCLSDwarfParseFDERecord m True zero_cie ptr))"

definition FIRCLSDwarfParseCFIFromFDERecordOffset ::
    "mem \<Rightarrow> addr \<Rightarrow> u64 \<Rightarrow> FIRCLSDwarfCFIRecord option option" where
  "FIRCLSDwarfParseCFIFromFDERecordOffset m ehFrame fdeOffset =
     (if ehFrame = 0 \<or> fdeOffset = 0 then Some None
      else FIRCLSDwarfParseCFIFromFDERecord m (ehFrame + fdeOffset))"

section \<open>Call-frame instructions\<close>

text \<open>Each returns the source's \<open>true\<close> as \<open>Some\<close> of what it changed: the cursor and the location
  or the state.\<close>

text \<open>The assignments to \<open>state->registers[regNum]\<close>: a fault outside the array, which is declared
  with \<open>CLS_DWARF_MAX_REGISTER_NUM + 1\<close> entries.\<close>

definition set_register ::
    "'r arch \<Rightarrow> u64 \<Rightarrow> FIRCLSDwarfRegisterLocation \<Rightarrow> u64 \<Rightarrow> FIRCLSDwarfState \<Rightarrow> FIRCLSDwarfState option" where
  "set_register A regNum loc v state =
     (if unat regNum < unat (max_reg A) + 1
      then Some (state\<lparr>dw_registers :=
             (dw_registers state)[unat regNum := \<lparr>location = loc, reg_value = v\<rparr>]\<rparr>)
      else None)"

definition ParseAndExecute_set_loc :: "mem \<Rightarrow> DWARFCIERecord \<Rightarrow> addr \<Rightarrow> (addr \<times> u64) option" where
  "ParseAndExecute_set_loc m cie cursor =
     do { (operand, c) \<leftarrow> FIRCLSParseAddressWithEncodingAndAdvance m cursor (pointerEncoding cie);
          Some (c, operand) }"

definition ParseAndExecute_advance_loc1 ::
    "mem \<Rightarrow> DWARFCIERecord \<Rightarrow> addr \<Rightarrow> u64 \<Rightarrow> (addr \<times> u64) option" where
  "ParseAndExecute_advance_loc1 m cie cursor codeOffset =
     do { (d, c) \<leftarrow> FIRCLSParseUint8AndAdvance m cursor;
          Some (c, codeOffset + ucast d * codeAlignFactor cie) }"

definition ParseAndExecute_advance_loc2 ::
    "mem \<Rightarrow> DWARFCIERecord \<Rightarrow> addr \<Rightarrow> u64 \<Rightarrow> (addr \<times> u64) option" where
  "ParseAndExecute_advance_loc2 m cie cursor codeOffset =
     do { (d, c) \<leftarrow> FIRCLSParseUint16AndAdvance m cursor;
          Some (c, codeOffset + ucast d * codeAlignFactor cie) }"

definition ParseAndExecute_advance_loc4 ::
    "mem \<Rightarrow> DWARFCIERecord \<Rightarrow> addr \<Rightarrow> u64 \<Rightarrow> (addr \<times> u64) option" where
  "ParseAndExecute_advance_loc4 m cie cursor codeOffset =
     do { (d, c) \<leftarrow> FIRCLSParseUint32AndAdvance m cursor;
          Some (c, codeOffset + ucast d * codeAlignFactor cie) }"

definition ParseAndExecute_def_cfa ::
    "'r arch \<Rightarrow> mem \<Rightarrow> addr \<Rightarrow> FIRCLSDwarfState \<Rightarrow> (addr \<times> FIRCLSDwarfState) option option" where
  "ParseAndExecute_def_cfa A m cursor state =
     do { (regNum, c) \<leftarrow> FIRCLSParseULEB128AndAdvance m cursor;
          if regNum > max_reg A then Some None
          else do { (offset, c') \<leftarrow> FIRCLSParseULEB128AndAdvance m c;
                    Some (Some (c', state\<lparr>cfaRegister := regNum, cfaRegisterOffset := offset\<rparr>)) } }"

definition ParseAndExecute_def_cfa_register ::
    "'r arch \<Rightarrow> mem \<Rightarrow> addr \<Rightarrow> FIRCLSDwarfState \<Rightarrow> (addr \<times> FIRCLSDwarfState) option option" where
  "ParseAndExecute_def_cfa_register A m cursor state =
     do { (regNum, c) \<leftarrow> FIRCLSParseULEB128AndAdvance m cursor;
          if regNum > max_reg A then Some None
          else Some (Some (c, state\<lparr>cfaRegister := regNum\<rparr>)) }"

definition ParseAndExecute_def_cfa_offset ::
    "mem \<Rightarrow> addr \<Rightarrow> FIRCLSDwarfState \<Rightarrow> (addr \<times> FIRCLSDwarfState) option option" where
  "ParseAndExecute_def_cfa_offset m cursor state =
     do { (offset, c) \<leftarrow> FIRCLSParseULEB128AndAdvance m cursor;
          Some (Some (c, state\<lparr>cfaRegisterOffset := offset\<rparr>)) }"

text \<open>\<open>same_value\<close> clears the location only and leaves the value.\<close>

definition ParseAndExecute_same_value ::
    "'r arch \<Rightarrow> mem \<Rightarrow> addr \<Rightarrow> FIRCLSDwarfState \<Rightarrow> (addr \<times> FIRCLSDwarfState) option option" where
  "ParseAndExecute_same_value A m cursor state =
     do { (regNum, c) \<leftarrow> FIRCLSParseULEB128AndAdvance m cursor;
          if regNum > max_reg A then Some None
          else do { state' \<leftarrow> set_register A regNum FIRCLSDwarfRegisterUnused
                      (reg_value (dw_registers state ! unat regNum)) state;
                    Some (Some (c, state')) } }"

definition ParseAndExecute_register ::
    "'r arch \<Rightarrow> mem \<Rightarrow> addr \<Rightarrow> FIRCLSDwarfState \<Rightarrow> (addr \<times> FIRCLSDwarfState) option option" where
  "ParseAndExecute_register A m cursor state =
     do { (regNum, c) \<leftarrow> FIRCLSParseULEB128AndAdvance m cursor;
          if regNum > max_reg A then Some None
          else do { (regValue, c') \<leftarrow> FIRCLSParseULEB128AndAdvance m c;
                    if regValue > max_reg A then Some None
                    else do { state' \<leftarrow> set_register A regNum FIRCLSDwarfRegisterInRegister regValue state;
                              Some (Some (c', state')) } } }"

definition ParseAndExecute_expression ::
    "'r arch \<Rightarrow> mem \<Rightarrow> addr \<Rightarrow> FIRCLSDwarfState \<Rightarrow> (addr \<times> FIRCLSDwarfState) option option" where
  "ParseAndExecute_expression A m cursor state =
     do { (regNum, c) \<leftarrow> FIRCLSParseULEB128AndAdvance m cursor;
          if regNum > max_reg A then Some None
          else do { (len, c') \<leftarrow> FIRCLSParseULEB128AndAdvance m c;
                    state' \<leftarrow> set_register A regNum FIRCLSDwarfRegisterAtExpression c state;
                    Some (Some (c' + len, state')) } }"

definition ParseAndExecute_val_expression ::
    "'r arch \<Rightarrow> mem \<Rightarrow> addr \<Rightarrow> FIRCLSDwarfState \<Rightarrow> (addr \<times> FIRCLSDwarfState) option option" where
  "ParseAndExecute_val_expression A m cursor state =
     do { (regNum, c) \<leftarrow> FIRCLSParseULEB128AndAdvance m cursor;
          if regNum > max_reg A then Some None
          else do { (len, c') \<leftarrow> FIRCLSParseULEB128AndAdvance m c;
                    state' \<leftarrow> set_register A regNum FIRCLSDwarfRegisterIsExpression c state;
                    Some (Some (c' + len, state')) } }"

definition ParseAndExecute_def_cfa_expression ::
    "'r arch \<Rightarrow> mem \<Rightarrow> addr \<Rightarrow> FIRCLSDwarfState \<Rightarrow> (addr \<times> FIRCLSDwarfState) option option" where
  "ParseAndExecute_def_cfa_expression A m cursor state =
     do { (len, c) \<leftarrow> FIRCLSParseULEB128AndAdvance m cursor;
          Some (Some (c + len, state\<lparr>cfaRegister := max_reg A + 1, cfaExpression := cursor\<rparr>)) }"

definition ParseAndExecute_offset ::
    "'r arch \<Rightarrow> mem \<Rightarrow> DWARFCIERecord \<Rightarrow> addr \<Rightarrow> FIRCLSDwarfState \<Rightarrow> u8 \<Rightarrow>
       (addr \<times> FIRCLSDwarfState) option option" where
  "ParseAndExecute_offset A m cie cursor state regNum =
     (if ucast regNum > max_reg A then Some None
      else do { (v, c) \<leftarrow> FIRCLSParseULEB128AndAdvance m cursor;
                let offset = v * dataAlignFactor cie;
                state' \<leftarrow> set_register A (ucast regNum) FIRCLSDwarfRegisterInCFA offset state;
                Some (Some (c, state')) })"

text \<open>The location is assigned, not advanced.\<close>

definition ParseAndExecute_advance_loc :: "DWARFCIERecord \<Rightarrow> u8 \<Rightarrow> u64" where
  "ParseAndExecute_advance_loc cie delta = ucast delta * codeAlignFactor cie"

text \<open>The interpreter's position: cursor, state and code offset.\<close>

type_synonym config = "addr \<times> FIRCLSDwarfState \<times> u64"

definition with_offset :: "FIRCLSDwarfState \<Rightarrow> (addr \<times> u64) option \<Rightarrow> config option option" where
  "with_offset state r = map_option (\<lambda>(c, off). Some (c, state, off)) r"

definition with_state :: "u64 \<Rightarrow> (addr \<times> FIRCLSDwarfState) option option \<Rightarrow> config option option" where
  "with_state codeOffset r = map_option (map_option (\<lambda>(c, state). (c, state, codeOffset))) r"

definition FIRCLSDwarfParseAndExecuteInstructionWithOperand ::
    "'r arch \<Rightarrow> mem \<Rightarrow> DWARFCIERecord \<Rightarrow> u8 \<Rightarrow> config \<Rightarrow> config option option" where
  "FIRCLSDwarfParseAndExecuteInstructionWithOperand A m cie instruction = (\<lambda>(cursor, state, codeOffset).
     let operand = instruction AND 0x3F; opcode = instruction AND 0xC0 in
     if opcode = 0x80 then with_state codeOffset (ParseAndExecute_offset A m cie cursor state operand)
     else if opcode = 0x40 then Some (Some (cursor, state, ParseAndExecute_advance_loc cie operand))
     else Some None)"

definition unimplemented_instructions :: "u8 list" where
  "unimplemented_instructions =
     [0x05, 0x06, 0x07, 0x0A, 0x0B, 0x11, 0x12, 0x13, 0x14, 0x15, 0x2D, 0x2E, 0x2F]"

text \<open>The body of the interpreter's loop; the inner \<open>None\<close> is its \<open>return false\<close>.\<close>

definition instruction_step ::
    "'r arch \<Rightarrow> mem \<Rightarrow> DWARFCIERecord \<Rightarrow> config \<Rightarrow> config option option" where
  "instruction_step A m cie = (\<lambda>(cursor0, state, codeOffset).
     do { (instruction, cursor) \<leftarrow> FIRCLSParseUint8AndAdvance m cursor0;
       if instruction = 0x00 then Some (Some (cursor, state, codeOffset))
       else if instruction = 0x01 then with_offset state (ParseAndExecute_set_loc m cie cursor)
       else if instruction = 0x02 then
         with_offset state (ParseAndExecute_advance_loc1 m cie cursor codeOffset)
       else if instruction = 0x03 then
         with_offset state (ParseAndExecute_advance_loc2 m cie cursor codeOffset)
       else if instruction = 0x04 then
         with_offset state (ParseAndExecute_advance_loc4 m cie cursor codeOffset)
       else if instruction = 0x0C then with_state codeOffset (ParseAndExecute_def_cfa A m cursor state)
       else if instruction = 0x0D then
         with_state codeOffset (ParseAndExecute_def_cfa_register A m cursor state)
       else if instruction = 0x0E then
         with_state codeOffset (ParseAndExecute_def_cfa_offset m cursor state)
       else if instruction = 0x08 then
         with_state codeOffset (ParseAndExecute_same_value A m cursor state)
       else if instruction = 0x09 then with_state codeOffset (ParseAndExecute_register A m cursor state)
       else if instruction = 0x0F then
         with_state codeOffset (ParseAndExecute_def_cfa_expression A m cursor state)
       else if instruction = 0x10 then
         with_state codeOffset (ParseAndExecute_expression A m cursor state)
       else if instruction = 0x16 then
         with_state codeOffset (ParseAndExecute_val_expression A m cursor state)
       else if instruction \<in> set unimplemented_instructions then Some None
       else FIRCLSDwarfParseAndExecuteInstructionWithOperand A m cie instruction
              (cursor, state, codeOffset) })"

partial_function (option) enumerate_loop ::
    "'r arch \<Rightarrow> mem \<Rightarrow> DWARFCIERecord \<Rightarrow> addr \<Rightarrow> u64 \<Rightarrow> config \<Rightarrow> FIRCLSDwarfState option option" where
  "enumerate_loop A m cie ending pcOffset cfg =
     (case cfg of (cursor, state, codeOffset) \<Rightarrow>
       if cursor < ending \<and> codeOffset <s pcOffset
       then do { r \<leftarrow> instruction_step A m cie cfg;
                 case r of
                   None \<Rightarrow> Some None
                 | Some cfg' \<Rightarrow> enumerate_loop A m cie ending pcOffset cfg' }
       else Some (Some state))"

definition FIRCLSDwarfInstructionsEnumerate ::
    "'r arch \<Rightarrow> mem \<Rightarrow> DWARFInstructions \<Rightarrow> DWARFCIERecord \<Rightarrow> FIRCLSDwarfState \<Rightarrow> u64 \<Rightarrow>
       FIRCLSDwarfState option option" where
  "FIRCLSDwarfInstructionsEnumerate A m instructions cie state pcOffset =
     (let cursor = instr_data instructions; ending = cursor + ucast (instr_length instructions)
      in enumerate_loop A m cie ending pcOffset (cursor, state, 0))"

section \<open>Register operations\<close>

definition FIRCLSDwarfCompareRegisters :: "'r arch \<Rightarrow> 'r \<Rightarrow> 'r \<Rightarrow> u64 \<Rightarrow> bool" where
  "FIRCLSDwarfCompareRegisters A a b registerNum =
     (reg_get A a registerNum = reg_get A b registerNum)"

definition FIRCLSDwarfGetCFA :: "'r arch \<Rightarrow> mem \<Rightarrow> FIRCLSDwarfState \<Rightarrow> 'r \<Rightarrow> u64 option option" where
  "FIRCLSDwarfGetCFA A m state regs =
     (if cfaExpression state \<noteq> 0
      then FIRCLSDwarfEvalulateExpression A m (cfaExpression state) regs 0
      else Some (Some (reg_get A regs (cfaRegister state) + cfaRegisterOffset state)))"

text \<open>The result is 0 on every error; the outer \<open>None\<close> is a fault of an expression.\<close>

definition FIRCLSDwarfGetSavedRegister ::
    "'r arch \<Rightarrow> mem \<Rightarrow> 'r \<Rightarrow> u64 \<Rightarrow> FIRCLSDwarfRegister \<Rightarrow> u64 option" where
  "FIRCLSDwarfGetSavedRegister A m regs cfa dRegister =
     (case location dRegister of
        FIRCLSDwarfRegisterInCFA \<Rightarrow>
          (case read_word m (cfa + reg_value dRegister) of None \<Rightarrow> Some 0 | Some v \<Rightarrow> Some v)
      | FIRCLSDwarfRegisterInRegister \<Rightarrow> Some (reg_get A regs (reg_value dRegister))
      | FIRCLSDwarfRegisterOffsetFromCFA \<Rightarrow> Some 0
      | FIRCLSDwarfRegisterAtExpression \<Rightarrow>
          do { r \<leftarrow> FIRCLSDwarfEvalulateExpression A m (reg_value dRegister) regs cfa;
               case r of
                 None \<Rightarrow> Some 0
               | Some a \<Rightarrow> (case read_word m a of None \<Rightarrow> Some 0 | Some v \<Rightarrow> Some v) }
      | FIRCLSDwarfRegisterIsExpression \<Rightarrow>
          do { r \<leftarrow> FIRCLSDwarfEvalulateExpression A m (reg_value dRegister) regs cfa;
               case r of None \<Rightarrow> Some 0 | Some v \<Rightarrow> Some v }
      | FIRCLSDwarfRegisterUnused \<Rightarrow> Some 0)"

text \<open>The loop \<open>for (i = 0; i <= CLS_DWARF_MAX_REGISTER_NUM; ++i)\<close> over the saved registers, from \<open>i\<close>
  on.\<close>

fun assign_loop ::
    "'r arch \<Rightarrow> mem \<Rightarrow> 'r \<Rightarrow> u64 \<Rightarrow> FIRCLSDwarfRegister list \<Rightarrow> u64 \<Rightarrow> 'r \<Rightarrow> 'r option option" where
  "assign_loop A m regs cfa [] i new = Some (Some new)"
| "assign_loop A m regs cfa (d # ds) i new =
     (if location d = FIRCLSDwarfRegisterUnused then assign_loop A m regs cfa ds (i + 1) new
      else do { v \<leftarrow> FIRCLSDwarfGetSavedRegister A m regs cfa d;
                case reg_set A new i v of
                  (False, _) \<Rightarrow> Some None
                | (True, new') \<Rightarrow> assign_loop A m regs cfa ds (i + 1) new' })"

definition FIRCLSDwarfUnwindAssignRegisters ::
    "'r arch \<Rightarrow> mem \<Rightarrow> FIRCLSDwarfState \<Rightarrow> 'r \<Rightarrow> u64 \<Rightarrow> 'r option option" where
  "FIRCLSDwarfUnwindAssignRegisters A m state regs cfa =
     do { r \<leftarrow> assign_loop A m regs cfa (dw_registers state) 0 regs;
          case r of
            None \<Rightarrow> Some None
          | Some new \<Rightarrow>
              (let (ok, new') = reg_set A new (sp_reg A) cfa in
               if \<not> ok then Some None
               else if FIRCLSDwarfCompareRegisters A regs new' (sp_reg A) then Some None
               else if FIRCLSDwarfCompareRegisters A regs new' (return_reg A) then Some None
               else Some (Some new')) }"

definition FIRCLSDwarfUnwindComputeRegisters ::
    "'r arch \<Rightarrow> mem \<Rightarrow> FIRCLSDwarfCFIRecord \<Rightarrow> 'r \<Rightarrow> 'r option option" where
  "FIRCLSDwarfUnwindComputeRegisters A m record regs =
     do { r1 \<leftarrow> FIRCLSDwarfInstructionsEnumerate A m (cie_instructions (cfi_cie record)) (cfi_cie record)
                  (zero_state A) 0x7FFFFFFFFFFFFFFF;
          case r1 of
            None \<Rightarrow> Some None
          | Some state1 \<Rightarrow>
              (let pcOffset = pc_get A regs - startAddress (cfi_fde record) in
               if pcOffset <s 0 then Some None
               else do {
                 r2 \<leftarrow> FIRCLSDwarfInstructionsEnumerate A m (fde_instructions (cfi_fde record))
                         (cfi_cie record) state1 pcOffset;
                 case r2 of
                   None \<Rightarrow> Some None
                 | Some state2 \<Rightarrow> do {
                     c \<leftarrow> FIRCLSDwarfGetCFA A m state2 regs;
                     case c of
                       None \<Rightarrow> Some None
                     | Some cfa \<Rightarrow> FIRCLSDwarfUnwindAssignRegisters A m state2 regs cfa } }) }"

section \<open>Register numbers stay in range\<close>

text \<open>What keeps the register numbers the state holds inside the thread context's registers.\<close>

definition dwarf_state_ok :: "'r arch \<Rightarrow> FIRCLSDwarfState \<Rightarrow> bool" where
  "dwarf_state_ok A st \<longleftrightarrow>
     (cfaRegister st \<le> max_reg A \<or> cfaRegister st = max_reg A + 1) \<and>
     list_all (\<lambda>d. location d = FIRCLSDwarfRegisterInRegister \<longrightarrow> reg_value d \<le> max_reg A)
       (dw_registers st)"

lemma zero_state_ok: "dwarf_state_ok A (zero_state A)"
  by (auto simp: dwarf_state_ok_def zero_state_def zero_register_def list_all_iff word_le_nat_alt)

lemma set_register_in_range:
  "n \<le> max_reg A \<Longrightarrow> set_register A n loc v st = Some (st\<lparr>dw_registers :=
     (dw_registers st)[unat n := \<lparr>location = loc, reg_value = v\<rparr>]\<rparr>)"
  by (simp add: set_register_def word_le_nat_alt less_Suc_eq_le)

lemma set_register_nat:
  assumes "r \<le> unat (max_reg A)"
  shows "set_register A (of_nat r) loc v st = Some (st\<lparr>dw_registers :=
     (dw_registers st)[r := \<lparr>location = loc, reg_value = v\<rparr>]\<rparr>)"
proof -
  have "unat (of_nat r :: u64) = r"
    using assms unat_less [of "max_reg A"] by (intro unat_of_nat_small) simp
  then show ?thesis using assms by (simp add: set_register_def)
qed

lemma set_register_ok:
  assumes "set_register A n loc v st = Some st'" "dwarf_state_ok A st"
    and "loc = FIRCLSDwarfRegisterInRegister \<Longrightarrow> v \<le> max_reg A"
  shows "dwarf_state_ok A st'"
  using assms set_update_subset_insert [of "dw_registers st" "unat n" "\<lparr>location = loc, reg_value = v\<rparr>"]
  by (auto simp: dwarf_state_ok_def set_register_def list_all_iff split: if_split_asm)

lemma with_offset_Some:
  "with_offset st r = Some (Some (c', st', off')) \<longleftrightarrow> r = Some (c', off') \<and> st' = st"
  by (auto simp: with_offset_def)

lemma with_state_Some:
  "with_state off r = Some (Some (c', st', off')) \<longleftrightarrow> r = Some (Some (c', st')) \<and> off' = off"
  by (auto simp: with_state_def)

lemma handlers_ok:
  assumes "dwarf_state_ok A st"
  shows "ParseAndExecute_def_cfa A m c st = Some (Some (c', st')) \<Longrightarrow> dwarf_state_ok A st'"
    "ParseAndExecute_def_cfa_register A m c st = Some (Some (c', st')) \<Longrightarrow> dwarf_state_ok A st'"
    "ParseAndExecute_def_cfa_offset m c st = Some (Some (c', st')) \<Longrightarrow> dwarf_state_ok A st'"
    "ParseAndExecute_same_value A m c st = Some (Some (c', st')) \<Longrightarrow> dwarf_state_ok A st'"
    "ParseAndExecute_register A m c st = Some (Some (c', st')) \<Longrightarrow> dwarf_state_ok A st'"
    "ParseAndExecute_expression A m c st = Some (Some (c', st')) \<Longrightarrow> dwarf_state_ok A st'"
    "ParseAndExecute_val_expression A m c st = Some (Some (c', st')) \<Longrightarrow> dwarf_state_ok A st'"
    "ParseAndExecute_def_cfa_expression A m c st = Some (Some (c', st')) \<Longrightarrow> dwarf_state_ok A st'"
    "ParseAndExecute_offset A m cie c st n = Some (Some (c', st')) \<Longrightarrow> dwarf_state_ok A st'"
  using assms
  by (auto simp: ParseAndExecute_def_cfa_def ParseAndExecute_def_cfa_register_def
      ParseAndExecute_def_cfa_offset_def ParseAndExecute_same_value_def ParseAndExecute_register_def
      ParseAndExecute_expression_def ParseAndExecute_val_expression_def
      ParseAndExecute_def_cfa_expression_def ParseAndExecute_offset_def bind_eq_Some_conv not_less Let_def
      split: if_split_asm dest: set_register_ok) (auto simp: dwarf_state_ok_def)

lemma instruction_step_ok:
  assumes "dwarf_state_ok A st" and "instruction_step A m cie (c, st, off) = Some (Some (c', st', off'))"
  shows "dwarf_state_ok A st'"
  using assms
  by (auto simp: instruction_step_def FIRCLSDwarfParseAndExecuteInstructionWithOperand_def
      bind_eq_Some_conv with_offset_Some with_state_Some Let_def split: if_split_asm dest: handlers_ok)

text \<open>What an instruction at \<open>c0\<close> reads: its own byte and its operands; a second operand only if the
  register number before it is in range.\<close>

definition register_operand_readable :: "'r arch \<Rightarrow> mem \<Rightarrow> addr \<Rightarrow> bool" where
  "register_operand_readable A m c =
     (case FIRCLSParseULEB128AndAdvance m c of
        None \<Rightarrow> False
      | Some (regNum, c') \<Rightarrow> regNum \<le> max_reg A \<longrightarrow> FIRCLSParseULEB128AndAdvance m c' \<noteq> None)"

definition instruction_readable :: "'r arch \<Rightarrow> mem \<Rightarrow> DWARFCIERecord \<Rightarrow> addr \<Rightarrow> bool" where
  "instruction_readable A m cie c0 =
     (case m c0 of
        None \<Rightarrow> False
      | Some i \<Rightarrow>
          let c = c0 + 1 in
          if i = 0x01 then FIRCLSParseAddressWithEncodingAndAdvance m c (pointerEncoding cie) \<noteq> None
          else if i = 0x02 then load8 m c \<noteq> None
          else if i = 0x03 then load16 m c \<noteq> None
          else if i = 0x04 then load32 m c \<noteq> None
          else if i \<in> {0x08, 0x0D, 0x0E, 0x0F} then FIRCLSParseULEB128AndAdvance m c \<noteq> None
          else if i \<in> {0x09, 0x0C, 0x10, 0x16} then register_operand_readable A m c
          else if i AND 0xC0 = 0x80
          then ucast (i AND 0x3F) \<le> max_reg A \<longrightarrow> FIRCLSParseULEB128AndAdvance m c \<noteq> None
          else True)"

lemma bind_None_iff: "Option.bind a f = None \<longleftrightarrow> a = None \<or> (\<exists>x. a = Some x \<and> f x = None)"
  by (cases a) auto

lemma handlers_fault:
  "ParseAndExecute_def_cfa A m c st = None \<longleftrightarrow> \<not> register_operand_readable A m c"
  "ParseAndExecute_def_cfa_register A m c st = None \<longleftrightarrow> FIRCLSParseULEB128AndAdvance m c = None"
  "ParseAndExecute_def_cfa_offset m c st = None \<longleftrightarrow> FIRCLSParseULEB128AndAdvance m c = None"
  "ParseAndExecute_same_value A m c st = None \<longleftrightarrow> FIRCLSParseULEB128AndAdvance m c = None"
  "ParseAndExecute_register A m c st = None \<longleftrightarrow> \<not> register_operand_readable A m c"
  "ParseAndExecute_expression A m c st = None \<longleftrightarrow> \<not> register_operand_readable A m c"
  "ParseAndExecute_val_expression A m c st = None \<longleftrightarrow> \<not> register_operand_readable A m c"
  "ParseAndExecute_def_cfa_expression A m c st = None \<longleftrightarrow> FIRCLSParseULEB128AndAdvance m c = None"
  "ParseAndExecute_offset A m cie c st n = None \<longleftrightarrow>
     ucast n \<le> max_reg A \<and> FIRCLSParseULEB128AndAdvance m c = None"
  by (auto simp: ParseAndExecute_def_cfa_def ParseAndExecute_def_cfa_register_def
      ParseAndExecute_def_cfa_offset_def ParseAndExecute_same_value_def ParseAndExecute_register_def
      ParseAndExecute_expression_def ParseAndExecute_val_expression_def
      ParseAndExecute_def_cfa_expression_def ParseAndExecute_offset_def bind_None_iff not_less Let_def
      register_operand_readable_def set_register_in_range simp del: not_None_eq
      split: if_split_asm option.split_asm option.split)

lemma with_fault [simp]:
  "with_offset st r = None \<longleftrightarrow> r = None" "with_state off r' = None \<longleftrightarrow> r' = None"
  by (auto simp: with_offset_def with_state_def)

lemma instruction_step_fault:
  "instruction_step A m cie (c, st, off) = None \<longleftrightarrow> \<not> instruction_readable A m cie c"
proof (cases "m c")
  case None
  then show ?thesis
    by (simp add: instruction_step_def instruction_readable_def FIRCLSParseUint8AndAdvance_def load8_def)
next
  case (Some i)
  then have i: "FIRCLSParseUint8AndAdvance m c = Some (i, c + 1)"
    by (simp add: FIRCLSParseUint8AndAdvance_def load8_def)
  have locs: "ParseAndExecute_set_loc m cie c' = None \<longleftrightarrow>
      FIRCLSParseAddressWithEncodingAndAdvance m c' (pointerEncoding cie) = None"
    "ParseAndExecute_advance_loc1 m cie c' off = None \<longleftrightarrow> load8 m c' = None"
    "ParseAndExecute_advance_loc2 m cie c' off = None \<longleftrightarrow> load16 m c' = None"
    "ParseAndExecute_advance_loc4 m cie c' off = None \<longleftrightarrow> load32 m c' = None" for c'
    by (auto simp: ParseAndExecute_set_loc_def ParseAndExecute_advance_loc1_def
        ParseAndExecute_advance_loc2_def ParseAndExecute_advance_loc4_def FIRCLSParseUint8AndAdvance_def
        FIRCLSParseUint16AndAdvance_def FIRCLSParseUint32AndAdvance_def bind_None_iff)
  show ?thesis
  proof (cases "i \<in> set unimplemented_instructions")
    case True
    with i Some show ?thesis
      by (auto simp: instruction_step_def instruction_readable_def unimplemented_instructions_def)
  next
    case False
    with i Some show ?thesis
      by (simp add: instruction_step_def instruction_readable_def locs handlers_fault Let_def
          FIRCLSDwarfParseAndExecuteInstructionWithOperand_def not_less del: not_None_eq)
  qed
qed

lemma enumerate_loop_ok:
  assumes "enumerate_loop A m cie ending pc cfg = Some r" "dwarf_state_ok A (fst (snd cfg))"
  shows "pred_option (dwarf_state_ok A) r"
proof -
  have "dwarf_state_ok A (fst (snd cfg)) \<longrightarrow> pred_option (dwarf_state_ok A) r"
  proof (rule enumerate_loop.raw_induct [where P = "\<lambda>A m cie ending pc cfg r.
      dwarf_state_ok A (fst (snd cfg)) \<longrightarrow> pred_option (dwarf_state_ok A) r", OF _ assms(1)], rule impI)
    fix loop :: "'r arch \<Rightarrow> mem \<Rightarrow> DWARFCIERecord \<Rightarrow> addr \<Rightarrow> u64 \<Rightarrow> config \<Rightarrow> FIRCLSDwarfState option option"
      and A :: "'r arch" and m cie ending pc and cfg :: config and r
    assume IH: "\<And>A m cie ending pc cfg r. loop A m cie ending pc cfg = Some r \<Longrightarrow>
        dwarf_state_ok A (fst (snd cfg)) \<longrightarrow> pred_option (dwarf_state_ok A) r"
      and body: "(case cfg of (cursor, state, codeOffset) \<Rightarrow>
          if cursor < ending \<and> codeOffset <s pc
          then instruction_step A m cie cfg \<bind>
             (\<lambda>r. case r of None \<Rightarrow> Some None | Some cfg' \<Rightarrow> loop A m cie ending pc cfg')
          else Some (Some state)) = Some r"
      and ok: "dwarf_state_ok A (fst (snd cfg))"
    obtain c st off where cfg: "cfg = (c, st, off)" by (cases cfg) auto
    show "pred_option (dwarf_state_ok A) r"
    proof (cases "c < ending \<and> off <s pc")
      case False
      with body ok cfg show ?thesis by auto
    next
      case True
      with body cfg obtain s where s: "instruction_step A m cie (c, st, off) = Some s"
        and r: "(case s of None \<Rightarrow> Some None | Some cfg' \<Rightarrow> loop A m cie ending pc cfg') = Some r"
        by (auto simp: bind_eq_Some_conv)
      show ?thesis
      proof (cases s)
        case None
        with r show ?thesis by auto
      next
        case (Some cfg')
        then have "dwarf_state_ok A (fst (snd cfg'))"
          using instruction_step_ok [of A st m cie c off] s ok cfg by (cases cfg') auto
        then show ?thesis using IH r Some by simp
      qed
    qed
  qed
  with assms(2) show ?thesis by simp
qed

context register_file
begin

text \<open>What the loop of \<open>FIRCLSDwarfUnwindAssignRegisters\<close> leaves in anything that only setting
  register \<open>k\<close> changes: the register itself and, for the return register, the program counter.\<close>

lemma assign_loop_obs:
  assumes "assign_loop A m regs cfa ds i new = Some (Some new')"
    and "unat i + length ds \<le> unat (max_reg A) + 1" and "k \<le> max_reg A"
    and obs: "\<And>r n v. n \<le> max_reg A \<Longrightarrow> obs (snd (reg_set A r n v)) = (if n = k then norm k v else obs r)"
  shows "obs new' =
     (if unat i \<le> unat k \<and> unat k < unat i + length ds \<and>
         location (ds ! (unat k - unat i)) \<noteq> FIRCLSDwarfRegisterUnused
      then norm k (the (FIRCLSDwarfGetSavedRegister A m regs cfa (ds ! (unat k - unat i))))
      else obs new)"
  using assms(1-3)
proof (induction ds arbitrary: i new)
  case (Cons d ds)
  have i: "i \<le> max_reg A" using Cons.prems(2) by (simp add: word_le_nat_alt)
  define new1 where "new1 = (if location d = FIRCLSDwarfRegisterUnused then new
     else snd (reg_set A new i (the (FIRCLSDwarfGetSavedRegister A m regs cfa d))))"
  have rest: "assign_loop A m regs cfa ds (i + 1) new1 = Some (Some new')"
  proof (cases "location d = FIRCLSDwarfRegisterUnused")
    case False
    with Cons.prems(1) obtain v where v: "FIRCLSDwarfGetSavedRegister A m regs cfa d = Some v"
      and a: "(case reg_set A new i v of (False, _) \<Rightarrow> Some None
              | (True, new') \<Rightarrow> assign_loop A m regs cfa ds (i + 1) new') = Some (Some new')"
      by (auto simp: bind_eq_Some_conv)
    obtain n where "reg_set A new i v = (True, n)" using set_ok [OF i, of new v] by (cases "reg_set A new i v") auto
    with a v False show ?thesis by (simp add: new1_def)
  qed (use Cons.prems(1) new1_def in simp)
  have hd: "obs new1 =
     (if k = i \<and> location d \<noteq> FIRCLSDwarfRegisterUnused
      then norm k (the (FIRCLSDwarfGetSavedRegister A m regs cfa d)) else obs new)"
    using i by (auto simp: new1_def obs)
  show ?case
  proof (cases ds)
    case Nil
    with rest have "new' = new1" by simp
    with hd Nil show ?thesis using word_unat_eq_iff [of k i] by auto
  next
    case (Cons d' ds')
    have "unat (max_reg A) < 2 ^ 64" using unat_less [of "max_reg A"] by simp
    then have u: "unat (i + 1) = Suc (unat i)"
      using Cons.prems(2) Cons unat_add_of_nat_small [of i 1] by simp
    have "obs new' =
     (if Suc (unat i) \<le> unat k \<and> unat k < Suc (unat i) + length ds \<and>
         location (ds ! (unat k - Suc (unat i))) \<noteq> FIRCLSDwarfRegisterUnused
      then norm k (the (FIRCLSDwarfGetSavedRegister A m regs cfa (ds ! (unat k - Suc (unat i)))))
      else obs new1)"
      using Cons.IH [OF rest] Cons.prems(2,3) by (simp add: u)
    moreover have "(d # ds) ! (unat k - unat i) = ds ! (unat k - Suc (unat i))" if "Suc (unat i) \<le> unat k"
      using that by (simp add: nth_Cons')
    ultimately show ?thesis using hd word_unat_eq_iff [of k i]
      by (cases "k = i") auto
  qed
qed auto

text \<open>The whole of \<open>FIRCLSDwarfUnwindAssignRegisters\<close>, where it succeeds.\<close>

lemma AssignRegisters_result:
  assumes "FIRCLSDwarfUnwindAssignRegisters A m st regs cfa = Some (Some new)"
    and "length (dw_registers st) = unat (max_reg A) + 1"
  shows "k \<le> max_reg A \<Longrightarrow> k \<noteq> sp_reg A \<Longrightarrow> reg_get A new k =
      (if location (dw_registers st ! unat k) = FIRCLSDwarfRegisterUnused then reg_get A regs k
       else norm k (the (FIRCLSDwarfGetSavedRegister A m regs cfa (dw_registers st ! unat k))))"
    and "reg_get A new (sp_reg A) = norm (sp_reg A) cfa"
    and "pc_get A new =
      (if location (dw_registers st ! unat (return_reg A)) = FIRCLSDwarfRegisterUnused then pc_get A regs
       else norm (return_reg A)
         (the (FIRCLSDwarfGetSavedRegister A m regs cfa (dw_registers st ! unat (return_reg A)))))"
    and "reg_get A new (sp_reg A) \<noteq> reg_get A regs (sp_reg A)"
    and "reg_get A new (return_reg A) \<noteq> reg_get A regs (return_reg A)"
proof -
  obtain mid where loop: "assign_loop A m regs cfa (dw_registers st) 0 regs = Some (Some mid)"
    and new: "new = snd (reg_set A mid (sp_reg A) cfa)"
    and changed: "\<not> FIRCLSDwarfCompareRegisters A regs new (sp_reg A)"
      "\<not> FIRCLSDwarfCompareRegisters A regs new (return_reg A)"
    using assms(1)
    by (auto simp: FIRCLSDwarfUnwindAssignRegisters_def bind_eq_Some_conv case_prod_beta' Let_def
        split: option.splits if_split_asm)
  show "reg_get A new (sp_reg A) = norm (sp_reg A) cfa" by (simp add: new get_set sp_le)
  show "reg_get A new k =
      (if location (dw_registers st ! unat k) = FIRCLSDwarfRegisterUnused then reg_get A regs k
       else norm k (the (FIRCLSDwarfGetSavedRegister A m regs cfa (dw_registers st ! unat k))))"
    if "k \<le> max_reg A" "k \<noteq> sp_reg A"
  proof -
    have "\<And>r n v. n \<le> max_reg A \<Longrightarrow>
        reg_get A (snd (reg_set A r n v)) k = (if n = k then norm k v else reg_get A r k)"
      using that(1) by (auto simp: get_set)
    with that assms(2) assign_loop_obs [OF loop, of k "\<lambda>r. reg_get A r k"] show ?thesis
      by (simp add: new get_set sp_le word_le_nat_alt [of k])
  qed
  show "pc_get A new =
      (if location (dw_registers st ! unat (return_reg A)) = FIRCLSDwarfRegisterUnused then pc_get A regs
       else norm (return_reg A)
         (the (FIRCLSDwarfGetSavedRegister A m regs cfa (dw_registers st ! unat (return_reg A)))))"
    using assign_loop_obs [OF loop, of "return_reg A" "pc_get A"] assms(2) sp_not_return return_le
    by (simp add: new pc_set word_le_nat_alt [of "return_reg A"])
  show "reg_get A new (sp_reg A) \<noteq> reg_get A regs (sp_reg A)"
    "reg_get A new (return_reg A) \<noteq> reg_get A regs (return_reg A)"
    using changed by (auto simp: FIRCLSDwarfCompareRegisters_def)
qed

end

section \<open>Reference semantics of call-frame programs\<close>

text \<open>The instructions of the DWARF standard the interpreter implements, their encoding, and the
  standard's meaning on an abstract row: a rule for the CFA and one for each register.\<close>

datatype cfa_instr =
    Nop | Advance_loc nat | Advance_loc1 nat | Advance_loc2 nat | Advance_loc4 nat
  | Def_cfa nat nat | Def_cfa_register nat | Def_cfa_offset nat | Same_value nat
  | Register nat nat | Offset nat nat
  | Def_cfa_expression "u8 list" | Expression nat "u8 list" | Val_expression nat "u8 list"

datatype cfa_rule = Cfa_register u64 u64 | Cfa_expression addr

datatype reg_rule = Same | Saved_at u64 | Undefined_rule | In_register u64 | At_expression addr | Is_expression addr

record row =
  row_cfa :: cfa_rule
  row_regs :: "reg_rule list"

definition sized :: "u8 list \<Rightarrow> u8 list" where
  "sized e = uleb128_encode (length e) @ e"

fun instr_encode :: "cfa_instr \<Rightarrow> u8 list" where
  "instr_encode Nop = [0x00]"
| "instr_encode (Advance_loc d) = [of_nat (0x40 + d)]"
| "instr_encode (Advance_loc1 d) = [0x02, of_nat d]"
| "instr_encode (Advance_loc2 d) = 0x03 # le_bytes 2 d"
| "instr_encode (Advance_loc4 d) = 0x04 # le_bytes 4 d"
| "instr_encode (Def_cfa r n) = 0x0C # uleb128_encode r @ uleb128_encode n"
| "instr_encode (Def_cfa_register r) = 0x0D # uleb128_encode r"
| "instr_encode (Def_cfa_offset n) = 0x0E # uleb128_encode n"
| "instr_encode (Same_value r) = 0x08 # uleb128_encode r"
| "instr_encode (Register r s) = 0x09 # uleb128_encode r @ uleb128_encode s"
| "instr_encode (Offset r n) = of_nat (0x80 + r) # uleb128_encode n"
| "instr_encode (Def_cfa_expression e) = 0x0F # sized e"
| "instr_encode (Expression r e) = 0x10 # uleb128_encode r @ sized e"
| "instr_encode (Val_expression r e) = 0x16 # uleb128_encode r @ sized e"

text \<open>The operand sizes the encodings and \<open>FIRCLSParseULEB128AndAdvance\<close> can carry.\<close>

fun instr_ok :: "cfa_instr \<Rightarrow> bool" where
  "instr_ok Nop = True"
| "instr_ok (Advance_loc d) = (d < 64)"
| "instr_ok (Advance_loc1 d) = (d < 2 ^ 8)"
| "instr_ok (Advance_loc2 d) = (d < 2 ^ 16)"
| "instr_ok (Advance_loc4 d) = (d < 2 ^ 32)"
| "instr_ok (Def_cfa r n) = (r < 2 ^ 31 \<and> n < 2 ^ 31)"
| "instr_ok (Def_cfa_register r) = (r < 2 ^ 31)"
| "instr_ok (Def_cfa_offset n) = (n < 2 ^ 31)"
| "instr_ok (Same_value r) = (r < 2 ^ 31)"
| "instr_ok (Register r s) = (r < 2 ^ 31 \<and> s < 2 ^ 31)"
| "instr_ok (Offset r n) = (r < 64 \<and> n < 2 ^ 31)"
| "instr_ok (Def_cfa_expression e) = (length e < 2 ^ 31)"
| "instr_ok (Expression r e) = (r < 2 ^ 31 \<and> length e < 2 ^ 31)"
| "instr_ok (Val_expression r e) = (r < 2 ^ 31 \<and> length e < 2 ^ 31)"

definition rule_at :: "'r arch \<Rightarrow> nat \<Rightarrow> reg_rule \<Rightarrow> row \<Rightarrow> row option" where
  "rule_at A r rule row =
     (if r > unat (max_reg A) then None else Some (row\<lparr>row_regs := (row_regs row)[r := rule]\<rparr>))"

text \<open>The instruction \<open>i\<close> at address \<open>c\<close>; \<open>None\<close> where it must be rejected.\<close>

fun spec_instr :: "'r arch \<Rightarrow> DWARFCIERecord \<Rightarrow> addr \<Rightarrow> cfa_instr \<Rightarrow> row \<Rightarrow> row option" where
  "spec_instr A cie c (Def_cfa r n) row =
     (if r > unat (max_reg A) then None
      else Some (row\<lparr>row_cfa := Cfa_register (of_nat r) (of_nat n)\<rparr>))"
| "spec_instr A cie c (Def_cfa_register r) row =
     (case row_cfa row of
        Cfa_register _ off \<Rightarrow>
          (if r > unat (max_reg A) then None
           else Some (row\<lparr>row_cfa := Cfa_register (of_nat r) off\<rparr>))
      | Cfa_expression _ \<Rightarrow> None)"
| "spec_instr A cie c (Def_cfa_offset n) row =
     (case row_cfa row of
        Cfa_register r _ \<Rightarrow> Some (row\<lparr>row_cfa := Cfa_register r (of_nat n)\<rparr>)
      | Cfa_expression _ \<Rightarrow> None)"
| "spec_instr A cie c (Same_value r) row = rule_at A r Same row"
| "spec_instr A cie c (Register r s) row =
     (if s > unat (max_reg A) then None else rule_at A r (In_register (of_nat s)) row)"
| "spec_instr A cie c (Offset r n) row = rule_at A r (Saved_at (of_nat n * dataAlignFactor cie)) row"
| "spec_instr A cie c (Def_cfa_expression e) row = Some (row\<lparr>row_cfa := Cfa_expression (c + 1)\<rparr>)"
| "spec_instr A cie c (Expression r e) row =
     rule_at A r (At_expression (c + 1 + of_nat (length (uleb128_encode r)))) row"
| "spec_instr A cie c (Val_expression r e) row =
     rule_at A r (Is_expression (c + 1 + of_nat (length (uleb128_encode r)))) row"
| "spec_instr A cie c _ row = Some row"

fun spec_advance :: "DWARFCIERecord \<Rightarrow> cfa_instr \<Rightarrow> u64 \<Rightarrow> u64" where
  "spec_advance cie (Advance_loc d) loc = loc + of_nat d * codeAlignFactor cie"
| "spec_advance cie (Advance_loc1 d) loc = loc + of_nat d * codeAlignFactor cie"
| "spec_advance cie (Advance_loc2 d) loc = loc + of_nat d * codeAlignFactor cie"
| "spec_advance cie (Advance_loc4 d) loc = loc + of_nat d * codeAlignFactor cie"
| "spec_advance cie _ loc = loc"

text \<open>The row that applies just before offset \<open>pc\<close> (a return address follows its call).\<close>

fun spec_rows :: "'r arch \<Rightarrow> DWARFCIERecord \<Rightarrow> u64 \<Rightarrow> addr \<Rightarrow> cfa_instr list \<Rightarrow> row \<Rightarrow> u64 \<Rightarrow> row option" where
  "spec_rows A cie pc c [] row loc = Some row"
| "spec_rows A cie pc c (i # ins) row loc =
     (if loc <s pc
      then do { row' \<leftarrow> spec_instr A cie c i row;
                spec_rows A cie pc (c + of_nat (length (instr_encode i))) ins row' (spec_advance cie i loc) }
      else Some row)"

text \<open>The fragment on which the interpreter follows the standard: \<open>DW_CFA_advance_loc\<close>, which assigns
  the location, comes before any other advance (\<open>adv\<close>), and no register rule for the CFA comes
  after an expression (\<open>ex\<close>), which such a rule does not replace.\<close>

fun supported :: "bool \<Rightarrow> bool \<Rightarrow> cfa_instr list \<Rightarrow> bool" where
  "supported adv ex [] = True"
| "supported adv ex (Advance_loc d # ins) = (\<not> adv \<and> supported True ex ins)"
| "supported adv ex (Advance_loc1 d # ins) = supported True ex ins"
| "supported adv ex (Advance_loc2 d # ins) = supported True ex ins"
| "supported adv ex (Advance_loc4 d # ins) = supported True ex ins"
| "supported adv ex (Def_cfa r n # ins) = (\<not> ex \<and> supported adv ex ins)"
| "supported adv ex (Def_cfa_register r # ins) = (\<not> ex \<and> supported adv ex ins)"
| "supported adv ex (Def_cfa_offset n # ins) = (\<not> ex \<and> supported adv ex ins)"
| "supported adv ex (Def_cfa_expression e # ins) = supported adv True ins"
| "supported adv ex (_ # ins) = supported adv ex ins"

fun abs_register :: "FIRCLSDwarfRegister \<Rightarrow> reg_rule" where
  "abs_register d =
     (case location d of
        FIRCLSDwarfRegisterUnused \<Rightarrow> Same
      | FIRCLSDwarfRegisterInCFA \<Rightarrow> Saved_at (reg_value d)
      | FIRCLSDwarfRegisterOffsetFromCFA \<Rightarrow> Undefined_rule
      | FIRCLSDwarfRegisterInRegister \<Rightarrow> In_register (reg_value d)
      | FIRCLSDwarfRegisterAtExpression \<Rightarrow> At_expression (reg_value d)
      | FIRCLSDwarfRegisterIsExpression \<Rightarrow> Is_expression (reg_value d))"

definition abs_state :: "FIRCLSDwarfState \<Rightarrow> row" where
  "abs_state st =
     \<lparr>row_cfa = (if cfaExpression st \<noteq> 0 then Cfa_expression (cfaExpression st)
                 else Cfa_register (cfaRegister st) (cfaRegisterOffset st)),
      row_regs = map abs_register (dw_registers st)\<rparr>"

lemma parse_uint8: "m c = Some b \<Longrightarrow> FIRCLSParseUint8AndAdvance m c = Some (b, c + 1)"
  by (simp add: FIRCLSParseUint8AndAdvance_def load8_def)

lemma opcode_operand:
  assumes "d < 64"
  shows "(of_nat (0x40 + d) :: u8) AND 0x3F = of_nat d" "(of_nat (0x40 + d) :: u8) AND 0xC0 = 0x40"
    "(of_nat (0x80 + d) :: u8) AND 0x3F = of_nat d" "(of_nat (0x80 + d) :: u8) AND 0xC0 = 0x80"
    "0x40 \<le> (of_nat (0x40 + d) :: u8)" "0x40 \<le> (of_nat (0x80 + d) :: u8)"
proof -
  have "d \<in> set [0..<64]" using assms by simp
  then show "(of_nat (0x40 + d) :: u8) AND 0x3F = of_nat d" "(of_nat (0x40 + d) :: u8) AND 0xC0 = 0x40"
    "(of_nat (0x80 + d) :: u8) AND 0x3F = of_nat d" "(of_nat (0x80 + d) :: u8) AND 0xC0 = 0x80"
    "0x40 \<le> (of_nat (0x40 + d) :: u8)" "0x40 \<le> (of_nat (0x80 + d) :: u8)"
    unfolding upt_conv_Cons_Cons
    by (auto simp: upt_rec)
qed

text \<open>The handlers on encoded operands.\<close>

lemma reg_gt: "r < 2 ^ 31 \<Longrightarrow> (of_nat r :: u64) > n \<longleftrightarrow> r > unat n"
  by (simp add: word_less_nat_alt unat_of_nat_small)

lemma reg_unat: "r < 2 ^ 31 \<Longrightarrow> unat (of_nat r :: u64) = r"
  by (simp add: unat_of_nat_small)

definition handled ::
    "addr \<Rightarrow> row option \<Rightarrow> (addr \<times> FIRCLSDwarfState) option option \<Rightarrow> addr \<Rightarrow> bool" where
  "handled c' spec r x \<longleftrightarrow>
     (case spec of
        None \<Rightarrow> r = Some None
      | Some row \<Rightarrow> \<exists>st'. r = Some (Some (c', st')) \<and> abs_state st' = row \<and> cfaExpression st' = x)"

lemma def_cfa_handled:
  assumes "r < 2 ^ 31" "n < 2 ^ 31" "bytes_at m c (uleb128_encode r @ uleb128_encode n)"
    and "cfaExpression st = 0"
  shows "handled (c + of_nat (length (uleb128_encode r @ uleb128_encode n)))
      (spec_instr A cie a (Def_cfa r n) (abs_state st)) (ParseAndExecute_def_cfa A m c st) 0"
  using assms
  by (auto simp: bytes_at_append ParseAndExecute_def_cfa_def uleb128_decode reg_gt handled_def
      abs_state_def add.assoc)

lemma def_cfa_register_handled:
  assumes "r < 2 ^ 31" "bytes_at m c (uleb128_encode r)" and "cfaExpression st = 0"
  shows "handled (c + of_nat (length (uleb128_encode r)))
      (spec_instr A cie a (Def_cfa_register r) (abs_state st)) (ParseAndExecute_def_cfa_register A m c st) 0"
  using assms
  by (auto simp: ParseAndExecute_def_cfa_register_def uleb128_decode reg_gt handled_def abs_state_def)

lemma def_cfa_offset_handled:
  assumes "n < 2 ^ 31" "bytes_at m c (uleb128_encode n)" and "cfaExpression st = 0"
  shows "handled (c + of_nat (length (uleb128_encode n)))
      (spec_instr A cie a (Def_cfa_offset n) (abs_state st)) (ParseAndExecute_def_cfa_offset m c st) 0"
  using assms
  by (auto simp: ParseAndExecute_def_cfa_offset_def uleb128_decode handled_def abs_state_def)

lemma same_value_handled:
  assumes "r < 2 ^ 31" "bytes_at m c (uleb128_encode r)"
  shows "handled (c + of_nat (length (uleb128_encode r)))
      (spec_instr A cie a (Same_value r) (abs_state st)) (ParseAndExecute_same_value A m c st)
      (cfaExpression st)"
  using assms
  by (auto simp: ParseAndExecute_same_value_def uleb128_decode reg_gt handled_def rule_at_def
      set_register_nat abs_state_def map_update not_less reg_unat)

lemma register_handled:
  assumes "r < 2 ^ 31" "s < 2 ^ 31" "bytes_at m c (uleb128_encode r @ uleb128_encode s)"
  shows "handled (c + of_nat (length (uleb128_encode r @ uleb128_encode s)))
      (spec_instr A cie a (Register r s) (abs_state st)) (ParseAndExecute_register A m c st)
      (cfaExpression st)"
  using assms
  by (auto simp: bytes_at_append ParseAndExecute_register_def uleb128_decode reg_gt handled_def rule_at_def
      set_register_nat abs_state_def map_update not_less reg_unat add.assoc)

lemma offset_handled:
  assumes "r < 64" "n < 2 ^ 31" "bytes_at m c (uleb128_encode n)"
  shows "handled (c + of_nat (length (uleb128_encode n)))
      (spec_instr A cie a (Offset r n) (abs_state st)) (ParseAndExecute_offset A m cie c st (of_nat r))
      (cfaExpression st)"
  using assms
  by (auto simp: ParseAndExecute_offset_def uleb128_decode reg_gt handled_def rule_at_def
      set_register_nat abs_state_def map_update not_less reg_unat ucast_of_nat_small Let_def)

lemma expression_handled:
  assumes "r < 2 ^ 31" "length e < 2 ^ 31" "bytes_at m c (uleb128_encode r @ sized e)" "c = a + 1"
  shows "handled (c + of_nat (length (uleb128_encode r @ sized e)))
      (spec_instr A cie a (Expression r e) (abs_state st)) (ParseAndExecute_expression A m c st)
      (cfaExpression st)"
    "handled (c + of_nat (length (uleb128_encode r @ sized e)))
      (spec_instr A cie a (Val_expression r e) (abs_state st)) (ParseAndExecute_val_expression A m c st)
      (cfaExpression st)"
  using assms
  by (auto simp: bytes_at_append sized_def ParseAndExecute_expression_def ParseAndExecute_val_expression_def
      uleb128_decode reg_gt handled_def rule_at_def set_register_nat abs_state_def map_update not_less reg_unat algebra_simps)

lemma def_cfa_expression_handled:
  assumes "length e < 2 ^ 31" "bytes_at m c (sized e)" "c = a + 1" "c \<noteq> 0"
  shows "handled (c + of_nat (length (sized e)))
      (spec_instr A cie a (Def_cfa_expression e) (abs_state st))
      (ParseAndExecute_def_cfa_expression A m c st) c"
  using assms
  by (auto simp: bytes_at_append sized_def ParseAndExecute_def_cfa_expression_def
      uleb128_decode handled_def abs_state_def algebra_simps)

text \<open>One loop iteration is one instruction.\<close>

lemma handled_step:
  assumes "handled c' spec r x"
  shows "case spec of
      None \<Rightarrow> with_state loc r = Some None
    | Some row \<Rightarrow> \<exists>st'. with_state loc r = Some (Some (c', st', loc)) \<and> abs_state st' = row \<and>
        cfaExpression st' = x"
  using assms by (auto simp: handled_def with_state_def split: option.splits)

lemma operand_instruction:
  "0x40 \<le> b \<Longrightarrow> b \<notin> {0, 1, 2, 3, 4, 0x0C, 0x0D, 0x0E, 8, 9, 0x0F, 0x10, 0x16} \<union>
     set unimplemented_instructions"
  by (auto simp: unimplemented_instructions_def word_le_nat_alt)

lemma instruction_step_implements:
  assumes code: "bytes_at m c (instr_encode i)" and ok: "instr_ok i"
    and sup: "supported adv ex (i # ins)"
    and loc: "\<not> adv \<Longrightarrow> loc = 0" and x: "\<not> ex \<Longrightarrow> cfaExpression st = 0" and c: "c + 1 \<noteq> 0"
  shows "case spec_instr A cie c i (abs_state st) of
      None \<Rightarrow> instruction_step A m cie (c, st, loc) = Some None
    | Some row \<Rightarrow> \<exists>st'. instruction_step A m cie (c, st, loc) =
          Some (Some (c + of_nat (length (instr_encode i)), st', spec_advance cie i loc)) \<and>
        abs_state st' = row \<and>
        cfaExpression st' = (case i of Def_cfa_expression e \<Rightarrow> c + 1 | _ \<Rightarrow> cfaExpression st)"
proof -
  let ?c' = "c + of_nat (length (instr_encode i))"
  let ?x = "case i of Def_cfa_expression e \<Rightarrow> c + 1 | _ \<Rightarrow> cfaExpression st"
  have parse: "FIRCLSParseUint8AndAdvance m c = Some (hd (instr_encode i), c + 1)"
    using code by (cases i) (simp_all add: parse_uint8)
  have tl: "bytes_at m (c + 1) (tl (instr_encode i))" using code by (cases i) simp_all
  note step = instruction_step_def parse
  have state: ?thesis
    if "instruction_step A m cie (c, st, loc) = with_state loc r" "spec_advance cie i loc = loc"
      and h: "handled ?c' (spec_instr A cie c i (abs_state st)) r ?x" for r
    unfolding that(1,2) by (rule handled_step [OF h])
  have advance: ?thesis
    if "instruction_step A m cie (c, st, loc) = Some (Some (?c', st, spec_advance cie i loc))"
      and "spec_instr A cie c i (abs_state st) = Some (abs_state st)" "?x = cfaExpression st"
    using that by simp
  show ?thesis
  proof (cases i)
    case Nop
    then show ?thesis by (intro advance) (simp_all add: step)
  next
    case (Advance_loc d)
    then have "loc = 0" "d < 64" using sup loc ok by simp_all
    moreover have "(0x40 + of_nat d :: u8) \<notin> {0, 1, 2, 3, 4, 0x0C, 0x0D, 0x0E, 8, 9, 0x0F, 0x10, 0x16}
        \<union> set unimplemented_instructions"
      using operand_instruction [OF opcode_operand(5) [OF \<open>d < 64\<close>]] by simp
    ultimately show ?thesis
      using Advance_loc opcode_operand(1,2) [of d]
      by (intro advance) (simp_all add: step FIRCLSDwarfParseAndExecuteInstructionWithOperand_def
          ParseAndExecute_advance_loc_def ucast_of_nat_small)
  next
    case (Advance_loc1 d)
    then show ?thesis using tl ok
      by (intro advance) (simp_all add: step ParseAndExecute_advance_loc1_def with_offset_def
          parse_uint8 ucast_of_nat_small)
  next
    case (Advance_loc2 d)
    then show ?thesis using tl ok
      by (intro advance) (simp_all add: step ParseAndExecute_advance_loc2_def with_offset_def
          FIRCLSParseUint16AndAdvance_def load16_def load_le_at ucast_of_nat_small add.assoc)
  next
    case (Advance_loc4 d)
    then show ?thesis using tl ok
      by (intro advance) (simp_all add: step ParseAndExecute_advance_loc4_def with_offset_def
          FIRCLSParseUint32AndAdvance_def load32_def load_le_at ucast_of_nat_small add.assoc)
  next
    case (Def_cfa r n)
    then have "cfaExpression st = 0" using sup x by simp
    with Def_cfa ok tl show ?thesis
      using def_cfa_handled [of r n m "c + 1" st A cie c]
      by (intro state [of "ParseAndExecute_def_cfa A m (c + 1) st"]) (simp_all add: step add.assoc split del: if_split)
  next
    case (Def_cfa_register r)
    then have "cfaExpression st = 0" using sup x by simp
    with Def_cfa_register ok tl show ?thesis
      using def_cfa_register_handled [of r m "c + 1" st A cie c]
      by (intro state [of "ParseAndExecute_def_cfa_register A m (c + 1) st"]) (simp_all add: step add.assoc split del: if_split)
  next
    case (Def_cfa_offset n)
    then have "cfaExpression st = 0" using sup x by simp
    with Def_cfa_offset ok tl show ?thesis
      using def_cfa_offset_handled [of n m "c + 1" st A cie c]
      by (intro state [of "ParseAndExecute_def_cfa_offset m (c + 1) st"]) (simp_all add: step add.assoc split del: if_split)
  next
    case (Same_value r)
    with ok tl show ?thesis
      using same_value_handled [of r m "c + 1" A cie c st]
      by (intro state [of "ParseAndExecute_same_value A m (c + 1) st"]) (simp_all add: step add.assoc split del: if_split)
  next
    case (Register r s)
    with ok tl show ?thesis
      using register_handled [of r s m "c + 1" A cie c st]
      by (intro state [of "ParseAndExecute_register A m (c + 1) st"]) (simp_all add: step add.assoc split del: if_split)
  next
    case (Offset r n)
    then have "r < 64" using ok by simp
    moreover have "(0x80 + of_nat r :: u8) \<notin> {0, 1, 2, 3, 4, 0x0C, 0x0D, 0x0E, 8, 9, 0x0F, 0x10, 0x16}
        \<union> set unimplemented_instructions"
      using operand_instruction [OF opcode_operand(6) [OF \<open>r < 64\<close>]] by simp
    ultimately show ?thesis
      using Offset ok tl opcode_operand(3,4) [of r] offset_handled [of r n m "c + 1" A cie c st]
      by (intro state [of "ParseAndExecute_offset A m cie (c + 1) st (of_nat r)"])
        (simp_all add: step add.assoc
          FIRCLSDwarfParseAndExecuteInstructionWithOperand_def split del: if_split)
  next
    case (Def_cfa_expression e)
    with ok tl c show ?thesis
      using def_cfa_expression_handled [of e m "c + 1" c A cie st]
      by (intro state [of "ParseAndExecute_def_cfa_expression A m (c + 1) st"]) (simp_all add: step add.assoc split del: if_split)
  next
    case (Expression r e)
    with ok tl show ?thesis
      using expression_handled(1) [of r e m "c + 1" c A cie st]
      by (intro state [of "ParseAndExecute_expression A m (c + 1) st"]) (simp_all add: step add.assoc split del: if_split)
  next
    case (Val_expression r e)
    with ok tl show ?thesis
      using expression_handled(2) [of r e m "c + 1" c A cie st]
      by (intro state [of "ParseAndExecute_val_expression A m (c + 1) st"]) (simp_all add: step add.assoc split del: if_split)
  qed
qed

lemma supported_tail:
  assumes "supported adv ex (i # ins)"
  obtains adv' ex' where "supported adv' ex' ins"
    "\<not> adv' \<longrightarrow> \<not> adv \<and> spec_advance cie i loc = loc"
    "\<not> ex' \<longrightarrow> \<not> ex \<and> (case i of Def_cfa_expression e \<Rightarrow> a | _ \<Rightarrow> x) = x"
  using assms by (cases i) auto

lemma enumerate_loop_implements:
  assumes "bytes_at m c (concat (map instr_encode ins))" "list_all instr_ok ins" "supported adv ex ins"
    and "\<not> adv \<Longrightarrow> loc = 0" "\<not> ex \<Longrightarrow> cfaExpression st = 0"
    and "unat c + length (concat (map instr_encode ins)) < 2 ^ 64"
    and "ending = c + of_nat (length (concat (map instr_encode ins)))"
  shows "map_option (map_option abs_state) (enumerate_loop A m cie ending pc (c, st, loc)) =
           Some (spec_rows A cie pc c ins (abs_state st) loc)"
  using assms
proof (induction ins arbitrary: adv ex c st loc)
  case Nil
  then show ?case by (subst enumerate_loop.simps) simp
next
  case (Cons i ins)
  let ?n = "length (instr_encode i)" and ?l = "length (concat (map instr_encode ins))"
  have n: "0 < ?n" by (cases i) simp_all
  have "unat ending = unat c + (?n + ?l)"
    using Cons.prems(6,7) unat_add_of_nat_small [of c "?n + ?l"] by simp
  with n have lt: "c < ending" by (simp add: word_less_nat_alt)
  show ?case
  proof (cases "loc <s pc")
    case False
    then show ?thesis by (subst enumerate_loop.simps) simp
  next
    case True
    have "unat c + 1 < 2 ^ 64"
      using Cons.prems(6) n unfolding list.map concat.simps length_append by linarith
    then have "unat (c + 1) = unat c + 1"
      using unat_add_of_nat_small [of c 1] by simp
    then have c1: "c + 1 \<noteq> 0" by (metis add_is_0 unat_0 one_neq_zero)
    have loop: "enumerate_loop A m cie ending pc (c, st, loc) =
        do { r \<leftarrow> instruction_step A m cie (c, st, loc);
             case r of None \<Rightarrow> Some None | Some cfg' \<Rightarrow> enumerate_loop A m cie ending pc cfg' }"
      using lt True by (subst enumerate_loop.simps) simp
    have step: "case spec_instr A cie c i (abs_state st) of
      None \<Rightarrow> instruction_step A m cie (c, st, loc) = Some None
    | Some row \<Rightarrow> \<exists>st'. instruction_step A m cie (c, st, loc) =
          Some (Some (c + of_nat ?n, st', spec_advance cie i loc)) \<and>
        abs_state st' = row \<and>
        cfaExpression st' = (case i of Def_cfa_expression e \<Rightarrow> c + 1 | _ \<Rightarrow> cfaExpression st)"
      using Cons.prems c1 by (intro instruction_step_implements) (simp_all add: bytes_at_append)
    show ?thesis
    proof (cases "spec_instr A cie c i (abs_state st)")
      case None
      with step loop True show ?thesis by simp
    next
      case (Some row)
      with step obtain st' where st': "instruction_step A m cie (c, st, loc) =
          Some (Some (c + of_nat ?n, st', spec_advance cie i loc))" "abs_state st' = row"
        "cfaExpression st' = (case i of Def_cfa_expression e \<Rightarrow> c + 1 | _ \<Rightarrow> cfaExpression st)" by auto
      obtain adv' ex' where tail: "supported adv' ex' ins"
        "\<not> adv' \<longrightarrow> \<not> adv \<and> spec_advance cie i loc = loc"
        "\<not> ex' \<longrightarrow> \<not> ex \<and>
           (case i of Def_cfa_expression e \<Rightarrow> c + 1 | _ \<Rightarrow> cfaExpression st) = cfaExpression st"
        by (rule supported_tail [OF Cons.prems(3), where a = "c + 1" and x = "cfaExpression st"])
      have u: "unat (c + of_nat ?n) = unat c + ?n"
        using Cons.prems(6) by (simp add: unat_add_of_nat_small)
      have "map_option (map_option abs_state)
          (enumerate_loop A m cie ending pc (c + of_nat ?n, st', spec_advance cie i loc)) =
        Some (spec_rows A cie pc (c + of_nat ?n) ins (abs_state st') (spec_advance cie i loc))"
        using Cons.prems(1,2,4,5,6,7) tail st'(3) u
        by (intro Cons.IH [OF _ _ tail(1)]) (simp_all add: bytes_at_append add.assoc)
      with loop st' Some True show ?thesis by simp
    qed
  qed
qed

section \<open>Properties\<close>

text \<open>C9: Running a call-frame program within the supported fragment computes, for the code offset
  asked, the row of CFA and register rules that the DWARF standard gives, or is rejected exactly
  when a register number is out of range.\<close>

theorem cfa_program_correct:
  fixes A :: "'r arch"
  assumes "bytes_at m c (concat (map instr_encode ins))" "list_all instr_ok ins"
    and "supported False (cfaExpression st \<noteq> 0) ins"
    and "unat c + length (concat (map instr_encode ins)) < 2 ^ 64"
    and "length (concat (map instr_encode ins)) < 2 ^ 32"
  shows "map_option (map_option abs_state)
      (FIRCLSDwarfInstructionsEnumerate A m
         \<lparr>instr_length = of_nat (length (concat (map instr_encode ins))), instr_data = c\<rparr> cie st pc) =
    Some (spec_rows A cie pc c ins (abs_state st) 0)"
proof -
  have "(ucast (of_nat (length (concat (map instr_encode ins))) :: u32) :: u64) =
      of_nat (length (concat (map instr_encode ins)))"
    using assms(5) by (intro ucast_of_nat_small) simp
  then show ?thesis
    using enumerate_loop_implements [OF assms(1-3), of 0 st _ A cie pc] assms(4)
    by (simp add: FIRCLSDwarfInstructionsEnumerate_def Let_def)
qed

text \<open>C24: Whatever bytes a call-frame program has, an instruction faults exactly when its own byte or
  operands cannot be read, so never by an access outside the table of registers; and an
  instruction or a whole program that succeeds leaves the CFA register and every register number
  stored in the table within the architecture range (or the CFA register at the number that
  marks an expression), so that later reads of the thread context are in bounds.\<close>

theorem instructions_keep_registers_in_range:
  assumes "dwarf_state_ok A st"
  shows "(case instruction_step A m cie (c, st, off) of
            None \<Rightarrow> \<not> instruction_readable A m cie c
          | Some None \<Rightarrow> instruction_readable A m cie c
          | Some (Some (c', st', off')) \<Rightarrow> instruction_readable A m cie c \<and> dwarf_state_ok A st') \<and>
    (case FIRCLSDwarfInstructionsEnumerate A m ins cie st pc of
       Some (Some st') \<Rightarrow> dwarf_state_ok A st'
     | _ \<Rightarrow> True)"
proof
  show "case instruction_step A m cie (c, st, off) of
            None \<Rightarrow> \<not> instruction_readable A m cie c
          | Some None \<Rightarrow> instruction_readable A m cie c
          | Some (Some (c', st', off')) \<Rightarrow> instruction_readable A m cie c \<and> dwarf_state_ok A st'"
    using instruction_step_fault [of A m cie c st off] instruction_step_ok [OF assms, of m cie c off]
    by (auto split: option.split)
  show "case FIRCLSDwarfInstructionsEnumerate A m ins cie st pc of
       Some (Some st') \<Rightarrow> dwarf_state_ok A st'
     | _ \<Rightarrow> True"
    using assms enumerate_loop_ok [of A m cie _ pc "(_, st, _)"]
    by (fastforce simp: FIRCLSDwarfInstructionsEnumerate_def Let_def split: option.split)
qed

text \<open>A typical x86_64 prologue: the CIE's rules, then a push of the frame pointer.\<close>

theorem cfa_program_correct_witness:
  "map_option (map_option abs_state) (FIRCLSDwarfInstructionsEnumerate x86_64_arch
      (mem_of 4096 [0x0C, 7, 8, 0x90, 1, 0x41, 0x0E, 16, 0x86, 2, 0x02, 3, 0x0D, 6])
      \<lparr>instr_length = 14, instr_data = 4096\<rparr>
      (zero_cie\<lparr>codeAlignFactor := 1, dataAlignFactor := - 8\<rparr>) (zero_state x86_64_arch) 3) =
    Some (Some \<lparr>row_cfa = Cfa_register 7 16, row_regs = (replicate 17 Same)[16 := Saved_at (- 8), 6 := Saved_at (- 16)]\<rparr>)"
proof -
  let ?code = "[0x0C, 7, 8, 0x90, 1, 0x41, 0x0E, 16, 0x86, 2, 0x02, 3, 0x0D, 6] :: u8 list"
  let ?ins = "[Def_cfa 7 8, Offset 16 1, Advance_loc 1, Def_cfa_offset 16, Offset 6 2, Advance_loc1 3,
     Def_cfa_register 6]"
  have e: "concat (map instr_encode ?ins) = ?code"
    by (simp add: uleb128_encode.simps)
  have b: "bytes_at (mem_of 4096 ?code) 4096 (concat (map instr_encode ?ins))"
    unfolding e by (rule bytes_at_mem_of) simp
  have z: "abs_state (zero_state x86_64_arch) = \<lparr>row_cfa = Cfa_register 0 0, row_regs = replicate 17 Same\<rparr>"
    by (simp add: abs_state_def zero_state_def zero_register_def x86_64_arch_def)
  have "supported False (cfaExpression (zero_state x86_64_arch) \<noteq> 0) ?ins"
    by (simp add: zero_state_def)
  from cfa_program_correct [OF b _ this, of x86_64_arch "zero_cie\<lparr>codeAlignFactor := 1, dataAlignFactor := - 8\<rparr>" 3]
  show ?thesis
    unfolding e z by (simp add: rule_at_def x86_64_arch_def word_sless_alt)
qed

theorem instructions_keep_registers_in_range_witness:
  "\<exists>r. instruction_step x86_64_arch (mem_of 4096 [0x80, 1]) zero_cie (4096, zero_state x86_64_arch, 0)
      = Some r \<and> pred_option (\<lambda>(c, st, off). dwarf_state_ok x86_64_arch st) r"
proof -
  define m where "m = mem_of 4096 [0x80, 1]"
  have "bytes_at m 4096 [0x80, 1]" unfolding m_def by (rule bytes_at_mem_of) simp
  then have m: "m 4096 = Some 0x80" "bytes_at m 4097 (uleb128_encode 1)"
    by (simp_all add: uleb128_encode.simps)
  then have "instruction_readable x86_64_arch m zero_cie 4096"
    using uleb128_decode [of 1 m 4097] by (simp add: instruction_readable_def)
  with instructions_keep_registers_in_range [OF zero_state_ok, where A = x86_64_arch and m = m
      and cie = zero_cie and c = 4096 and off = 0, THEN conjunct1]
  show ?thesis unfolding m_def [symmetric] by (auto split: option.split_asm)
qed

text \<open>\<open>DW_CFA_advance_loc\<close> assigns the location. After two of them the location is too small, and
  an instruction of a later row is applied at \<open>pc = 4\<close>.\<close>

theorem advance_loc_forgets_location:
  "let code = [Advance_loc 1, Advance_loc 3, Def_cfa_register 6];
       m = mem_of 4096 (concat (map instr_encode code));
       cie = zero_cie\<lparr>codeAlignFactor := 1\<rparr> in
   map_option (map_option abs_state) (FIRCLSDwarfInstructionsEnumerate x86_64_arch m
      \<lparr>instr_length = 4, instr_data = 4096\<rparr> cie (zero_state x86_64_arch) 4) =
     Some (Some \<lparr>row_cfa = Cfa_register 6 0, row_regs = replicate 17 Same\<rparr>) \<and>
   spec_rows x86_64_arch cie 4 4096 code (abs_state (zero_state x86_64_arch)) 0 =
     Some \<lparr>row_cfa = Cfa_register 0 0, row_regs = replicate 17 Same\<rparr>"
proof -
  let ?code = "[Advance_loc 1, Advance_loc 3, Def_cfa_register 6]"
  let ?cie = "zero_cie\<lparr>codeAlignFactor := 1\<rparr>"
  have e: "concat (map instr_encode ?code) = [0x41, 0x43, 0x0D, 6]" by (simp add: uleb128_encode.simps)
  have "bytes_at (mem_of 4096 [0x41, 0x43, 0x0D, 6]) 4096 [0x41, 0x43, 0x0D, 6]"
    by (rule bytes_at_mem_of) simp
  then have b: "bytes_at (mem_of 4096 [0x41, 0x43, 0x0D, 6]) 4098 (concat (map instr_encode [Def_cfa_register 6]))"
    and c: "mem_of 4096 [0x41, 0x43, 0x0D, 6] 4096 = Some 0x41"
      "mem_of 4096 [0x41, 0x43, 0x0D, 6] 4097 = Some 0x43"
    by (simp_all add: uleb128_encode.simps)
  have s: "instruction_step x86_64_arch (mem_of 4096 [0x41, 0x43, 0x0D, 6]) ?cie (4096, st, 0) = Some (Some (4097, st, 1))"
    "instruction_step x86_64_arch (mem_of 4096 [0x41, 0x43, 0x0D, 6]) ?cie (4097, st, 1) = Some (Some (4098, st, 3))" for st
    by (simp_all add: instruction_step_def parse_uint8 c unimplemented_instructions_def
        FIRCLSDwarfParseAndExecuteInstructionWithOperand_def ParseAndExecute_advance_loc_def)
  have z: "abs_state (zero_state x86_64_arch) = \<lparr>row_cfa = Cfa_register 0 0, row_regs = replicate 17 Same\<rparr>"
    by (simp add: abs_state_def zero_state_def zero_register_def x86_64_arch_def)
  have "enumerate_loop x86_64_arch (mem_of 4096 [0x41, 0x43, 0x0D, 6]) ?cie 4100 4 (4096, zero_state x86_64_arch, 0)
      = enumerate_loop x86_64_arch (mem_of 4096 [0x41, 0x43, 0x0D, 6]) ?cie 4100 4 (4098, zero_state x86_64_arch, 3)"
    by (subst enumerate_loop.simps, simp add: s word_sless_alt,
        subst enumerate_loop.simps, simp add: s word_sless_alt)
  moreover have "map_option (map_option abs_state) (enumerate_loop x86_64_arch
      (mem_of 4096 [0x41, 0x43, 0x0D, 6]) ?cie 4100 4 (4098, zero_state x86_64_arch, 3)) =
    Some (spec_rows x86_64_arch ?cie 4 4098 [Def_cfa_register 6] (abs_state (zero_state x86_64_arch)) 3)"
    by (rule enumerate_loop_implements [OF b, where adv = True and ex = False])
      (simp_all add: uleb128_encode.simps zero_state_def)
  ultimately show ?thesis
    unfolding Let_def e
    by (simp add: FIRCLSDwarfInstructionsEnumerate_def z x86_64_arch_def [THEN arg_cong [of _ _ max_reg]]
        word_sless_alt)
qed


text \<open>An expression length above \<open>2^31\<close> is read as a negative number, and the interpreter goes back
  to the instruction it came from, forever. No step faults.\<close>

text \<open>C40: An expression length that reads as a negative number takes the interpreter back to the same
  instruction forever: no step faults and the loop never returns.\<close>

theorem expression_length_loops:
  "let m = mem_of 4096 [0x0F, 0xFA, 0xFF, 0xFF, 0xFF, 0x0F]; A = x86_64_arch in
   (\<forall>st. \<exists>st'. instruction_step A m zero_cie (4096, st, 0) = Some (Some (4096, st', 0))) \<and>
   FIRCLSDwarfInstructionsEnumerate A m \<lparr>instr_length = 6, instr_data = 4096\<rparr> zero_cie (zero_state A) 1 = None"
proof -
  let ?m = "mem_of 4096 [0x0F, 0xFA, 0xFF, 0xFF, 0xFF, 0x0F]"
  have m: "?m 4096 = Some 0x0F" "?m 4097 = Some 0xFA" "?m 4098 = Some 0xFF" "?m 4099 = Some 0xFF"
    "?m 4100 = Some 0xFF" "?m 4101 = Some 0x0F"
    by (simp_all add: mem_of_def)
  have u: "FIRCLSParseULEB128AndAdvance ?m 4097 = Some (- 6, 4102)"
    by (simp add: FIRCLSParseULEB128AndAdvance_def load8_def m shl_int_def eval_simps Let_def)
  have step: "\<exists>st'. instruction_step x86_64_arch ?m zero_cie (4096, st, 0) = Some (Some (4096, st', 0))" for st
    by (simp add: instruction_step_def parse_uint8 m ParseAndExecute_def_cfa_expression_def u with_state_def)
  have "enumerate_loop x86_64_arch ?m zero_cie 4102 1 (4096, st, 0) = Some r \<Longrightarrow> False" for st r
  proof -
    assume r: "enumerate_loop x86_64_arch ?m zero_cie 4102 1 (4096, st, 0) = Some r"
    have "\<not> (A = x86_64_arch \<and> mm = ?m \<and> cie = zero_cie \<and> e = 4102 \<and> pc = 1 \<and> fst cfg = 4096 \<and> snd (snd cfg) = 0)"
      if "enumerate_loop A mm cie e pc cfg = Some r" for A mm cie e pc cfg r
    proof (rule enumerate_loop.raw_induct [where P = "\<lambda>A mm cie e pc cfg r.
        \<not> (A = x86_64_arch \<and> mm = ?m \<and> cie = zero_cie \<and> e = 4102 \<and> pc = 1 \<and> fst cfg = 4096 \<and> snd (snd cfg) = 0)",
        OF _ that], goal_cases)
      case (1 loop A mm cie e pc cfg r)
      show ?case
      proof
        assume *: "A = x86_64_arch \<and> mm = ?m \<and> cie = zero_cie \<and> e = 4102 \<and> pc = 1 \<and> fst cfg = 4096 \<and> snd (snd cfg) = 0"
        then obtain st where cfg: "cfg = (4096, st, 0)" by (cases cfg) auto
        obtain st' where "instruction_step x86_64_arch ?m zero_cie (4096, st, 0) = Some (Some (4096, st', 0))"
          using step by blast
        with 1(2) * cfg have "loop x86_64_arch ?m zero_cie 4102 1 (4096, st', 0) = Some r"
          by (simp add: word_sless_alt)
        from 1(1) [OF this] show False by simp
      qed
    qed
    from this [OF r] show False by simp
  qed
  then have "enumerate_loop x86_64_arch ?m zero_cie 4102 1 (4096, zero_state x86_64_arch, 0) = None"
    by (meson not_None_eq)
  with step show ?thesis by (simp add: FIRCLSDwarfInstructionsEnumerate_def)
qed

text \<open>C11: When FIRCLSDwarfUnwindAssignRegisters succeeds on arm64, every register has its saved value
  or is unchanged, SP is the CFA, PC follows the link register, and both SP and the link
  register have changed.\<close>

theorem assign_registers_restores:
  assumes "FIRCLSDwarfUnwindAssignRegisters arm64_arch m st regs cfa = Some (Some new)"
    and "length (dw_registers st) = 32" and "k \<le> 30"
  shows "(arm64_GetRegisterValue new k =
      (if location (dw_registers st ! unat k) = FIRCLSDwarfRegisterUnused
       then arm64_GetRegisterValue regs k
       else arm64_norm k (the (FIRCLSDwarfGetSavedRegister arm64_arch m regs cfa (dw_registers st ! unat k))))) \<and>
    arm64_GetStackPointer new = CLS_PTRAUTH_STRIP cfa \<and>
    (arm64_GetPC new =
      (if location (dw_registers st ! 30) = FIRCLSDwarfRegisterUnused then arm64_GetPC regs
       else CLS_PTRAUTH_STRIP (the (FIRCLSDwarfGetSavedRegister arm64_arch m regs cfa (dw_registers st ! 30))))) \<and>
    arm64_GetStackPointer new \<noteq> arm64_GetStackPointer regs \<and>
    arm64_GetLinkRegister new \<noteq> arm64_GetLinkRegister regs"
proof (intro conjI)
  have len: "length (dw_registers st) = unat (max_reg arm64_arch) + 1"
    using assms(2) by (simp add: arm64_arch_def)
  note r = arm64.AssignRegisters_result [OF assms(1) len]
  have k: "k \<le> max_reg arm64_arch" "k \<noteq> sp_reg arm64_arch"
    using assms(3) by (auto simp: arm64_arch_def word_le_nat_alt)
  show "arm64_GetRegisterValue new k =
      (if location (dw_registers st ! unat k) = FIRCLSDwarfRegisterUnused
       then arm64_GetRegisterValue regs k
       else arm64_norm k (the (FIRCLSDwarfGetSavedRegister arm64_arch m regs cfa (dw_registers st ! unat k))))"
    using r(1) [OF k] by (simp add: arm64_arch_def)
  show "arm64_GetStackPointer new = CLS_PTRAUTH_STRIP cfa"
    using r(2) by (simp add: arm64_arch_def arm64_GetRegisterValue_def arm64_norm_def)
  show "arm64_GetPC new =
      (if location (dw_registers st ! 30) = FIRCLSDwarfRegisterUnused then arm64_GetPC regs
       else CLS_PTRAUTH_STRIP (the (FIRCLSDwarfGetSavedRegister arm64_arch m regs cfa (dw_registers st ! 30))))"
    using r(3) by (simp add: arm64_arch_def arm64_norm_def)
  show "arm64_GetStackPointer new \<noteq> arm64_GetStackPointer regs"
    "arm64_GetLinkRegister new \<noteq> arm64_GetLinkRegister regs"
    using r(4,5) by (simp_all add: arm64_arch_def arm64_GetRegisterValue_def)
qed

text \<open>A leaf that keeps its return address in \<open>x5\<close>.\<close>

theorem assign_registers_restores_witness:
  "let regs = \<lparr>arm_x = (\<lambda>_. 0)(5 := 0x4321), arm_fp = 7, arm_lr = 0, arm_sp = 0x2000, arm_pc = 0x100\<rparr>;
       st = (zero_state arm64_arch)\<lparr>dw_registers := (replicate 32 zero_register)
         [30 := \<lparr>location = FIRCLSDwarfRegisterInRegister, reg_value = 5\<rparr>]\<rparr> in
   \<exists>new. FIRCLSDwarfUnwindAssignRegisters arm64_arch (\<lambda>_. None) st regs 0x2010 = Some (Some new) \<and>
     arm64_GetPC new = 0x4321 \<and> arm64_GetStackPointer new = 0x2010 \<and> arm64_GetRegisterValue new 29 = 7"
proof -
  define regs where "regs = \<lparr>arm_x = (\<lambda>_. 0)(5 := 0x4321), arm_fp = 7, arm_lr = 0, arm_sp = 0x2000, arm_pc = 0x100\<rparr>"
  define st where "st = (zero_state arm64_arch)\<lparr>dw_registers := (replicate 32 zero_register)
         [30 := \<lparr>location = FIRCLSDwarfRegisterInRegister, reg_value = 5\<rparr>]\<rparr>"
  have regs: "dw_registers st = replicate 30 zero_register @
      [\<lparr>location = FIRCLSDwarfRegisterInRegister, reg_value = 5\<rparr>, zero_register]"
    by (simp add: st_def numeral_eq_Suc)
  have skip: "assign_loop arm64_arch m r cfa (replicate n zero_register @ ds) i new =
      assign_loop arm64_arch m r cfa ds (i + of_nat n) new" for m r cfa n ds i new
    by (induction n arbitrary: i) (simp_all add: zero_register_def add.assoc)
  have saved: "FIRCLSDwarfGetSavedRegister arm64_arch (\<lambda>_. None) regs 0x2010
      \<lparr>location = FIRCLSDwarfRegisterInRegister, reg_value = 5\<rparr> = Some 0x4321"
    by (simp add: FIRCLSDwarfGetSavedRegister_def arm64_arch_def arm64_GetRegisterValue_def regs_def)
  have unused: "location zero_register = FIRCLSDwarfRegisterUnused" by (simp add: zero_register_def)
  have "reg_set arm64_arch regs 30 0x4321 = (True, regs\<lparr>arm_lr := 0x4321, arm_pc := 0x4321\<rparr>)"
    by (simp add: arm64_defs)
  then have loop: "assign_loop arm64_arch (\<lambda>_. None) regs 0x2010 (dw_registers st) 0 regs =
      Some (Some (regs\<lparr>arm_lr := 0x4321, arm_pc := 0x4321\<rparr>))"
    unfolding regs skip by (simp add: saved unused)
  obtain new where new: "FIRCLSDwarfUnwindAssignRegisters arm64_arch (\<lambda>_. None) st regs 0x2010 = Some (Some new)"
    by (simp add: FIRCLSDwarfUnwindAssignRegisters_def loop)
      (simp add: FIRCLSDwarfCompareRegisters_def arm64_defs CLS_PTRAUTH_STRIP_def regs_def)
  have len: "length (dw_registers st) = 32" by (simp add: st_def)
  have k: "(29 :: u64) \<le> 30" by simp
  have "dw_registers st ! 30 = \<lparr>location = FIRCLSDwarfRegisterInRegister, reg_value = 5\<rparr>"
    "dw_registers st ! 29 = zero_register"
    by (simp_all add: st_def)
  then have "arm64_GetPC new = 0x4321 \<and> arm64_GetStackPointer new = 0x2010 \<and> arm64_GetRegisterValue new 29 = 7"
    using assign_registers_restores [OF new len k]
    by (simp add: saved CLS_PTRAUTH_STRIP_def zero_register_def)
      (simp add: arm64_GetRegisterValue_def arm64_GetFramePointer_def CLS_PTRAUTH_STRIP_def regs_def)
  with new show ?thesis unfolding Let_def regs_def st_def by blast
qed

section \<open>CIE and FDE records\<close>

text \<open>The records a compiler emits: augmentation \<open>zR\<close> with a pc-relative signed 4-byte encoding.\<close>

definition cie_body :: "nat \<Rightarrow> int \<Rightarrow> u8 \<Rightarrow> u8 list \<Rightarrow> u8 list" where
  "cie_body caf daf ra ins =
     le_bytes 4 0 @ [1, 0x7A, 0x52, 0] @ uleb128_encode caf @ sleb128_encode daf @ [ra] @ [1, 0x1B] @ ins"

definition cie_encode :: "nat \<Rightarrow> int \<Rightarrow> u8 \<Rightarrow> u8 list \<Rightarrow> u8 list" where
  "cie_encode caf daf ra ins =
     le_bytes 4 (length (cie_body caf daf ra ins)) @ cie_body caf daf ra ins"

definition fde_body :: "u32 \<Rightarrow> u32 \<Rightarrow> nat \<Rightarrow> u8 list \<Rightarrow> u8 list" where
  "fde_body off rel extent ins =
     le_bytes 4 (unat off) @ le_bytes 4 (unat rel) @ le_bytes 4 extent @ [0] @ ins"

definition fde_encode :: "u32 \<Rightarrow> u32 \<Rightarrow> nat \<Rightarrow> u8 list \<Rightarrow> u8 list" where
  "fde_encode off rel extent ins =
     le_bytes 4 (length (fde_body off rel extent ins)) @ fde_body off rel extent ins"

text \<open>Where the instructions of a CIE begin, relative to it.\<close>

definition cie_header :: "nat \<Rightarrow> int \<Rightarrow> nat" where
  "cie_header caf daf = 15 + length (uleb128_encode caf) + length (sleb128_encode daf)"

definition cie_record :: "addr \<Rightarrow> nat \<Rightarrow> int \<Rightarrow> u8 \<Rightarrow> u8 list \<Rightarrow> DWARFCIERecord" where
  "cie_record c caf daf ra ins = zero_cie\<lparr>cie_length := of_nat (length (cie_body caf daf ra ins)),
     version := 1, augmentation := c + 9, pointerEncoding := 0x1B, codeAlignFactor := of_nat caf,
     dataAlignFactor := of_int daf, returnAddressRegister := ucast ra,
     cie_instructions := \<lparr>instr_length = of_nat (length ins),
       instr_data = c + of_nat (cie_header caf daf)\<rparr>\<rparr>"

lemma parse_uint32: "bytes_at m c (le_bytes 4 n) \<Longrightarrow> n < 2 ^ 32 \<Longrightarrow>
    FIRCLSParseUint32AndAdvance m c = Some (of_nat n, c + 4)"
  by (simp add: FIRCLSParseUint32AndAdvance_def load32_def load_le_at)

lemma parse_length:
  assumes "bytes_at m c (le_bytes 4 n)" "n < 0xffffffff"
  shows "FIRCLSParseRecordLengthAndAdvance m c = Some (of_nat n, c + 4)"
proof -
  have "(of_nat n :: u64) \<noteq> 0xffffffff"
  proof
    assume "(of_nat n :: u64) = 0xffffffff"
    then have "unat (of_nat n :: u64) = unat (0xffffffff :: u64)" by simp
    with assms(2) show False by (simp add: unat_of_nat_small)
  qed
  with assms show ?thesis
    by (simp add: FIRCLSParseRecordLengthAndAdvance_def parse_uint32 ucast_of_nat_small Let_def)
qed

lemma parse_zR:
  assumes "bytes_at m c [0x7A, 0x52, 0]"
  shows "c_strlen m c 0 = Some 2"
proof -
  have "m c = Some 0x7A" "m (c + 1) = Some 0x52" "m (c + 2) = Some 0"
    using assms by (simp_all add: add.assoc)
  then have "load8 m (c + 0) = Some 0x7A" "load8 m (c + 1) = Some 0x52" "load8 m (c + 2) = Some 0"
    by (simp_all add: load8_def)
  note b = this
  have "c_strlen m c 0 = c_strlen m c 1" by (subst c_strlen.simps) (simp only: b, simp)
  also have "\<dots> = c_strlen m c 2" by (subst c_strlen.simps) (simp only: b, simp)
  also have "\<dots> = Some 2" by (subst c_strlen.simps) (simp only: b, simp)
  finally show ?thesis .
qed

lemma small_uleb [simp]: "n < 128 \<Longrightarrow> uleb128_encode n = [of_nat n]"
  by (simp add: uleb128_encode.simps)

lemma parse_augmentation_zR:
  assumes "bytes_at m (augmentation cie) [0x7A, 0x52, 0]" "bytes_at m p [1, 0x1B]"
    and "augmentation cie \<noteq> 0" "p + 2 \<noteq> 0"
  shows "FIRCLSDwarfParseAndProcessAugmentation m cie p =
    Some (Some (cie\<lparr>pointerEncoding := 0x1B\<rparr>, p + 2))"
proof -
  have u: "FIRCLSParseULEB128AndAdvance m p = Some (1, p + 1)"
    using uleb128_decode [of 1 m p] assms(2) by simp
  have "\<not> p + 1 + 1 > p + 1 + 1" by simp
  with assms u show ?thesis
    by (simp add: FIRCLSDwarfParseAndProcessAugmentation_def load8_def parse_zR parse_uint8 add.assoc)
qed

lemma parse_cie:
  assumes code: "bytes_at m c (cie_encode caf daf ra ins)" and c: "c \<noteq> 0"
    and fits: "unat c + length (cie_encode caf daf ra ins) < 2 ^ 64"
      "length (cie_encode caf daf ra ins) < 2 ^ 32 - 1"
    and caf: "caf < 2 ^ 31" and daf: "- (2 ^ 27) \<le> daf" "daf < 2 ^ 31"
  shows "FIRCLSDwarfParseCIERecord m c = Some (Some (cie_record c caf daf ra ins))"
proof -
  let ?n = "length (cie_body caf daf ra ins)"
  let ?u = "of_nat (length (uleb128_encode caf)) :: addr" and ?s = "of_nat (length (sleb128_encode daf)) :: addr"
  define p5 p6 where "p5 = c + 12 + ?u" and "p6 = c + 12 + ?u + ?s"
  have n: "?n = 11 + length (uleb128_encode caf) + length (sleb128_encode daf) + length ins"
    by (simp add: cie_body_def)
  have at: "bytes_at m c (le_bytes 4 ?n)" "bytes_at m (c + 4) (le_bytes 4 0)"
    "m (c + 8) = Some 1" "bytes_at m (c + 9) [0x7A, 0x52, 0]"
    "bytes_at m (c + 12) (uleb128_encode caf)" "bytes_at m p5 (sleb128_encode daf)"
    "m p6 = Some ra" "bytes_at m (p6 + 1) [1, 0x1B]"
    using code by (simp_all add: cie_encode_def cie_body_def bytes_at_append add.assoc p5_def p6_def)
  have length: "FIRCLSParseRecordLengthAndAdvance m c = Some (of_nat ?n, c + 4)"
    using fits(2) by (intro parse_length at) (simp add: cie_encode_def)
  have flag: "FIRCLSParseUint32AndAdvance m (c + 4) = Some (0, c + 8)"
    using parse_uint32 [OF at(2)] by (simp add: add.assoc)
  have ver: "FIRCLSParseUint8AndAdvance m (c + 8) = Some (1, c + 9)"
    using parse_uint8 [of m "c + 8"] at(3) by (simp add: add.assoc)
  have aug: "FIRCLSParseStringAndAdvance m (c + 9) = Some (c + 9, c + 12)"
    using parse_zR [OF at(4)] by (simp add: FIRCLSParseStringAndAdvance_def add.assoc)
  have cafp: "FIRCLSParseULEB128AndAdvance m (c + 12) = Some (of_nat caf, p5)"
    using uleb128_decode [OF caf at(5)] by (simp add: p5_def)
  have dafp: "FIRCLSParseLEB128AndAdvance m p5 = Some (of_int daf, p6)"
    using sleb128_decode [OF daf at(6)] by (simp add: p5_def p6_def)
  have rap: "FIRCLSParseUint8AndAdvance m p6 = Some (ra, p6 + 1)"
    using parse_uint8 [of m p6] at(7) by simp
  have u9: "unat (c + of_nat 9) = unat c + 9" "unat (p6 + 1 + 2) = unat c + cie_header caf daf"
  proof -
    show "unat (c + of_nat 9) = unat c + 9"
      using fits(1) n by (intro unat_add_of_nat_small) (simp add: cie_encode_def)
    have "p6 + 1 + 2 = c + of_nat (cie_header caf daf)" by (simp add: cie_header_def p6_def)
    then show "unat (p6 + 1 + 2) = unat c + cie_header caf daf"
      using fits(1) n by (simp only:, intro unat_add_of_nat_small) (simp add: cie_encode_def cie_header_def)
  qed
  then have nz: "c + 9 \<noteq> 0" "p6 + 1 + 2 \<noteq> 0"
    by (auto simp: cie_header_def)
  have nn: "(of_nat ?n :: u64) \<noteq> 0"
  proof
    assume "(of_nat ?n :: u64) = 0"
    then have "unat (of_nat ?n :: u64) = 0" by simp
    moreover have "unat (of_nat ?n :: u64) = ?n"
      using fits(2) by (intro unat_of_nat_small) (simp add: cie_encode_def)
    ultimately show False using n by linarith
  qed
  have rest: "c + 4 + of_nat ?n - (p6 + 3) = of_nat (length ins)"
    by (simp add: n p6_def)
  have len: "(ucast (of_nat (length ins) :: u64) :: u32) = of_nat (length ins)"
    using fits(2) n by (intro ucast_of_nat_small) (simp add: cie_encode_def)
  let ?cie = "zero_cie\<lparr>cie_length := of_nat ?n, version := 1, pointerEncoding := 0, lsdaEncoding := 0,
     augmentation := c + 9, codeAlignFactor := of_nat caf, dataAlignFactor := of_int daf,
     returnAddressRegister := ucast ra\<rparr>"
  have "FIRCLSDwarfParseAndProcessAugmentation m ?cie (p6 + 1) =
      Some (Some (?cie\<lparr>pointerEncoding := 0x1B\<rparr>, p6 + 1 + 2))"
    using at(4,8) nz by (intro parse_augmentation_zR) (simp_all add: add.assoc)
  then have augp: "FIRCLSDwarfParseAndProcessAugmentation m ?cie (p6 + 1) =
      Some (Some (?cie\<lparr>pointerEncoding := 0x1B\<rparr>, p6 + 3))" by (simp add: add.assoc)
  have "FIRCLSDwarfParseCIERecord m c = Some (Some (?cie\<lparr>pointerEncoding := 0x1B, cie_instructions :=
      \<lparr>instr_length = ucast (c + 4 + of_nat ?n - (p6 + 3)), instr_data = p6 + 3\<rparr>\<rparr>))"
    using c nn augp by (simp add: FIRCLSDwarfParseCIERecord_def length flag ver aug cafp dafp rap Let_def)
  moreover have "p6 + 3 = c + of_nat (cie_header caf daf)" by (simp add: cie_header_def p6_def)
  ultimately show ?thesis unfolding rest len by (simp add: cie_record_def zero_cie_def)
qed


lemma parse_sdata4:
  assumes "bytes_at m c (le_bytes 4 n)" "n < 2 ^ 31" "c \<noteq> 0"
  shows "FIRCLSParseAddressWithEncodingAndAdvance m c 0x0B = Some (of_nat n, c + 4)"
proof -
  have "load32 m c = Some (of_nat n)"
    using assms(1,2) by (simp add: load32_def load_le_at)
  moreover have "(scast (of_nat n :: u32) :: u64) = of_nat n"
    using assms(2) by (intro scast_of_nat_small) simp
  ultimately show ?thesis
    using assms(3) by (simp add: FIRCLSParseAddressWithEncodingAndAdvance_def parse_encoded_value_def
        FIRCLSParseInt32AndAdvance_def)
qed

text \<open>C10: A CIE and an FDE laid out as compilers emit them (zR augmentation, pc-relative signed
  4-byte pointers) are parsed back to exactly the fields they were built from, the instruction
  ranges included.\<close>

theorem cfi_record_roundtrip:
  assumes cie: "bytes_at m c (cie_encode caf daf ra cins)" and c: "c \<noteq> 0"
    and cfits: "unat c + length (cie_encode caf daf ra cins) < 2 ^ 64"
      "length (cie_encode caf daf ra cins) < 2 ^ 32 - 1"
    and ops: "caf < 2 ^ 31" "- (2 ^ 27) \<le> daf" "daf < 2 ^ 31"
    and fde: "bytes_at m f (fde_encode (of_nat off) (ucast (start - (f + 8))) extent fins)" and f: "f \<noteq> 0"
    and ffits: "unat f + length (fde_encode (of_nat off) (ucast (start - (f + 8))) extent fins) < 2 ^ 64"
      "length (fde_encode (of_nat off) (ucast (start - (f + 8))) extent fins) < 2 ^ 32 - 1"
    and off: "0 < off" "off < 2 ^ 32" "c = f + 4 - of_nat off"
    and rel: "- (2 ^ 31) \<le> sint (start - (f + 8))" "sint (start - (f + 8)) < 2 ^ 31"
    and start: "start \<noteq> CLS_INVALID_ADDRESS" and extent: "extent < 2 ^ 31"
  shows "FIRCLSDwarfParseCFIFromFDERecord m f = Some (Some
    \<lparr>cfi_cie = cie_record c caf daf ra cins,
     cfi_fde = \<lparr>fde_length = of_nat (13 + length fins), cieOffset = of_nat off, startAddress = start,
       rangeSize = of_nat extent,
       fde_instructions = \<lparr>instr_length = of_nat (length fins), instr_data = f + 17\<rparr>\<rparr>\<rparr>)"
proof -
  let ?rel = "ucast (start - (f + 8)) :: u32" and ?off = "of_nat off :: u32"
  let ?n = "length (fde_body ?off ?rel extent fins)"
  have n: "?n = 13 + length fins" by (simp add: fde_body_def)
  have uoff: "unat ?off = off" using off(2) by (simp add: unat_of_nat_small)
  have at: "bytes_at m f (le_bytes 4 ?n)" "bytes_at m (f + 4) (le_bytes 4 off)"
    "bytes_at m (f + 8) (le_bytes 4 (unat ?rel))" "bytes_at m (f + 12) (le_bytes 4 extent)"
    "m (f + 16) = Some 0"
    using fde by (simp_all add: fde_encode_def fde_body_def bytes_at_append add.assoc uoff)
  have length: "FIRCLSParseRecordLengthAndAdvance m f = Some (of_nat ?n, f + 4)"
    using ffits(2) by (intro parse_length at) (simp add: fde_encode_def)
  have offp: "FIRCLSParseUint32AndAdvance m (f + 4) = Some (?off, f + 8)"
    using parse_uint32 [OF at(2) off(2)] by (simp add: add.assoc)
  have nz: "f + of_nat k \<noteq> 0" if "k \<le> 17" "0 < k" for k
  proof -
    have "unat (f + of_nat k) = unat f + k"
      using ffits(1) n that by (intro unat_add_of_nat_small) (simp add: fde_encode_def)
    with that(2) show ?thesis by auto
  qed
  have startp: "FIRCLSParseAddressWithEncodingAndAdvance m (f + 8) 0x1B = Some (start, f + 12)"
    using pcrel_sdata4_decode [OF _ rel at(3)] nz [of 8] by (simp add: add.assoc)
  have extentp: "FIRCLSParseAddressWithEncodingAndAdvance m (f + 12) 0x0B = Some (of_nat extent, f + 16)"
    using parse_sdata4 [OF at(4) extent] nz [of 12] by (simp add: add.assoc)
  have augp: "FIRCLSParseULEB128AndAdvance m (f + 16) = Some (0, f + 17)"
    using uleb128_decode [of 0 m "f + 16"] at(5) by (simp add: add.assoc)
  have "bytes_at m (c + 9) [0x7A, 0x52, 0]"
    using cie by (simp add: cie_encode_def cie_body_def bytes_at_append add.assoc)
  moreover have "unat (c + of_nat 9) = unat c + 9"
    using cfits(1) by (intro unat_add_of_nat_small) (simp add: cie_encode_def cie_body_def)
  then have "c + 9 \<noteq> 0" by auto
  ultimately have hasAug: "FIRCLSDwarfCIEHasAugmentationData m (cie_record c caf daf ra cins) = Some True"
    by (simp add: FIRCLSDwarfCIEHasAugmentationData_def cie_record_def load8_def)
  have nn: "(of_nat k :: u64) \<noteq> 0" if "0 < k" "k < 2 ^ 32" for k
  proof
    assume "(of_nat k :: u64) = 0"
    then have "unat (of_nat k :: u64) = 0" by simp
    moreover have "unat (of_nat k :: u64) = k" using that(2) by (intro unat_of_nat_small) simp
    ultimately show False using that(1) by linarith
  qed
  have valid: "FIRCLSDwarfCIEIsValid (cie_record c caf daf ra cins)"
    using nn [of "length (cie_body caf daf ra cins)"] cfits(2)
    by (simp add: FIRCLSDwarfCIEIsValid_def cie_record_def cie_encode_def cie_body_def)
  have cptr: "f + 8 - ucast ?off - 4 = c"
    using off by (simp add: ucast_of_nat_small)
  have offnz: "?off \<noteq> 0" using uoff off(1) by auto
  have nnz: "(of_nat ?n :: u64) \<noteq> 0" using ffits(2) n by (intro nn) (simp_all add: fde_encode_def)
  have len: "(ucast (f + 4 + of_nat ?n - (f + 17)) :: u32) = of_nat (length fins)"
  proof -
    have "f + 4 + of_nat ?n - (f + 17) = (of_nat (length fins) :: u64)" by (simp add: n)
    then show ?thesis
      using ffits(2) n by (simp only:, intro ucast_of_nat_small) (simp add: fde_encode_def)
  qed
  have len': "(ucast (of_nat ?n - 13 :: u64) :: u32) = of_nat (length fins)" using len by simp
  have small: "(of_nat extent :: u64) \<noteq> CLS_INVALID_ADDRESS"
  proof
    assume "(of_nat extent :: u64) = CLS_INVALID_ADDRESS"
    then have "unat (of_nat extent :: u64) = unat CLS_INVALID_ADDRESS" by simp
    moreover have "unat (of_nat extent :: u64) = extent" using extent by (intro unat_of_nat_small) simp
    ultimately show False using extent by (simp add: CLS_INVALID_ADDRESS_def)
  qed
  have enc: "pointerEncoding (cie_record c caf daf ra cins) = 0x1B" by (simp add: cie_record_def)
  have "FIRCLSDwarfParseFDERecord m True zero_cie f = Some (Some
     (\<lparr>fde_length = of_nat ?n, cieOffset = ucast ?off, startAddress = start, rangeSize = of_nat extent,
       fde_instructions = \<lparr>instr_length = of_nat (length fins), instr_data = f + 17\<rparr>\<rparr>,
      cie_record c caf daf ra cins))"
    using f nnz offnz cptr valid start small
    by (simp only: FIRCLSDwarfParseFDERecord_def length offp parse_cie [OF cie c cfits ops] startp extentp
        hasAug augp enc len Let_def if_False if_True Option.bind.bind_lunit prod.case option.case)
      (simp add: startp extentp hasAug augp parse_cie [OF cie c cfits ops] cptr enc len')
  then show ?thesis
    using f off(2) by (simp add: FIRCLSDwarfParseCFIFromFDERecord_def n ucast_of_nat_small)
qed


text \<open>A CIE at 4096, followed at once by its FDE for the function at 4000.\<close>

theorem cfi_record_roundtrip_witness:
  "let frame = cie_encode 1 (-8) 16 [0x0C, 7, 8] @ fde_encode 24 (ucast (4000 - (4116 + 8) :: addr)) 32 [0x0E, 16] in
   \<exists>cie fde. FIRCLSDwarfParseCFIFromFDERecord (mem_of 4096 frame) 4116 =
       Some (Some \<lparr>cfi_cie = cie, cfi_fde = fde\<rparr>) \<and>
     dataAlignFactor cie = - 8 \<and> instr_data (cie_instructions cie) = 4113 \<and>
     startAddress fde = 4000 \<and> rangeSize fde = 32 \<and> instr_data (fde_instructions fde) = 4133"
proof -
  let ?cie = "cie_encode 1 (-8) 16 [0x0C, 7, 8]"
  let ?fde = "fde_encode (of_nat 24) (ucast (4000 - (4116 + 8) :: addr)) 32 [0x0E, 16]"
  let ?m = "mem_of 4096 (?cie @ ?fde)"
  have s: "sleb128_encode (- 8) = [0x78]" by (simp add: sleb128_encode.simps)
  have lc: "length ?cie = 20" by (simp add: cie_encode_def cie_body_def s)
  have lf: "length ?fde = 19" by (simp add: fde_encode_def fde_body_def)
  have "bytes_at ?m 4096 (?cie @ ?fde)" by (rule bytes_at_mem_of) (simp only: length_append lc lf, simp)
  then have at: "bytes_at ?m 4096 ?cie" "bytes_at ?m 4116 ?fde"
    by (simp_all only: bytes_at_append lc) simp_all
  have "FIRCLSDwarfParseCFIFromFDERecord ?m 4116 = Some (Some
    \<lparr>cfi_cie = cie_record 4096 1 (- 8) 16 [0x0C, 7, 8],
     cfi_fde = \<lparr>fde_length = of_nat (13 + length [0x0E, 16 :: u8]), cieOffset = of_nat 24, startAddress = 4000,
       rangeSize = of_nat 32,
       fde_instructions = \<lparr>instr_length = of_nat (length [0x0E, 16 :: u8]), instr_data = 4116 + 17\<rparr>\<rparr>\<rparr>)"
    by (rule cfi_record_roundtrip [OF at(1) _ _ _ _ _ _ at(2)])
      (simp_all only: lc lf CLS_INVALID_ADDRESS_def, simp_all)
  then show ?thesis
    by (simp add: cie_record_def cie_header_def s)
qed

end
