(* ===== verification/CompactUnwind.thy ===== *)
theory CompactUnwind
  imports DwarfUnwind
begin

text \<open>
  Compact unwind information: \<open>Unwind/Compact/FIRCLSCompactUnwind.c\<close> and its headers. The two-level
  lookup of a program counter in the \<open>__unwind_info\<close> section of an image, and the hand-over to the
  architecture's register computation, which is an argument here (\<open>UnwindArm\<close>, \<open>UnwindX86\<close>).

  The layout of the section is that of the SDK's \<open>mach-o/compact_unwind_encoding.h\<close>, which is not
  part of the repository: it is the record \<open>unwind_abi\<close>, a parameter. The reads through
  \<open>FIRCLSReadMemory\<close> fail on an unreadable address; the others are plain dereferences, whose fault
  is the outer \<open>None\<close>.
\<close>

section \<open>The section's layout\<close>

record unwind_abi =
  section_version :: u32
  header_size :: nat
  header_version :: "u8 list \<Rightarrow> u32"
  header_commonEncodingsOffset :: "u8 list \<Rightarrow> u32"
  header_commonEncodingsCount :: "u8 list \<Rightarrow> u32"
  header_indexSectionOffset :: "u8 list \<Rightarrow> u32"
  header_indexCount :: "u8 list \<Rightarrow> u32"
  index_entry_size :: u64
  index_functionOffset :: addr
  index_secondLevelPagesSectionOffset :: addr
  page_regular :: u32
  page_compressed :: u32
  page_entryPageOffset :: addr
  page_entryCount :: addr
  page_encodingsPageOffset :: addr
  entry_func_offset :: "u32 \<Rightarrow> u32"
  entry_encoding_index :: "u32 \<Rightarrow> u32"

text \<open>The documented layout (version 1), used to run the model.\<close>

definition u32_field :: "nat \<Rightarrow> u8 list \<Rightarrow> u32" where
  "u32_field off bs = of_nat (le_nat (take 4 (drop off bs)))"

definition mach_o_abi :: unwind_abi where
  "mach_o_abi = \<lparr>section_version = 1, header_size = 28, header_version = u32_field 0,
     header_commonEncodingsOffset = u32_field 4, header_commonEncodingsCount = u32_field 8,
     header_indexSectionOffset = u32_field 20, header_indexCount = u32_field 24,
     index_entry_size = 12, index_functionOffset = 0, index_secondLevelPagesSectionOffset = 4,
     page_regular = 2, page_compressed = 3, page_entryPageOffset = 4, page_entryCount = 6,
     page_encodingsPageOffset = 8, entry_func_offset = (\<lambda>e. e AND 0x00FFFFFF),
     entry_encoding_index = (\<lambda>e. drop_bit 24 e AND 0xFF)\<rparr>"

section \<open>Structures\<close>

text \<open>The fields \<open>lsda\<close> and \<open>personality\<close> of a result are zeroed and never used; they are left out.\<close>

record FIRCLSCompactUnwindContext =
  unwindInfo :: addr
  ehFrame :: addr
  loadAddress :: addr
  commonEncodingsArraySectionOffset :: u32
  commonEncodingsArrayCount :: u32
  indexSectionOffset :: u32
  indexCount :: u32
  functionOffset :: u32
  secondLevelPagesSectionOffset :: u32
  firstLevelNextFunctionOffset :: u32

record FIRCLSCompactUnwindResult =
  encoding :: u32
  functionStart :: addr
  functionEnd :: addr

definition zero_compact_context :: FIRCLSCompactUnwindContext where
  "zero_compact_context = \<lparr>unwindInfo = 0, ehFrame = 0, loadAddress = 0,
     commonEncodingsArraySectionOffset = 0, commonEncodingsArrayCount = 0, indexSectionOffset = 0,
     indexCount = 0, functionOffset = 0, secondLevelPagesSectionOffset = 0,
     firstLevelNextFunctionOffset = 0\<rparr>"

text \<open>\<open>Some\<close> of the filled context where the source returns \<open>true\<close>; it never faults.\<close>

definition FIRCLSCompactUnwindInit ::
    "unwind_abi \<Rightarrow> mem \<Rightarrow> addr \<Rightarrow> addr \<Rightarrow> addr \<Rightarrow> FIRCLSCompactUnwindContext option" where
  "FIRCLSCompactUnwindInit B m info frame load =
     (if \<not> FIRCLSIsValidPointer info then None
      else if \<not> FIRCLSIsValidPointer load then None
      else case FIRCLSReadMemory m info (header_size B) of
        None \<Rightarrow> None
      | Some header \<Rightarrow>
          if header_version B header \<noteq> section_version B then None
          else Some (zero_compact_context\<lparr>
            commonEncodingsArraySectionOffset := header_commonEncodingsOffset B header,
            commonEncodingsArrayCount := header_commonEncodingsCount B header,
            indexSectionOffset := header_indexSectionOffset B header,
            indexCount := header_indexCount B header,
            unwindInfo := info, ehFrame := frame, loadAddress := load\<rparr>))"

definition FIRCLSCompactUnwindGetIndexData :: "FIRCLSCompactUnwindContext \<Rightarrow> addr" where
  "FIRCLSCompactUnwindGetIndexData ctx = unwindInfo ctx + ucast (indexSectionOffset ctx)"

definition FIRCLSCompactUnwindGetCommonEncodings :: "FIRCLSCompactUnwindContext \<Rightarrow> addr" where
  "FIRCLSCompactUnwindGetCommonEncodings ctx =
     unwindInfo ctx + ucast (commonEncodingsArraySectionOffset ctx)"

definition FIRCLSCompactUnwindGetSecondLevelData :: "FIRCLSCompactUnwindContext \<Rightarrow> addr" where
  "FIRCLSCompactUnwindGetSecondLevelData ctx =
     unwindInfo ctx + ucast (secondLevelPagesSectionOffset ctx)"

definition FIRCLSCompactUnwindGetIndexFunctionOffset :: "FIRCLSCompactUnwindContext \<Rightarrow> u64" where
  "FIRCLSCompactUnwindGetIndexFunctionOffset ctx = loadAddress ctx + ucast (functionOffset ctx)"

definition FIRCLSCompactUnwindGetTargetAddress :: "FIRCLSCompactUnwindContext \<Rightarrow> u64 \<Rightarrow> u64" where
  "FIRCLSCompactUnwindGetTargetAddress ctx pc =
     (let offset = FIRCLSCompactUnwindGetIndexFunctionOffset ctx
      in if pc \<le> offset then 0 else pc - offset)"

section \<open>First level\<close>

text \<open>The loop \<open>for (index = 0; index < indexCount - 1; ++index)\<close>: \<open>n\<close> iterations are left and \<open>p\<close> is
  the entry \<open>indexEntries[index]\<close>. The inner \<open>None\<close> is \<open>return false\<close>.\<close>

fun first_level_loop ::
    "nat \<Rightarrow> unwind_abi \<Rightarrow> mem \<Rightarrow> addr \<Rightarrow> u64 \<Rightarrow> FIRCLSCompactUnwindContext \<Rightarrow>
       FIRCLSCompactUnwindContext option option" where
  "first_level_loop 0 B m p address ctx = Some None"
| "first_level_loop (Suc n) B m p address ctx =
     do { value \<leftarrow> load32 m (p + index_functionOffset B);
          nextValue \<leftarrow> load32 m (p + index_entry_size B + index_functionOffset B);
          if address \<ge> ucast value \<and> address < ucast nextValue then
            do { page \<leftarrow> load32 m (p + index_secondLevelPagesSectionOffset B);
                 Some (Some (ctx\<lparr>firstLevelNextFunctionOffset := nextValue, functionOffset := value,
                                 secondLevelPagesSectionOffset := page\<rparr>)) }
          else first_level_loop n B m (p + index_entry_size B) address ctx }"

definition FIRCLSCompactUnwindLookupFirstLevel ::
    "unwind_abi \<Rightarrow> mem \<Rightarrow> FIRCLSCompactUnwindContext \<Rightarrow> u64 \<Rightarrow>
       FIRCLSCompactUnwindContext option option" where
  "FIRCLSCompactUnwindLookupFirstLevel B m ctx address =
     (if indexCount ctx < 2 then Some None
      else if address < loadAddress ctx then Some None
      else if FIRCLSCompactUnwindGetIndexData ctx = 0 then Some None
      else first_level_loop (unat (indexCount ctx - 1)) B m (FIRCLSCompactUnwindGetIndexData ctx)
             (address - loadAddress ctx) ctx)"

section \<open>Second level\<close>

definition FIRCLSCompactUnwindGetSecondLevelPageKind ::
    "mem \<Rightarrow> FIRCLSCompactUnwindContext \<Rightarrow> u32 option" where
  "FIRCLSCompactUnwindGetSecondLevelPageKind m ctx =
     load32 m (FIRCLSCompactUnwindGetSecondLevelData ctx)"

definition FIRCLSCompactUnwindLookupSecondLevelRegular ::
    "FIRCLSCompactUnwindContext \<Rightarrow> u64 \<Rightarrow> FIRCLSCompactUnwindResult option option" where
  "FIRCLSCompactUnwindLookupSecondLevelRegular ctx pc = Some None"

text \<open>
  The binary search, over \<open>value i\<close>, the function offset of entry \<open>i\<close> (\<open>None\<close>: the read faults).
  The indices are below \<open>2 ^ 16\<close>, the range of \<open>entryCount\<close>, so the sums of the \<open>uint32_t\<close> indices
  do not wrap and they are natural numbers here. The inner \<open>None\<close> is \<open>return false\<close>.
\<close>

function binary_search_loop ::
    "(nat \<Rightarrow> u64 option) \<Rightarrow> u64 \<Rightarrow> nat \<Rightarrow> nat \<Rightarrow> nat \<Rightarrow> nat option option" where
  "binary_search_loop value address entryCount index highIndex =
     (if index < highIndex then
        let midIndex = (index + highIndex) div 2 in
        do { v \<leftarrow> value midIndex;
             if v > address then
               (if highIndex = midIndex then Some None
                else binary_search_loop value address entryCount index midIndex)
             else if midIndex = entryCount - 1 then Some None
             else do { nextValue \<leftarrow> value (midIndex + 1);
                       if nextValue > address
                       then Some (if midIndex < entryCount then Some midIndex else None)
                       else binary_search_loop value address entryCount (midIndex + 1) highIndex } }
      else Some (if index < entryCount then Some index else None))"
  by pat_completeness auto

termination
  by (relation "measure (\<lambda>(value, address, entryCount, index, highIndex). highIndex - index)") auto

declare binary_search_loop.simps [simp del]

definition entry_value :: "unwind_abi \<Rightarrow> mem \<Rightarrow> addr \<Rightarrow> nat \<Rightarrow> u64 option" where
  "entry_value B m entryArray i =
     map_option (\<lambda>e. ucast (entry_func_offset B e)) (load32 m (entryArray + 4 * of_nat i))"

definition FIRCLSCompactUnwindBinarySearchSecondLevel ::
    "unwind_abi \<Rightarrow> mem \<Rightarrow> u64 \<Rightarrow> u16 \<Rightarrow> addr \<Rightarrow> nat option option" where
  "FIRCLSCompactUnwindBinarySearchSecondLevel B m address entryCount entryArray =
     (if entryArray = 0 then Some None
      else if entryCount = 0 then Some None
      else if address = 0 then Some None
      else binary_search_loop (entry_value B m entryArray) address (unat entryCount) 0 (unat entryCount))"

text \<open>\<open>functionStart\<close> is computed in 64 bits, \<open>functionEnd\<close> from a sum of two \<open>uint32_t\<close>.\<close>

definition FIRCLSCompactUnwindLookupSecondLevelCompressed ::
    "unwind_abi \<Rightarrow> mem \<Rightarrow> FIRCLSCompactUnwindContext \<Rightarrow> u64 \<Rightarrow>
       FIRCLSCompactUnwindResult option option" where
  "FIRCLSCompactUnwindLookupSecondLevelCompressed B m ctx pc =
     (let ptr = FIRCLSCompactUnwindGetSecondLevelData ctx in
      if ptr = 0 then Some None
      else do {
        let targetAddress = FIRCLSCompactUnwindGetTargetAddress ctx pc;
        entryPageOffset \<leftarrow> load16 m (ptr + page_entryPageOffset B);
        let entryArray = ptr + ucast entryPageOffset;
        entryCount \<leftarrow> load16 m (ptr + page_entryCount B);
        found \<leftarrow> FIRCLSCompactUnwindBinarySearchSecondLevel B m targetAddress entryCount entryArray;
        case found of
          None \<Rightarrow> Some None
        | Some index \<Rightarrow> do {
            entry \<leftarrow> load32 m (entryArray + 4 * of_nat index);
            let start = ucast (entry_func_offset B entry) +
                        FIRCLSCompactUnwindGetIndexFunctionOffset ctx;
            ending \<leftarrow>
              (if index < unat entryCount - 1
               then do { next \<leftarrow> load32 m (entryArray + 4 * of_nat (index + 1));
                         Some (loadAddress ctx + ucast (entry_func_offset B next + functionOffset ctx)) }
               else Some (loadAddress ctx + ucast (firstLevelNextFunctionOffset ctx)));
            if pc < start \<or> pc \<ge> ending then Some None
            else do {
              let encodingIndex = entry_encoding_index B entry;
              enc \<leftarrow>
                (if encodingIndex < commonEncodingsArrayCount ctx
                 then load32 m (FIRCLSCompactUnwindGetCommonEncodings ctx + 4 * ucast encodingIndex)
                 else do {
                   off \<leftarrow> load16 m (ptr + page_encodingsPageOffset B);
                   load32 m (ptr + ucast off +
                             4 * ucast (encodingIndex - commonEncodingsArrayCount ctx)) });
              if enc = 0 then Some None
              else Some (Some \<lparr>encoding = enc, functionStart = start, functionEnd = ending\<rparr>) } } })"

definition FIRCLSCompactUnwindLookupSecondLevel ::
    "unwind_abi \<Rightarrow> mem \<Rightarrow> FIRCLSCompactUnwindContext \<Rightarrow> u64 \<Rightarrow>
       FIRCLSCompactUnwindResult option option" where
  "FIRCLSCompactUnwindLookupSecondLevel B m ctx pc =
     do { kind \<leftarrow> FIRCLSCompactUnwindGetSecondLevelPageKind m ctx;
          if kind = page_regular B then FIRCLSCompactUnwindLookupSecondLevelRegular ctx pc
          else if kind = page_compressed B
          then FIRCLSCompactUnwindLookupSecondLevelCompressed B m ctx pc
          else Some None }"

text \<open>The context is returned with the result: the first level has filled in its index entry.\<close>

definition FIRCLSCompactUnwindLookup ::
    "unwind_abi \<Rightarrow> mem \<Rightarrow> FIRCLSCompactUnwindContext \<Rightarrow> u64 \<Rightarrow>
       (FIRCLSCompactUnwindContext \<times> FIRCLSCompactUnwindResult option) option" where
  "FIRCLSCompactUnwindLookup B m ctx pc =
     do { first \<leftarrow> FIRCLSCompactUnwindLookupFirstLevel B m ctx pc;
          case first of
            None \<Rightarrow> Some (ctx, None)
          | Some ctx' \<Rightarrow>
              do { r \<leftarrow> FIRCLSCompactUnwindLookupSecondLevel B m ctx' pc; Some (ctx', r) } }"

section \<open>Unwinding\<close>

text \<open>The architecture's \<open>FIRCLSCompactUnwindComputeRegisters\<close>, an argument: it returns the source's
  \<open>bool\<close> and the registers, which it may have changed before failing.\<close>

type_synonym 'r compute =
  "mem \<Rightarrow> FIRCLSCompactUnwindContext \<Rightarrow> FIRCLSCompactUnwindResult \<Rightarrow> 'r \<Rightarrow> (bool \<times> 'r) option"

definition FIRCLSCompactUnwindLookupAndCompute ::
    "'r arch \<Rightarrow> unwind_abi \<Rightarrow> 'r compute \<Rightarrow> mem \<Rightarrow> FIRCLSCompactUnwindContext \<Rightarrow> 'r \<Rightarrow>
       (bool \<times> FIRCLSCompactUnwindContext \<times> 'r) option" where
  "FIRCLSCompactUnwindLookupAndCompute A B compute m ctx regs =
     (let pc = pc_get A regs in
      if pc < loadAddress ctx then Some (False, ctx, regs)
      else do {
        (ctx', found) \<leftarrow> FIRCLSCompactUnwindLookup B m ctx pc;
        case found of
          None \<Rightarrow> Some (False, ctx', regs)
        | Some r \<Rightarrow> do { (ok, regs') \<leftarrow> compute m ctx' r regs; Some (ok, ctx', regs') } })"

definition FIRCLSCompactUnwindDwarfFrame ::
    "'r arch \<Rightarrow> mem \<Rightarrow> FIRCLSCompactUnwindContext \<Rightarrow> u64 \<Rightarrow> 'r \<Rightarrow> (bool \<times> 'r) option" where
  "FIRCLSCompactUnwindDwarfFrame A m ctx dwarfOffset regs =
     do { parsed \<leftarrow> FIRCLSDwarfParseCFIFromFDERecordOffset m (ehFrame ctx) dwarfOffset;
          case parsed of
            None \<Rightarrow> Some (False, regs)
          | Some record \<Rightarrow> do {
              computed \<leftarrow> FIRCLSDwarfUnwindComputeRegisters A m record regs;
              case computed of
                None \<Rightarrow> Some (False, regs)
              | Some regs' \<Rightarrow> Some (True, regs') } }"

section \<open>The binary search is a linear search\<close>

text \<open>The entry whose function contains \<open>a\<close>: a linear scan, over all entries but the last, which has
  no next entry to end it.\<close>

definition linear_search :: "u64 list \<Rightarrow> u64 \<Rightarrow> nat option" where
  "linear_search vs a = find (\<lambda>i. vs ! i \<le> a \<and> a < vs ! (i + 1)) [0..<length vs - 1]"

lemma find_upt_Some:
  assumes "P i" "i < n" "\<And>j. j < n \<Longrightarrow> P j \<Longrightarrow> j = i"
  shows "find P [0..<n] = Some i"
proof -
  have "\<not> P ([0..<n] ! j)" if "j < i" for j
    using assms(2) assms(3) [of j] that by auto
  then show ?thesis
    unfolding find_Some_iff using assms(1,2) by (intro exI [of _ i]) simp
qed

lemma linear_search_Some:
  assumes "sorted vs" "i + 1 < length vs" "vs ! i \<le> a" "a < vs ! (i + 1)"
  shows "linear_search vs a = Some i"
  unfolding linear_search_def
proof (rule find_upt_Some)
  fix j assume j: "j < length vs - 1" "vs ! j \<le> a \<and> a < vs ! (j + 1)"
  show "j = i"
  proof (rule ccontr)
    assume "j \<noteq> i"
    then have "j + 1 \<le> i \<or> i + 1 \<le> j" by auto
    then show False
    proof
      assume "j + 1 \<le> i"
      then have "vs ! (j + 1) \<le> vs ! i" using assms(1,2) by (simp add: sorted_nth_mono)
      with j assms(3) show False by auto
    next
      assume "i + 1 \<le> j"
      then have "vs ! (i + 1) \<le> vs ! j" using assms(1) j(1) by (simp add: sorted_nth_mono)
      with j assms(4) show False by auto
    qed
  qed
qed (use assms in auto)

lemma linear_search_last:
  assumes "sorted vs" "vs \<noteq> []" "last vs \<le> a"
  shows "linear_search vs a = None"
proof -
  have "\<not> a < vs ! (i + 1)" if "i < length vs - 1" for i
  proof -
    have "vs ! (i + 1) \<le> vs ! (length vs - 1)" using assms(1) that by (simp add: sorted_nth_mono)
    also have "\<dots> \<le> a" using assms(2,3) by (simp add: last_conv_nth)
    finally show ?thesis by simp
  qed
  then show ?thesis by (auto simp: linear_search_def find_None_iff)
qed

text \<open>Before the first entry the search gives entry 0, which its caller rejects.\<close>

lemma binary_search_before:
  assumes "\<And>i. i < length vs \<Longrightarrow> value i = Some (vs ! i)" "sorted vs" "a < vs ! 0"
    and "high \<le> length vs" "vs \<noteq> []"
  shows "binary_search_loop value a (length vs) 0 high = Some (Some 0)"
  using assms(4)
proof (induction high rule: less_induct)
  case (less high)
  show ?case
  proof (cases "0 < high")
    case True
    then have mid: "high div 2 < high" "high div 2 < length vs" using less.prems by auto
    then have "vs ! 0 \<le> vs ! (high div 2)" using assms(2) by (simp add: sorted_nth_mono)
    then have "vs ! (high div 2) > a" using assms(3) by simp
    with mid True less show ?thesis
      by (subst binary_search_loop.simps) (simp add: assms(1) Let_def less_imp_neq)
  next
    case False
    with assms(5) show ?thesis by (subst binary_search_loop.simps) simp
  qed
qed

lemma binary_search_within:
  assumes "\<And>i. i < length vs \<Longrightarrow> value i = Some (vs ! i)" "sorted vs"
    and "index \<le> high" "high \<le> length vs" "index < length vs"
    and "vs ! index \<le> a" "high = length vs \<or> a < vs ! high"
  shows "binary_search_loop value a (length vs) index high = Some (linear_search vs a)"
  using assms(3-)
proof (induction "high - index" arbitrary: index high rule: less_induct)
  case less
  let ?mid = "(index + high) div 2"
  show ?case
  proof (cases "index < high")
    case False
    with less.prems have "index = high" "high < length vs" "a < vs ! high" by auto
    with less.prems(4) show ?thesis by auto
  next
    case True
    then have mid: "index \<le> ?mid" "?mid < high" "?mid < length vs" using less.prems by auto
    show ?thesis
    proof (cases "vs ! ?mid > a")
      case above: True
      have "binary_search_loop value a (length vs) index ?mid = Some (linear_search vs a)"
        using less.prems mid above by (intro less.hyps) auto
      with True mid above show ?thesis by (subst binary_search_loop.simps) (simp add: assms(1))
    next
      case below: False
      show ?thesis
      proof (cases "?mid = length vs - 1")
        case last: True
        have "vs \<noteq> []" using less.prems by auto
        then have "linear_search vs a = None"
          using below last by (intro linear_search_last assms(2)) (simp_all add: last_conv_nth not_less)
        with True mid below last show ?thesis
          by (subst binary_search_loop.simps) (simp add: assms(1) Let_def del: One_nat_def)
      next
        case inside: False
        then have m1: "?mid + 1 < length vs" using mid by auto
        show ?thesis
        proof (cases "vs ! (?mid + 1) > a")
          case found: True
          have "linear_search vs a = Some ?mid"
            using m1 below found by (intro linear_search_Some assms(2)) auto
          with True mid below inside found m1 show ?thesis
            by (subst binary_search_loop.simps) (simp add: assms(1))
        next
          case on: False
          have "binary_search_loop value a (length vs) (?mid + 1) high = Some (linear_search vs a)"
            using less.prems mid m1 on True by (intro less.hyps) auto
          with True mid below inside on m1 show ?thesis
            by (subst binary_search_loop.simps) (simp add: assms(1))
        qed
      qed
    qed
  qed
qed

lemma binary_search_loop_correct:
  assumes "\<And>i. i < length vs \<Longrightarrow> value i = Some (vs ! i)" "sorted vs" "vs \<noteq> []"
  shows "binary_search_loop value a (length vs) 0 (length vs) =
           Some (if a < vs ! 0 then Some 0 else linear_search vs a)"
  using binary_search_before [OF assms(1,2)] binary_search_within [OF assms(1,2), of 0 "length vs" a]
    assms(3) by auto

text \<open>Beyond the first entry, the search is the linear one: the optimised routine against its
  reference.\<close>

section \<open>A page in memory\<close>

text \<open>What a compressed second-level page holds: the function offsets of its entries, in order, and
  the encoding each entry refers to, in the common array or in the page's own.\<close>

definition encoding_at :: "unwind_abi \<Rightarrow> mem \<Rightarrow> FIRCLSCompactUnwindContext \<Rightarrow> addr \<Rightarrow> u32 \<Rightarrow> u32 option" where
  "encoding_at B m ctx ptr k =
     (if k < commonEncodingsArrayCount ctx
      then load32 m (FIRCLSCompactUnwindGetCommonEncodings ctx + 4 * ucast k)
      else do { off \<leftarrow> load16 m (ptr + page_encodingsPageOffset B);
                load32 m (ptr + ucast off + 4 * ucast (k - commonEncodingsArrayCount ctx)) })"

definition page_at ::
    "unwind_abi \<Rightarrow> mem \<Rightarrow> FIRCLSCompactUnwindContext \<Rightarrow> u32 list \<Rightarrow> u32 list \<Rightarrow> bool" where
  "page_at B m ctx entries encs \<longleftrightarrow>
     (let ptr = FIRCLSCompactUnwindGetSecondLevelData ctx in
      ptr \<noteq> 0 \<and> length encs = length entries \<and> entries \<noteq> [] \<and> length entries < 2 ^ 16 \<and>
      load32 m ptr = Some (page_compressed B) \<and>
      load16 m (ptr + page_entryCount B) = Some (of_nat (length entries)) \<and>
      (\<exists>off. load16 m (ptr + page_entryPageOffset B) = Some off \<and> ptr + ucast off \<noteq> 0 \<and>
        (\<forall>i < length entries. load32 m (ptr + ucast off + 4 * of_nat i) = Some (entries ! i))) \<and>
      (\<forall>i < length entries.
        encoding_at B m ctx ptr (entry_encoding_index B (entries ! i)) = Some (encs ! i)))"

definition entry_offsets :: "unwind_abi \<Rightarrow> u32 list \<Rightarrow> u64 list" where
  "entry_offsets B entries = map (\<lambda>e. ucast (entry_func_offset B e)) entries"

text \<open>What the lookup of \<open>pc\<close> in the page must be.\<close>

definition spec_lookup ::
    "unwind_abi \<Rightarrow> FIRCLSCompactUnwindContext \<Rightarrow> u32 list \<Rightarrow> u32 list \<Rightarrow> u64 \<Rightarrow>
       FIRCLSCompactUnwindResult option" where
  "spec_lookup B ctx entries encs pc =
     (let base = FIRCLSCompactUnwindGetIndexFunctionOffset ctx; vs = entry_offsets B entries in
      case linear_search vs (pc - base) of
        None \<Rightarrow> None
      | Some i \<Rightarrow>
          (if encs ! i = 0 then None
           else Some \<lparr>encoding = encs ! i, functionStart = base + vs ! i, functionEnd = base + vs ! (i + 1)\<rparr>))"

lemma ucast_add_u32:
  fixes a b :: u32
  assumes "unat a + unat b < 2 ^ 32"
  shows "(ucast (a + b) :: u64) = ucast a + ucast b"
proof -
  have "unat (a + b) = unat a + unat b" using assms by (simp add: unat_word_ariths)
  moreover have "unat (ucast a + ucast b :: u64) = unat a + unat b"
    using assms by (simp add: unat_word_ariths unat_ucast_u32)
  ultimately show ?thesis by (simp add: word_unat_eq_iff unat_ucast_u32)
qed

lemma linear_search_bounds:
  "linear_search vs a = Some i \<Longrightarrow> i + 1 < length vs \<and> vs ! i \<le> a \<and> a < vs ! (i + 1)"
  by (auto simp: linear_search_def find_Some_iff)

lemma linear_search_before:
  assumes "sorted vs" "a < vs ! 0"
  shows "linear_search vs a = None"
proof (cases "linear_search vs a")
  case (Some i)
  then have i: "i + 1 < length vs" "vs ! i \<le> a" using linear_search_bounds by blast+
  then have "vs ! 0 \<le> vs ! i" using assms(1) by (simp add: sorted_nth_mono)
  with i assms(2) show ?thesis by auto
qed simp

lemma less_add_iff_diff:
  fixes pc base v :: u64
  assumes "base \<le> pc" "unat base + unat v < 2 ^ 64"
  shows "pc < base + v \<longleftrightarrow> pc - base < v"
proof -
  have "unat (base + v) = unat base + unat v" using assms(2) by (simp add: unat_word_ariths)
  moreover have "unat (pc - base) = unat pc - unat base" using assms(1) by (rule unat_sub)
  moreover have "unat base \<le> unat pc" using assms(1) by (simp add: word_le_nat_alt)
  ultimately show ?thesis by (auto simp: word_less_nat_alt)
qed

lemma index_base_fits:
  fixes v :: u32
  assumes "unat (loadAddress ctx) + 2 ^ 32 < 2 ^ 64" "unat v + unat (functionOffset ctx) < 2 ^ 32"
  shows "unat (FIRCLSCompactUnwindGetIndexFunctionOffset ctx) + unat (ucast v :: u64) < 2 ^ 64"
  using assms
  by (simp add: FIRCLSCompactUnwindGetIndexFunctionOffset_def unat_word_ariths unat_ucast_u32)

text \<open>What the search of a page finds.\<close>

lemma page_search:
  assumes page: "page_at B m ctx entries encs"
    and sorted: "sorted (entry_offsets B entries)"
    and pc: "FIRCLSCompactUnwindGetIndexFunctionOffset ctx < pc"
  obtains off c where
    "load16 m (FIRCLSCompactUnwindGetSecondLevelData ctx + page_entryPageOffset B) = Some off"
    "load16 m (FIRCLSCompactUnwindGetSecondLevelData ctx + page_entryCount B) = Some c"
    "unat c = length entries"
    "\<And>i. i < length entries \<Longrightarrow>
       load32 m (FIRCLSCompactUnwindGetSecondLevelData ctx + ucast off + 4 * of_nat i) = Some (entries ! i)"
    "FIRCLSCompactUnwindGetTargetAddress ctx pc = pc - FIRCLSCompactUnwindGetIndexFunctionOffset ctx"
    "FIRCLSCompactUnwindBinarySearchSecondLevel B m (pc - FIRCLSCompactUnwindGetIndexFunctionOffset ctx)
        c (FIRCLSCompactUnwindGetSecondLevelData ctx + ucast off) =
      Some (if pc - FIRCLSCompactUnwindGetIndexFunctionOffset ctx < entry_offsets B entries ! 0 then Some 0
            else linear_search (entry_offsets B entries)
                   (pc - FIRCLSCompactUnwindGetIndexFunctionOffset ctx))"
proof -
  define ptr where "ptr = FIRCLSCompactUnwindGetSecondLevelData ctx"
  define base where "base = FIRCLSCompactUnwindGetIndexFunctionOffset ctx"
  define vs where "vs = entry_offsets B entries"
  obtain off where off: "load16 m (ptr + page_entryPageOffset B) = Some off" "ptr + ucast off \<noteq> 0"
    and entry: "\<And>i. i < length entries \<Longrightarrow> load32 m (ptr + ucast off + 4 * of_nat i) = Some (entries ! i)"
    using page by (auto simp: page_at_def Let_def ptr_def)
  obtain c :: u16 where c: "c = of_nat (length entries)" by blast
  have len: "length vs = length entries" "length entries < 2 ^ 16" "entries \<noteq> []" "ptr \<noteq> 0"
    and count: "load16 m (ptr + page_entryCount B) = Some c"
    using page by (auto simp: page_at_def Let_def ptr_def vs_def entry_offsets_def c)
  have n: "unat c = length entries"
    using len(2) by (simp add: c unat_of_nat)
  have n0: "c \<noteq> 0"
    using n len(3) by (metis length_0_conv unat_0)
  have target: "FIRCLSCompactUnwindGetTargetAddress ctx pc = pc - base" "pc - base \<noteq> 0"
    using pc by (auto simp: FIRCLSCompactUnwindGetTargetAddress_def base_def Let_def)
  have vs_nth: "vs ! i = ucast (entry_func_offset B (entries ! i))" if "i < length entries" for i
    using that by (simp add: vs_def entry_offsets_def)
  have val_at: "entry_value B m (ptr + ucast off) i = Some (vs ! i)" if "i < length vs" for i
    using that by (simp add: entry_value_def entry len vs_nth)
  have "vs \<noteq> []" using len by auto
  then have "FIRCLSCompactUnwindBinarySearchSecondLevel B m (pc - base) c (ptr + ucast off)
      = Some (if pc - base < vs ! 0 then Some 0 else linear_search vs (pc - base))"
    using binary_search_loop_correct [OF val_at, of "pc - base"] sorted len off(2) n n0 target(2)
    by (simp add: FIRCLSCompactUnwindBinarySearchSecondLevel_def vs_def [symmetric])
  note found = this
  from off(1) count n entry target(1) found show thesis
    unfolding ptr_def base_def vs_def by (rule that)
qed

lemma compressed_lookup:
  assumes page: "page_at B m ctx entries encs"
    and sorted: "sorted (entry_offsets B entries)"
    and fits: "\<forall>e \<in> set entries. unat (entry_func_offset B e) + unat (functionOffset ctx) < 2 ^ 32"
      "unat (loadAddress ctx) + 2 ^ 32 < 2 ^ 64"
    and pc: "FIRCLSCompactUnwindGetIndexFunctionOffset ctx < pc"
  shows "FIRCLSCompactUnwindLookupSecondLevelCompressed B m ctx pc = Some (spec_lookup B ctx entries encs pc)"
proof -
  define ptr where "ptr = FIRCLSCompactUnwindGetSecondLevelData ctx"
  define base where "base = FIRCLSCompactUnwindGetIndexFunctionOffset ctx"
  define vs where "vs = entry_offsets B entries"
  obtain off c where off: "load16 m (ptr + page_entryPageOffset B) = Some off"
    and count: "load16 m (ptr + page_entryCount B) = Some c" "unat c = length entries"
    and entry: "\<And>i. i < length entries \<Longrightarrow> load32 m (ptr + ucast off + 4 * of_nat i) = Some (entries ! i)"
    and target: "FIRCLSCompactUnwindGetTargetAddress ctx pc = pc - base"
    and found: "FIRCLSCompactUnwindBinarySearchSecondLevel B m (pc - base) c (ptr + ucast off) =
      Some (if pc - base < vs ! 0 then Some 0 else linear_search vs (pc - base))"
    using page_search [OF page sorted pc] unfolding ptr_def base_def vs_def by metis
  have len: "length vs = length entries" "entries \<noteq> []" "ptr \<noteq> 0"
    and enc: "\<And>i. i < length entries \<Longrightarrow>
        encoding_at B m ctx ptr (entry_encoding_index B (entries ! i)) = Some (encs ! i)"
    using page by (auto simp: page_at_def Let_def ptr_def vs_def entry_offsets_def)
  have vs_nth: "vs ! i = ucast (entry_func_offset B (entries ! i))" if "i < length entries" for i
    using that by (simp add: vs_def entry_offsets_def)
  have less_iff: "pc < base + vs ! i \<longleftrightarrow> pc - base < vs ! i" if "i < length entries" for i
    using that pc fits index_base_fits [OF fits(2)]
    by (intro less_add_iff_diff) (auto simp: base_def vs_nth)
  have ending: "loadAddress ctx + ucast (entry_func_offset B (entries ! i) + functionOffset ctx) = base + vs ! i"
    if "i < length entries" for i
    using that fits(1)
    by (simp add: ucast_add_u32 vs_nth base_def FIRCLSCompactUnwindGetIndexFunctionOffset_def add.commute add.left_commute)
  have "sorted vs" using sorted by (simp add: vs_def)
  then have spec0: "linear_search vs (pc - base) = None" if "pc - base < vs ! 0"
    using that linear_search_before len by auto
  note run = FIRCLSCompactUnwindLookupSecondLevelCompressed_def Let_def ptr_def [symmetric] off
    count target found spec_lookup_def base_def [symmetric] vs_def [symmetric]
  show ?thesis
  proof (cases "pc - base < vs ! 0")
    case True
    then have "pc < ucast (entry_func_offset B (entries ! 0)) + base"
      using less_iff [of 0] len vs_nth [of 0] by (simp add: add.commute)
    then show ?thesis
      using True spec0 len entry [of 0] entry [of 1] count(2)
      by (cases "length entries = 1") (simp_all add: run)
  next
    case False
    show ?thesis
    proof (cases "linear_search vs (pc - base)")
      case None
      then show ?thesis using False len by (simp add: run)
    next
      case (Some i)
      then have i: "i < length entries" "i + 1 < length entries" "vs ! i \<le> pc - base" "pc - base < vs ! (i + 1)"
        using linear_search_bounds len(1) by fastforce+
      then have "\<not> pc < vs ! i + base" "\<not> base + vs ! (i + 1) \<le> pc" "i < length entries - 1"
        "ucast (entry_func_offset B (entries ! i)) = vs ! i"
        using less_iff [of i] less_iff [of "i + 1"] by (auto simp: vs_nth add.commute not_le)
      then show ?thesis
        using False Some i len count(2) entry [of i] entry [of "i + 1"] ending [of "i + 1"] enc [of i]
        by (cases "entry_encoding_index B (entries ! i) < commonEncodingsArrayCount ctx")
          (simp_all add: run encoding_at_def add.commute [of base])
    qed
  qed
qed

section \<open>Both levels\<close>

text \<open>The first-level index in memory: an offset and a page for each entry, the last one a sentinel.\<close>

definition index_at ::
    "unwind_abi \<Rightarrow> mem \<Rightarrow> FIRCLSCompactUnwindContext \<Rightarrow> (u32 \<times> u32) list \<Rightarrow> bool" where
  "index_at B m ctx idx \<longleftrightarrow>
     (let p = FIRCLSCompactUnwindGetIndexData ctx in
      p \<noteq> 0 \<and> 2 \<le> length idx \<and> length idx < 2 ^ 32 \<and> indexCount ctx = of_nat (length idx) \<and>
      (\<forall>i < length idx.
        load32 m (p + of_nat i * index_entry_size B + index_functionOffset B) = Some (fst (idx ! i)) \<and>
        load32 m (p + of_nat i * index_entry_size B + index_secondLevelPagesSectionOffset B) =
          Some (snd (idx ! i))))"

definition index_offsets :: "(u32 \<times> u32) list \<Rightarrow> u64 list" where
  "index_offsets idx = map (\<lambda>e. ucast (fst e)) idx"

definition index_context ::
    "FIRCLSCompactUnwindContext \<Rightarrow> (u32 \<times> u32) list \<Rightarrow> nat \<Rightarrow> FIRCLSCompactUnwindContext" where
  "index_context ctx idx i =
     ctx\<lparr>firstLevelNextFunctionOffset := fst (idx ! (i + 1)), functionOffset := fst (idx ! i),
         secondLevelPagesSectionOffset := snd (idx ! i)\<rparr>"

lemma first_level_loop_correct:
  assumes "\<And>i. i < length idx \<Longrightarrow>
        load32 m (p + of_nat i * index_entry_size B + index_functionOffset B) = Some (fst (idx ! i)) \<and>
        load32 m (p + of_nat i * index_entry_size B + index_secondLevelPagesSectionOffset B) =
          Some (snd (idx ! i))"
    and "k + n + 1 = length idx"
  shows "first_level_loop n B m (p + of_nat k * index_entry_size B) a ctx =
    Some (map_option (index_context ctx idx)
      (find (\<lambda>i. index_offsets idx ! i \<le> a \<and> a < index_offsets idx ! (i + 1)) [k..<length idx - 1]))"
  using assms(2)
proof (induction n arbitrary: k)
  case 0
  then show ?case by simp
next
  case (Suc n)
  have next_entry: "p + of_nat k * index_entry_size B + index_entry_size B =
      p + of_nat (Suc k) * index_entry_size B"
    by (simp add: algebra_simps)
  have k: "k < length idx" "Suc k < length idx" "[k..<length idx - 1] = k # [Suc k..<length idx - 1]"
    using Suc.prems by (auto simp: upt_conv_Cons)
  show ?case
    using Suc.IH [of "Suc k"] Suc.prems k assms(1) [of k] assms(1) [of "Suc k"]
    unfolding first_level_loop.simps next_entry
    by (simp add: index_offsets_def index_context_def)
qed

lemma first_level_correct:
  assumes "index_at B m ctx idx"
  shows "FIRCLSCompactUnwindLookupFirstLevel B m ctx pc =
    Some (if pc < loadAddress ctx then None
          else map_option (index_context ctx idx)
                 (linear_search (index_offsets idx) (pc - loadAddress ctx)))"
proof -
  have n: "2 \<le> length idx" "length idx < 2 ^ 32" "indexCount ctx = of_nat (length idx)"
    and p: "FIRCLSCompactUnwindGetIndexData ctx \<noteq> 0"
    using assms by (auto simp: index_at_def Let_def)
  have c: "unat (indexCount ctx) = length idx" using n by (simp add: unat_of_nat_small)
  then have c1: "\<not> indexCount ctx < 2" "unat (indexCount ctx - 1) = length idx - 1"
    using n(1) by (simp_all add: word_less_nat_alt unat_sub word_le_nat_alt)
  have "first_level_loop (length idx - 1) B m (FIRCLSCompactUnwindGetIndexData ctx)
        (pc - loadAddress ctx) ctx
      = Some (map_option (index_context ctx idx)
                (linear_search (index_offsets idx) (pc - loadAddress ctx)))"
    using first_level_loop_correct [of idx m "FIRCLSCompactUnwindGetIndexData ctx" B 0 "length idx - 1"
        "pc - loadAddress ctx" ctx] assms n(1)
    by (simp add: index_at_def Let_def linear_search_def index_offsets_def)
  then show ?thesis
    using p c1 unfolding FIRCLSCompactUnwindLookupFirstLevel_def by (simp only: if_False if_True split: if_split) simp
qed

text \<open>What a whole section maps a program counter to. The first address of a page is never found: the
  search rejects the offset 0.\<close>

definition spec_section ::
    "unwind_abi \<Rightarrow> FIRCLSCompactUnwindContext \<Rightarrow> (u32 \<times> u32) list \<Rightarrow> (u32 list \<times> u32 list) list \<Rightarrow>
       u64 \<Rightarrow> FIRCLSCompactUnwindResult option" where
  "spec_section B ctx idx pages pc =
     (if pc < loadAddress ctx then None
      else case linear_search (index_offsets idx) (pc - loadAddress ctx) of
        None \<Rightarrow> None
      | Some i \<Rightarrow>
          (if pc - loadAddress ctx = index_offsets idx ! i then None
           else spec_lookup B (index_context ctx idx i) (fst (pages ! i)) (snd (pages ! i)) pc))"

text \<open>The section in memory: its index, and a compressed page for every index entry but the last.\<close>

definition page_fits ::
    "unwind_abi \<Rightarrow> mem \<Rightarrow> FIRCLSCompactUnwindContext \<Rightarrow> u32 list \<Rightarrow> u32 list \<Rightarrow> bool" where
  "page_fits B m ctx entries encs \<longleftrightarrow>
     page_at B m ctx entries encs \<and> sorted (entry_offsets B entries) \<and>
     (\<forall>e \<in> set entries. unat (entry_func_offset B e) + unat (functionOffset ctx) < 2 ^ 32)"

definition section_at ::
    "unwind_abi \<Rightarrow> mem \<Rightarrow> FIRCLSCompactUnwindContext \<Rightarrow> (u32 \<times> u32) list \<Rightarrow>
       (u32 list \<times> u32 list) list \<Rightarrow> bool" where
  "section_at B m ctx idx pages \<longleftrightarrow>
     index_at B m ctx idx \<and> page_regular B \<noteq> page_compressed B \<and>
     unat (loadAddress ctx) + 2 ^ 32 < 2 ^ 64 \<and>
     (\<forall>i < length idx - 1.
        page_fits B m (index_context ctx idx i) (fst (pages ! i)) (snd (pages ! i)))"

lemma target_zero_not_found:
  assumes "page_at B m ctx entries encs"
    and "pc \<le> FIRCLSCompactUnwindGetIndexFunctionOffset ctx"
  shows "FIRCLSCompactUnwindLookupSecondLevelCompressed B m ctx pc = Some None"
  using assms
  by (auto simp: page_at_def Let_def FIRCLSCompactUnwindLookupSecondLevelCompressed_def
      FIRCLSCompactUnwindGetTargetAddress_def FIRCLSCompactUnwindBinarySearchSecondLevel_def)

text \<open>C12: On a well-formed section, whatever the pc, the two-level lookup finds the entry whose
  function contains it, with its encoding and both ends, as a linear scan of the tables finds
  it; the first address and the last entry of a page are the exceptions, and it never faults.\<close>

theorem compact_lookup_correct:
  assumes "section_at B m ctx idx pages"
  shows "map_option snd (FIRCLSCompactUnwindLookup B m ctx pc) = Some (spec_section B ctx idx pages pc)"
proof (cases "pc < loadAddress ctx \<or> linear_search (index_offsets idx) (pc - loadAddress ctx) = None")
  case True
  then show ?thesis using assms
    by (auto simp: FIRCLSCompactUnwindLookup_def section_at_def first_level_correct spec_section_def)
next
  case False
  then obtain i where ge: "loadAddress ctx \<le> pc"
    and i: "linear_search (index_offsets idx) (pc - loadAddress ctx) = Some i" by auto
  let ?c = "index_context ctx idx i" and ?es = "fst (pages ! i)" and ?xs = "snd (pages ! i)"
  have b: "i < length idx - 1" "index_offsets idx ! i \<le> pc - loadAddress ctx"
    using linear_search_bounds [OF i] by (auto simp: index_offsets_def)
  then have page: "page_at B m ?c ?es ?xs" "sorted (entry_offsets B ?es)"
      "\<forall>e \<in> set ?es. unat (entry_func_offset B e) + unat (functionOffset ?c) < 2 ^ 32"
      "unat (loadAddress ?c) + 2 ^ 32 < 2 ^ 64" "page_regular B \<noteq> page_compressed B"
    using assms by (auto simp: section_at_def page_fits_def index_context_def)
  have base: "FIRCLSCompactUnwindGetIndexFunctionOffset ?c = loadAddress ctx + index_offsets idx ! i"
    using b by (simp add: FIRCLSCompactUnwindGetIndexFunctionOffset_def index_context_def index_offsets_def)
  have look: "map_option snd (FIRCLSCompactUnwindLookup B m ctx pc) =
      FIRCLSCompactUnwindLookupSecondLevelCompressed B m ?c pc"
    using assms False i page(1,5)
    by (auto simp: FIRCLSCompactUnwindLookup_def section_at_def first_level_correct page_at_def Let_def
        FIRCLSCompactUnwindLookupSecondLevel_def FIRCLSCompactUnwindGetSecondLevelPageKind_def
        intro!: option.map_comp split: bind_splits)
  show ?thesis
  proof (cases "pc - loadAddress ctx = index_offsets idx ! i")
    case True
    then have "pc = FIRCLSCompactUnwindGetIndexFunctionOffset ?c" using base by (metis add.commute diff_add_cancel)
    with target_zero_not_found [OF page(1), of pc] True look i ge show ?thesis
      by (simp add: spec_section_def)
  next
    case off: False
    have "FIRCLSCompactUnwindGetIndexFunctionOffset ?c < pc"
    proof -
      have "unat (loadAddress ctx) + unat (index_offsets idx ! i) < 2 ^ 64"
        using assms b unat_less [of "fst (idx ! i)"]
        by (simp add: section_at_def index_offsets_def unat_ucast_u32)
      then have "\<not> pc < loadAddress ctx + index_offsets idx ! i"
        using less_add_iff_diff [OF ge] b(2) by simp
      moreover have "pc \<noteq> loadAddress ctx + index_offsets idx ! i" using off by auto
      ultimately show ?thesis unfolding base by simp
    qed
    with compressed_lookup [OF page(1-4)] off look i leD [OF ge] show ?thesis
      by (simp add: spec_section_def)
  qed
qed

text \<open>A section of one page with two functions, at \<open>0x1000\<close>: its header, two common encodings, the
  index and the page.\<close>

definition sample_section :: "u8 list" where
  "sample_section = concat (map (le_bytes 4)
     [1, 28, 2, 36, 0, 36, 2,
      0x04000000, 0x02000000,
      0x100, 60, 0,
      0x400, 0, 0,
      3, 0x3000C, 0, 0x10, 0x01000020, 0x40])"

definition sample_context :: FIRCLSCompactUnwindContext where
  "sample_context = zero_compact_context\<lparr>
     commonEncodingsArraySectionOffset := 28, commonEncodingsArrayCount := 2,
     indexSectionOffset := 36, indexCount := 2,
     unwindInfo := 0x1000, ehFrame := 0, loadAddress := 0x100000000\<rparr>"

lemma sample_bytes:
  "sample_section = [1,0,0,0, 28,0,0,0, 2,0,0,0, 36,0,0,0, 0,0,0,0, 36,0,0,0, 2,0,0,0,
     0,0,0,4, 0,0,0,2,  0,1,0,0, 60,0,0,0, 0,0,0,0,  0,4,0,0, 0,0,0,0, 0,0,0,0,
     3,0,0,0, 12,0,3,0, 0,0,0,0, 0x10,0,0,0, 0x20,0,0,1, 0x40,0,0,0]"
  by (simp add: sample_section_def eval_simps numeral_2_eq_2)

lemmas sample_load = load32_def load16_def load_le_def load_bytes_numeral mem_of_def sample_bytes Let_def

lemma sample_section_init:
  "FIRCLSCompactUnwindInit mach_o_abi (mem_of 0x1000 sample_section) 0x1000 0 0x100000000 =
     Some sample_context"
  by (simp add: FIRCLSCompactUnwindInit_def FIRCLSIsValidPointer_def FIRCLSReadMemory_def
     mach_o_abi_def u32_field_def load_bytes_numeral mem_of_def sample_bytes sample_context_def)

lemma sample_section_at:
  "section_at mach_o_abi (mem_of 0x1000 sample_section) sample_context [(0x100, 60), (0x400, 0)]
     [([0x10, 0x01000020, 0x40], [0x04000000, 0x02000000, 0x04000000])]"
proof -
  have idx: "index_at mach_o_abi (mem_of 0x1000 sample_section) sample_context [(0x100, 60), (0x400, 0)]"
    unfolding index_at_def
    by (simp add: All_less_Suc FIRCLSCompactUnwindGetIndexData_def sample_context_def mach_o_abi_def
        zero_compact_context_def sample_load)
  have "page_fits mach_o_abi (mem_of 0x1000 sample_section)
      (index_context sample_context [(0x100, 60), (0x400, 0)] 0)
      [0x10, 0x01000020, 0x40] [0x04000000, 0x02000000, 0x04000000]"
    unfolding page_fits_def page_at_def
    by (simp add: All_less_Suc FIRCLSCompactUnwindGetSecondLevelData_def sample_context_def
        mach_o_abi_def zero_compact_context_def index_context_def entry_offsets_def encoding_at_def
        FIRCLSCompactUnwindGetCommonEncodings_def sample_load)
  with idx show ?thesis
    by (simp add: section_at_def All_less_Suc sample_context_def mach_o_abi_def zero_compact_context_def)
qed

theorem compact_lookup_correct_witness:
  "map_option snd (FIRCLSCompactUnwindLookup mach_o_abi (mem_of 0x1000 sample_section)
       sample_context 0x100000125) =
     Some (Some \<lparr>encoding = 0x02000000, functionStart = 0x100000120, functionEnd = 0x100000140\<rparr>)"
  unfolding compact_lookup_correct [OF sample_section_at]
  by (simp add: spec_section_def spec_lookup_def linear_search_def index_offsets_def index_context_def
      entry_offsets_def sample_context_def zero_compact_context_def mach_o_abi_def upt_rec
      FIRCLSCompactUnwindGetIndexFunctionOffset_def)

text \<open>The functions of the last entry of every page have no unwind information: the search gives up
  there, before its caller's computation of their end.\<close>

theorem last_entry_not_found:
  assumes page: "page_at B m ctx entries encs" and sorted: "sorted (entry_offsets B entries)"
    and pc: "FIRCLSCompactUnwindGetIndexFunctionOffset ctx < pc"
    and last: "last (entry_offsets B entries) \<le> pc - FIRCLSCompactUnwindGetIndexFunctionOffset ctx"
  shows "FIRCLSCompactUnwindLookupSecondLevelCompressed B m ctx pc = Some None"
proof -
  have ne: "entry_offsets B entries \<noteq> []" "FIRCLSCompactUnwindGetSecondLevelData ctx \<noteq> 0"
    using page by (auto simp: page_at_def Let_def entry_offsets_def)
  then have "entry_offsets B entries ! 0 \<le> last (entry_offsets B entries)"
    using sorted by (simp add: last_conv_nth sorted_nth_mono)
  with last have "\<not> pc - FIRCLSCompactUnwindGetIndexFunctionOffset ctx < entry_offsets B entries ! 0"
    by simp
  note this [simp] linear_search_last [OF sorted ne(1) last, simp]
  show ?thesis
    by (rule page_search [OF page sorted pc])
      (simp add: FIRCLSCompactUnwindLookupSecondLevelCompressed_def Let_def ne(2))
qed

theorem last_entry_not_found_witness:
  "FIRCLSCompactUnwindLookupSecondLevelCompressed mach_o_abi (mem_of 0x1000 sample_section)
     (index_context sample_context [(0x100, 60), (0x400, 0)] 0) 0x100000150 = Some None"
proof (rule last_entry_not_found)
  show "page_at mach_o_abi (mem_of 0x1000 sample_section)
      (index_context sample_context [(0x100, 60), (0x400, 0)] 0)
      [0x10, 0x01000020, 0x40] [0x04000000, 0x02000000, 0x04000000]"
    using sample_section_at by (simp add: section_at_def page_fits_def All_less_Suc)
qed (simp_all add: entry_offsets_def index_context_def sample_context_def zero_compact_context_def
    mach_o_abi_def FIRCLSCompactUnwindGetIndexFunctionOffset_def)

end
