(* ===== verification/BinaryImage.thy ===== *)
theory BinaryImage
  imports CompactUnwind
begin

text \<open>
  The images the unwinder knows (\<open>Components/FIRCLSBinaryImage.h\<close> and the signal-safe lookups of
  \<open>Components/FIRCLSBinaryImage.m\<close>) and the stack scan built on them
  (\<open>FIRCLSUnwindIsAddressExecutable\<close> and \<open>FIRCLSUnwindFirstExecutableAddress\<close> of
  \<open>Unwind/FIRCLSUnwind.c\<close>).

  The node table of the writable context is a list of \<open>CLS_BINARY_IMAGE_RUNTIME_NODE_COUNT\<close> nodes;
  \<open>None\<close> is a context that is not initialised or has no table. Its nodes lie in one live
  allocation, so the test of a node's own address never fires.
\<close>

section \<open>Images\<close>

record FIRCLSBinaryImageRuntimeNode =
  baseAddress :: addr
  node_size :: u64
  node_ehFrame :: addr
  node_unwindInfo :: addr
  crashInfo :: addr

definition CLS_BINARY_IMAGE_RUNTIME_NODE_COUNT :: nat where
  "CLS_BINARY_IMAGE_RUNTIME_NODE_COUNT = 512"

type_synonym images = "FIRCLSBinaryImageRuntimeNode list option"

definition image_contains :: "FIRCLSBinaryImageRuntimeNode \<Rightarrow> addr \<Rightarrow> bool" where
  "image_contains node address \<longleftrightarrow>
     address \<ge> baseAddress node \<and> address < baseAddress node + node_size node"

fun find_image_loop ::
    "FIRCLSBinaryImageRuntimeNode list \<Rightarrow> addr \<Rightarrow> FIRCLSBinaryImageRuntimeNode option" where
  "find_image_loop [] address = None"
| "find_image_loop (node # nodes) address =
     (if image_contains node address then Some node else find_image_loop nodes address)"

definition FIRCLSBinaryImageSafeFindImageForAddress ::
    "images \<Rightarrow> addr \<Rightarrow> FIRCLSBinaryImageRuntimeNode option" where
  "FIRCLSBinaryImageSafeFindImageForAddress ims address =
     (case ims of
        None \<Rightarrow> None
      | Some nodes \<Rightarrow>
          if address = 0 then None
          else find_image_loop (take CLS_BINARY_IMAGE_RUNTIME_NODE_COUNT nodes) address)"

definition FIRCLSBinaryImageSafeHasUnwindInfo :: "FIRCLSBinaryImageRuntimeNode \<Rightarrow> bool" where
  "FIRCLSBinaryImageSafeHasUnwindInfo node = FIRCLSIsValidPointer (node_unwindInfo node)"

lemma find_image_loop_eq: "find_image_loop nodes a = find (\<lambda>n. image_contains n a) nodes"
  by (induction nodes) auto

lemma find_image_contains:
  "FIRCLSBinaryImageSafeFindImageForAddress ims a = Some node \<Longrightarrow> a \<noteq> 0 \<and> image_contains node a"
  by (auto simp: FIRCLSBinaryImageSafeFindImageForAddress_def find_image_loop_eq find_Some_iff
      split: option.splits if_splits)

section \<open>Scanning the stack\<close>

definition FIRCLSUnwindIsAddressExecutable :: "images \<Rightarrow> addr \<Rightarrow> bool" where
  "FIRCLSUnwindIsAddressExecutable ims address \<longleftrightarrow>
     FIRCLSBinaryImageSafeFindImageForAddress ims address \<noteq> None"

text \<open>
  The \<open>do ... while\<close> of the scan. The first thing an iteration does is to log the word at \<open>start\<close>:
  the argument of the (real) log function dereferences it, before the tests that would have
  rejected the address. \<open>None\<close>: that read faults, or the scan does not end. The inner \<open>None\<close> is
  \<open>return false\<close>. \<open>scan_word\<close> is the rest of the iteration: what it returns, or \<open>None\<close> to go on.
\<close>

definition scan_word :: "mem \<Rightarrow> images \<Rightarrow> addr \<Rightarrow> addr option option" where
  "scan_word m ims start =
     (if FIRCLSIsValidPointer start then
        (case read_word m start of
           None \<Rightarrow> Some None
         | Some address \<Rightarrow>
             if FIRCLSUnwindIsAddressExecutable ims address then Some (Some address) else None)
      else None)"

partial_function (option) FIRCLSUnwindFirstExecutableAddress ::
    "mem \<Rightarrow> images \<Rightarrow> addr \<Rightarrow> addr \<Rightarrow> addr option option" where
  "FIRCLSUnwindFirstExecutableAddress m ims start ending =
     do { logged \<leftarrow> load64 m start;
          case scan_word m ims start of
            Some r \<Rightarrow> Some r
          | None \<Rightarrow>
              if start + 8 < ending
              then FIRCLSUnwindFirstExecutableAddress m ims (start + 8) ending
              else Some None }"

text \<open>A stack of words.\<close>

fun words_at :: "mem \<Rightarrow> addr \<Rightarrow> u64 list \<Rightarrow> bool" where
  "words_at m a [] = True"
| "words_at m a (w # ws) = (load64 m a = Some w \<and> words_at m (a + 8) ws)"

lemma words_at_append:
  "words_at m a (xs @ ys) \<longleftrightarrow> words_at m a xs \<and> words_at m (a + of_nat (8 * length xs)) ys"
proof (induction xs arbitrary: a)
  case (Cons x xs)
  have "a + of_nat (8 * length (x # xs)) = a + 8 + of_nat (8 * length xs)" by (simp add: algebra_simps)
  then show ?case by (simp only: append_Cons words_at.simps Cons.IH conj_assoc)
qed simp

text \<open>On a readable stack the scan ends and finds the first word that lies in an image.\<close>

lemma first_executable_address_finds:
  assumes "words_at m start ws" "ws \<noteq> []" "4096 \<le> start"
    and "unat start + 8 * length ws < 2 ^ 64" "ending = start + of_nat (8 * length ws)"
  shows "FIRCLSUnwindFirstExecutableAddress m ims start ending =
           Some (find (FIRCLSUnwindIsAddressExecutable ims) ws)"
  using assms
proof (induction ws arbitrary: start)
  case (Cons w ws)
  have w: "load64 m start = Some w" "read_word m start = Some w"
    using Cons.prems by (auto simp: read_word_eq_load64)
  have ending: "unat ending = unat start + 8 * length (w # ws)"
    using Cons.prems(4) unfolding Cons.prems(5) by (subst unat_add_of_nat_small) simp_all
  have s8: "unat (start + 8) = unat start + 8"
    using Cons.prems(4) unat_add_of_nat_small [of start 8] by simp
  have more: "start + 8 < ending \<longleftrightarrow> ws \<noteq> []"
    using ending s8 by (auto simp: word_less_nat_alt)
  have IH: "FIRCLSUnwindFirstExecutableAddress m ims (start + 8) ending =
      Some (find (FIRCLSUnwindIsAddressExecutable ims) ws)" if "ws \<noteq> []"
    using that Cons.prems s8 by (intro Cons.IH) (auto simp: word_le_nat_alt algebra_simps)
  show ?case
    using w more IH Cons.prems(3)
    by (subst FIRCLSUnwindFirstExecutableAddress.simps)
      (auto simp: scan_word_def FIRCLSIsValidPointer_def)
qed simp

theorem first_executable_address_correct:
  assumes "words_at m start ws" "ws \<noteq> []" "4096 \<le> start"
    and "unat start + 8 * length ws < 2 ^ 64"
  shows "FIRCLSUnwindFirstExecutableAddress m ims start (start + of_nat (8 * length ws)) =
           Some (find (FIRCLSUnwindIsAddressExecutable ims) ws)"
  using assms first_executable_address_finds by blast

theorem first_executable_address_correct_witness:
  "FIRCLSUnwindFirstExecutableAddress (mem_of 0x2000 (le_bytes 8 7 @ le_bytes 8 0x5010))
     (Some [\<lparr>baseAddress = 0x5000, node_size = 0x100, node_ehFrame = 0, node_unwindInfo = 0, crashInfo = 0\<rparr>])
     0x2000 0x2010 = Some (Some 0x5010)"
proof -
  let ?ims = "Some [\<lparr>baseAddress = 0x5000, node_size = 0x100, node_ehFrame = 0, node_unwindInfo = 0,
    crashInfo = 0\<rparr>]"
  let ?m = "mem_of 0x2000 (le_bytes 8 7 @ le_bytes 8 0x5010)"
  have "words_at ?m 0x2000 [7, 0x5010]"
    by (simp add: load64_def load_le_def mem_of_def eval_simps)
  then have "FIRCLSUnwindFirstExecutableAddress ?m ?ims 0x2000 (0x2000 + of_nat (8 * length [7, 0x5010 :: u64])) =
      Some (find (FIRCLSUnwindIsAddressExecutable ?ims) [7, 0x5010])"
    by (rule first_executable_address_correct) simp_all
  then show ?thesis
    by (simp add: FIRCLSUnwindIsAddressExecutable_def FIRCLSBinaryImageSafeFindImageForAddress_def
        CLS_BINARY_IMAGE_RUNTIME_NODE_COUNT_def image_contains_def)
qed

text \<open>A stack pointer that is not readable faults, although the scan means to give up there.\<close>

theorem first_executable_address_faults:
  assumes "m start = None"
  shows "FIRCLSReadMemory m start 8 = None \<and>
         FIRCLSUnwindFirstExecutableAddress m ims start ending = None"
  using assms
  by (subst FIRCLSUnwindFirstExecutableAddress.simps)
    (simp add: FIRCLSReadMemory_def load64_def load_le_def load_bytes_numeral)

theorem first_executable_address_faults_witness:
  "FIRCLSReadMemory (\<lambda>_. None) 0x2000 8 = None \<and>
   FIRCLSUnwindFirstExecutableAddress (\<lambda>_. None) None 0x2000 0x3000 = None"
  by (rule first_executable_address_faults) simp

end
