(* ===== verification/UnwindArm.thy ===== *)
theory UnwindArm
  imports BinaryImage
begin

text \<open>
  The arm64 part of the unwinder: \<open>Unwind/FIRCLSUnwind_arm.c\<close>, less its DWARF register numbering,
  which is in \<open>ThreadState\<close>. The mode constants of the SDK's \<open>compact_unwind_encoding.h\<close> are the
  record \<open>arm_abi\<close>, a parameter. Every function returns the source's \<open>bool\<close> and the registers.
\<close>

section \<open>Constants of the encoding\<close>

record arm_abi =
  arm_mode_mask :: u32
  arm_mode_frameless :: u32
  arm_mode_dwarf :: u32
  arm_mode_frame :: u32
  arm_dwarf_section_offset :: u32

text \<open>The documented values, used to run the model.\<close>

definition arm64_abi :: arm_abi where
  "arm64_abi = \<lparr>arm_mode_mask = 0x0F000000, arm_mode_frameless = 0x02000000,
     arm_mode_dwarf = 0x03000000, arm_mode_frame = 0x04000000,
     arm_dwarf_section_offset = 0x00FFFFFF\<rparr>"

section \<open>Strategies\<close>

definition arm64_UnwindWithLRRegister :: "arm64_context \<Rightarrow> bool \<times> arm64_context" where
  "arm64_UnwindWithLRRegister r =
     (let v = arm64_GetLinkRegister r in
      if \<not> FIRCLSIsValidPointer v then (False, r) else arm64_SetPC r v)"

definition UnwindStackPointerFromFramePointer :: "u64 \<Rightarrow> u64" where
  "UnwindStackPointerFromFramePointer framePtr = framePtr + 2 * 8"

text \<open>The two words \<open>stack[0]\<close> and \<open>stack[1]\<close> read at the frame pointer.\<close>

definition read_frame :: "mem \<Rightarrow> addr \<Rightarrow> (u64 \<times> u64) option" where
  "read_frame m a =
     map_option (\<lambda>bs. (of_nat (le_nat (take 8 bs)), of_nat (le_nat (drop 8 bs))))
       (FIRCLSReadMemory m a 16)"

definition arm64_UnwindWithFramePointer ::
    "mem \<Rightarrow> arm64_context \<Rightarrow> bool \<Rightarrow> bool \<times> arm64_context" where
  "arm64_UnwindWithFramePointer m r allowScanning =
     (case (if allowScanning then arm64_UnwindWithLRRegister r else (False, r)) of
        (True, r) \<Rightarrow> (True, r)
      | (False, r) \<Rightarrow>
          let framePointer = arm64_GetFramePointer r in
          case read_frame m framePointer of
            None \<Rightarrow> (False, r)
          | Some (fp, pc) \<Rightarrow>
              let (ok, r) = arm64_SetPC r pc in
              if \<not> ok then (False, r)
              else let (ok, r) = arm64_SetFramePointer r fp in
              if \<not> ok then (False, r)
              else let (ok, r) = arm64_SetStackPointer r (UnwindStackPointerFromFramePointer framePointer) in
              if \<not> ok then (False, r) else (True, r))"

definition arm64_CompactUnwindComputeRegisters :: "arm_abi \<Rightarrow> arm64_context compute" where
  "arm64_CompactUnwindComputeRegisters K m ctx result r =
     (let mode = encoding result AND arm_mode_mask K in
      if mode = arm_mode_frameless K then Some (arm64_UnwindWithLRRegister r)
      else if mode = arm_mode_dwarf K then
        FIRCLSCompactUnwindDwarfFrame arm64_arch m ctx
          (ucast (encoding result AND arm_dwarf_section_offset K)) r
      else if mode = arm_mode_frame K then Some (arm64_UnwindWithFramePointer m r False)
      else Some (False, r))"

section \<open>Frame-pointer chains\<close>

lemma read_frame_words:
  assumes "4096 \<le> a" "load64 m a = Some w0" "load64 m (a + 8) = Some w1"
  shows "read_frame m a = Some (w0, w1)"
proof -
  have split: "load_bytes m a 16 = do { xs \<leftarrow> load_bytes m a 8; ys \<leftarrow> load_bytes m (a + 8) 8; Some (xs @ ys) }"
    using load_bytes_add [of m a 8 8] by simp
  obtain xs ys where "load_bytes m a 8 = Some xs" "w0 = of_nat (le_nat xs)"
      "load_bytes m (a + 8) 8 = Some ys" "w1 = of_nat (le_nat ys)"
    using assms(2,3) by (auto simp: load64_def load_le_def)
  moreover from this have "length xs = 8" by (auto dest: load_bytes_length)
  ultimately show ?thesis
    using assms(1) by (simp add: read_frame_def FIRCLSReadMemory_def FIRCLSIsValidPointer_def split)
qed

lemma arm64_frame_pointer_step:
  "arm64_UnwindWithFramePointer m r False =
     (case read_frame m (arm64_GetFramePointer r) of
        None \<Rightarrow> (False, r)
      | Some (fp, pc) \<Rightarrow>
          (True, r\<lparr>arm_pc := pc, arm_fp := fp, arm_sp := arm64_GetFramePointer r + 16\<rparr>))"
  by (auto simp: arm64_UnwindWithFramePointer_def Let_def arm64_SetPC_def arm64_SetFramePointer_def
      arm64_SetStackPointer_def UnwindStackPointerFromFramePointer_def split: option.splits)

end
