(* ===== verification/UnwindX86.thy ===== *)
theory UnwindX86
  imports UnwindArm
begin

text \<open>
  The x86_64 part of the unwinder: \<open>Unwind/FIRCLSUnwind_x86.c\<close>, less its DWARF register numbering,
  which is in \<open>ThreadState\<close>, and the macro \<open>GET_BITS_WITH_MASK\<close> of
  \<open>Unwind/Compact/FIRCLSCompactUnwind.h\<close>. The constants of the SDK's \<open>compact_unwind_encoding.h\<close>
  are the record \<open>x86_abi\<close>, a parameter. The tests of the addresses of locals and of live
  structures never fire and are left out.
\<close>

section \<open>Constants of the encoding\<close>

record x86_abi =
  x86_mode_mask :: u32
  x86_mode_bp_frame :: u32
  x86_mode_stack_immd :: u32
  x86_mode_stack_ind :: u32
  x86_mode_dwarf :: u32
  x86_frameless_stack_size :: u32
  x86_frameless_stack_adjust :: u32
  x86_frameless_stack_reg_count :: u32
  x86_frameless_stack_reg_permutation :: u32
  x86_dwarf_section_offset :: u32
  x86_reg_rbp :: u64

text \<open>The documented values.\<close>

definition x86_64_abi :: x86_abi where
  "x86_64_abi = \<lparr>x86_mode_mask = 0x0F000000, x86_mode_bp_frame = 0x01000000,
     x86_mode_stack_immd = 0x02000000, x86_mode_stack_ind = 0x03000000, x86_mode_dwarf = 0x04000000,
     x86_frameless_stack_size = 0x00FF0000, x86_frameless_stack_adjust = 0x0000E000,
     x86_frameless_stack_reg_count = 0x00001C00, x86_frameless_stack_reg_permutation = 0x000003FF,
     x86_dwarf_section_offset = 0x00FFFFFF, x86_reg_rbp = 6\<rparr>"

section \<open>Bit fields\<close>

definition builtin_ctz :: "u32 \<Rightarrow> nat" where
  "builtin_ctz w = length (takeWhile (\<lambda>i. \<not> bit w i) [0..<32])"

definition GET_BITS_WITH_MASK :: "u32 \<Rightarrow> u32 \<Rightarrow> u32" where
  "GET_BITS_WITH_MASK v m =
     drop_bit (if m = 0 then 0 else builtin_ctz m) (v AND m)"

section \<open>Frame pointer and stack scan\<close>

definition x86_64_CompactUnwindBPFrame :: "mem \<Rightarrow> x86_64_context \<Rightarrow> bool \<times> x86_64_context" where
  "x86_64_CompactUnwindBPFrame m r =
     (let framePointer = x86_64_GetFramePointer r in
      case read_frame m framePointer of
        None \<Rightarrow> (False, r)
      | Some (fp, pc) \<Rightarrow>
          let (ok, r) = x86_64_SetPC r pc in
          if \<not> ok then (False, r)
          else let (ok, r) = x86_64_SetFramePointer r fp in
          if \<not> ok then (False, r)
          else let (ok, r) = x86_64_SetStackPointer r (UnwindStackPointerFromFramePointer framePointer) in
          if \<not> ok then (False, r) else (True, r))"

definition x86_64_UnwindWithStackScanning ::
    "mem \<Rightarrow> images \<Rightarrow> x86_64_context \<Rightarrow> (bool \<times> x86_64_context) option" where
  "x86_64_UnwindWithStackScanning m ims r =
     do { found \<leftarrow> FIRCLSUnwindFirstExecutableAddress m ims (x86_64_GetStackPointer r) (x86_64_GetFramePointer r);
          Some (case found of None \<Rightarrow> (False, r) | Some newPC \<Rightarrow> x86_64_SetPC r newPC) }"

definition x86_64_UnwindWithFramePointer ::
    "mem \<Rightarrow> images \<Rightarrow> x86_64_context \<Rightarrow> bool \<Rightarrow> (bool \<times> x86_64_context) option" where
  "x86_64_UnwindWithFramePointer m ims r allowScanning =
     do { (ok, r) \<leftarrow> (if allowScanning then x86_64_UnwindWithStackScanning m ims r else Some (False, r));
          Some (if ok then (True, r) else x86_64_CompactUnwindBPFrame m r) }"

section \<open>Frameless functions\<close>

definition FIRCLSCompactUnwindComputeStackSize ::
    "x86_abi \<Rightarrow> mem \<Rightarrow> u32 \<Rightarrow> addr \<Rightarrow> bool \<Rightarrow> u32 option" where
  "FIRCLSCompactUnwindComputeStackSize K m enc start indirect =
     (let stackSizeEncoded = GET_BITS_WITH_MASK enc (x86_frameless_stack_size K) in
      if \<not> indirect then Some (ucast ((ucast stackSizeEncoded :: u64) * 8))
      else case FIRCLSReadMemory m (start + ucast stackSizeEncoded) 4 of
        None \<Rightarrow> None
      | Some bs \<Rightarrow>
          let sublValue = (of_nat (le_nat bs) :: u32);
              stackAdjust = GET_BITS_WITH_MASK enc (x86_frameless_stack_adjust K)
          in Some (ucast ((ucast sublValue :: u64) + ucast stackAdjust * 8)))"

text \<open>One step of the mixed-radix decoding: a digit, and what is left of \<open>permutation\<close> after the
  compound assignment, which is computed in 64 bits and stored in 32.\<close>

definition permutation_digit :: "u32 \<Rightarrow> u32 \<Rightarrow> u64 \<times> u32" where
  "permutation_digit permutation radix =
     (let d = (ucast (permutation div radix) :: u64)
      in (d, ucast (ucast permutation - d * ucast radix)))"

definition FIRCLSCompactUnwindDecompressPermutation :: "x86_abi \<Rightarrow> u32 \<Rightarrow> u64 list option" where
  "FIRCLSCompactUnwindDecompressPermutation K enc =
     (let regCount = GET_BITS_WITH_MASK enc (x86_frameless_stack_reg_count K);
          permutation = GET_BITS_WITH_MASK enc (x86_frameless_stack_reg_permutation K)
      in
      if regCount = 6 then
        (let (p0, permutation) = permutation_digit permutation 120;
             (p1, permutation) = permutation_digit permutation 24;
             (p2, permutation) = permutation_digit permutation 6;
             (p3, permutation) = permutation_digit permutation 2
         in Some [p0, p1, p2, p3, ucast permutation, 0])
      else if regCount = 5 then
        (let (p0, permutation) = permutation_digit permutation 120;
             (p1, permutation) = permutation_digit permutation 24;
             (p2, permutation) = permutation_digit permutation 6;
             (p3, permutation) = permutation_digit permutation 2
         in Some [p0, p1, p2, p3, ucast permutation, 0])
      else if regCount = 4 then
        (let (p0, permutation) = permutation_digit permutation 60;
             (p1, permutation) = permutation_digit permutation 12;
             (p2, permutation) = permutation_digit permutation 3
         in Some [p0, p1, p2, ucast permutation, 0, 0])
      else if regCount = 3 then
        (let (p0, permutation) = permutation_digit permutation 20;
             (p1, permutation) = permutation_digit permutation 4
         in Some [p0, p1, ucast permutation, 0, 0, 0])
      else if regCount = 2 then
        (let (p0, permutation) = permutation_digit permutation 5
         in Some [p0, ucast permutation, 0, 0, 0, 0])
      else if regCount = 1 then Some [ucast permutation, 0, 0, 0, 0, 0]
      else if regCount = 0 then Some [0, 0, 0, 0, 0, 0]
      else None)"

text \<open>The inner loop: the register \<open>u\<close> that is number \<open>target\<close> among the unused ones, counting on
  from \<open>renum\<close>; \<open>None\<close> when the loop runs out.\<close>

fun remap_register :: "(nat \<Rightarrow> bool) \<Rightarrow> u64 \<Rightarrow> nat \<Rightarrow> nat list \<Rightarrow> nat option" where
  "remap_register used target renum [] = None"
| "remap_register used target renum (u # us) =
     (if \<not> used u then
        (if of_nat renum = target then Some u else remap_register used target (renum + 1) us)
      else remap_register used target renum us)"

fun remap_loop :: "nat \<Rightarrow> nat \<Rightarrow> u64 list \<Rightarrow> (nat \<Rightarrow> bool) \<Rightarrow> u64 list \<Rightarrow> u64 list" where
  "remap_loop 0 i permutated used saved = saved"
| "remap_loop (Suc n) i permutated used saved =
     (case remap_register used (permutated ! i) 0 [1..<7] of
        None \<Rightarrow> remap_loop n (i + 1) permutated used saved
      | Some u \<Rightarrow> remap_loop n (i + 1) permutated (used(u := True)) (saved[i := of_nat u]))"

definition FIRCLSCompactUnwindRemapRegisters :: "x86_abi \<Rightarrow> u32 \<Rightarrow> u64 list \<Rightarrow> u64 list option" where
  "FIRCLSCompactUnwindRemapRegisters K enc permutated =
     (let regCount = GET_BITS_WITH_MASK enc (x86_frameless_stack_reg_count K) in
      if regCount > 6 then None
      else Some (remap_loop (unat regCount) 0 permutated (\<lambda>_. False) (replicate 6 0)))"

text \<open>The registers below the return address, from \<open>address\<close> on. Only RBP is restored. The array has
  six entries; the only caller has already rejected a larger count.\<close>

fun restore_loop ::
    "x86_abi \<Rightarrow> mem \<Rightarrow> u64 list \<Rightarrow> addr \<Rightarrow> x86_64_context \<Rightarrow> bool \<times> addr \<times> x86_64_context" where
  "restore_loop K m [] address r = (True, address, r)"
| "restore_loop K m (s # saved) address r =
     (if s = x86_reg_rbp K then
        (case read_word m address of
           None \<Rightarrow> (False, address, r)
         | Some v \<Rightarrow>
             let (ok, r) = x86_64_SetFramePointer r v in
             if \<not> ok then (False, address, r) else restore_loop K m saved (address + 8) r)
      else restore_loop K m saved (address + 8) r)"

definition FIRCLSCompactUnwindRestoreRegisters ::
    "x86_abi \<Rightarrow> mem \<Rightarrow> u32 \<Rightarrow> x86_64_context \<Rightarrow> u32 \<Rightarrow> u64 list \<Rightarrow> bool \<times> addr \<times> x86_64_context" where
  "FIRCLSCompactUnwindRestoreRegisters K m enc r stackSize saved =
     (let regCount = GET_BITS_WITH_MASK enc (x86_frameless_stack_reg_count K);
          address = x86_64_GetStackPointer r + ucast stackSize - 8 - 8 * ucast regCount
      in restore_loop K m (take (unat regCount) saved) address r)"

definition x86_64_CompactUnwindFrameless ::
    "x86_abi \<Rightarrow> mem \<Rightarrow> u32 \<Rightarrow> x86_64_context \<Rightarrow> addr \<Rightarrow> bool \<Rightarrow> bool \<times> x86_64_context" where
  "x86_64_CompactUnwindFrameless K m enc r start indirect =
     (case FIRCLSCompactUnwindComputeStackSize K m enc start indirect of
        None \<Rightarrow> (False, r)
      | Some stackSize \<Rightarrow>
      case FIRCLSCompactUnwindDecompressPermutation K enc of
        None \<Rightarrow> (False, r)
      | Some permutated \<Rightarrow>
      case FIRCLSCompactUnwindRemapRegisters K enc permutated of
        None \<Rightarrow> (False, r)
      | Some saved \<Rightarrow>
      case FIRCLSCompactUnwindRestoreRegisters K m enc r stackSize saved of
        (False, _, r) \<Rightarrow> (False, r)
      | (True, address, r) \<Rightarrow>
      case read_word m address of
        None \<Rightarrow> (False, r)
      | Some v \<Rightarrow>
          if \<not> FIRCLSIsValidPointer v then (False, r)
          else let (ok, r) = x86_64_SetPC r v in
          if \<not> ok then (False, r) else x86_64_SetStackPointer r (address + 8))"

definition x86_64_CompactUnwindComputeRegisters :: "x86_abi \<Rightarrow> x86_64_context compute" where
  "x86_64_CompactUnwindComputeRegisters K m ctx result r =
     (let enc = encoding result; mode = enc AND x86_mode_mask K in
      if mode = x86_mode_bp_frame K then Some (x86_64_CompactUnwindBPFrame m r)
      else if mode = x86_mode_stack_immd K then
        Some (x86_64_CompactUnwindFrameless K m enc r (functionStart result) False)
      else if mode = x86_mode_stack_ind K then
        Some (x86_64_CompactUnwindFrameless K m enc r (functionStart result) True)
      else if mode = x86_mode_dwarf K then
        FIRCLSCompactUnwindDwarfFrame x86_64_arch m ctx (ucast (enc AND x86_dwarf_section_offset K)) r
      else Some (False, r))"

section \<open>Register permutations\<close>

text \<open>
  How the compiler writes the saved registers: each register as its position among those not saved
  yet, and these positions as the digits of a mixed-radix number.
\<close>

definition position :: "nat list \<Rightarrow> nat \<Rightarrow> nat" where
  "position avail r = length (takeWhile (\<lambda>x. x \<noteq> r) avail)"

fun renumber :: "nat list \<Rightarrow> nat list \<Rightarrow> nat list" where
  "renumber avail [] = []"
| "renumber avail (r # rs) = position avail r # renumber (remove1 r avail) rs"

definition radices :: "nat \<Rightarrow> nat list" where
  "radices n =
     (if n = 1 then [1] else if n = 2 then [5, 1] else if n = 3 then [20, 4, 1]
      else if n = 4 then [60, 12, 3, 1] else [120, 24, 6, 2, 1])"

definition permutation_number :: "nat list \<Rightarrow> nat" where
  "permutation_number ds = sum_list (map2 (*) ds (radices (length ds)))"

definition encode_registers :: "nat list \<Rightarrow> nat" where
  "encode_registers regs = permutation_number (renumber [1..<7] regs)"

text \<open>Digits of a permutation: each below the number of registers left.\<close>

fun digits_ok :: "nat \<Rightarrow> nat list \<Rightarrow> bool" where
  "digits_ok n [] = True"
| "digits_ok n (d # ds) = (d < n \<and> digits_ok (n - 1) ds)"

lemma position_nth:
  "r \<in> set avail \<Longrightarrow> position avail r < length avail \<and> avail ! position avail r = r"
  unfolding position_def by (induction avail) auto

lemma renumber_digits:
  "distinct avail \<Longrightarrow> distinct regs \<Longrightarrow> set regs \<subseteq> set avail \<Longrightarrow>
   digits_ok (length avail) (renumber avail regs)"
proof (induction regs arbitrary: avail)
  case (Cons r rs)
  then have "digits_ok (length (remove1 r avail)) (renumber (remove1 r avail) rs)"
    by (intro Cons.IH) auto
  with Cons.prems position_nth [of r avail] show ?case by (simp add: length_remove1)
qed simp

lemma length_renumber [simp]: "length (renumber avail regs) = length regs"
  by (induction regs arbitrary: avail) auto

lemma permutation_digit_eq:
  assumes "e < unat k" "d * unat k + e < 2 ^ 32"
  shows "permutation_digit (of_nat (d * unat k + e)) k = (of_nat d, of_nat e)"
proof -
  define n where "n = d * unat k + e"
  then have n: "n < 2 ^ 32" "n div unat k = d" "n = d * unat k + e" using assms by auto
  then have "d \<le> n" using assms(1) by (cases "unat k") auto
  then have d: "d < 2 ^ 32" using n(1) by (rule le_less_trans)
  have "unat ((of_nat n :: u32) div k) = d"
    using n(1,2) by (simp add: unat_div_distrib unat_of_nat_small)
  then have q: "(of_nat n :: u32) div k = of_nat d" by (metis of_nat_unat ucast_id)
  have "(ucast k :: u64) = of_nat (unat k)" by simp
  moreover have "(ucast (of_nat n :: u32) :: u64) = of_nat d * of_nat (unat k) + of_nat e"
    using n(1) by (subst ucast_of_nat_small) (simp_all add: n(3))
  moreover have "(ucast (of_nat e :: u64) :: u32) = of_nat e"
    using assms n by (simp add: ucast_of_nat_small)
  ultimately show ?thesis
    unfolding permutation_digit_def q n(3) [symmetric] using d by (simp add: ucast_of_nat_small)
qed

lemma digit_step:
  "e < unat k \<Longrightarrow> d * unat k + e < 2 ^ 32 \<Longrightarrow> unat k = c \<Longrightarrow>
   permutation_digit (of_nat (d * c + e)) k = (of_nat d, of_nat e)"
  using permutation_digit_eq by blast

lemma replicate_numeral_Cons:
  "replicate (numeral k) x = x # replicate (pred_numeral k) x"
  by (simp add: numeral_eq_Suc)

lemma decompress_permutation:
  assumes "digits_ok 6 ds" "length ds \<le> 6"
    and "GET_BITS_WITH_MASK enc (x86_frameless_stack_reg_count K) = of_nat (length ds)"
    and "GET_BITS_WITH_MASK enc (x86_frameless_stack_reg_permutation K) = of_nat (permutation_number ds)"
  shows "FIRCLSCompactUnwindDecompressPermutation K enc =
    Some (map of_nat ds @ replicate (6 - length ds) 0)"
proof -
  have "length ds \<in> set [0..<7]" using assms(2) by simp
  then consider "ds = []" | a where "ds = [a]" | a b where "ds = [a, b]" | a b c where "ds = [a, b, c]"
    | a b c d where "ds = [a, b, c, d]" | a b c d e where "ds = [a, b, c, d, e]"
    | a b c d e f where "ds = [a, b, c, d, e, f]"
    by (auto simp: upt_rec length_Suc_conv eval_nat_numeral)
  then show ?thesis
    using assms
    by cases (simp_all add: FIRCLSCompactUnwindDecompressPermutation_def permutation_number_def
      radices_def digit_step ucast_of_nat_small replicate_numeral_Cons
      del: of_nat_add of_nat_mult of_nat_numeral)
qed

lemma of_nat_u64_eq:
  "a < 2 ^ 64 \<Longrightarrow> b < 2 ^ 64 \<Longrightarrow> (of_nat a :: u64) = of_nat b \<longleftrightarrow> a = b"
  by (simp add: word_unat_eq_iff unat_of_nat_small)

text \<open>The inner loop picks from the unused registers by position.\<close>

lemma remap_register_nth:
  assumes "t < 2 ^ 64" "renum \<le> t"
  shows "remap_register used (of_nat t) renum us =
    (let xs = filter (\<lambda>u. \<not> used u) us in if t - renum < length xs then Some (xs ! (t - renum)) else None)"
  using assms(2)
proof (induction us arbitrary: renum)
  case (Cons u us)
  have "(of_nat renum :: u64) = of_nat t \<longleftrightarrow> renum = t"
    using assms(1) Cons.prems by (intro of_nat_u64_eq) auto
  with Cons show ?case by (cases "renum = t") (auto simp: Let_def nth_Cons')
qed simp

lemma remap_loop_correct:
  assumes "distinct rs" "set rs \<subseteq> set (filter (\<lambda>u. \<not> used u) [1..<7])"
    and "\<And>k. k < length rs \<Longrightarrow>
           permutated ! (i + k) = of_nat (renumber (filter (\<lambda>u. \<not> used u) [1..<7]) rs ! k)"
    and "i + length rs \<le> length saved"
  shows "remap_loop (length rs) i permutated used saved =
    take i saved @ map of_nat rs @ drop (i + length rs) saved"
  using assms
proof (induction rs arbitrary: i used saved)
  case (Cons r rs)
  let ?avail = "filter (\<lambda>u. \<not> used u) [1..<7]"
  have p: "position ?avail r < length ?avail" "?avail ! position ?avail r = r"
    using Cons.prems(2) position_nth [of r ?avail] by auto
  have "length ?avail \<le> 6" by (rule order_trans [OF length_filter_le]) simp
  then have small: "position ?avail r < 2 ^ 64" using p(1) by simp
  have u: "remap_register used (permutated ! i) 0 [1..<7] = Some r"
    using Cons.prems(3) [of 0] p remap_register_nth [OF small, of 0 used "[1..<7]"] by (simp add: Let_def)
  have avail: "filter (\<lambda>u. \<not> (used(r := True)) u) [1..<7] = remove1 r ?avail"
    by (subst distinct_remove1_removeAll) (auto simp: removeAll_filter_not_eq intro: filter_cong)
  have "remap_loop (length rs) (i + 1) permutated (used(r := True)) (saved[i := of_nat r]) =
      take (i + 1) (saved[i := of_nat r]) @ map of_nat rs @ drop (i + 1 + length rs) (saved[i := of_nat r])"
  proof (rule Cons.IH)
    show "permutated ! (i + 1 + k) = of_nat (renumber (filter (\<lambda>u. \<not> (used(r := True)) u) [1..<7]) rs ! k)"
      if "k < length rs" for k
      using Cons.prems(3) [of "Suc k"] that unfolding avail by simp
  qed (use Cons.prems in \<open>auto simp: avail\<close>)
  with u Cons.prems(4) show ?case by (simp add: take_Suc_conv_app_nth)
qed simp

text \<open>An encoding that carries the registers \<open>regs\<close>.\<close>

definition encodes_registers :: "x86_abi \<Rightarrow> u32 \<Rightarrow> nat list \<Rightarrow> bool" where
  "encodes_registers K enc regs \<longleftrightarrow>
     distinct regs \<and> set regs \<subseteq> set [1..<7] \<and>
     GET_BITS_WITH_MASK enc (x86_frameless_stack_reg_count K) = of_nat (length regs) \<and>
     GET_BITS_WITH_MASK enc (x86_frameless_stack_reg_permutation K) = of_nat (encode_registers regs)"

lemma encodes_registers_length: "encodes_registers K enc regs \<Longrightarrow> length regs \<le> 6"
  using card_mono [of "set [1..<7]" "set regs"]
  by (auto simp: encodes_registers_def distinct_card [symmetric])

lemma decompress_remap:
  assumes "encodes_registers K enc regs"
  shows "FIRCLSCompactUnwindDecompressPermutation K enc =
      Some (map of_nat (renumber [1..<7] regs) @ replicate (6 - length regs) 0)"
    and "FIRCLSCompactUnwindRemapRegisters K enc
      (map of_nat (renumber [1..<7] regs) @ replicate (6 - length regs) 0) =
      Some (map of_nat regs @ replicate (6 - length regs) 0)"
proof -
  have n: "length regs \<le> 6" using assms by (rule encodes_registers_length)
  have d: "distinct regs" "set regs \<subseteq> set [1..<7]"
    and count: "GET_BITS_WITH_MASK enc (x86_frameless_stack_reg_count K) = of_nat (length regs)"
    and num: "GET_BITS_WITH_MASK enc (x86_frameless_stack_reg_permutation K) =
      of_nat (permutation_number (renumber [1..<7] regs))"
    using assms by (auto simp: encodes_registers_def encode_registers_def)
  have "digits_ok 6 (renumber [1..<7] regs)"
    using renumber_digits [OF _ d] by simp
  from decompress_permutation [OF this, of enc K] n count num
  show "FIRCLSCompactUnwindDecompressPermutation K enc =
      Some (map of_nat (renumber [1..<7] regs) @ replicate (6 - length regs) 0)"
    by simp
  have c: "unat (of_nat (length regs) :: u32) = length regs"
    using n by (simp add: unat_of_nat_small)
  then have "\<not> (of_nat (length regs) :: u32) > 6" using n by (simp add: word_less_nat_alt)
  moreover have "remap_loop (length regs) 0
      (map of_nat (renumber [1..<7] regs) @ replicate (6 - length regs) 0) (\<lambda>_. False) (replicate 6 0) =
      map of_nat regs @ drop (length regs) (replicate 6 0)"
    using remap_loop_correct [of regs "\<lambda>_. False"
        "map of_nat (renumber [1..<7] regs) @ replicate (6 - length regs) 0" 0 "replicate 6 0"] d n
    by (simp add: nth_append)
  ultimately show "FIRCLSCompactUnwindRemapRegisters K enc
      (map of_nat (renumber [1..<7] regs) @ replicate (6 - length regs) 0) =
      Some (map of_nat regs @ replicate (6 - length regs) 0)"
    using count c by (simp add: FIRCLSCompactUnwindRemapRegisters_def Let_def)
qed

text \<open>C16: Every list of distinct saved registers, encoded as the compiler does (count and mixed-radix
  permutation number), is recovered by decompressing and renumbering.\<close>

theorem register_permutation_roundtrip:
  assumes "encodes_registers K enc regs"
  shows "do { permutated \<leftarrow> FIRCLSCompactUnwindDecompressPermutation K enc;
              FIRCLSCompactUnwindRemapRegisters K enc permutated } =
         Some (map of_nat regs @ replicate (6 - length regs) 0)"
  using decompress_remap [OF assms] by simp

theorem register_permutation_roundtrip_witness:
  "do { permutated \<leftarrow> FIRCLSCompactUnwindDecompressPermutation x86_64_abi 0x02000C66;
        FIRCLSCompactUnwindRemapRegisters x86_64_abi 0x02000C66 permutated } =
   Some [6, 1, 4, 0, 0, 0]"
proof -
  have "encodes_registers x86_64_abi 0x02000C66 [6, 1, 4]"
    by (simp add: encodes_registers_def x86_64_abi_def GET_BITS_WITH_MASK_def builtin_ctz_def
      encode_registers_def permutation_number_def radices_def position_def upt_rec)
  from register_permutation_roundtrip [OF this] show ?thesis by (simp add: replicate_numeral_Cons)
qed

section \<open>Unwinding a frameless function\<close>

text \<open>The value RBP has after the return: what was saved in its slot, if it was saved.\<close>

definition restored_rbp :: "nat \<Rightarrow> nat list \<Rightarrow> u64 list \<Rightarrow> u64 \<Rightarrow> u64" where
  "restored_rbp b regs vals old = (case map_of (zip regs vals) b of Some v \<Rightarrow> v | None \<Rightarrow> old)"

lemma restore_loop_correct:
  assumes "words_at m a vals" "length vals = length regs" "distinct regs"
    and "set regs \<subseteq> set [1..<7]" "x86_reg_rbp K = of_nat b" "b < 7"
    and "4096 \<le> a" "unat a + 8 * (length regs + 1) \<le> 2 ^ 64"
  shows "restore_loop K m (map of_nat regs) a r =
    (True, a + of_nat (8 * length regs), r\<lparr>rbp := restored_rbp b regs vals (rbp r)\<rparr>)"
  using assms
proof (induction regs arbitrary: a vals r)
  case Nil
  then show ?case by (simp add: restored_rbp_def)
next
  case (Cons g regs)
  obtain v vs where v: "vals = v # vs" "load64 m a = Some v" "words_at m (a + 8) vs"
    using Cons.prems(1,2) by (cases vals) auto
  have a8: "unat (a + 8) = unat a + 8" using Cons.prems(8) unat_add_of_nat_small [of a 8] by simp
  have "g < 7" using Cons.prems(4) by simp
  then have eq: "(of_nat g :: u64) = of_nat b \<longleftrightarrow> g = b"
    using Cons.prems(6) by (intro of_nat_u64_eq) simp_all
  have IH: "restore_loop K m (map of_nat regs) (a + 8) q =
      (True, a + 8 + of_nat (8 * length regs), q\<lparr>rbp := restored_rbp b regs vs (rbp q)\<rparr>)" for q
    using Cons.prems v a8 by (intro Cons.IH) (auto simp: word_le_nat_alt)
  have keep: "g = b \<Longrightarrow> restored_rbp b regs vs w = w" for w
    using Cons.prems(3) by (auto simp: restored_rbp_def split: option.splits dest: map_of_SomeD set_zip_leftD)
  show ?case
  proof (cases "g = b")
    case True
    then show ?thesis
      using v Cons.prems(5,7) keep
      by (simp add: IH read_word_eq_load64 x86_64_SetFramePointer_def restored_rbp_def add.assoc)
  next
    case False
    then show ?thesis
      using v Cons.prems(5) eq by (simp add: IH restored_rbp_def add.assoc)
  qed
qed

lemma restore_registers_correct:
  assumes enc: "encodes_registers K enc regs" and rbp: "x86_reg_rbp K = 6"
    and frame: "frame = rsp r + ucast stackSize - 8 - 8 * of_nat (length regs)"
    and stack: "words_at m frame vals" "length vals = length regs"
    and bounds: "4096 \<le> frame" "unat frame + 8 * (length regs + 1) \<le> 2 ^ 64"
  shows "FIRCLSCompactUnwindRestoreRegisters K m enc r stackSize
      (map of_nat regs @ replicate (6 - length regs) 0) =
    (True, frame + of_nat (8 * length regs), r\<lparr>rbp := restored_rbp 6 regs vals (rbp r)\<rparr>)"
proof -
  have n: "length regs \<le> 6" using enc by (rule encodes_registers_length)
  then have c: "unat (of_nat (length regs) :: u32) = length regs"
    and u: "(ucast (of_nat (length regs) :: u32) :: u64) = of_nat (length regs)"
    by (simp_all add: unat_of_nat_small ucast_of_nat_small)
  have d: "distinct regs" "set regs \<subseteq> set [1..<7]"
    and count: "GET_BITS_WITH_MASK enc (x86_frameless_stack_reg_count K) = of_nat (length regs)"
    using enc by (auto simp: encodes_registers_def)
  have "restore_loop K m (map of_nat regs) frame r =
      (True, frame + of_nat (8 * length regs), r\<lparr>rbp := restored_rbp 6 regs vals (rbp r)\<rparr>)"
    using stack d bounds rbp by (intro restore_loop_correct) auto
  then show ?thesis
    unfolding FIRCLSCompactUnwindRestoreRegisters_def Let_def count u c x86_64_GetStackPointer_def
      frame [symmetric]
    by simp
qed

text \<open>The frame of a function that saved \<open>regs\<close> below its return address.\<close>

definition frameless_frame ::
    "x86_abi \<Rightarrow> mem \<Rightarrow> u32 \<Rightarrow> addr \<Rightarrow> bool \<Rightarrow> x86_64_context \<Rightarrow> nat list \<Rightarrow> u64 list \<Rightarrow> u32 \<Rightarrow> addr \<Rightarrow> bool" where
  "frameless_frame K m enc start indirect r regs vals stackSize slot \<longleftrightarrow>
     encodes_registers K enc regs \<and> x86_reg_rbp K = 6 \<and>
     FIRCLSCompactUnwindComputeStackSize K m enc start indirect = Some stackSize \<and>
     slot = rsp r + ucast stackSize - 8 \<and>
     words_at m (slot - 8 * of_nat (length regs)) vals \<and> length vals = length regs \<and>
     4096 \<le> slot - 8 * of_nat (length regs) \<and>
     unat (slot - 8 * of_nat (length regs)) + 8 * (length regs + 1) \<le> 2 ^ 64"

lemma frameless_run:
  assumes "frameless_frame K m enc start indirect r regs vals stackSize slot"
  shows "x86_64_CompactUnwindFrameless K m enc r start indirect =
    (let r = r\<lparr>rbp := restored_rbp 6 regs vals (rbp r)\<rparr> in
     case read_word m slot of
       None \<Rightarrow> (False, r)
     | Some v \<Rightarrow> if \<not> FIRCLSIsValidPointer v then (False, r)
                 else (True, r\<lparr>rip := v, rsp := slot + 8\<rparr>))"
proof -
  note a = assms [unfolded frameless_frame_def]
  have restore: "FIRCLSCompactUnwindRestoreRegisters K m enc r stackSize
      (map of_nat regs @ replicate (6 - length regs) 0) =
    (True, slot - 8 * of_nat (length regs) + of_nat (8 * length regs),
     r\<lparr>rbp := restored_rbp 6 regs vals (rbp r)\<rparr>)"
    using a by (intro restore_registers_correct) auto
  have slot: "slot - 8 * of_nat (length regs) + of_nat (8 * length regs) = slot" by simp
  have size: "FIRCLSCompactUnwindComputeStackSize K m enc start indirect = Some stackSize"
    and enc: "encodes_registers K enc regs" using a by auto
  show ?thesis
    unfolding x86_64_CompactUnwindFrameless_def size decompress_remap [OF enc] restore slot option.case
    by (simp add: Let_def x86_64_SetPC_def x86_64_SetStackPointer_def split: option.split)
qed

text \<open>C15: Unwinding a frameless x86_64 function whose frame is laid out as its encoding says gives
  the caller's registers: the return address in PC, SP just above it, and RBP from its slot when
  it was saved, unchanged otherwise.\<close>

theorem frameless_restores_caller:
  assumes "frameless_frame K m enc start indirect r regs vals stackSize slot"
    and "read_word m slot = Some ret" "4096 \<le> ret"
  shows "x86_64_CompactUnwindFrameless K m enc r start indirect =
    (True, r\<lparr>rbp := restored_rbp 6 regs vals (rbp r), rsp := rsp r + ucast stackSize, rip := ret\<rparr>)"
  using assms(2,3) frameless_run [OF assms(1)] assms(1)
  by (simp add: FIRCLSIsValidPointer_def frameless_frame_def)

text \<open>The caller's RBP is stored before the return address is known to be usable.\<close>

theorem frameless_failure_changes_rbp:
  assumes "frameless_frame K m enc start indirect r regs vals stackSize slot"
    and "read_word m slot = None"
  shows "x86_64_CompactUnwindFrameless K m enc r start indirect =
    (False, r\<lparr>rbp := restored_rbp 6 regs vals (rbp r)\<rparr>)"
  using assms(2) frameless_run [OF assms(1)] by simp

definition sample_registers :: x86_64_context where
  "sample_registers = \<lparr>rax = 0, rbx = 0, rcx = 0, rdx = 0, rdi = 0, rsi = 0, rbp = 0x9000,
     rsp = 0x7000, r8 = 0, r9 = 0, r10 = 0, r11 = 0, r12 = 0, r13 = 0, r14 = 0, r15 = 0,
     rip = 0x401234\<rparr>"

lemma sample_frame:
  assumes "words_at m 0x7008 [0x7100, 1, 2]"
  shows "frameless_frame x86_64_abi m 0x02050C66 0x401200 False sample_registers
     [6, 1, 4] [0x7100, 1, 2] 40 0x7020"
  using assms
  by (simp add: frameless_frame_def encodes_registers_def x86_64_abi_def GET_BITS_WITH_MASK_def
      builtin_ctz_def encode_registers_def permutation_number_def radices_def position_def upt_rec
      FIRCLSCompactUnwindComputeStackSize_def sample_registers_def)

theorem frameless_restores_caller_witness:
  "x86_64_CompactUnwindFrameless x86_64_abi
     (mem_of 0x7008 (concat (map (le_bytes 8) [0x7100, 1, 2, 0x401000])))
     0x02050C66 sample_registers 0x401200 False =
   (True, sample_registers\<lparr>rbp := 0x7100, rsp := 0x7028, rip := 0x401000\<rparr>)"
proof -
  let ?m = "mem_of 0x7008 (concat (map (le_bytes 8) [0x7100, 1, 2, 0x401000]))"
  have "words_at ?m 0x7008 [0x7100, 1, 2]" and "read_word ?m 0x7020 = Some 0x401000"
    by (simp_all add: read_word_eq_load64 load64_def load_le_def mem_of_def eval_simps)
  from frameless_restores_caller [OF sample_frame [OF this(1)] this(2)] show ?thesis
    by (simp add: restored_rbp_def sample_registers_def)
qed

theorem frameless_failure_changes_rbp_witness:
  "x86_64_CompactUnwindFrameless x86_64_abi
     (mem_of 0x7008 (concat (map (le_bytes 8) [0x7100, 1, 2])))
     0x02050C66 sample_registers 0x401200 False = (False, sample_registers\<lparr>rbp := 0x7100\<rparr>)"
proof -
  let ?m = "mem_of 0x7008 (concat (map (le_bytes 8) [0x7100, 1, 2]))"
  have "words_at ?m 0x7008 [0x7100, 1, 2]" and "read_word ?m 0x7020 = None"
    by (simp_all add: read_word_eq_load64 load64_def load_le_def mem_of_def eval_simps)
  from frameless_failure_changes_rbp [OF sample_frame [OF this(1)] this(2)] show ?thesis
    by (simp add: restored_rbp_def sample_registers_def)
qed

end
