(* ===== verification/Unwind.thy ===== *)
theory Unwind
  imports UnwindX86
begin

text \<open>
  The unwinder: \<open>Unwind/FIRCLSUnwind.c\<close> and \<open>Unwind/FIRCLSUnwind.h\<close>. One call of
  \<open>FIRCLSUnwindNextFrame\<close> moves the context to the caller's frame, by compact unwind information
  (which may lead to DWARF) or else by the frame pointer.

  The code is compiled once per target; what the \<open>#if\<close>s select is the record \<open>unwinder\<close>, with an
  instance for arm64 and one for x86_64. The results are the source's \<open>bool\<close> and the context;
  \<open>None\<close> is a fault.
\<close>

section \<open>Targets\<close>

record 'r unwinder =
  get_pc :: "'r \<Rightarrow> u64"
  get_sp :: "'r \<Rightarrow> u64"
  get_fp :: "'r \<Rightarrow> u64"
  set_pc :: "'r \<Rightarrow> u64 \<Rightarrow> bool \<times> 'r"
  frame_pointer_unwind :: "mem \<Rightarrow> images \<Rightarrow> 'r \<Rightarrow> bool \<Rightarrow> (bool \<times> 'r) option"
  compute_registers :: "'r compute"
  dwarf_arch :: "'r arch"
  info_abi :: unwind_abi
  max_frames :: u32

text \<open>\<open>FIRCLSUnwindMaxFrames\<close>: on the device (\<open>TARGET_OS_EMBEDDED\<close>) and elsewhere.\<close>

definition max_frames_device :: u32 where
  "max_frames_device = 100000"

definition max_frames_other :: u32 where
  "max_frames_other = 600000"

definition FIRCLSUnwindInfiniteRecursionCountThreshold :: u32 where
  "FIRCLSUnwindInfiniteRecursionCountThreshold = 10"

definition arm64_unwinder :: "unwind_abi \<Rightarrow> arm_abi \<Rightarrow> arm64_context unwinder" where
  "arm64_unwinder B K = \<lparr>get_pc = arm64_GetPC, get_sp = arm64_GetStackPointer,
     get_fp = arm64_GetFramePointer, set_pc = arm64_SetPC,
     frame_pointer_unwind = (\<lambda>m ims r scan. Some (arm64_UnwindWithFramePointer m r scan)),
     compute_registers = arm64_CompactUnwindComputeRegisters K, dwarf_arch = arm64_arch,
     info_abi = B, max_frames = max_frames_device\<rparr>"

definition x86_64_unwinder :: "unwind_abi \<Rightarrow> x86_abi \<Rightarrow> x86_64_context unwinder" where
  "x86_64_unwinder B K = \<lparr>get_pc = x86_64_GetPC, get_sp = x86_64_GetStackPointer,
     get_fp = x86_64_GetFramePointer, set_pc = x86_64_SetPC,
     frame_pointer_unwind = x86_64_UnwindWithFramePointer,
     compute_registers = x86_64_CompactUnwindComputeRegisters K, dwarf_arch = x86_64_arch,
     info_abi = B, max_frames = max_frames_other\<rparr>"

section \<open>The context\<close>

record 'r FIRCLSUnwindContext =
  thread_registers :: 'r
  frameCount :: u32
  compactUnwindState :: FIRCLSCompactUnwindContext
  lastFramePC :: u64
  repeatCount :: u32

definition FIRCLSUnwindInit :: "'r \<Rightarrow> 'r FIRCLSUnwindContext" where
  "FIRCLSUnwindInit threadContext =
     \<lparr>thread_registers = threadContext, frameCount = 0, compactUnwindState = zero_compact_context,
      lastFramePC = 0, repeatCount = 0\<rparr>"

definition FIRCLSUnwindGetPC :: "'r unwinder \<Rightarrow> 'r FIRCLSUnwindContext \<Rightarrow> u64" where
  "FIRCLSUnwindGetPC P ctx = get_pc P (thread_registers ctx)"

definition FIRCLSUnwindGetStackPointer :: "'r unwinder \<Rightarrow> 'r FIRCLSUnwindContext \<Rightarrow> u64" where
  "FIRCLSUnwindGetStackPointer P ctx = get_sp P (thread_registers ctx)"

definition FIRCLSUnwindGetFramePointer :: "'r unwinder \<Rightarrow> 'r FIRCLSUnwindContext \<Rightarrow> u64" where
  "FIRCLSUnwindGetFramePointer P ctx = get_fp P (thread_registers ctx)"

definition FIRCLSUnwindGetFrameRepeatCount :: "'r FIRCLSUnwindContext \<Rightarrow> u32" where
  "FIRCLSUnwindGetFrameRepeatCount ctx = repeatCount ctx"

definition FIRCLSUnwindContextHasValidPCAndSP :: "'r unwinder \<Rightarrow> 'r FIRCLSUnwindContext \<Rightarrow> bool" where
  "FIRCLSUnwindContextHasValidPCAndSP P ctx \<longleftrightarrow>
     FIRCLSIsValidPointer (FIRCLSUnwindGetPC P ctx) \<and>
     FIRCLSIsValidPointer (FIRCLSUnwindGetStackPointer P ctx)"

section \<open>Strategies\<close>

text \<open>When the header cannot be read the source leaves \<open>compactUnwindState\<close> half written; it is
  written again before its next use, so the model leaves it alone.\<close>

definition FIRCLSUnwindWithCompactUnwindInfo ::
    "'r unwinder \<Rightarrow> mem \<Rightarrow> images \<Rightarrow> 'r FIRCLSUnwindContext \<Rightarrow>
       (bool \<times> 'r FIRCLSUnwindContext) option" where
  "FIRCLSUnwindWithCompactUnwindInfo P m ims ctx =
     (case FIRCLSBinaryImageSafeFindImageForAddress ims (FIRCLSUnwindGetPC P ctx) of
        None \<Rightarrow> Some (False, ctx)
      | Some node \<Rightarrow>
          if \<not> FIRCLSBinaryImageSafeHasUnwindInfo node then Some (False, ctx)
          else case FIRCLSCompactUnwindInit (info_abi P) m (node_unwindInfo node)
                      (node_ehFrame node) (baseAddress node) of
            None \<Rightarrow> Some (False, ctx)
          | Some state \<Rightarrow>
              do { (ok, state', r) \<leftarrow> FIRCLSCompactUnwindLookupAndCompute (dwarf_arch P) (info_abi P)
                      (compute_registers P) m state (thread_registers ctx);
                   Some (ok, ctx\<lparr>compactUnwindState := state', thread_registers := r\<rparr>) })"

text \<open>The registers are updated by the setter even where it reports a failure.\<close>

definition context_set_pc ::
    "'r unwinder \<Rightarrow> 'r FIRCLSUnwindContext \<Rightarrow> u64 \<Rightarrow> bool \<times> 'r FIRCLSUnwindContext" where
  "context_set_pc P ctx pc =
     (let (ok, r) = set_pc P (thread_registers ctx) pc in (ok, ctx\<lparr>thread_registers := r\<rparr>))"

definition FIRCLSUnwindNextFrameUsingAllStrategies ::
    "'r unwinder \<Rightarrow> mem \<Rightarrow> images \<Rightarrow> 'r FIRCLSUnwindContext \<Rightarrow>
       (bool \<times> 'r FIRCLSUnwindContext) option" where
  "FIRCLSUnwindNextFrameUsingAllStrategies P m ims ctx =
     (if frameCount ctx \<ge> max_frames P then Some (False, ctx)
      else
        let pc = FIRCLSUnwindGetPC P ctx;
            pc = (if frameCount ctx > 0 then pc - 1 else pc);
            (ok, ctx) = (if frameCount ctx > 0 then context_set_pc P ctx pc else (True, ctx))
        in
        if \<not> ok then Some (False, ctx)
        else if \<not> FIRCLSIsValidPointer pc then Some (False, ctx)
        else if frameCount ctx = 0 then Some (True, ctx)
        else do {
          (ok, ctx) \<leftarrow> FIRCLSUnwindWithCompactUnwindInfo P m ims ctx;
          if ok then Some (True, ctx)
          else if FIRCLSUnwindGetFramePointer P ctx = 0 then Some (context_set_pc P ctx 0)
          else do {
            (ok, r) \<leftarrow> frame_pointer_unwind P m ims (thread_registers ctx) (frameCount ctx = 1);
            Some (ok, ctx\<lparr>thread_registers := r\<rparr>) } })"

section \<open>The next frame\<close>

definition FIRCLSUnwindNextFrame ::
    "'r unwinder \<Rightarrow> mem \<Rightarrow> images \<Rightarrow> 'r FIRCLSUnwindContext \<Rightarrow>
       (bool \<times> 'r FIRCLSUnwindContext) option" where
  "FIRCLSUnwindNextFrame P m ims ctx =
     (if \<not> FIRCLSUnwindContextHasValidPCAndSP P ctx then Some (False, ctx)
      else do {
        (ok, ctx) \<leftarrow> FIRCLSUnwindNextFrameUsingAllStrategies P m ims ctx;
        if \<not> ok then Some (False, ctx)
        else let pc = FIRCLSUnwindGetPC P ctx; sp = FIRCLSUnwindGetStackPointer P ctx in
          if \<not> FIRCLSIsValidPointer pc then Some (False, ctx)
          else if \<not> FIRCLSIsValidPointer sp then Some (False, ctx)
          else Some (True, ctx\<lparr>
            repeatCount := (if lastFramePC ctx = pc then repeatCount ctx + 1 else 0),
            frameCount := frameCount ctx + 1, lastFramePC := pc\<rparr>) })"

section \<open>Bookkeeping\<close>

lemma compact_unwind_keeps:
  "FIRCLSUnwindWithCompactUnwindInfo P m ims ctx = Some (ok, ctx') \<Longrightarrow>
   frameCount ctx' = frameCount ctx \<and> lastFramePC ctx' = lastFramePC ctx \<and> repeatCount ctx' = repeatCount ctx"
  by (auto simp: FIRCLSUnwindWithCompactUnwindInfo_def bind_eq_Some_conv
      split: option.splits if_splits prod.splits)

lemma context_set_pc_keeps:
  "context_set_pc P ctx pc = (ok, ctx') \<Longrightarrow>
   frameCount ctx' = frameCount ctx \<and> lastFramePC ctx' = lastFramePC ctx \<and> repeatCount ctx' = repeatCount ctx"
  by (auto simp: context_set_pc_def Let_def split: prod.splits)

lemma strategies_keep:
  assumes "FIRCLSUnwindNextFrameUsingAllStrategies P m ims ctx = Some (ok, ctx')"
  shows "frameCount ctx' = frameCount ctx \<and> lastFramePC ctx' = lastFramePC ctx \<and>
         repeatCount ctx' = repeatCount ctx \<and> (ok \<longrightarrow> frameCount ctx < max_frames P)"
proof (cases "frameCount ctx \<ge> max_frames P")
  case True
  with assms show ?thesis by (simp add: FIRCLSUnwindNextFrameUsingAllStrategies_def)
next
  case False
  then have less: "frameCount ctx < max_frames P" by simp
  define pc where "pc = (if frameCount ctx > 0 then FIRCLSUnwindGetPC P ctx - 1 else FIRCLSUnwindGetPC P ctx)"
  obtain ok1 ctx1 where one:
    "(if frameCount ctx > 0 then context_set_pc P ctx pc else (True, ctx)) = (ok1, ctx1)" by fastforce
  have keep1: "frameCount ctx1 = frameCount ctx" "lastFramePC ctx1 = lastFramePC ctx"
      "repeatCount ctx1 = repeatCount ctx"
    using one context_set_pc_keeps [of P ctx pc] by (auto split: if_splits)
  show ?thesis
    using assms less keep1
    unfolding FIRCLSUnwindNextFrameUsingAllStrategies_def Let_def pc_def [symmetric] one
    by (auto simp: bind_eq_Some_conv dest!: compact_unwind_keeps context_set_pc_keeps split: if_splits)
qed

lemma next_frame_true:
  assumes "FIRCLSUnwindNextFrame P m ims ctx = Some (True, ctx')"
  shows "frameCount ctx < max_frames P \<and> frameCount ctx' = frameCount ctx + 1 \<and>
         lastFramePC ctx' = FIRCLSUnwindGetPC P ctx' \<and>
         FIRCLSUnwindContextHasValidPCAndSP P ctx' \<and>
         repeatCount ctx' =
           (if lastFramePC ctx = FIRCLSUnwindGetPC P ctx' then repeatCount ctx + 1 else 0)"
  using assms
  by (auto simp: FIRCLSUnwindNextFrame_def bind_eq_Some_conv Let_def FIRCLSUnwindGetPC_def
      FIRCLSUnwindGetStackPointer_def FIRCLSUnwindContextHasValidPCAndSP_def
      dest!: strategies_keep split: if_splits)

text \<open>What holds between two calls.\<close>

definition unwind_invariant :: "'r unwinder \<Rightarrow> 'r FIRCLSUnwindContext \<Rightarrow> bool" where
  "unwind_invariant P ctx \<longleftrightarrow>
     frameCount ctx \<le> max_frames P \<and>
     (if frameCount ctx = 0 then lastFramePC ctx = 0 \<and> repeatCount ctx = 0
      else repeatCount ctx < frameCount ctx \<and> lastFramePC ctx = FIRCLSUnwindGetPC P ctx \<and>
           FIRCLSUnwindContextHasValidPCAndSP P ctx)"

lemma word_add_one_less:
  fixes a b c :: u32
  assumes "a < c"
  shows "a + 1 \<le> c" "a + 1 \<noteq> 0" "b < a \<Longrightarrow> b + 1 < a + 1"
proof -
  have "unat (a + 1) = unat a + 1"
    using assms unat_less [of c] unat_add_of_nat_small [of a 1] by (simp add: word_less_nat_alt)
  moreover have "unat (b + 1) = unat b + 1" if "b < a"
    using assms that unat_less [of c] unat_add_of_nat_small [of b 1] by (simp add: word_less_nat_alt)
  ultimately show "a + 1 \<le> c" "a + 1 \<noteq> 0" "b < a \<Longrightarrow> b + 1 < a + 1"
    using assms by (auto simp: word_less_nat_alt word_le_nat_alt word_unat_eq_iff)
qed

text \<open>C18: From initialisation on, every successful step keeps the context consistent: the frame count
  stays within the maximum, the last PC is the current one, PC and SP are valid pointers, and
  the repeat count stays below the frame count.\<close>

theorem next_frame_invariant:
  "unwind_invariant P (FIRCLSUnwindInit r) \<and>
   (unwind_invariant P ctx \<and> FIRCLSUnwindNextFrame P m ims ctx = Some (True, ctx') \<longrightarrow>
    unwind_invariant P ctx')"
proof (intro conjI impI)
  show "unwind_invariant P (FIRCLSUnwindInit r)"
    by (simp add: unwind_invariant_def FIRCLSUnwindInit_def)
next
  assume a: "unwind_invariant P ctx \<and> FIRCLSUnwindNextFrame P m ims ctx = Some (True, ctx')"
  then have n: "frameCount ctx < max_frames P" "frameCount ctx' = frameCount ctx + 1"
      "lastFramePC ctx' = FIRCLSUnwindGetPC P ctx'" "FIRCLSUnwindContextHasValidPCAndSP P ctx'"
      "repeatCount ctx' = (if lastFramePC ctx = FIRCLSUnwindGetPC P ctx' then repeatCount ctx + 1 else 0)"
    using next_frame_true by blast+
  have "FIRCLSUnwindGetPC P ctx' \<noteq> 0"
    using n(4) by (auto simp: FIRCLSUnwindContextHasValidPCAndSP_def FIRCLSIsValidPointer_def)
  with a n word_add_one_less [OF n(1)] show "unwind_invariant P ctx'"
    by (auto simp: unwind_invariant_def word_neq_0_conv split: if_splits)
qed

text \<open>The first frame is the thread's own registers.\<close>

lemma first_frame:
  assumes "0 < max_frames P"
  shows "FIRCLSUnwindNextFrame P m ims (FIRCLSUnwindInit r) =
    Some (if FIRCLSIsValidPointer (get_pc P r) \<and> FIRCLSIsValidPointer (get_sp P r)
          then (True, (FIRCLSUnwindInit r)\<lparr>frameCount := 1, lastFramePC := get_pc P r\<rparr>)
          else (False, FIRCLSUnwindInit r))"
  using assms
  by (auto simp: FIRCLSUnwindNextFrame_def FIRCLSUnwindInit_def FIRCLSUnwindGetPC_def
      FIRCLSUnwindGetStackPointer_def FIRCLSUnwindContextHasValidPCAndSP_def Let_def
      FIRCLSUnwindNextFrameUsingAllStrategies_def FIRCLSIsValidPointer_def)

section \<open>Frame-pointer chains\<close>

text \<open>What the strategies rely on of a target; \<open>norm\<close> is what its getters make of a stored value.\<close>

locale unwind_target =
  fixes P :: "'r unwinder" and norm :: "u64 \<Rightarrow> u64"
  assumes set_pc_ok: "fst (set_pc P r v)"
    and pc_set_pc: "get_pc P (snd (set_pc P r v)) = norm v"
    and fp_set_pc: "get_fp P (snd (set_pc P r v)) = get_fp P r"
    and sp_set_pc: "get_sp P (snd (set_pc P r v)) = get_sp P r"
    and norm_zero: "norm 0 = 0"
    and frame_step: "read_frame m (get_fp P r) = Some (fp, pc) \<Longrightarrow>
      \<exists>r'. frame_pointer_unwind P m ims r False = Some (True, r') \<and>
           get_pc P r' = norm pc \<and> get_fp P r' = norm fp \<and> get_sp P r' = norm (get_fp P r + 16)"
begin

end

text \<open>Return addresses linked by frame pointers, up to a zero frame pointer.\<close>

fun frame_chain :: "(u64 \<Rightarrow> u64) \<Rightarrow> mem \<Rightarrow> addr \<Rightarrow> u64 list \<Rightarrow> bool" where
  "frame_chain norm m fp [] \<longleftrightarrow> fp = 0"
| "frame_chain norm m fp (ret # rets) \<longleftrightarrow>
     (case read_frame m fp of
        None \<Rightarrow> False
      | Some (fp', pc) \<Rightarrow> norm pc = ret \<and> 4096 < ret \<and> 4096 \<le> norm (fp + 16) \<and>
          frame_chain norm m (norm fp') rets)"

definition no_unwind_info :: "images \<Rightarrow> bool" where
  "no_unwind_info ims \<longleftrightarrow>
     (case ims of None \<Rightarrow> True | Some nodes \<Rightarrow> \<forall>n \<in> set nodes. \<not> FIRCLSIsValidPointer (node_unwindInfo n))"

lemma find_image_loop_in: "find_image_loop nodes a = Some n \<Longrightarrow> n \<in> set nodes"
  by (induction nodes) (auto split: if_splits)

lemma no_unwind_info_compact:
  assumes "no_unwind_info ims"
  shows "FIRCLSUnwindWithCompactUnwindInfo P m ims ctx = Some (False, ctx)"
proof -
  have "\<not> FIRCLSIsValidPointer (node_unwindInfo n)"
    if found: "FIRCLSBinaryImageSafeFindImageForAddress ims a = Some n" for a n
  proof -
    obtain nodes where nodes: "ims = Some nodes" "find_image_loop (take CLS_BINARY_IMAGE_RUNTIME_NODE_COUNT nodes) a = Some n"
      using found by (auto simp: FIRCLSBinaryImageSafeFindImageForAddress_def split: option.splits if_splits)
    then have "n \<in> set nodes" using find_image_loop_in in_set_takeD by fast
    then show ?thesis using assms nodes by (simp add: no_unwind_info_def)
  qed
  then show ?thesis
    by (auto simp: FIRCLSUnwindWithCompactUnwindInfo_def FIRCLSBinaryImageSafeHasUnwindInfo_def
        split: option.splits)
qed

text \<open>The frames a context yields, one call after another.\<close>

inductive unwinds :: "'r unwinder \<Rightarrow> mem \<Rightarrow> images \<Rightarrow> 'r FIRCLSUnwindContext \<Rightarrow> u64 list \<Rightarrow> bool"
  for P m ims where
  finished: "FIRCLSUnwindNextFrame P m ims ctx = Some (False, ctx') \<Longrightarrow> unwinds P m ims ctx []"
| frame: "FIRCLSUnwindNextFrame P m ims ctx = Some (True, ctx') \<Longrightarrow> unwinds P m ims ctx' pcs \<Longrightarrow>
          unwinds P m ims ctx (FIRCLSUnwindGetPC P ctx' # pcs)"

text \<open>A context in the middle of an unwind.\<close>

definition at_frame :: "'r unwinder \<Rightarrow> 'r FIRCLSUnwindContext \<Rightarrow> u64 \<Rightarrow> addr \<Rightarrow> bool" where
  "at_frame P ctx pc fp \<longleftrightarrow> get_pc P (thread_registers ctx) = pc \<and> get_fp P (thread_registers ctx) = fp \<and>
     4096 \<le> get_sp P (thread_registers ctx) \<and> 4096 < pc"

lemma read_frame_valid: "read_frame m a = Some x \<Longrightarrow> 4096 \<le> a"
  by (auto simp: read_frame_def FIRCLSReadMemory_def FIRCLSIsValidPointer_def split: if_splits)

context unwind_target
begin

lemma strategies_frame_pointer:
  assumes "no_unwind_info ims" "at_frame P ctx pc fp" "0 < frameCount ctx" "frameCount ctx < max_frames P"
  shows "FIRCLSUnwindNextFrameUsingAllStrategies P m ims ctx =
    (let ctx1 = ctx\<lparr>thread_registers := snd (set_pc P (thread_registers ctx) (pc - 1))\<rparr> in
     if fp = 0 then Some (context_set_pc P ctx1 0)
     else do { (ok, r) \<leftarrow> frame_pointer_unwind P m ims (thread_registers ctx1) (frameCount ctx = 1);
               Some (ok, ctx1\<lparr>thread_registers := r\<rparr>) })"
proof -
  define r1 where "r1 = snd (set_pc P (thread_registers ctx) (pc - 1))"
  have set: "set_pc P (thread_registers ctx) (pc - 1) = (True, r1)"
    using set_pc_ok [of "thread_registers ctx" "pc - 1"] by (simp add: r1_def prod_eq_iff)
  have "unat (pc - 1) = unat pc - 1" "unat pc > 4096"
    using assms(2) by (auto simp: at_frame_def unat_sub word_le_nat_alt word_less_nat_alt)
  then have valid: "FIRCLSIsValidPointer (pc - 1)" by (simp add: FIRCLSIsValidPointer_def word_le_nat_alt)
  have fp: "get_fp P r1 = fp" using assms(2) fp_set_pc by (simp add: r1_def at_frame_def)
  have c: "\<not> max_frames P \<le> frameCount ctx" "frameCount ctx \<noteq> 0" using assms(3,4) by auto
  have pc: "FIRCLSUnwindGetPC P ctx = pc" using assms(2) by (simp add: at_frame_def FIRCLSUnwindGetPC_def)
  show ?thesis
    using valid no_unwind_info_compact [OF assms(1), of P] assms(3)
    by (simp add: FIRCLSUnwindNextFrameUsingAllStrategies_def Let_def context_set_pc_def set pc c fp
        FIRCLSUnwindGetFramePointer_def)
qed

lemma at_frame_valid: "at_frame P ctx pc fp \<Longrightarrow> FIRCLSUnwindContextHasValidPCAndSP P ctx"
  by (auto simp: at_frame_def FIRCLSUnwindContextHasValidPCAndSP_def FIRCLSUnwindGetPC_def
      FIRCLSUnwindGetStackPointer_def FIRCLSIsValidPointer_def)

lemma next_frame_by_pointer:
  assumes "no_unwind_info ims" "at_frame P ctx pc fp" "fp \<noteq> 0" "0 < frameCount ctx" "frameCount ctx < max_frames P"
    and "frame_pointer_unwind P m ims (snd (set_pc P (thread_registers ctx) (pc - 1))) (frameCount ctx = 1) =
           Some (True, r')"
    and "4096 < get_pc P r'" "4096 \<le> get_sp P r'"
  obtains ctx' where "FIRCLSUnwindNextFrame P m ims ctx = Some (True, ctx')"
    "at_frame P ctx' (get_pc P r') (get_fp P r')" "frameCount ctx' = frameCount ctx + 1"
proof -
  define ctx2 where "ctx2 = ctx\<lparr>thread_registers := r'\<rparr>"
  have strat: "FIRCLSUnwindNextFrameUsingAllStrategies P m ims ctx = Some (True, ctx2)"
    using strategies_frame_pointer [OF assms(1,2,4,5)] assms(3,6) by (simp add: ctx2_def)
  let ?ctx' = "ctx2\<lparr>repeatCount := (if lastFramePC ctx2 = get_pc P r' then repeatCount ctx2 + 1 else 0),
            frameCount := frameCount ctx2 + 1, lastFramePC := get_pc P r'\<rparr>"
  have "FIRCLSUnwindNextFrame P m ims ctx = Some (True, ?ctx')"
    using strat at_frame_valid [OF assms(2)] assms(7,8)
    by (simp add: FIRCLSUnwindNextFrame_def ctx2_def FIRCLSUnwindGetPC_def FIRCLSUnwindGetStackPointer_def
        FIRCLSIsValidPointer_def Let_def)
  moreover have "at_frame P ?ctx' (get_pc P r') (get_fp P r')" "frameCount ?ctx' = frameCount ctx + 1"
    using assms(7,8) by (simp_all add: at_frame_def ctx2_def)
  ultimately show thesis using that by blast
qed

lemma next_frame_chain:
  assumes "no_unwind_info ims" "at_frame P ctx pc fp" "1 < frameCount ctx" "frameCount ctx < max_frames P"
    and "frame_chain norm m fp (ret # rets)"
  obtains ctx' fp' where "FIRCLSUnwindNextFrame P m ims ctx = Some (True, ctx')"
    "at_frame P ctx' ret fp'" "frame_chain norm m fp' rets" "frameCount ctx' = frameCount ctx + 1"
proof -
  obtain fp1 pc1 where frame: "read_frame m fp = Some (fp1, pc1)" "norm pc1 = ret" "4096 < ret"
      "4096 \<le> norm (fp + 16)" "frame_chain norm m (norm fp1) rets"
    using assms(5) by (auto split: option.splits)
  have "fp \<noteq> 0" using read_frame_valid [OF frame(1)] by auto
  have n: "0 < frameCount ctx" "frameCount ctx \<noteq> 1"
    using assms(3) by (auto simp: word_less_nat_alt)
  have "get_fp P (snd (set_pc P (thread_registers ctx) (pc - 1))) = fp"
    using assms(2) fp_set_pc by (simp add: at_frame_def)
  then obtain r' where r': "frame_pointer_unwind P m ims (snd (set_pc P (thread_registers ctx) (pc - 1)))
        (frameCount ctx = 1) = Some (True, r')"
      "get_pc P r' = ret" "get_fp P r' = norm fp1" "get_sp P r' = norm (fp + 16)"
    using frame_step [of m "snd (set_pc P (thread_registers ctx) (pc - 1))" fp1 pc1 ims] frame(1,2) n(2) by auto
  obtain ctx' where "FIRCLSUnwindNextFrame P m ims ctx = Some (True, ctx')"
      "at_frame P ctx' (get_pc P r') (get_fp P r')" "frameCount ctx' = frameCount ctx + 1"
    using next_frame_by_pointer [OF assms(1,2) \<open>fp \<noteq> 0\<close> n(1) assms(4) r'(1)] frame(3,4) r' by auto
  then show thesis using that frame(5) r' by auto
qed

lemma next_frame_end:
  assumes "no_unwind_info ims" "at_frame P ctx pc 0" "0 < frameCount ctx" "frameCount ctx < max_frames P"
  obtains ctx' where "FIRCLSUnwindNextFrame P m ims ctx = Some (False, ctx')"
proof -
  define ctx1 where "ctx1 = ctx\<lparr>thread_registers := snd (set_pc P (thread_registers ctx) (pc - 1))\<rparr>"
  obtain ok ctx2 where two: "context_set_pc P ctx1 0 = (ok, ctx2)" by fastforce
  have "FIRCLSUnwindNextFrameUsingAllStrategies P m ims ctx = Some (ok, ctx2)"
    using strategies_frame_pointer [OF assms] by (simp add: ctx1_def [symmetric] two)
  moreover have "\<not> FIRCLSIsValidPointer (FIRCLSUnwindGetPC P ctx2)"
    using two pc_set_pc [of "thread_registers ctx1" 0] norm_zero
    by (auto simp: context_set_pc_def FIRCLSUnwindGetPC_def FIRCLSIsValidPointer_def split: prod.splits)
  ultimately have "\<exists>ctx'. FIRCLSUnwindNextFrame P m ims ctx = Some (False, ctx')"
    by (auto simp: FIRCLSUnwindNextFrame_def Let_def)
  then show thesis using that by blast
qed

text \<open>From the third frame on, the unwinder walks the chain to its end.\<close>

lemma unwinds_chain:
  assumes "no_unwind_info ims" "at_frame P ctx pc fp" "frame_chain norm m fp rets" "1 < frameCount ctx"
    and "unat (frameCount ctx) + length rets < unat (max_frames P)"
  shows "unwinds P m ims ctx rets"
  using assms(2-)
proof (induction rets arbitrary: ctx pc fp)
  case Nil
  then have lt: "frameCount ctx < max_frames P" and "at_frame P ctx pc 0" by (simp_all add: word_less_nat_alt)
  have "0 < frameCount ctx" using Nil.prems(3) by (auto simp: word_less_nat_alt)
  then obtain ctx' where "FIRCLSUnwindNextFrame P m ims ctx = Some (False, ctx')"
    by (rule next_frame_end [OF assms(1) \<open>at_frame P ctx pc 0\<close> _ lt])
  then show ?case by (rule unwinds.finished)
next
  case (Cons ret rets)
  then have lt: "frameCount ctx < max_frames P" by (simp add: word_less_nat_alt)
  obtain ctx' fp' where n: "FIRCLSUnwindNextFrame P m ims ctx = Some (True, ctx')"
      "at_frame P ctx' ret fp'" "frame_chain norm m fp' rets" "frameCount ctx' = frameCount ctx + 1"
    using next_frame_chain [OF assms(1) Cons.prems(1) Cons.prems(3) lt Cons.prems(2)] by blast
  have c: "unat (frameCount ctx') = unat (frameCount ctx) + 1"
    using n(4) lt unat_add_of_nat_small [of "frameCount ctx" 1] unat_less [of "max_frames P"]
    by (simp add: word_less_nat_alt)
  have "unwinds P m ims ctx' rets"
    using Cons.prems(3,4) c by (intro Cons.IH [OF n(2,3)]) (auto simp: word_less_nat_alt)
  from unwinds.frame [OF n(1) this] n(2) show ?case
    by (simp add: at_frame_def FIRCLSUnwindGetPC_def)
qed

end


section \<open>The two targets\<close>

lemma CLS_PTRAUTH_STRIP_zero: "CLS_PTRAUTH_STRIP 0 = 0"
  by (simp add: CLS_PTRAUTH_STRIP_def)

interpretation arm_target: unwind_target "arm64_unwinder B K" CLS_PTRAUTH_STRIP for B K
  by unfold_locales
    (auto simp: arm64_unwinder_def arm64_defs CLS_PTRAUTH_STRIP_zero arm64_frame_pointer_step)

lemma x86_64_frame_pointer_step:
  "x86_64_CompactUnwindBPFrame m r =
     (case read_frame m (rbp r) of
        None \<Rightarrow> (False, r)
      | Some (fp, pc) \<Rightarrow> (True, r\<lparr>rip := pc, rbp := fp, rsp := rbp r + 16\<rparr>))"
  by (auto simp: x86_64_CompactUnwindBPFrame_def Let_def x86_64_defs UnwindStackPointerFromFramePointer_def
      split: option.splits)

interpretation x86_target: unwind_target "x86_64_unwinder B K" "\<lambda>v. v" for B K
  by unfold_locales
    (auto simp: x86_64_unwinder_def x86_64_defs x86_64_UnwindWithFramePointer_def x86_64_frame_pointer_step)

text \<open>The second call on arm64 takes the link register as it is.\<close>

lemma arm64_unwinds_frame_chain:
  assumes "no_unwind_info ims"
    and "4096 < arm64_GetPC r" "4096 \<le> arm64_GetStackPointer r" "4096 < arm64_GetLinkRegister r"
    and "frame_chain CLS_PTRAUTH_STRIP m (arm64_GetFramePointer r) (ret # rets)"
    and "length rets < 99996"
  shows "unwinds (arm64_unwinder B K) m ims (FIRCLSUnwindInit r)
           (arm64_GetPC r # arm64_GetLinkRegister r # ret # rets)"
proof -
  let ?P = "arm64_unwinder B K" and ?ctx = "(FIRCLSUnwindInit r)\<lparr>frameCount := 1, lastFramePC := arm64_GetPC r\<rparr>"
  have first: "FIRCLSUnwindNextFrame ?P m ims (FIRCLSUnwindInit r) = Some (True, ?ctx)"
    using assms(2,3) first_frame [of ?P m ims r]
    by (simp add: arm64_unwinder_def max_frames_device_def FIRCLSIsValidPointer_def)
  have at: "at_frame ?P ?ctx (arm64_GetPC r) (arm64_GetFramePointer r)"
    using assms(2,3) by (simp add: at_frame_def arm64_unwinder_def FIRCLSUnwindInit_def)
  have fp: "arm64_GetFramePointer r \<noteq> 0"
    using assms(5) by (auto split: option.splits dest: read_frame_valid)
  let ?r = "r\<lparr>arm_pc := arm64_GetLinkRegister r\<rparr>"
  have strip: "CLS_PTRAUTH_STRIP (CLS_PTRAUTH_STRIP v) = CLS_PTRAUTH_STRIP v" for v
    by (simp add: CLS_PTRAUTH_STRIP_def and.assoc)
  have step: "frame_pointer_unwind ?P m ims (snd (set_pc ?P (thread_registers ?ctx) (arm64_GetPC r - 1)))
      (frameCount ?ctx = 1) = Some (True, ?r)"
    using less_imp_le [OF assms(4)]
    by (simp add: arm64_unwinder_def arm64_UnwindWithFramePointer_def arm64_UnwindWithLRRegister_def
        FIRCLSUnwindInit_def arm64_defs FIRCLSIsValidPointer_def Let_def)
  have lr: "get_pc ?P ?r = arm64_GetLinkRegister r" "get_fp ?P ?r = arm64_GetFramePointer r"
      "get_sp ?P ?r = arm64_GetStackPointer r"
    by (simp_all add: arm64_unwinder_def arm64_defs strip)
  obtain ctx2 where two: "FIRCLSUnwindNextFrame ?P m ims ?ctx = Some (True, ctx2)"
      "at_frame ?P ctx2 (arm64_GetLinkRegister r) (arm64_GetFramePointer r)" "frameCount ctx2 = 2"
    using arm_target.next_frame_by_pointer [OF assms(1) at fp _ _ step] assms(3,4)
    unfolding lr by (auto simp: arm64_unwinder_def max_frames_device_def)
  have "unwinds ?P m ims ctx2 (ret # rets)"
    using two(3) assms(6)
    by (intro arm_target.unwinds_chain [OF assms(1) two(2) assms(5)])
      (simp_all add: arm64_unwinder_def max_frames_device_def)
  from unwinds.frame [OF two(1) this] unwinds.frame [OF first] two(2) show ?thesis
    by (simp add: at_frame_def FIRCLSUnwindGetPC_def arm64_unwinder_def FIRCLSUnwindInit_def)
qed

text \<open>The second call on x86_64 scans the stack up to the frame pointer first.\<close>

lemma x86_64_unwinds_frame_chain:
  assumes "no_unwind_info ims"
    and "4096 < rip r" "4096 \<le> rsp r"
    and "words_at m (rsp r) ws" "ws \<noteq> []" "unat (rsp r) + 8 * length ws < 2 ^ 64"
      "rbp r = rsp r + of_nat (8 * length ws)"
    and "find (FIRCLSUnwindIsAddressExecutable ims) ws = None"
    and "frame_chain (\<lambda>v. v) m (rbp r) (ret # rets)"
    and "length rets < 599996"
  shows "unwinds (x86_64_unwinder B K) m ims (FIRCLSUnwindInit r) (rip r # ret # rets)"
proof -
  let ?P = "x86_64_unwinder B K" and ?ctx = "(FIRCLSUnwindInit r)\<lparr>frameCount := 1, lastFramePC := rip r\<rparr>"
  have first: "FIRCLSUnwindNextFrame ?P m ims (FIRCLSUnwindInit r) = Some (True, ?ctx)"
    using assms(2,3) first_frame [of ?P m ims r]
    by (simp add: x86_64_unwinder_def max_frames_other_def FIRCLSIsValidPointer_def x86_64_defs)
  have at: "at_frame ?P ?ctx (rip r) (rbp r)"
    using assms(2,3) by (simp add: at_frame_def x86_64_unwinder_def FIRCLSUnwindInit_def x86_64_defs)
  obtain fp1 where frame: "read_frame m (rbp r) = Some (fp1, ret)" "4096 < ret" "4096 \<le> rbp r + 16"
      "frame_chain (\<lambda>v. v) m fp1 rets"
    using assms(9) by (auto split: option.splits)
  have fp: "rbp r \<noteq> 0" using read_frame_valid [OF frame(1)] by auto
  let ?r = "r\<lparr>rip := ret, rbp := fp1, rsp := rbp r + 16\<rparr>"
  have scan: "FIRCLSUnwindFirstExecutableAddress m ims (rsp r) (rbp r) = Some None"
    using first_executable_address_finds [OF assms(4,5,3,6), of "rbp r" ims] assms(7,8) by simp
  have step: "frame_pointer_unwind ?P m ims (snd (set_pc ?P (thread_registers ?ctx) (rip r - 1)))
      (frameCount ?ctx = 1) = Some (True, ?r)"
    using scan frame(1)
    by (simp add: x86_64_unwinder_def x86_64_UnwindWithFramePointer_def x86_64_UnwindWithStackScanning_def
        FIRCLSUnwindInit_def x86_64_defs x86_64_frame_pointer_step)
  have regs: "get_pc ?P ?r = ret" "get_fp ?P ?r = fp1" "get_sp ?P ?r = rbp r + 16"
    by (simp_all add: x86_64_unwinder_def x86_64_defs)
  obtain ctx2 where two: "FIRCLSUnwindNextFrame ?P m ims ?ctx = Some (True, ctx2)"
      "at_frame ?P ctx2 ret fp1" "frameCount ctx2 = 2"
    using x86_target.next_frame_by_pointer [OF assms(1) at fp _ _ step] frame(2,3)
    unfolding regs by (auto simp: x86_64_unwinder_def max_frames_other_def)
  have "unwinds ?P m ims ctx2 rets"
    using two(3) assms(10)
    by (intro x86_target.unwinds_chain [OF assms(1) two(2) frame(4)])
      (simp_all add: x86_64_unwinder_def max_frames_other_def)
  from unwinds.frame [OF two(1) this] unwinds.frame [OF first] two(2) show ?thesis
    by (simp add: at_frame_def FIRCLSUnwindGetPC_def x86_64_unwinder_def FIRCLSUnwindInit_def x86_64_defs)
qed

definition arm64_sample :: arm64_context where
  "arm64_sample = \<lparr>arm_x = (\<lambda>_. 0), arm_fp = 0x8000, arm_lr = 0x100002000, arm_sp = 0x7F00,
     arm_pc = 0x100001000\<rparr>"

lemma arm64_sample_unwinds:
  "unwinds (arm64_unwinder mach_o_abi arm64_abi)
     (mem_of 0x8000 (concat (map (le_bytes 8) [0x8010, 0x100003000, 0, 0x100004000])))
     None (FIRCLSUnwindInit arm64_sample) [0x100001000, 0x100002000, 0x100003000, 0x100004000]"
proof -
  let ?m = "mem_of 0x8000 (concat (map (le_bytes 8) [0x8010, 0x100003000, 0, 0x100004000]))"
  have "load64 ?m 0x8000 = Some 0x8010" "load64 ?m (0x8000 + 8) = Some 0x100003000"
    "load64 ?m 0x8010 = Some 0" "load64 ?m (0x8010 + 8) = Some 0x100004000"
    by (simp_all add: load64_def load_le_def mem_of_def eval_simps)
  then have "read_frame ?m 0x8000 = Some (0x8010, 0x100003000)" "read_frame ?m 0x8010 = Some (0, 0x100004000)"
    by (simp_all add: read_frame_words)
  then have chain: "frame_chain CLS_PTRAUTH_STRIP ?m 0x8000 [0x100003000, 0x100004000]"
    by (simp add: CLS_PTRAUTH_STRIP_def)
  have regs: "arm64_GetPC arm64_sample = 0x100001000" "arm64_GetLinkRegister arm64_sample = 0x100002000"
    "arm64_GetFramePointer arm64_sample = 0x8000" "arm64_GetStackPointer arm64_sample = 0x7F00"
    by (simp_all add: arm64_defs arm64_sample_def CLS_PTRAUTH_STRIP_def)
  from arm64_unwinds_frame_chain [of None arm64_sample ?m "0x100003000" "[0x100004000]" mach_o_abi arm64_abi]
  show ?thesis using chain by (simp add: regs no_unwind_info_def)
qed

theorem next_frame_invariant_witness:
  "unwind_invariant (arm64_unwinder mach_o_abi arm64_abi)
     ((FIRCLSUnwindInit arm64_sample)\<lparr>frameCount := 1, lastFramePC := 0x100001000\<rparr>)"
proof -
  let ?P = "arm64_unwinder mach_o_abi arm64_abi"
  have "FIRCLSUnwindNextFrame ?P (\<lambda>_. None) None (FIRCLSUnwindInit arm64_sample) =
      Some (True, (FIRCLSUnwindInit arm64_sample)\<lparr>frameCount := 1, lastFramePC := 0x100001000\<rparr>)"
    by (simp add: first_frame arm64_unwinder_def max_frames_device_def FIRCLSIsValidPointer_def arm64_defs
        arm64_sample_def CLS_PTRAUTH_STRIP_def)
  then show ?thesis using next_frame_invariant [of ?P arm64_sample "FIRCLSUnwindInit arm64_sample"] by blast
qed

text \<open>On x86_64, a stack of one word that is in no image, and two frames.\<close>

lemma x86_64_sample_unwinds:
  "unwinds (x86_64_unwinder mach_o_abi x86_64_abi)
     (mem_of 0x7000 (concat (map (le_bytes 8) [5, 0x7018, 0x401000, 0, 0x402000])))
     None (FIRCLSUnwindInit (sample_registers\<lparr>rbp := 0x7008\<rparr>)) [0x401234, 0x401000, 0x402000]"
proof -
  let ?m = "mem_of 0x7000 (concat (map (le_bytes 8) [5, 0x7018, 0x401000, 0, 0x402000]))"
  have l: "load64 ?m 0x7000 = Some 5" "load64 ?m 0x7008 = Some 0x7018" "load64 ?m (0x7008 + 8) = Some 0x401000"
    "load64 ?m 0x7018 = Some 0" "load64 ?m (0x7018 + 8) = Some 0x402000"
    by (simp_all add: load64_def load_le_def mem_of_def eval_simps)
  then have "read_frame ?m 0x7008 = Some (0x7018, 0x401000)" "read_frame ?m 0x7018 = Some (0, 0x402000)"
    by (simp_all add: read_frame_words)
  then have chain: "frame_chain (\<lambda>v. v) ?m 0x7008 [0x401000, 0x402000]" by simp
  have stack: "words_at ?m 0x7000 [5]" using l by simp
  from x86_64_unwinds_frame_chain [of None "sample_registers\<lparr>rbp := 0x7008\<rparr>" ?m "[5]" "0x401000" "[0x402000]"
      mach_o_abi x86_64_abi]
  show ?thesis using chain stack
    by (simp add: sample_registers_def no_unwind_info_def FIRCLSUnwindIsAddressExecutable_def
        FIRCLSBinaryImageSafeFindImageForAddress_def)
qed

end
