(* ===== verification/File.thy ===== *)
theory File
  imports Utility "HOL-Library.Char_ord"
begin

text \<open>
  The JSON report writer: \<open>Helpers/FIRCLSFile.h\<close> and \<open>Helpers/FIRCLSFile.m\<close>, and the hex helper of
  \<open>Helpers/FIRCLSUtility.m\<close>. A C string is the list of its characters before the terminator,
  \<open>None\<close> for \<open>NULL\<close>.

  The descriptor is the pair of the kernel's \<open>write\<close> on it, a parameter, and what it holds:
  \<open>fd_write c s = (ret, c')\<close> is the result of writing \<open>s\<close> when the file holds \<open>c\<close>. The terminator that
  \<open>FIRCLSFileWriteToBuffer\<close> keeps behind the buffered bytes is never read and is left out;
  \<open>writeBufferLength\<close> is the length of \<open>writeBuffer\<close>.
\<close>

section \<open>The file structure\<close>

record FIRCLSFile =
  fd_write :: "string \<Rightarrow> string \<Rightarrow> int \<times> string"
  contents :: string
  collectionDepth :: int
  needComma :: bool
  bufferWrites :: bool
  writeBuffer :: string
  writtenLength :: nat

definition FIRCLSWriteBufferLength :: nat where
  "FIRCLSWriteBufferLength = 1000"

definition CLS_FILE_MAX_WRITE_ATTEMPTS :: nat where
  "CLS_FILE_MAX_WRITE_ATTEMPTS = 50"

definition CLS_FILE_HEX_BUFFER :: nat where
  "CLS_FILE_HEX_BUFFER = 32"

section \<open>Writing to the descriptor\<close>

text \<open>At most \<open>n\<close> more attempts. The result is the source's \<open>bool\<close> and what the file holds.\<close>

fun write_loop :: "nat \<Rightarrow> ('s \<Rightarrow> string \<Rightarrow> int \<times> 's) \<Rightarrow> 's \<Rightarrow> string \<Rightarrow> bool \<times> 's" where
  "write_loop 0 w s data = (False, s)"
| "write_loop (Suc n) w s data =
     (if data = [] then (False, s)
      else let (ret, s') = w s data in
        if ret \<ge> 0 \<and> ret = int (length data) then (True, s')
        else if ret < 0 then (False, s')
        else if ret > int (length data) then (False, s')
        else if ret > 0 then write_loop n w s' (drop (nat ret) data)
        else (False, s'))"

definition FIRCLSFileLoopWithWriteBlock ::
    "('s \<Rightarrow> string \<Rightarrow> int \<times> 's) \<Rightarrow> 's \<Rightarrow> string \<Rightarrow> bool \<times> 's" where
  "FIRCLSFileLoopWithWriteBlock w s data = write_loop CLS_FILE_MAX_WRITE_ATTEMPTS w s data"

definition FIRCLSFileWriteWithRetries :: "FIRCLSFile \<Rightarrow> string \<Rightarrow> bool \<times> string" where
  "FIRCLSFileWriteWithRetries f s = FIRCLSFileLoopWithWriteBlock (fd_write f) (contents f) s"

definition FIRCLSFileWriteToFileDescriptor :: "FIRCLSFile \<Rightarrow> string \<Rightarrow> FIRCLSFile" where
  "FIRCLSFileWriteToFileDescriptor f s =
     (let (ok, c) = FIRCLSFileWriteWithRetries f s in
      if \<not> ok then f\<lparr>contents := c\<rparr>
      else f\<lparr>contents := c, writtenLength := writtenLength f + length s\<rparr>)"

definition FIRCLSFileFlushWriteBuffer :: "FIRCLSFile \<Rightarrow> FIRCLSFile" where
  "FIRCLSFileFlushWriteBuffer f =
     (if \<not> bufferWrites f then f
      else (FIRCLSFileWriteToFileDescriptor f (writeBuffer f))\<lparr>writeBuffer := []\<rparr>)"

text \<open>\<open>strncpy\<close> copies the characters of a C string, which has no 0 among them; after one it would fill
  up with zeros, but no caller passes one.\<close>

definition FIRCLSFileWriteToBuffer :: "FIRCLSFile \<Rightarrow> string \<Rightarrow> FIRCLSFile" where
  "FIRCLSFileWriteToBuffer f s =
     (let n = (if length (writeBuffer f) + length s > FIRCLSWriteBufferLength - 1
               then FIRCLSWriteBufferLength - length (writeBuffer f) - 1 else length s)
      in f\<lparr>writeBuffer := writeBuffer f @ take n s\<rparr>)"

lemma flush_simps [simp]:
  "writeBuffer (FIRCLSFileFlushWriteBuffer f) = (if bufferWrites f then [] else writeBuffer f)"
  "bufferWrites (FIRCLSFileFlushWriteBuffer f) = bufferWrites f"
  by (simp_all add: FIRCLSFileFlushWriteBuffer_def FIRCLSFileWriteToFileDescriptor_def split: prod.splits)

lemma to_buffer_simps [simp]: "bufferWrites (FIRCLSFileWriteToBuffer f s) = bufferWrites f"
  by (simp add: FIRCLSFileWriteToBuffer_def Let_def)

function FIRCLSFileWriteToFileDescriptorOrBuffer :: "FIRCLSFile \<Rightarrow> string \<Rightarrow> FIRCLSFile" where
  "FIRCLSFileWriteToFileDescriptorOrBuffer f s =
     (if bufferWrites f then
        (if length (writeBuffer f) + length s > FIRCLSWriteBufferLength - 1 then
           let remainingSpace = FIRCLSWriteBufferLength - length (writeBuffer f) - 1;
               f = FIRCLSFileFlushWriteBuffer (FIRCLSFileWriteToBuffer f (take remainingSpace s))
           in FIRCLSFileWriteToFileDescriptorOrBuffer f (drop remainingSpace s)
         else FIRCLSFileWriteToBuffer f s)
      else FIRCLSFileWriteToFileDescriptor f s)"
  by pat_completeness auto

termination
  by (relation "measures [\<lambda>(f, s). length s, \<lambda>(f, s). length (writeBuffer f)]")
    (auto simp: FIRCLSWriteBufferLength_def)

declare FIRCLSFileWriteToFileDescriptorOrBuffer.simps [simp del]

section \<open>Strings\<close>

definition FIRCLSFileWriteStringWithSuffix :: "FIRCLSFile \<Rightarrow> string \<Rightarrow> char option \<Rightarrow> FIRCLSFile" where
  "FIRCLSFileWriteStringWithSuffix f s suffix =
     (let maxStringSize = 16 - (if suffix = None then 3 else 4);
          tail = CHR 0x22 # (case suffix of None \<Rightarrow> [] | Some c \<Rightarrow> [c]) in
      if length s \<ge> maxStringSize then
        let f = FIRCLSFileWriteToFileDescriptorOrBuffer f [CHR 0x22];
            f = FIRCLSFileWriteToFileDescriptorOrBuffer f s
        in FIRCLSFileWriteToFileDescriptorOrBuffer f tail
      else FIRCLSFileWriteToFileDescriptorOrBuffer f (CHR 0x22 # s @ tail))"

definition FIRCLSFileWriteString :: "FIRCLSFile \<Rightarrow> string option \<Rightarrow> FIRCLSFile" where
  "FIRCLSFileWriteString f s =
     (case s of
        None \<Rightarrow> FIRCLSFileWriteToFileDescriptorOrBuffer f ''null''
      | Some s \<Rightarrow> FIRCLSFileWriteStringWithSuffix f s None)"

text \<open>\<open>FIRCLSHexFromByte\<close>.\<close>

definition hex_digit :: "nat \<Rightarrow> char" where
  "hex_digit n = ''0123456789abcdef'' ! n"

definition FIRCLSHexFromByte :: "char \<Rightarrow> string" where
  "FIRCLSHexFromByte c = [hex_digit (of_char c div 16), hex_digit (of_char c mod 16)]"

text \<open>\<open>buf\<close> is the filled part of the hex buffer.\<close>

fun hex_loop :: "FIRCLSFile \<Rightarrow> string \<Rightarrow> string \<Rightarrow> FIRCLSFile \<times> string" where
  "hex_loop f buf [] = (f, buf)"
| "hex_loop f buf (c # cs) =
     (let buf = buf @ FIRCLSHexFromByte c in
      if length buf \<ge> CLS_FILE_HEX_BUFFER
      then hex_loop (FIRCLSFileWriteToFileDescriptorOrBuffer f (take CLS_FILE_HEX_BUFFER buf)) [] cs
      else hex_loop f buf cs)"

definition FIRCLSFileWriteHexEncodedString :: "FIRCLSFile \<Rightarrow> string option \<Rightarrow> FIRCLSFile" where
  "FIRCLSFileWriteHexEncodedString f s =
     (case s of
        None \<Rightarrow> FIRCLSFileWriteToFileDescriptorOrBuffer f ''null''
      | Some s \<Rightarrow>
          let f = FIRCLSFileWriteToFileDescriptorOrBuffer f [CHR 0x22];
              (f, buf) = hex_loop f [] s;
              f = (if length buf > 0 \<and> length s > 0
                   then FIRCLSFileWriteToFileDescriptorOrBuffer f buf else f)
          in FIRCLSFileWriteToFileDescriptorOrBuffer f [CHR 0x22])"

section \<open>Integers\<close>

definition digit_char :: "nat \<Rightarrow> char" where
  "digit_char d = (let v = d + 48 in char_of (if v > 57 then v + (97 - 57 - 1) else v))"

text \<open>The \<open>do ... while\<close> of \<open>FIRCLSFilePrepareUInt64\<close>: \<open>i\<close> is the index before the decrement, \<open>acc\<close>
  the characters from there on.\<close>

fun prepare_loop :: "nat \<Rightarrow> u64 \<Rightarrow> u64 \<Rightarrow> string \<Rightarrow> string" where
  "prepare_loop 0 number base acc = acc"
| "prepare_loop (Suc i) number base acc =
     (let acc = digit_char (unat (number mod base)) # acc; number = number div base in
      if number > 0 \<and> i > 0 then prepare_loop i number base acc else acc)"

definition FIRCLSFilePrepareUInt64 :: "u64 \<Rightarrow> bool \<Rightarrow> string" where
  "FIRCLSFilePrepareUInt64 number hex = prepare_loop (21 - 1) number (if hex then 16 else 10) []"

definition FIRCLSFileWriteUInt64 :: "FIRCLSFile \<Rightarrow> u64 \<Rightarrow> bool \<Rightarrow> FIRCLSFile" where
  "FIRCLSFileWriteUInt64 f number hex =
     FIRCLSFileWriteToFileDescriptorOrBuffer f (FIRCLSFilePrepareUInt64 number hex)"

definition FIRCLSFileWriteInt64 :: "FIRCLSFile \<Rightarrow> u64 \<Rightarrow> FIRCLSFile" where
  "FIRCLSFileWriteInt64 f number =
     (if number <s 0
      then FIRCLSFileWriteUInt64 (FIRCLSFileWriteToFileDescriptorOrBuffer f ''-'') (- number) False
      else FIRCLSFileWriteUInt64 f number False)"

definition FIRCLSFileWriteBool :: "FIRCLSFile \<Rightarrow> bool \<Rightarrow> FIRCLSFile" where
  "FIRCLSFileWriteBool f v =
     FIRCLSFileWriteToFileDescriptorOrBuffer f (if v then ''true'' else ''false'')"

section \<open>Collections\<close>

definition FIRCLSFileWriteCollectionStart :: "FIRCLSFile \<Rightarrow> char \<Rightarrow> FIRCLSFile" where
  "FIRCLSFileWriteCollectionStart f openingChar =
     (let f = FIRCLSFileWriteToFileDescriptorOrBuffer f
                (if needComma f then [CHR '','', openingChar] else [openingChar])
      in f\<lparr>collectionDepth := collectionDepth f + 1, needComma := False\<rparr>)"

definition FIRCLSFileWriteCollectionEnd :: "FIRCLSFile \<Rightarrow> char \<Rightarrow> FIRCLSFile" where
  "FIRCLSFileWriteCollectionEnd f closingChar =
     (let f = FIRCLSFileWriteToFileDescriptorOrBuffer f [closingChar] in
      if collectionDepth f \<le> 0 then f
      else f\<lparr>collectionDepth := collectionDepth f - 1, needComma := collectionDepth f - 1 > 0\<rparr>)"

definition FIRCLSFileWriteColletionEntryProlog :: "FIRCLSFile \<Rightarrow> FIRCLSFile" where
  "FIRCLSFileWriteColletionEntryProlog f =
     (if needComma f then FIRCLSFileWriteToFileDescriptorOrBuffer f '','' else f)"

definition FIRCLSFileWriteColletionEntryEpilog :: "FIRCLSFile \<Rightarrow> FIRCLSFile" where
  "FIRCLSFileWriteColletionEntryEpilog f = f\<lparr>needComma := True\<rparr>"

definition FIRCLSFileWriteHashStart :: "FIRCLSFile \<Rightarrow> FIRCLSFile" where
  "FIRCLSFileWriteHashStart f = FIRCLSFileWriteCollectionStart f (CHR ''{'')"

definition FIRCLSFileWriteHashEnd :: "FIRCLSFile \<Rightarrow> FIRCLSFile" where
  "FIRCLSFileWriteHashEnd f = FIRCLSFileWriteCollectionEnd f (CHR ''}'')"

definition FIRCLSFileWriteHashKey :: "FIRCLSFile \<Rightarrow> string \<Rightarrow> FIRCLSFile" where
  "FIRCLSFileWriteHashKey f key =
     (let f = FIRCLSFileWriteColletionEntryProlog f;
          f = FIRCLSFileWriteStringWithSuffix f key (Some (CHR '':''))
      in f\<lparr>needComma := False\<rparr>)"

definition FIRCLSFileWriteHashEntryUint64 :: "FIRCLSFile \<Rightarrow> string \<Rightarrow> u64 \<Rightarrow> FIRCLSFile" where
  "FIRCLSFileWriteHashEntryUint64 f key v =
     FIRCLSFileWriteColletionEntryEpilog (FIRCLSFileWriteUInt64 (FIRCLSFileWriteHashKey f key) v False)"

definition FIRCLSFileWriteHashEntryInt64 :: "FIRCLSFile \<Rightarrow> string \<Rightarrow> u64 \<Rightarrow> FIRCLSFile" where
  "FIRCLSFileWriteHashEntryInt64 f key v =
     FIRCLSFileWriteColletionEntryEpilog (FIRCLSFileWriteInt64 (FIRCLSFileWriteHashKey f key) v)"

definition FIRCLSFileWriteHashEntryString :: "FIRCLSFile \<Rightarrow> string \<Rightarrow> string option \<Rightarrow> FIRCLSFile" where
  "FIRCLSFileWriteHashEntryString f key v =
     FIRCLSFileWriteColletionEntryEpilog (FIRCLSFileWriteString (FIRCLSFileWriteHashKey f key) v)"

definition FIRCLSFileWriteHashEntryHexEncodedString :: "FIRCLSFile \<Rightarrow> string \<Rightarrow> string option \<Rightarrow> FIRCLSFile" where
  "FIRCLSFileWriteHashEntryHexEncodedString f key v =
     FIRCLSFileWriteColletionEntryEpilog (FIRCLSFileWriteHexEncodedString (FIRCLSFileWriteHashKey f key) v)"

definition FIRCLSFileWriteHashEntryBoolean :: "FIRCLSFile \<Rightarrow> string \<Rightarrow> bool \<Rightarrow> FIRCLSFile" where
  "FIRCLSFileWriteHashEntryBoolean f key v =
     FIRCLSFileWriteColletionEntryEpilog (FIRCLSFileWriteBool (FIRCLSFileWriteHashKey f key) v)"

definition FIRCLSFileWriteArrayStart :: "FIRCLSFile \<Rightarrow> FIRCLSFile" where
  "FIRCLSFileWriteArrayStart f = FIRCLSFileWriteCollectionStart f (CHR ''['')"

definition FIRCLSFileWriteArrayEnd :: "FIRCLSFile \<Rightarrow> FIRCLSFile" where
  "FIRCLSFileWriteArrayEnd f = FIRCLSFileWriteCollectionEnd f (CHR '']'')"

definition FIRCLSFileWriteArrayEntryUint64 :: "FIRCLSFile \<Rightarrow> u64 \<Rightarrow> FIRCLSFile" where
  "FIRCLSFileWriteArrayEntryUint64 f v =
     FIRCLSFileWriteColletionEntryEpilog
       (FIRCLSFileWriteUInt64 (FIRCLSFileWriteColletionEntryProlog f) v False)"

definition FIRCLSFileWriteArrayEntryString :: "FIRCLSFile \<Rightarrow> string option \<Rightarrow> FIRCLSFile" where
  "FIRCLSFileWriteArrayEntryString f v =
     FIRCLSFileWriteColletionEntryEpilog
       (FIRCLSFileWriteString (FIRCLSFileWriteColletionEntryProlog f) v)"

definition FIRCLSFileWriteArrayEntryHexEncodedString :: "FIRCLSFile \<Rightarrow> string option \<Rightarrow> FIRCLSFile" where
  "FIRCLSFileWriteArrayEntryHexEncodedString f v =
     FIRCLSFileWriteColletionEntryEpilog
       (FIRCLSFileWriteHexEncodedString (FIRCLSFileWriteColletionEntryProlog f) v)"

definition FIRCLSFileWriteSectionStart :: "FIRCLSFile \<Rightarrow> string \<Rightarrow> FIRCLSFile" where
  "FIRCLSFileWriteSectionStart f name = FIRCLSFileWriteHashKey (FIRCLSFileWriteHashStart f) name"

definition FIRCLSFileWriteSectionEnd :: "FIRCLSFile \<Rightarrow> FIRCLSFile" where
  "FIRCLSFileWriteSectionEnd f =
     FIRCLSFileWriteToFileDescriptorOrBuffer (FIRCLSFileWriteHashEnd f) [CHR 0x0A]"

section \<open>Writing with retries\<close>

text \<open>A \<open>write\<close> that does what it reports: nothing on an error, else a prefix of the data.\<close>

definition honest :: "(string \<Rightarrow> string \<Rightarrow> int \<times> string) \<Rightarrow> bool" where
  "honest w \<longleftrightarrow>
     (\<forall>c s. case w c s of (ret, c') \<Rightarrow>
        (ret < 0 \<and> c' = c) \<or> (0 \<le> ret \<and> ret \<le> int (length s) \<and> c' = c @ take (nat ret) s))"

text \<open>Whatever the retries do, a prefix of the data ends up in the file, and \<open>true\<close> means all of it.\<close>

lemma write_loop_prefix:
  assumes "honest w" "write_loop n w c s = (ok, c')"
  shows "\<exists>k \<le> length s. c' = c @ take k s \<and> (ok \<longrightarrow> k = length s)"
  using assms(2)
proof (induction n arbitrary: c s)
  case 0
  then show ?case by auto
next
  case (Suc n)
  obtain ret d where w: "w c s = (ret, d)" by fastforce
  then have h: "(ret < 0 \<and> d = c) \<or> (0 \<le> ret \<and> ret \<le> int (length s) \<and> d = c @ take (nat ret) s)"
    using assms(1) by (auto simp: honest_def dest: spec [of _ c] split: prod.splits)
  show ?case
  proof (cases "s \<noteq> [] \<and> ret > 0 \<and> ret \<noteq> int (length s)")
    case True
    with h have r: "0 < ret" "ret < int (length s)" "d = c @ take (nat ret) s" by auto
    then have "write_loop n w d (drop (nat ret) s) = (ok, c')"
      using Suc.prems True w by (simp add: Let_def)
    from Suc.IH [OF this] obtain k where k: "k \<le> length (drop (nat ret) s)"
        "c' = d @ take k (drop (nat ret) s)" "ok \<longrightarrow> k = length (drop (nat ret) s)" by blast
    have "take (nat ret) s @ take k (drop (nat ret) s) = take (nat ret + k) s" by (simp add: take_add)
    moreover have "nat ret < length s" using r by linarith
    ultimately have "nat ret + k \<le> length s" "c' = c @ take (nat ret + k) s"
        "ok \<longrightarrow> nat ret + k = length s"
      using k r(3) by auto
    then show ?thesis by blast
  next
    case False
    consider "s = []" | "s \<noteq> []" "ret = int (length s)" | "s \<noteq> []" "ret \<le> 0" "ret \<noteq> int (length s)"
      using False by linarith
    then show ?thesis
    proof cases
      case 2
      then have "ok" "c' = d" "d = c @ s" using Suc.prems w h by auto
      then show ?thesis by (intro exI [of _ "length s"]) simp
    next
      case 3
      then have "\<not> ok" "c' = d" "d = c" using Suc.prems w h by (auto split: if_splits)
      then show ?thesis by (intro exI [of _ 0]) simp
    qed (use Suc.prems in auto)
  qed
qed

text \<open>C31: Whatever a truthful write call does, the retry loop leaves a prefix of the data in the
  file, and returns true only when it is all of it.\<close>

theorem write_with_retries_prefix:
  assumes "honest (fd_write f)" "FIRCLSFileWriteWithRetries f s = (ok, c')"
  shows "\<exists>k \<le> length s. c' = contents f @ take k s \<and> (ok \<longrightarrow> k = length s)"
  using assms write_loop_prefix
  unfolding FIRCLSFileWriteWithRetries_def FIRCLSFileLoopWithWriteBlock_def by blast

section \<open>What has been written\<close>

text \<open>A descriptor that takes everything, and the text a file stands for: what the descriptor holds
  and what is still in the buffer.\<close>

definition reliable :: "FIRCLSFile \<Rightarrow> bool" where
  "reliable f \<longleftrightarrow>
     (\<forall>c s. fd_write f c s = (int (length s), c @ s)) \<and>
     (if bufferWrites f then length (writeBuffer f) < FIRCLSWriteBufferLength else writeBuffer f = [])"

definition report :: "FIRCLSFile \<Rightarrow> string" where
  "report f = contents f @ writeBuffer f"

lemma write_fd_reliable:
  assumes "\<forall>c s. fd_write f c s = (int (length s), c @ s)"
  shows "\<exists>n. FIRCLSFileWriteToFileDescriptor f s = f\<lparr>contents := contents f @ s, writtenLength := n\<rparr>"
proof (cases "s = []")
  case True
  then show ?thesis
    by (intro exI [of _ "writtenLength f"])
      (simp add: FIRCLSFileWriteToFileDescriptor_def FIRCLSFileWriteWithRetries_def
        FIRCLSFileLoopWithWriteBlock_def CLS_FILE_MAX_WRITE_ATTEMPTS_def numeral_eq_Suc)
next
  case False
  then have "FIRCLSFileWriteToFileDescriptor f s =
      f\<lparr>contents := contents f @ s, writtenLength := writtenLength f + length s\<rparr>"
    using assms
    by (simp add: FIRCLSFileWriteToFileDescriptor_def FIRCLSFileWriteWithRetries_def
        FIRCLSFileLoopWithWriteBlock_def CLS_FILE_MAX_WRITE_ATTEMPTS_def numeral_eq_Suc)
  then show ?thesis by blast
qed

text \<open>Buffered or not, a write appends its text and changes nothing else the writer depends on.\<close>

definition same_state :: "FIRCLSFile \<Rightarrow> FIRCLSFile \<Rightarrow> bool" where
  "same_state f g \<longleftrightarrow> fd_write g = fd_write f \<and> collectionDepth g = collectionDepth f \<and>
     needComma g = needComma f \<and> bufferWrites g = bufferWrites f"

lemma write_appends:
  assumes "reliable f"
  shows "report (FIRCLSFileWriteToFileDescriptorOrBuffer f s) = report f @ s \<and>
         reliable (FIRCLSFileWriteToFileDescriptorOrBuffer f s) \<and>
         same_state f (FIRCLSFileWriteToFileDescriptorOrBuffer f s)"
  using assms
proof (induction f s rule: FIRCLSFileWriteToFileDescriptorOrBuffer.induct)
  case (1 f s)
  have fd: "\<forall>c s. fd_write f c s = (int (length s), c @ s)" using 1(2) by (simp add: reliable_def)
  show ?case
  proof (cases "bufferWrites f")
    case False
    obtain n where "FIRCLSFileWriteToFileDescriptor f s = f\<lparr>contents := contents f @ s, writtenLength := n\<rparr>"
      using write_fd_reliable [OF fd] by blast
    with False 1(2) show ?thesis
      by (simp add: FIRCLSFileWriteToFileDescriptorOrBuffer.simps report_def reliable_def same_state_def)
  next
    case buffered: True
    let ?n = "FIRCLSWriteBufferLength - length (writeBuffer f) - 1"
    show ?thesis
    proof (cases "length (writeBuffer f) + length s > FIRCLSWriteBufferLength - 1")
      case False
      with buffered 1(2) show ?thesis
        by (simp add: FIRCLSFileWriteToFileDescriptorOrBuffer.simps FIRCLSFileWriteToBuffer_def
            report_def reliable_def same_state_def FIRCLSWriteBufferLength_def)
    next
      case True
      define g where "g = FIRCLSFileWriteToBuffer f (take ?n s)"
      have g: "g = f\<lparr>writeBuffer := writeBuffer f @ take ?n s\<rparr>"
        by (auto simp: g_def FIRCLSFileWriteToBuffer_def Let_def FIRCLSWriteBufferLength_def min_def)
      have "\<forall>c s. fd_write g c s = (int (length s), c @ s)" using fd by (simp add: g)
      then obtain n where n: "FIRCLSFileWriteToFileDescriptor g (writeBuffer g) =
          g\<lparr>contents := contents g @ writeBuffer g, writtenLength := n\<rparr>"
        using write_fd_reliable by blast
      define h where "h = FIRCLSFileFlushWriteBuffer g"
      have h: "h = f\<lparr>contents := contents f @ writeBuffer f @ take ?n s, writtenLength := n, writeBuffer := []\<rparr>"
        using buffered n by (simp add: h_def FIRCLSFileFlushWriteBuffer_def g)
      have rh: "reliable h" using fd buffered by (simp add: h reliable_def FIRCLSWriteBufferLength_def)
      have "report (FIRCLSFileWriteToFileDescriptorOrBuffer h (drop ?n s)) = report h @ drop ?n s \<and>
         reliable (FIRCLSFileWriteToFileDescriptorOrBuffer h (drop ?n s)) \<and>
         same_state h (FIRCLSFileWriteToFileDescriptorOrBuffer h (drop ?n s))"
        using 1(1) [OF buffered True refl] rh unfolding h_def g_def by simp
      moreover have "FIRCLSFileWriteToFileDescriptorOrBuffer f s =
          FIRCLSFileWriteToFileDescriptorOrBuffer h (drop ?n s)"
        using buffered True
        by (subst FIRCLSFileWriteToFileDescriptorOrBuffer.simps) (simp add: Let_def h_def g_def)
      ultimately show ?thesis by (simp add: h report_def same_state_def)
    qed
  qed
qed

section \<open>Numbers\<close>

text \<open>The digits of \<open>n\<close> in base \<open>b\<close>, and the number a decimal text stands for.\<close>

function numeral_text :: "nat \<Rightarrow> nat \<Rightarrow> string" where
  "numeral_text b n =
     (if b < 2 \<or> n < b then [digit_char n] else numeral_text b (n div b) @ [digit_char (n mod b)])"
  by pat_completeness auto

termination by (relation "measure snd") (auto intro: div_less_dividend)

declare numeral_text.simps [simp del]

lemma numeral_text_small: "n < b \<Longrightarrow> numeral_text b n = [digit_char n]"
  by (simp add: numeral_text.simps)

lemma numeral_text_step:
  "2 \<le> b \<Longrightarrow> b \<le> n \<Longrightarrow> numeral_text b n = numeral_text b (n div b) @ [digit_char (n mod b)]"
  by (subst numeral_text.simps) simp

definition read_decimal :: "string \<Rightarrow> nat" where
  "read_decimal s = foldl (\<lambda>a c. a * 10 + (of_char c - 48)) 0 s"

lemma prepare_loop_text:
  assumes "2 \<le> unat base" "unat number < unat base ^ Suc i"
  shows "prepare_loop (Suc i) number base acc = numeral_text (unat base) (unat number) @ acc"
  using assms(2)
proof (induction i arbitrary: number acc)
  case 0
  then show ?case
    by (simp add: Let_def numeral_text_small unat_mod_distrib)
next
  case (Suc i)
  have q: "unat (number div base) = unat number div unat base" and r: "unat (number mod base) = unat number mod unat base"
    by (simp_all add: unat_div_distrib unat_mod_distrib)
  have pos: "number div base > 0 \<longleftrightarrow> unat base \<le> unat number"
    using assms(1) by (simp add: word_less_nat_alt q div_greater_zero_iff)
  have "unat number div unat base < unat base ^ Suc i"
    using Suc.prems assms(1) by (intro less_mult_imp_div_less) (simp add: mult.commute)
  then have IH: "prepare_loop (Suc i) (number div base) base acc =
      numeral_text (unat base) (unat number div unat base) @ acc" for acc
    using Suc.IH [of "number div base"] by (simp only: q)
  show ?case
  proof (cases "unat base \<le> unat number")
    case True
    then show ?thesis
      using assms(1) pos r
      by (subst prepare_loop.simps) (simp only: Let_def IH numeral_text_step append_assoc append_Cons
          append_Nil zero_less_Suc if_True HOL.simp_thms)
  next
    case False
    then show ?thesis
      using pos r by (subst prepare_loop.simps) (simp add: Let_def numeral_text_small)
  qed
qed

lemma digit_char_value: "d < 10 \<Longrightarrow> of_char (digit_char d) = (d + 48 :: nat)"
  by (simp add: digit_char_def Let_def)

lemma numeral_text_decimal:
  "read_decimal (numeral_text 10 n) = n \<and>
   (\<forall>c \<in> set (numeral_text 10 n). CHR ''0'' \<le> c \<and> c \<le> CHR ''9'') \<and>
   numeral_text 10 n \<noteq> [] \<and> (n > 0 \<longrightarrow> hd (numeral_text 10 n) \<noteq> CHR ''0'')"
proof (induction n rule: less_induct)
  case (less n)
  have dig: "CHR ''0'' \<le> digit_char d \<and> digit_char d \<le> CHR ''9''" if "d < 10" for d
    using that digit_char_value [OF that] by (simp add: less_eq_char_def)
  have zero: "digit_char d = CHR ''0'' \<longleftrightarrow> d = 0" if "d < 10" for d
  proof -
    have "of_char (digit_char d) = (d + 48 :: nat)" using that by (rule digit_char_value)
    moreover have "of_char (CHR ''0'') = (48 :: nat)" by simp
    ultimately show ?thesis by (metis add_0 add_right_cancel of_char_eq_iff)
  qed
  show ?case
  proof (cases "n < 10")
    case True
    with dig zero show ?thesis
      by (simp add: numeral_text_small read_decimal_def digit_char_value)
  next
    case False
    then have "n div 10 < n" "n div 10 > 0" by auto
    from less.IH [OF this(1)] this(2) False dig [of "n mod 10"] show ?thesis
      by (auto simp: numeral_text_step read_decimal_def digit_char_value)
  qed
qed

lemma numeral_text_length: "n < 10 ^ Suc k \<Longrightarrow> length (numeral_text 10 n) \<le> Suc k"
proof (induction k arbitrary: n)
  case (Suc k)
  show ?case
  proof (cases "n < 10")
    case False
    have "n div 10 < 10 ^ Suc k" using Suc.prems by simp
    with Suc.IH False show ?thesis by (simp add: numeral_text_step)
  qed (simp add: numeral_text_small)
qed (simp add: numeral_text_small)

theorem uint64_text_correct:
  "read_decimal (FIRCLSFilePrepareUInt64 v False) = unat v \<and>
   (\<forall>c \<in> set (FIRCLSFilePrepareUInt64 v False). CHR ''0'' \<le> c \<and> c \<le> CHR ''9'') \<and>
   (v \<noteq> 0 \<longrightarrow> hd (FIRCLSFilePrepareUInt64 v False) \<noteq> CHR ''0'') \<and>
   FIRCLSFilePrepareUInt64 v False \<noteq> [] \<and> length (FIRCLSFilePrepareUInt64 v False) \<le> 20"
proof -
  have b: "unat v < 10 ^ Suc 19" using unat_less [of v] by simp
  have repr: "FIRCLSFilePrepareUInt64 v False = numeral_text 10 (unat v)"
    using prepare_loop_text [of 10 v 19 "[]"] b
    by (simp add: FIRCLSFilePrepareUInt64_def del: prepare_loop.simps power_Suc)
  have "length (numeral_text 10 (unat v)) \<le> 20" using numeral_text_length [OF b] by simp
  then show ?thesis
    unfolding repr using numeral_text_decimal [of "unat v"] unat_gt_0 [of v] by simp
qed

theorem uint64_text_correct_witness:
  "read_decimal (FIRCLSFilePrepareUInt64 18446744073709551615 False) = 18446744073709551615 \<and>
   hd (FIRCLSFilePrepareUInt64 18446744073709551615 False) \<noteq> CHR ''0''"
  using uint64_text_correct [of 18446744073709551615] by simp

section \<open>The text of each operation\<close>

lemma write_report [simp]:
  "reliable f \<Longrightarrow> report (FIRCLSFileWriteToFileDescriptorOrBuffer f s) = report f @ s"
  "reliable f \<Longrightarrow> reliable (FIRCLSFileWriteToFileDescriptorOrBuffer f s)"
  "reliable f \<Longrightarrow> needComma (FIRCLSFileWriteToFileDescriptorOrBuffer f s) = needComma f"
  "reliable f \<Longrightarrow> collectionDepth (FIRCLSFileWriteToFileDescriptorOrBuffer f s) = collectionDepth f"
  using write_appends [of f s] by (simp_all add: same_state_def)

lemma report_update [simp]:
  "report (f\<lparr>needComma := c\<rparr>) = report f" "reliable (f\<lparr>needComma := c\<rparr>) = reliable f"
  "report (f\<lparr>collectionDepth := d\<rparr>) = report f" "reliable (f\<lparr>collectionDepth := d\<rparr>) = reliable f"
  by (simp_all add: report_def reliable_def)

definition comma :: "bool \<Rightarrow> string" where
  "comma c = (if c then '','' else [])"

definition quoted :: "string \<Rightarrow> string" where
  "quoted s = [CHR 0x22] @ s @ [CHR 0x22]"

definition string_text :: "string option \<Rightarrow> string" where
  "string_text s = (case s of None \<Rightarrow> ''null'' | Some s \<Rightarrow> quoted s)"

definition uint_text :: "u64 \<Rightarrow> string" where
  "uint_text v = FIRCLSFilePrepareUInt64 v False"

definition bool_text :: "bool \<Rightarrow> string" where
  "bool_text b = (if b then ''true'' else ''false'')"

definition hex_text :: "string option \<Rightarrow> string" where
  "hex_text s = (case s of None \<Rightarrow> ''null'' | Some s \<Rightarrow> quoted (concat (map FIRCLSHexFromByte s)))"

text \<open>What an operation does to a reliable file: appends a text and sets the comma flag and depth.\<close>

definition appends :: "FIRCLSFile \<Rightarrow> FIRCLSFile \<Rightarrow> string \<Rightarrow> bool \<Rightarrow> int \<Rightarrow> bool" where
  "appends f g s c d \<longleftrightarrow> reliable g \<and> report g = report f @ s \<and> needComma g = c \<and> collectionDepth g = d"

lemma appends_string:
  assumes "reliable f"
  shows "appends f (FIRCLSFileWriteStringWithSuffix f s suffix)
    (quoted s @ (case suffix of None \<Rightarrow> [] | Some c \<Rightarrow> [c])) (needComma f) (collectionDepth f)"
  using assms by (simp add: FIRCLSFileWriteStringWithSuffix_def Let_def appends_def quoted_def)

lemma length_FIRCLSHexFromByte [simp]: "length (FIRCLSHexFromByte c) = 2"
  by (simp add: FIRCLSHexFromByte_def)

lemma appends_trans:
  "appends f g s c d \<Longrightarrow> appends g h t c' d' \<Longrightarrow> appends f h (s @ t) c' d'"
  by (simp add: appends_def)

text \<open>The hex buffer is emptied exactly when it is full, so no digit is lost.\<close>

lemma hex_loop_text:
  assumes "reliable f" "length buf < CLS_FILE_HEX_BUFFER" "even (length buf)" "hex_loop f buf s = (g, rest)"
  shows "\<exists>t. appends f g t (needComma f) (collectionDepth f) \<and>
             t @ rest = buf @ concat (map FIRCLSHexFromByte s)"
  using assms
proof (induction s arbitrary: f buf)
  case Nil
  then show ?case by (intro exI [of _ "[]"]) (auto simp: appends_def)
next
  case (Cons c s)
  let ?buf = "buf @ FIRCLSHexFromByte c"
  show ?case
  proof (cases "length ?buf \<ge> CLS_FILE_HEX_BUFFER")
    case True
    then have full: "length ?buf = CLS_FILE_HEX_BUFFER"
      using Cons.prems(2,3) unfolding CLS_FILE_HEX_BUFFER_def by simp presburger
    let ?f = "FIRCLSFileWriteToFileDescriptorOrBuffer f ?buf"
    have a: "appends f ?f ?buf (needComma f) (collectionDepth f)" using Cons.prems(1) by (simp add: appends_def)
    have "hex_loop ?f [] s = (g, rest)" using Cons.prems(4) True full by (simp add: Let_def)
    then obtain t where "appends ?f g t (needComma ?f) (collectionDepth ?f)"
        "t @ rest = concat (map FIRCLSHexFromByte s)"
      using Cons.IH [of ?f "[]"] Cons.prems(1) by (auto simp: CLS_FILE_HEX_BUFFER_def)
    with appends_trans [OF a] Cons.prems(1) show ?thesis by (intro exI [of _ "?buf @ t"]) simp
  next
    case False
    then have "hex_loop f ?buf s = (g, rest)" using Cons.prems(4) by (simp add: Let_def)
    with False Cons.IH [of f ?buf] Cons.prems(1,3) show ?thesis by simp
  qed
qed

lemma appends_hex:
  assumes "reliable f"
  shows "appends f (FIRCLSFileWriteHexEncodedString f s) (hex_text s) (needComma f) (collectionDepth f)"
proof (cases s)
  case None
  with assms show ?thesis by (simp add: FIRCLSFileWriteHexEncodedString_def hex_text_def appends_def)
next
  case (Some w)
  let ?f = "FIRCLSFileWriteToFileDescriptorOrBuffer f [CHR 0x22]"
  obtain g rest where loop: "hex_loop ?f [] w = (g, rest)" by fastforce
  then obtain t where t: "appends ?f g t (needComma f) (collectionDepth f)"
      "t @ rest = concat (map FIRCLSHexFromByte w)"
    using hex_loop_text [OF _ _ _ loop] assms by (auto simp: CLS_FILE_HEX_BUFFER_def)
  have "rest = [] \<or> w \<noteq> []" using t by (cases w) auto
  with Some loop t assms show ?thesis
    by (auto simp: FIRCLSFileWriteHexEncodedString_def hex_text_def appends_def quoted_def)
qed

section \<open>JSON values\<close>

text \<open>The reports are JSON: the text of a value, without white space. Strings are copied as they are,
  nothing in them is escaped.\<close>

datatype json =
  Uint u64 | Text "string option" | Hex "string option" | Boolean bool
| Array "json list" | Object "(string \<times> json) list"

fun separated :: "string list \<Rightarrow> string" where
  "separated [] = []"
| "separated [x] = x"
| "separated (x # y # xs) = x @ '','' @ separated (y # xs)"

fun json_text :: "json \<Rightarrow> string" where
  "json_text (Uint v) = uint_text v"
| "json_text (Text s) = string_text s"
| "json_text (Hex s) = hex_text s"
| "json_text (Boolean b) = bool_text b"
| "json_text (Array vs) = ''['' @ separated (map json_text vs) @ '']''"
| "json_text (Object kvs) = ''{'' @ separated (map (\<lambda>(k, v). quoted k @ '':'' @ json_text v) kvs) @ ''}''"

definition member_text :: "string \<times> json \<Rightarrow> string" where
  "member_text kv = quoted (fst kv) @ '':'' @ json_text (snd kv)"

text \<open>Inside a collection, \<open>w\<close> writes the entry \<open>t\<close>: a separator where one is needed, and the text.\<close>

definition writes :: "(FIRCLSFile \<Rightarrow> FIRCLSFile) \<Rightarrow> string \<Rightarrow> bool" where
  "writes w t \<longleftrightarrow>
     (\<forall>f. reliable f \<and> collectionDepth f > 0 \<longrightarrow>
        appends f (w f) (comma (needComma f) @ t) True (collectionDepth f))"

lemma appends_key:
  assumes "reliable f"
  shows "appends f (FIRCLSFileWriteHashKey f k) (comma (needComma f) @ quoted k @ '':'') False (collectionDepth f)"
  using assms appends_string [of "FIRCLSFileWriteColletionEntryProlog f" k "Some (CHR '':'')"]
  by (auto simp: FIRCLSFileWriteHashKey_def FIRCLSFileWriteColletionEntryProlog_def Let_def appends_def comma_def)

lemma writes_key:
  assumes "writes w t"
  shows "writes (\<lambda>f. w (FIRCLSFileWriteHashKey f k)) (quoted k @ '':'' @ t)"
  unfolding writes_def
proof (intro allI impI)
  fix f assume f: "reliable f \<and> collectionDepth f > 0"
  let ?g = "FIRCLSFileWriteHashKey f k"
  have g: "appends f ?g (comma (needComma f) @ quoted k @ '':'') False (collectionDepth f)"
    using appends_key f by blast
  then have "appends ?g (w ?g) t True (collectionDepth f)"
    using assms f unfolding writes_def by (force simp: appends_def comma_def)
  from appends_trans [OF g this]
  show "appends f (w ?g) (comma (needComma f) @ quoted k @ '':'' @ t) True (collectionDepth f)" by simp
qed

lemma appends_value:
  assumes "reliable f"
  shows "appends f (FIRCLSFileWriteUInt64 f v False) (uint_text v) (needComma f) (collectionDepth f)"
    and "appends f (FIRCLSFileWriteBool f b) (bool_text b) (needComma f) (collectionDepth f)"
    and "appends f (FIRCLSFileWriteString f s) (string_text s) (needComma f) (collectionDepth f)"
  using assms appends_string [OF assms, of _ None]
  by (simp_all add: FIRCLSFileWriteUInt64_def FIRCLSFileWriteBool_def FIRCLSFileWriteString_def appends_def
      uint_text_def bool_text_def string_text_def split: option.splits)

lemma appends_epilog:
  "appends f g s c d \<Longrightarrow> appends f (FIRCLSFileWriteColletionEntryEpilog g) s True d"
  by (simp add: appends_def FIRCLSFileWriteColletionEntryEpilog_def)

lemma appends_prolog:
  "reliable f \<Longrightarrow>
   appends f (FIRCLSFileWriteColletionEntryProlog f) (comma (needComma f)) (needComma f) (collectionDepth f)"
  by (simp add: FIRCLSFileWriteColletionEntryProlog_def appends_def comma_def)

lemma appends_reliable: "appends f g s c d \<Longrightarrow> reliable g"
  by (simp add: appends_def)

text \<open>An entry is a value between the prolog or the key, and the epilog.\<close>

lemma writes_entry:
  assumes "\<And>f. reliable f \<Longrightarrow> appends f (w f) t (needComma f) (collectionDepth f)"
  shows "writes (\<lambda>f. FIRCLSFileWriteColletionEntryEpilog (w (FIRCLSFileWriteColletionEntryProlog f))) t"
    and "writes (\<lambda>f. FIRCLSFileWriteColletionEntryEpilog (w (FIRCLSFileWriteHashKey f k))) (quoted k @ '':'' @ t)"
proof -
  have "appends f (w (FIRCLSFileWriteColletionEntryProlog f)) (comma (needComma f) @ t) (needComma f) (collectionDepth f)"
    if "reliable f" for f
    using appends_trans [OF appends_prolog [OF that] assms [OF appends_reliable [OF appends_prolog [OF that]]]]
      appends_prolog [OF that] by (simp add: appends_def)
  then show "writes (\<lambda>f. FIRCLSFileWriteColletionEntryEpilog (w (FIRCLSFileWriteColletionEntryProlog f))) t"
    unfolding writes_def by (intro allI impI) (rule appends_epilog, blast)
  have "appends f (w (FIRCLSFileWriteHashKey f k)) ((comma (needComma f) @ quoted k @ '':'') @ t) False (collectionDepth f)"
    if "reliable f" for f
    using appends_trans [OF appends_key [OF that] assms [OF appends_reliable [OF appends_key [OF that]]]]
      appends_key [OF that, of k] by (simp add: appends_def)
  then show "writes (\<lambda>f. FIRCLSFileWriteColletionEntryEpilog (w (FIRCLSFileWriteHashKey f k))) (quoted k @ '':'' @ t)"
    unfolding writes_def by (intro allI impI) (rule appends_epilog, force simp: appends_def)
qed

lemma writes_array_entry:
  "writes (\<lambda>f. FIRCLSFileWriteArrayEntryUint64 f v) (json_text (Uint v))"
  "writes (\<lambda>f. FIRCLSFileWriteArrayEntryString f s) (json_text (Text s))"
  "writes (\<lambda>f. FIRCLSFileWriteArrayEntryHexEncodedString f s) (json_text (Hex s))"
  unfolding FIRCLSFileWriteArrayEntryUint64_def FIRCLSFileWriteArrayEntryString_def
    FIRCLSFileWriteArrayEntryHexEncodedString_def json_text.simps
  by (rule writes_entry appends_value appends_hex | assumption)+

lemma writes_hash_entry:
  "writes (\<lambda>f. FIRCLSFileWriteHashEntryUint64 f k v) (member_text (k, Uint v))"
  "writes (\<lambda>f. FIRCLSFileWriteHashEntryString f k s) (member_text (k, Text s))"
  "writes (\<lambda>f. FIRCLSFileWriteHashEntryHexEncodedString f k s) (member_text (k, Hex s))"
  "writes (\<lambda>f. FIRCLSFileWriteHashEntryBoolean f k b) (member_text (k, Boolean b))"
  unfolding FIRCLSFileWriteHashEntryUint64_def FIRCLSFileWriteHashEntryString_def
    FIRCLSFileWriteHashEntryHexEncodedString_def FIRCLSFileWriteHashEntryBoolean_def
    member_text_def json_text.simps fst_conv snd_conv
  by (rule writes_entry appends_value appends_hex | assumption)+

text \<open>Entries in a row.\<close>

lemma separated_Cons: "separated (x # xs) = x @ concat (map (\<lambda>y. '','' @ y) xs)"
  by (induction xs arbitrary: x) auto

lemma separated_snoc_text:
  "comma c @ separated (x # xs) = (comma c @ x) @ (if xs = [] then [] else comma True @ separated xs)"
  by (cases xs) (auto simp: comma_def)

definition writes_all :: "(FIRCLSFile \<Rightarrow> FIRCLSFile) \<Rightarrow> string list \<Rightarrow> bool" where
  "writes_all w ts \<longleftrightarrow>
     (\<forall>f. reliable f \<and> collectionDepth f > 0 \<longrightarrow>
        appends f (w f) (if ts = [] then [] else comma (needComma f) @ separated ts)
          (ts \<noteq> [] \<or> needComma f) (collectionDepth f))"

lemma writes_all_Nil: "writes_all (\<lambda>f. f) []"
  by (simp add: writes_all_def appends_def)

lemma writes_all_Cons:
  assumes "writes w t" "writes_all w' ts"
  shows "writes_all (\<lambda>f. w' (w f)) (t # ts)"
  unfolding writes_all_def
proof (intro allI impI)
  fix f assume f: "reliable f \<and> collectionDepth f > 0"
  have 1: "appends f (w f) (comma (needComma f) @ t) True (collectionDepth f)"
    using assms(1) f by (simp add: writes_def)
  then have "appends (w f) (w' (w f)) (if ts = [] then [] else comma True @ separated ts) True (collectionDepth f)"
    using assms(2) f unfolding writes_all_def by (force simp: appends_def)
  from appends_trans [OF 1 this]
  show "appends f (w' (w f)) (if t # ts = [] then [] else comma (needComma f) @ separated (t # ts))
      (t # ts \<noteq> [] \<or> needComma f) (collectionDepth f)"
    using separated_snoc_text [of "needComma f" t ts] by simp
qed

lemma writes_all_fold:
  "(\<And>x. x \<in> set xs \<Longrightarrow> writes (w x) (t x)) \<Longrightarrow> writes_all (fold w xs) (map t xs)"
proof (induction xs)
  case Nil
  then show ?case by (simp add: writes_all_Nil id_def)
next
  case (Cons x xs)
  then show ?case using writes_all_Cons [of "w x" "t x" "fold w xs"] by (simp add: comp_def)
qed

lemma appends_start:
  assumes "reliable f"
  shows "appends f (FIRCLSFileWriteCollectionStart f c) (comma (needComma f) @ [c]) False (collectionDepth f + 1)"
  using assms by (simp add: FIRCLSFileWriteCollectionStart_def Let_def appends_def comma_def)

lemma appends_end:
  assumes "reliable f" "collectionDepth f > 0"
  shows "appends f (FIRCLSFileWriteCollectionEnd f c) [c] (collectionDepth f > 1) (collectionDepth f - 1)"
  using assms by (simp add: FIRCLSFileWriteCollectionEnd_def Let_def appends_def)

text \<open>A collection, at any depth.\<close>

lemma appends_collection:
  assumes "writes_all w ts" "reliable f" "collectionDepth f \<ge> 0"
  shows "appends f (FIRCLSFileWriteCollectionEnd (w (FIRCLSFileWriteCollectionStart f c)) c')
    (comma (needComma f) @ [c] @ separated ts @ [c']) (collectionDepth f > 0) (collectionDepth f)"
proof -
  let ?g = "FIRCLSFileWriteCollectionStart f c"
  have g: "appends f ?g (comma (needComma f) @ [c]) False (collectionDepth f + 1)"
    using assms(2) by (rule appends_start)
  then have "reliable ?g \<and> collectionDepth ?g > 0" using assms(3) by (simp add: appends_def)
  then have h: "appends ?g (w ?g) (separated ts) (ts \<noteq> []) (collectionDepth f + 1)"
    using assms(1) g unfolding writes_all_def by (force simp: appends_def comma_def)
  then have "appends (w ?g) (FIRCLSFileWriteCollectionEnd (w ?g) c') [c'] (collectionDepth f > 0) (collectionDepth f)"
    using appends_end [of "w ?g" c'] assms(3) by (simp add: appends_def)
  from appends_trans [OF appends_trans [OF g h] this] show ?thesis by simp
qed

lemma writes_collection:
  assumes "writes_all w ts"
  shows "writes (\<lambda>f. FIRCLSFileWriteCollectionEnd (w (FIRCLSFileWriteCollectionStart f c)) c') ([c] @ separated ts @ [c'])"
  unfolding writes_def
proof (intro allI impI)
  fix f assume "reliable f \<and> collectionDepth f > 0"
  then show "appends f (FIRCLSFileWriteCollectionEnd (w (FIRCLSFileWriteCollectionStart f c)) c')
      (comma (needComma f) @ [c] @ separated ts @ [c']) True (collectionDepth f)"
    using appends_collection [OF assms, of f c c'] by simp
qed

lemma writes_array:
  assumes "writes_all w (map json_text vs)"
  shows "writes (\<lambda>f. FIRCLSFileWriteArrayEnd (w (FIRCLSFileWriteArrayStart f))) (json_text (Array vs))"
  unfolding FIRCLSFileWriteArrayEnd_def FIRCLSFileWriteArrayStart_def
  using writes_collection [OF assms] by simp

lemma json_text_Object: "json_text (Object kvs) = ''{'' @ separated (map member_text kvs) @ ''}''"
proof -
  have "(\<lambda>(k, v). quoted k @ '':'' @ json_text v) = member_text"
    by (rule ext) (simp add: member_text_def case_prod_beta)
  then show ?thesis by (simp only: json_text.simps)
qed

lemma writes_hash:
  assumes "writes_all w (map member_text kvs)"
  shows "writes (\<lambda>f. FIRCLSFileWriteHashEnd (w (FIRCLSFileWriteHashStart f))) (json_text (Object kvs))"
  unfolding FIRCLSFileWriteHashEnd_def FIRCLSFileWriteHashStart_def json_text_Object
  using writes_collection [OF assms] by simp

lemma writes_member: "writes w (json_text v) \<Longrightarrow> writes (\<lambda>f. w (FIRCLSFileWriteHashKey f k)) (member_text (k, v))"
  using writes_key by (simp add: member_text_def)

text \<open>A section is one line holding an object with one member.\<close>

theorem section_text:
  assumes "reliable f" "collectionDepth f = 0" "\<not> needComma f" "writes w (json_text v)"
  shows "appends f (FIRCLSFileWriteSectionEnd (w (FIRCLSFileWriteSectionStart f name)))
     (json_text (Object [(name, v)]) @ [CHR 0x0A]) False 0"
proof -
  have "writes_all (\<lambda>f. w (FIRCLSFileWriteHashKey f name)) (map member_text [(name, v)])"
    using writes_all_Cons [OF writes_member [OF assms(4)] writes_all_Nil] by simp
  from appends_collection [OF this assms(1), of "CHR ''{''" "CHR ''}''"] assms(2,3)
  have "appends f (FIRCLSFileWriteHashEnd (w (FIRCLSFileWriteHashKey (FIRCLSFileWriteHashStart f) name)))
      (json_text (Object [(name, v)])) False 0"
    by (simp add: FIRCLSFileWriteHashEnd_def FIRCLSFileWriteHashStart_def json_text_Object comma_def del: json_text.simps)
  then show ?thesis
    by (simp add: FIRCLSFileWriteSectionEnd_def FIRCLSFileWriteSectionStart_def appends_def del: json_text.simps)
qed

section \<open>The writer as a whole\<close>

text \<open>Nothing that is written through the buffer is lost, reordered or written twice.\<close>

lemma fold_write_report:
  "reliable f \<Longrightarrow> let g = fold (\<lambda>s f. FIRCLSFileWriteToFileDescriptorOrBuffer f s) chunks f in
     reliable g \<and> report g = report f @ concat chunks \<and> same_state f g"
proof (induction chunks arbitrary: f)
  case (Cons s chunks)
  then show ?case
    using Cons.IH [of "FIRCLSFileWriteToFileDescriptorOrBuffer f s"] write_appends [of f s]
    by (simp add: Let_def same_state_def)
qed (simp add: same_state_def)

text \<open>C30: Whatever the pieces and however they fall on the buffer, after a flush the file holds all
  of them in order: buffered and unbuffered writing give the same text.\<close>

theorem buffered_writes_complete:
  assumes "reliable f"
  shows "contents (FIRCLSFileFlushWriteBuffer
           (fold (\<lambda>s f. FIRCLSFileWriteToFileDescriptorOrBuffer f s) chunks f)) = report f @ concat chunks"
proof -
  define g where "g = fold (\<lambda>s f. FIRCLSFileWriteToFileDescriptorOrBuffer f s) chunks f"
  have g: "reliable g" "report g = report f @ concat chunks"
    using fold_write_report [OF assms, of chunks] by (simp_all add: g_def Let_def)
  then have "\<forall>c s. fd_write g c s = (int (length s), c @ s)" by (simp add: reliable_def)
  then obtain n where n: "FIRCLSFileWriteToFileDescriptor g (writeBuffer g) =
      g\<lparr>contents := contents g @ writeBuffer g, writtenLength := n\<rparr>"
    using write_fd_reliable by blast
  have "contents (FIRCLSFileFlushWriteBuffer g) = report g"
    using g(1) n by (simp add: FIRCLSFileFlushWriteBuffer_def report_def reliable_def split: if_splits)
  with g(2) show ?thesis by (simp add: g_def)
qed

definition empty_file :: "bool \<Rightarrow> FIRCLSFile" where
  "empty_file buffered = \<lparr>fd_write = (\<lambda>c s. (int (length s), c @ s)), contents = [],
     collectionDepth = 0, needComma = False, bufferWrites = buffered, writeBuffer = [], writtenLength = 0\<rparr>"

lemma empty_file_simps [simp]:
  "reliable (empty_file buffered)" "report (empty_file buffered) = []"
  "collectionDepth (empty_file buffered) = 0" "needComma (empty_file buffered) = False"
  by (simp_all add: reliable_def report_def empty_file_def FIRCLSWriteBufferLength_def)

theorem buffered_writes_complete_witness:
  "contents (FIRCLSFileFlushWriteBuffer
     (fold (\<lambda>s f. FIRCLSFileWriteToFileDescriptorOrBuffer f s)
       [replicate 999 (CHR ''a''), ''b'', replicate 2500 (CHR ''c'')] (empty_file True))) =
   replicate 999 (CHR ''a'') @ ''b'' @ replicate 2500 (CHR ''c'')"
  using buffered_writes_complete [OF empty_file_simps(1) [of True],
      of "[replicate 999 (CHR ''a''), ''b'', replicate 2500 (CHR ''c'')]"]
  by simp

text \<open>Strings are not escaped: two different arrays are written as the same text.\<close>

theorem unescaped_string_ambiguous:
  assumes "reliable f" "collectionDepth f > 0"
  shows "report (FIRCLSFileWriteArrayEntryString f (Some (s @ [CHR 0x22, CHR '','', CHR 0x22] @ t))) =
         report (FIRCLSFileWriteArrayEntryString (FIRCLSFileWriteArrayEntryString f (Some s)) (Some t))"
proof -
  have one: "appends f (FIRCLSFileWriteArrayEntryString f (Some u)) (comma (needComma f) @ quoted u) True (collectionDepth f)"
    if "reliable f" "collectionDepth f > 0" for u f
    using writes_array_entry(2) [of "Some u"] that by (simp add: writes_def string_text_def)
  have "appends (FIRCLSFileWriteArrayEntryString f (Some s))
      (FIRCLSFileWriteArrayEntryString (FIRCLSFileWriteArrayEntryString f (Some s)) (Some t))
      (comma True @ quoted t) True (collectionDepth f)"
    using one [OF assms, of s] one [of "FIRCLSFileWriteArrayEntryString f (Some s)" t] assms(2)
    by (auto simp: appends_def)
  with one [OF assms, of s] one [OF assms, of "s @ [CHR 0x22, CHR '','', CHR 0x22] @ t"] show ?thesis
    by (simp add: appends_def quoted_def comma_def)
qed

theorem unescaped_string_ambiguous_witness:
  "report (FIRCLSFileWriteArrayEntryString (FIRCLSFileWriteArrayStart (empty_file False))
      (Some [CHR ''a'', CHR 0x22, CHR '','', CHR 0x22, CHR ''b''])) =
   report (FIRCLSFileWriteArrayEntryString (FIRCLSFileWriteArrayEntryString
      (FIRCLSFileWriteArrayStart (empty_file False)) (Some ''a'')) (Some ''b''))"
proof -
  have "appends (empty_file False) (FIRCLSFileWriteArrayStart (empty_file False)) ''['' False 1"
    using appends_start [of "empty_file False" "CHR ''[''"]
    by (simp add: FIRCLSFileWriteArrayStart_def comma_def)
  then show ?thesis
    using unescaped_string_ambiguous [of "FIRCLSFileWriteArrayStart (empty_file False)" "''a''" "''b''"]
    by (simp add: appends_def)
qed

text \<open>A descriptor that takes one byte at a time.\<close>

theorem write_with_retries_prefix_witness:
  "\<exists>k \<le> 3. snd (FIRCLSFileWriteWithRetries ((empty_file False)\<lparr>fd_write :=
       (\<lambda>c s. if s = [] then (0, c) else (1, c @ take 1 s))\<rparr>) ''abc'') = take k ''abc'' \<and> k = 3"
proof -
  let ?w = "\<lambda>c s :: string. if s = [] then (0, c) else (1 :: int, c @ take 1 s)"
  let ?f = "(empty_file False)\<lparr>fd_write := ?w\<rparr>"
  have "honest ?w" by (auto simp: honest_def Suc_le_eq)
  then have h: "honest (fd_write ?f)" by simp
  have run: "FIRCLSFileWriteWithRetries ?f ''abc'' = (True, ''abc'')"
    by (simp add: FIRCLSFileWriteWithRetries_def FIRCLSFileLoopWithWriteBlock_def empty_file_def
        CLS_FILE_MAX_WRITE_ATTEMPTS_def numeral_eq_Suc Let_def)
  from write_with_retries_prefix [OF h run] run show ?thesis by (auto simp: empty_file_def)
qed

end
