(* ===== verification/Process.thy ===== *)
theory Process
  imports Unwind File
begin

text \<open>
  Recording the threads of the crashed process: \<open>Components/FIRCLSProcess.h\<close> and
  \<open>Components/FIRCLSProcess.c\<close>, with \<open>FIRCLSReadString\<close> of \<open>Helpers/FIRCLSUtility.m\<close>.

  What the kernel and the system libraries answer is the record \<open>kernel\<close>, a parameter. A thread
  context is a pair: the registers the unwinder works on, and the rest (\<open>'x\<close>), which is only
  reported. \<open>None\<close> is a fault or an undefined result; the file is threaded through. The tests of the
  addresses of locals never fire and are left out, and so is the level of the internal log, which
  no result depends on.
\<close>

section \<open>The kernel\<close>

type_synonym thread_t = u32

record ('r, 'x) kernel =
  port_index :: "thread_t \<Rightarrow> u32"                       \<comment> \<open>\<open>MACH_PORT_INDEX\<close>\<close>
  mach_thread_self :: thread_t
  task_threads :: "thread_t list option"
  thread_suspend :: "thread_t \<Rightarrow> bool"
  thread_resume :: "thread_t \<Rightarrow> bool"
  thread_get_state :: "thread_t \<Rightarrow> ('r \<times> 'x) option"
  thread_name :: "thread_t \<Rightarrow> string"                   \<comment> \<open>the buffer after \<open>pthread_getname_np\<close>\<close>
  thread_dispatch_qaddr :: "thread_t \<Rightarrow> addr option"     \<comment> \<open>\<open>thread_info\<close>\<close>
  dispatch_queue_get_label :: "addr \<Rightarrow> addr"
  current_frame :: "addr \<times> addr \<times> addr"   \<comment> \<open>current PC, \<open>__builtin_frame_address\<close>, \<open>__builtin_return_address\<close>\<close>
  host_statistics :: "(u32 \<times> u32 \<times> u32 \<times> u32) option"  \<comment> \<open>active, inactive, wired and free pages\<close>
  page_size :: u64
  task_info :: "(u64 \<times> u64 \<times> (int \<times> int) \<times> (int \<times> int)) option"

record FIRCLSProcess =
  thisThread :: thread_t
  crashedThread :: thread_t
  process_threads :: "thread_t list"
  threadCount :: u32

text \<open>What the \<open>#if\<close>s select: the unwinder, the context made up for the current thread from its PC,
  frame address and return address, the writer of the registers, and the selector of the message
  send it crashed in (0 for none). \<open>uap_context\<close> is the machine
  context of the signal handler's argument, \<open>None\<close> for an invalid pointer.\<close>

record ('r, 'x) process_target =
  target_unwinder :: "'r unwinder"
  fake_context :: "addr \<Rightarrow> addr \<Rightarrow> addr \<Rightarrow> 'r \<times> 'x"
  record_registers :: "'r \<times> 'x \<Rightarrow> FIRCLSFile \<Rightarrow> FIRCLSFile"
  selector_address :: "('r \<times> 'x) \<Rightarrow> addr"

definition FIRCLSProcessInit ::
    "('r, 'x) kernel \<Rightarrow> thread_t \<Rightarrow> bool \<times> FIRCLSProcess" where
  "FIRCLSProcessInit K crashed =
     (case task_threads K of
        None \<Rightarrow> (False, \<lparr>thisThread = mach_thread_self K, crashedThread = crashed,
                          process_threads = [], threadCount = 0\<rparr>)
      | Some ts \<Rightarrow> (True, \<lparr>thisThread = mach_thread_self K, crashedThread = crashed,
                          process_threads = ts, threadCount = of_nat (length ts)\<rparr>))"

definition FIRCLSProcessIsCurrentThread :: "('r, 'x) kernel \<Rightarrow> FIRCLSProcess \<Rightarrow> thread_t \<Rightarrow> bool" where
  "FIRCLSProcessIsCurrentThread K p t \<longleftrightarrow> port_index K (thisThread p) = port_index K t"

definition FIRCLSProcessIsCrashedThread :: "('r, 'x) kernel \<Rightarrow> FIRCLSProcess \<Rightarrow> thread_t \<Rightarrow> bool" where
  "FIRCLSProcessIsCrashedThread K p t \<longleftrightarrow> port_index K (crashedThread p) = port_index K t"

definition FIRCLSProcessGetThread :: "FIRCLSProcess \<Rightarrow> u32 \<Rightarrow> thread_t" where
  "FIRCLSProcessGetThread p index =
     (if index \<ge> threadCount p then 0 else process_threads p ! unat index)"

section \<open>Suspending and resuming\<close>

text \<open>The loop over the threads from index \<open>i\<close> on: \<open>op\<close> is the kernel call, made only while
  \<open>success\<close> holds, \<open>done\<close> the threads it has been made on.\<close>

fun thread_op_loop ::
    "nat \<Rightarrow> u32 \<Rightarrow> ('r, 'x) kernel \<Rightarrow> (thread_t \<Rightarrow> bool) \<Rightarrow> FIRCLSProcess \<Rightarrow> bool \<Rightarrow> thread_t list \<Rightarrow>
       bool \<times> thread_t list" where
  "thread_op_loop 0 i K op p success calls = (success, calls)"
| "thread_op_loop (Suc n) i K op p success calls =
     (let thread = FIRCLSProcessGetThread p i in
      if FIRCLSProcessIsCurrentThread K p thread then thread_op_loop n (i + 1) K op p success calls
      else if success then thread_op_loop n (i + 1) K op p (op thread) (calls @ [thread])
      else thread_op_loop n (i + 1) K op p False calls)"

definition FIRCLSProcessSuspendAllOtherThreads ::
    "('r, 'x) kernel \<Rightarrow> FIRCLSProcess \<Rightarrow> bool \<times> thread_t list" where
  "FIRCLSProcessSuspendAllOtherThreads K p =
     thread_op_loop (unat (threadCount p)) 0 K (thread_suspend K) p True []"

definition FIRCLSProcessResumeAllOtherThreads ::
    "('r, 'x) kernel \<Rightarrow> FIRCLSProcess \<Rightarrow> bool \<times> thread_t list" where
  "FIRCLSProcessResumeAllOtherThreads K p =
     thread_op_loop (unat (threadCount p)) 0 K (thread_resume K) p True []"

section \<open>Thread states\<close>

definition FIRCLSProcessGetThreadState ::
    "('r, 'x) kernel \<Rightarrow> ('r, 'x) process_target \<Rightarrow> ('r \<times> 'x) option \<Rightarrow> FIRCLSProcess \<Rightarrow> thread_t \<Rightarrow>
       ('r \<times> 'x) option" where
  "FIRCLSProcessGetThreadState K T uap_context p thread =
     (case (if FIRCLSProcessIsCrashedThread K p thread then uap_context else None) of
        Some c \<Rightarrow> Some c
      | None \<Rightarrow>
          if FIRCLSProcessIsCurrentThread K p thread then
            (let (pc, frameAddress, ret) = current_frame K in Some (fake_context T pc frameAddress ret))
          else thread_get_state K thread)"

text \<open>On arm64 the rest of the context is \<open>cpsr\<close>; on x86_64 it is \<open>rflags\<close>, \<open>cs\<close>, \<open>fs\<close>, \<open>gs\<close>.\<close>

definition arm64_fake_context :: "addr \<Rightarrow> addr \<Rightarrow> addr \<Rightarrow> arm64_context \<times> u32" where
  "arm64_fake_context pc frameAddress ret =
     (let r = \<lparr>arm_x = (\<lambda>_. 0), arm_fp = 0, arm_lr = 0, arm_sp = 0, arm_pc = 0\<rparr>;
          r = snd (arm64_SetPC r pc);
          r = snd (arm64_SetFramePointer r frameAddress);
          r = snd (arm64_SetLinkRegister r ret);
          r = snd (arm64_SetStackPointer r (UnwindStackPointerFromFramePointer frameAddress))
      in (r, 0))"

definition x86_64_fake_context :: "addr \<Rightarrow> addr \<Rightarrow> addr \<Rightarrow> x86_64_context \<times> u64 \<times> u64 \<times> u64 \<times> u64" where
  "x86_64_fake_context pc frameAddress ret =
     (\<lparr>rax = 0, rbx = 0, rcx = 0, rdx = 0, rdi = 0, rsi = 0, rbp = frameAddress,
       rsp = UnwindStackPointerFromFramePointer frameAddress, r8 = 0, r9 = 0, r10 = 0, r11 = 0,
       r12 = 0, r13 = 0, r14 = 0, r15 = 0, rip = pc\<rparr>, 0, 0, 0, 0)"

section \<open>Registers\<close>

definition write_uint64_entries :: "(string \<times> u64) list \<Rightarrow> FIRCLSFile \<Rightarrow> FIRCLSFile" where
  "write_uint64_entries kvs f = fold (\<lambda>(k, v) f. FIRCLSFileWriteHashEntryUint64 f k v) kvs f"

definition arm64_register_names :: "string list" where
  "arm64_register_names =
     [''x0'', ''x1'', ''x2'', ''x3'', ''x4'', ''x5'', ''x6'', ''x7'', ''x8'', ''x9'', ''x10'', ''x11'',
      ''x12'', ''x13'', ''x14'', ''x15'', ''x16'', ''x17'', ''x18'', ''x19'', ''x20'', ''x21'', ''x22'',
      ''x23'', ''x24'', ''x25'', ''x26'', ''x27'', ''x28'']"

definition arm64_register_entries :: "arm64_context \<times> u32 \<Rightarrow> (string \<times> u64) list" where
  "arm64_register_entries c =
     (let (r, cpsr) = c in
      zip arm64_register_names (map (arm_x r) [0..<29]) @
      [(''fp'', arm64_GetFramePointer r), (''sp'', arm64_GetStackPointer r),
       (''lr'', arm64_GetLinkRegister r), (''pc'', arm64_GetPC r), (''cpsr'', ucast cpsr)])"

definition x86_64_register_entries :: "x86_64_context \<times> u64 \<times> u64 \<times> u64 \<times> u64 \<Rightarrow> (string \<times> u64) list" where
  "x86_64_register_entries c =
     (let (r, rflags, cs, fs, gs) = c in
      [(''rax'', rax r), (''rbx'', rbx r), (''rcx'', rcx r), (''rdx'', rdx r), (''rdi'', rdi r),
       (''rsi'', rsi r), (''rbp'', rbp r), (''rsp'', rsp r), (''r8'', r8 r), (''r9'', r9 r),
       (''r10'', r10 r), (''r11'', r11 r), (''r12'', r12 r), (''r13'', r13 r), (''r14'', r14 r),
       (''r15'', r15 r), (''rip'', rip r), (''rflags'', rflags), (''cs'', cs), (''fs'', fs), (''gs'', gs)])"

section \<open>The Objective-C selector\<close>

text \<open>Where the message-send functions of the runtime are.\<close>

record objc_runtime =
  objc_msgSend :: addr
  objc_msgSendSuper :: addr
  objc_msgSend_stret :: addr
  objc_msgSendSuper_stret :: addr
  objc_msgSend_fpret :: addr

definition in_msg_send :: "addr \<Rightarrow> addr \<Rightarrow> bool" where
  "in_msg_send pc start \<longleftrightarrow> pc \<ge> start \<and> pc \<le> start + 66"

definition arm64_selector_address :: "objc_runtime \<Rightarrow> arm64_context \<times> u32 \<Rightarrow> addr" where
  "arm64_selector_address R c =
     (let r = fst c in if in_msg_send (arm64_GetPC r) (objc_msgSend R) then arm_x r 1 else 0)"

definition x86_64_selector_address :: "objc_runtime \<Rightarrow> x86_64_context \<times> u64 \<times> u64 \<times> u64 \<times> u64 \<Rightarrow> addr" where
  "x86_64_selector_address R c =
     (let r = fst c; pc = rip r; selRegister = rsi r; stretSelRegister = rdx r; s = 0;
          s = (if in_msg_send pc (objc_msgSend R) then selRegister else s);
          s = (if in_msg_send pc (objc_msgSendSuper R) then selRegister else s);
          s = (if in_msg_send pc (objc_msgSend_stret R) then stretSelRegister else s);
          s = (if in_msg_send pc (objc_msgSendSuper_stret R) then stretSelRegister else s)
      in if in_msg_send pc (objc_msgSend_fpret R) then selRegister else s)"

section \<open>The two targets\<close>

definition arm64_process ::
    "objc_runtime \<Rightarrow> unwind_abi \<Rightarrow> arm_abi \<Rightarrow> (arm64_context, u32) process_target" where
  "arm64_process R B K = \<lparr>target_unwinder = arm64_unwinder B K, fake_context = arm64_fake_context,
     record_registers = (\<lambda>c. write_uint64_entries (arm64_register_entries c)),
     selector_address = arm64_selector_address R\<rparr>"

definition x86_64_process ::
    "objc_runtime \<Rightarrow> unwind_abi \<Rightarrow> x86_abi \<Rightarrow> (x86_64_context, u64 \<times> u64 \<times> u64 \<times> u64) process_target" where
  "x86_64_process R B K = \<lparr>target_unwinder = x86_64_unwinder B K, fake_context = x86_64_fake_context,
     record_registers = (\<lambda>c. write_uint64_entries (x86_64_register_entries c)),
     selector_address = x86_64_selector_address R\<rparr>"

section \<open>The stack trace\<close>

text \<open>The locals of the recording loop.\<close>

record trace_state =
  repeatedPCCount :: u32
  repeatedPC :: u64
  trace_file :: FIRCLSFile

definition record_frame :: "u64 \<Rightarrow> u32 \<Rightarrow> trace_state \<Rightarrow> trace_state" where
  "record_frame pc count st =
     (if repeatedPC st = pc \<and> repeatedPC st \<noteq> 0 then st\<lparr>repeatedPCCount := count\<rparr>
      else if count \<ge> FIRCLSUnwindInfiniteRecursionCountThreshold \<and> repeatedPC st = 0
      then st\<lparr>repeatedPC := pc\<rparr>
      else st\<lparr>trace_file := FIRCLSFileWriteArrayEntryUint64 (trace_file st) pc\<rparr>)"

text \<open>Every frame makes \<open>frameCount\<close> grow, up to the maximum, so the loop ends.\<close>

lemma next_frame_measure:
  assumes "FIRCLSUnwindNextFrame P m ims ctx = Some (True, ctx')"
  shows "unat (max_frames P) - unat (frameCount ctx') < unat (max_frames P) - unat (frameCount ctx)"
proof -
  have "frameCount ctx < max_frames P" "frameCount ctx' = frameCount ctx + 1"
    using next_frame_true [OF assms] by auto
  moreover from this have "unat (frameCount ctx + 1) = unat (frameCount ctx) + 1"
    using unat_less [of "max_frames P"] unat_add_of_nat_small [of "frameCount ctx" 1]
    by (simp add: word_less_nat_alt)
  ultimately show ?thesis by (simp add: word_less_nat_alt)
qed

function record_loop ::
    "'r unwinder \<Rightarrow> mem \<Rightarrow> images \<Rightarrow> 'r FIRCLSUnwindContext \<Rightarrow> trace_state \<Rightarrow> trace_state option" where
  "record_loop P m ims ctx st =
     (case FIRCLSUnwindNextFrame P m ims ctx of
        None \<Rightarrow> None
      | Some (ok, ctx') \<Rightarrow>
          if \<not> ok then Some st
          else record_loop P m ims ctx'
                 (record_frame (FIRCLSUnwindGetPC P ctx') (FIRCLSUnwindGetFrameRepeatCount ctx') st))"
  by pat_completeness auto

termination
  by (relation "measure (\<lambda>(P, m, ims, ctx, st). unat (max_frames P) - unat (frameCount ctx))")
    (auto intro: next_frame_measure)

declare record_loop.simps [simp del]

definition FIRCLSProcessRecordThread ::
    "('r, 'x) kernel \<Rightarrow> ('r, 'x) process_target \<Rightarrow> mem \<Rightarrow> images \<Rightarrow> ('r \<times> 'x) option \<Rightarrow>
       FIRCLSProcess \<Rightarrow> thread_t \<Rightarrow> FIRCLSFile \<Rightarrow> (bool \<times> FIRCLSFile) option" where
  "FIRCLSProcessRecordThread K T m ims uap p thread f =
     (case FIRCLSProcessGetThreadState K T uap p thread of
        None \<Rightarrow> Some (False, f)
      | Some context \<Rightarrow>
          let unwindContext = FIRCLSUnwindInit (fst context);
              f = FIRCLSFileWriteHashStart f;
              f = FIRCLSFileWriteHashKey f ''registers'';
              f = FIRCLSFileWriteHashStart f;
              f = record_registers T context f;
              f = FIRCLSFileWriteHashEnd f;
              f = FIRCLSFileWriteHashKey f ''stacktrace'';
              f = FIRCLSFileWriteArrayStart f
          in do {
            st \<leftarrow> record_loop (target_unwinder T) m ims unwindContext
                    \<lparr>repeatedPCCount = 0, repeatedPC = 0, trace_file = f\<rparr>;
            let f = FIRCLSFileWriteArrayEnd (trace_file st);
            let f = (if FIRCLSProcessIsCrashedThread K p thread
                     then FIRCLSFileWriteHashEntryBoolean f ''crashed'' True else f);
            let f = (if repeatedPC st \<noteq> 0 then
                       let f = FIRCLSFileWriteHashEntryUint64 f ''repeated_pc'' (repeatedPC st)
                       in FIRCLSFileWriteHashEntryUint64 f ''repeat_count'' (ucast (repeatedPCCount st))
                     else f);
            Some (True, FIRCLSFileWriteHashEnd f) })"

section \<open>All threads\<close>

text \<open>\<open>n\<close> threads are left, from index \<open>i\<close> on; a failure returns at once.\<close>

fun record_threads_loop ::
    "nat \<Rightarrow> u32 \<Rightarrow> ('r, 'x) kernel \<Rightarrow> ('r, 'x) process_target \<Rightarrow> mem \<Rightarrow> images \<Rightarrow> ('r \<times> 'x) option \<Rightarrow>
       FIRCLSProcess \<Rightarrow> FIRCLSFile \<Rightarrow> (bool \<times> FIRCLSFile) option" where
  "record_threads_loop 0 i K T m ims uap p f = Some (True, f)"
| "record_threads_loop (Suc n) i K T m ims uap p f =
     do { (ok, f) \<leftarrow> FIRCLSProcessRecordThread K T m ims uap p (FIRCLSProcessGetThread p i) f;
          if \<not> ok then Some (False, f)
          else record_threads_loop n (i + 1) K T m ims uap p f }"

definition FIRCLSProcessRecordAllThreads ::
    "('r, 'x) kernel \<Rightarrow> ('r, 'x) process_target \<Rightarrow> mem \<Rightarrow> images \<Rightarrow> ('r \<times> 'x) option \<Rightarrow>
       FIRCLSProcess \<Rightarrow> FIRCLSFile \<Rightarrow> (bool \<times> FIRCLSFile) option" where
  "FIRCLSProcessRecordAllThreads K T m ims uap p f =
     (let f = FIRCLSFileWriteSectionStart f ''threads'';
          f = FIRCLSFileWriteArrayStart f
      in do {
        (ok, f) \<leftarrow> record_threads_loop (unat (threadCount p)) 0 K T m ims uap p f;
        if \<not> ok then Some (False, f)
        else Some (True, FIRCLSFileWriteSectionEnd (FIRCLSFileWriteArrayEnd f)) })"

section \<open>Names\<close>

text \<open>\<open>FIRCLSReadString\<close>: true when a terminator comes before an unreadable byte, or \<open>maxlen\<close> bytes
  are readable; the string itself is not copied.\<close>

fun read_string_loop :: "nat \<Rightarrow> mem \<Rightarrow> addr \<Rightarrow> addr \<Rightarrow> bool" where
  "read_string_loop 0 m limit address = True"
| "read_string_loop (Suc n) m limit address =
     (if \<not> address < limit then True
      else case FIRCLSReadMemory m address 1 of
        None \<Rightarrow> False
      | Some bs \<Rightarrow> if bs = [0] then True else read_string_loop n m limit (address + 1))"

definition FIRCLSReadString :: "mem \<Rightarrow> addr \<Rightarrow> nat \<Rightarrow> bool" where
  "FIRCLSReadString m src maxlen = read_string_loop maxlen m (src + of_nat maxlen) src"

text \<open>The C string at an address, as its readers see it; \<open>None\<close> when they run off readable memory.\<close>

partial_function (option) c_string :: "mem \<Rightarrow> addr \<Rightarrow> string option" where
  "c_string m a =
     do { b \<leftarrow> m a;
          if b = 0 then Some []
          else do { rest \<leftarrow> c_string m (a + 1); Some (char_of (unat b) # rest) } }"

fun record_names_loop ::
    "nat \<Rightarrow> u32 \<Rightarrow> (thread_t \<Rightarrow> string) \<Rightarrow> FIRCLSProcess \<Rightarrow> FIRCLSFile \<Rightarrow> FIRCLSFile" where
  "record_names_loop 0 i name p f = f"
| "record_names_loop (Suc n) i name p f =
     record_names_loop n (i + 1) name p
       (FIRCLSFileWriteArrayEntryString f (Some (name (FIRCLSProcessGetThread p i))))"

definition FIRCLSProcessRecordThreadNames ::
    "('r, 'x) kernel \<Rightarrow> FIRCLSProcess \<Rightarrow> FIRCLSFile \<Rightarrow> FIRCLSFile" where
  "FIRCLSProcessRecordThreadNames K p f =
     (let f = FIRCLSFileWriteSectionStart f ''thread_names'';
          f = FIRCLSFileWriteArrayStart f;
          f = record_names_loop (unat (threadCount p)) 0 (thread_name K) p f
      in FIRCLSFileWriteSectionEnd (FIRCLSFileWriteArrayEnd f))"

text \<open>The inner \<open>None\<close> is \<open>NULL\<close>.\<close>

definition FIRCLSProcessGetThreadDispatchQueueName ::
    "('r, 'x) kernel \<Rightarrow> mem \<Rightarrow> thread_t \<Rightarrow> string option option" where
  "FIRCLSProcessGetThreadDispatchQueueName K m thread =
     (case thread_dispatch_qaddr K thread of
        None \<Rightarrow> Some None
      | Some queueAddress \<Rightarrow>
          if queueAddress = 0 then Some (Some [])
          else (case read_word m queueAddress of
            None \<Rightarrow> Some (Some [])
          | Some queue \<Rightarrow>
              if queue = 0 then Some (Some [])
              else if \<not> FIRCLSReadString m (dispatch_queue_get_label K queue) 128 then Some (Some [])
              else map_option Some (c_string m (dispatch_queue_get_label K queue))))"

fun record_queue_names_loop ::
    "nat \<Rightarrow> u32 \<Rightarrow> ('r, 'x) kernel \<Rightarrow> mem \<Rightarrow> FIRCLSProcess \<Rightarrow> FIRCLSFile \<Rightarrow> FIRCLSFile option" where
  "record_queue_names_loop 0 i K m p f = Some f"
| "record_queue_names_loop (Suc n) i K m p f =
     do { name \<leftarrow> FIRCLSProcessGetThreadDispatchQueueName K m (FIRCLSProcessGetThread p i);
          record_queue_names_loop n (i + 1) K m p (FIRCLSFileWriteArrayEntryString f name) }"

definition FIRCLSProcessRecordDispatchQueueNames ::
    "('r, 'x) kernel \<Rightarrow> mem \<Rightarrow> FIRCLSProcess \<Rightarrow> FIRCLSFile \<Rightarrow> FIRCLSFile option" where
  "FIRCLSProcessRecordDispatchQueueNames K m p f =
     do { let f = FIRCLSFileWriteSectionStart f ''dispatch_queue_names'';
          let f = FIRCLSFileWriteArrayStart f;
          f \<leftarrow> record_queue_names_loop (unat (threadCount p)) 0 K m p f;
          Some (FIRCLSFileWriteSectionEnd (FIRCLSFileWriteArrayEnd f)) }"

section \<open>Statistics\<close>

definition FIRCLSProcessGetMemoryUsage :: "('r, 'x) kernel \<Rightarrow> (u64 \<times> u64 \<times> u64 \<times> u64) option" where
  "FIRCLSProcessGetMemoryUsage K =
     (case host_statistics K of
        None \<Rightarrow> None
      | Some (active, inactive, wired, free) \<Rightarrow>
          Some (ucast active * page_size K, ucast inactive * page_size K,
                ucast wired * page_size K, ucast free * page_size K))"

definition FIRCLSProcessGetInfo ::
    "('r, 'x) kernel \<Rightarrow> (u64 \<times> u64 \<times> (int \<times> int) \<times> (int \<times> int)) option" where
  "FIRCLSProcessGetInfo K = task_info K"

text \<open>\<open>seconds * 1000 * 1000 + microseconds\<close> on two 32-bit \<open>int\<close>s; \<open>None\<close> where it overflows.\<close>

definition int32 :: "int \<Rightarrow> int option" where
  "int32 x = (if - (2 ^ 31) \<le> x \<and> x < 2 ^ 31 then Some x else None)"

definition microseconds :: "int \<times> int \<Rightarrow> u64 option" where
  "microseconds t =
     (let (seconds, micro) = t in
      do { a \<leftarrow> int32 (seconds * 1000);
           b \<leftarrow> int32 (a * 1000);
           c \<leftarrow> int32 (b + micro);
           Some (of_int c) })"

definition FIRCLSProcessRecordStats :: "('r, 'x) kernel \<Rightarrow> FIRCLSFile \<Rightarrow> FIRCLSFile option" where
  "FIRCLSProcessRecordStats K f =
     (case FIRCLSProcessGetMemoryUsage K of
        None \<Rightarrow> Some f
      | Some (active, inactive, wired, freeMem) \<Rightarrow>
      case FIRCLSProcessGetInfo K of
        None \<Rightarrow> Some f
      | Some (virtualSize, residentSize, userTime, systemTime) \<Rightarrow>
          do { let f = FIRCLSFileWriteSectionStart f ''process_stats'';
               let f = FIRCLSFileWriteHashStart f;
               let f = FIRCLSFileWriteHashEntryUint64 f ''active'' active;
               let f = FIRCLSFileWriteHashEntryUint64 f ''inactive'' inactive;
               let f = FIRCLSFileWriteHashEntryUint64 f ''wired'' wired;
               let f = FIRCLSFileWriteHashEntryUint64 f ''freeMem'' freeMem;
               let f = FIRCLSFileWriteHashEntryUint64 f ''free_mem'' freeMem;
               let f = FIRCLSFileWriteHashEntryUint64 f ''virtual'' virtualSize;
               let f = FIRCLSFileWriteHashEntryUint64 f ''resident'' active;
               user \<leftarrow> microseconds userTime;
               let f = FIRCLSFileWriteHashEntryUint64 f ''user_time'' user;
               sys \<leftarrow> microseconds systemTime;
               let f = FIRCLSFileWriteHashEntryUint64 f ''sys_time'' sys;
               Some (FIRCLSFileWriteSectionEnd (FIRCLSFileWriteHashEnd f)) })"

section \<open>Runtime information\<close>

definition FIRCLSProcessGetObjCSelectorName ::
    "('r, 'x) process_target \<Rightarrow> mem \<Rightarrow> ('r \<times> 'x) \<Rightarrow> string option" where
  "FIRCLSProcessGetObjCSelectorName T m c =
     (let a = selector_address T c in
      if a = 0 then Some []
      else if \<not> FIRCLSReadString m a 128 then Some []
      else c_string m a)"

text \<open>\<open>crash_info_t\<close> has 8-byte fields: \<open>version\<close> is the word at 0, \<open>message\<close> the pointer at 8.\<close>

fun crash_info_loop ::
    "FIRCLSBinaryImageRuntimeNode list \<Rightarrow> mem \<Rightarrow> FIRCLSFile \<Rightarrow> FIRCLSFile option" where
  "crash_info_loop [] m f = Some f"
| "crash_info_loop (node # nodes) m f =
     (if crashInfo node = 0 then crash_info_loop nodes m f
      else case FIRCLSReadMemory m (crashInfo node) 56 of
        None \<Rightarrow> crash_info_loop nodes m f
      | Some info \<Rightarrow>
          let version = (of_nat (le_nat (take 4 info)) :: u32);
              message = (of_nat (le_nat (take 8 (drop 8 info))) :: addr) in
          if version > 5 then crash_info_loop nodes m f
          else if message = 0 then crash_info_loop nodes m f
          else if \<not> FIRCLSReadString m message 256 then crash_info_loop nodes m f
          else do { s \<leftarrow> c_string m message;
                    crash_info_loop nodes m (FIRCLSFileWriteArrayEntryHexEncodedString f (Some s)) })"

definition FIRCLSProcessRecordCrashInfo :: "mem \<Rightarrow> images \<Rightarrow> FIRCLSFile \<Rightarrow> FIRCLSFile option" where
  "FIRCLSProcessRecordCrashInfo m ims f =
     (case ims of
        None \<Rightarrow> Some f
      | Some nodes \<Rightarrow> crash_info_loop (take CLS_BINARY_IMAGE_RUNTIME_NODE_COUNT nodes) m f)"

text \<open>When the thread state cannot be had the source goes on with an uninitialised context.\<close>

definition FIRCLSProcessRecordRuntimeInfo ::
    "('r, 'x) kernel \<Rightarrow> ('r, 'x) process_target \<Rightarrow> mem \<Rightarrow> images \<Rightarrow> ('r \<times> 'x) option \<Rightarrow>
       FIRCLSProcess \<Rightarrow> FIRCLSFile \<Rightarrow> FIRCLSFile option" where
  "FIRCLSProcessRecordRuntimeInfo K T m ims uap p f =
     do { mcontext \<leftarrow> FIRCLSProcessGetThreadState K T uap p (crashedThread p);
          let f = FIRCLSFileWriteSectionStart f ''runtime'';
          let f = FIRCLSFileWriteHashStart f;
          name \<leftarrow> FIRCLSProcessGetObjCSelectorName T m mcontext;
          let f = FIRCLSFileWriteHashEntryString f ''objc_selector'' (Some name);
          let f = FIRCLSFileWriteHashKey f ''crash_info_entries'';
          let f = FIRCLSFileWriteArrayStart f;
          f \<leftarrow> FIRCLSProcessRecordCrashInfo m ims f;
          let f = FIRCLSFileWriteArrayEnd f;
          let f = FIRCLSFileWriteHashEnd f;
          Some (FIRCLSFileWriteSectionEnd f) }"

section \<open>What the recording loop records\<close>

text \<open>The loop over the program counters an unwind yields.\<close>

fun record_pcs :: "u64 \<Rightarrow> u32 \<Rightarrow> u64 list \<Rightarrow> trace_state \<Rightarrow> trace_state" where
  "record_pcs prev count [] st = st"
| "record_pcs prev count (pc # pcs) st =
     (let count' = (if prev = pc then count + 1 else 0)
      in record_pcs pc count' pcs (record_frame pc count' st))"

lemma record_loop_unwinds:
  assumes "unwinds P m ims ctx pcs"
  shows "record_loop P m ims ctx st = Some (record_pcs (lastFramePC ctx) (repeatCount ctx) pcs st)"
  using assms
proof (induction arbitrary: st)
  case (finished ctx ctx')
  then show ?case by (simp add: record_loop.simps)
next
  case (frame ctx ctx' pcs)
  with next_frame_true [OF frame(1)] show ?case
    by (subst record_loop.simps) (simp add: FIRCLSUnwindGetFrameRepeatCount_def Let_def)
qed


text \<open>No program counter more than ten times in a row.\<close>

fun calm :: "u64 \<Rightarrow> nat \<Rightarrow> u64 list \<Rightarrow> bool" where
  "calm prev count [] = True"
| "calm prev count (pc # pcs) =
     (let count' = (if prev = pc then count + 1 else 0) in count' < 10 \<and> calm pc count' pcs)"

definition write_pcs :: "u64 list \<Rightarrow> FIRCLSFile \<Rightarrow> FIRCLSFile" where
  "write_pcs pcs f = fold (\<lambda>pc f. FIRCLSFileWriteArrayEntryUint64 f pc) pcs f"

lemma write_pcs_append: "write_pcs (xs @ ys) f = write_pcs ys (write_pcs xs f)"
  by (simp add: write_pcs_def)

text \<open>The count after a list, which the next frames go on from.\<close>

fun run_count :: "u64 \<Rightarrow> nat \<Rightarrow> u64 list \<Rightarrow> nat" where
  "run_count prev count [] = count"
| "run_count prev count (pc # pcs) = run_count pc (if prev = pc then count + 1 else 0) pcs"

lemma record_pcs_calm:
  assumes "calm prev count a" "repeatedPC st = 0" "count < 2 ^ 31"
  shows "record_pcs prev (of_nat count) (a @ b) st =
    record_pcs (last (prev # a)) (of_nat (run_count prev count a)) b (st\<lparr>trace_file := write_pcs a (trace_file st)\<rparr>)"
  using assms
proof (induction a arbitrary: prev count st)
  case Nil
  then show ?case by (simp add: write_pcs_def)
next
  case (Cons pc a)
  define c where "c = (if prev = pc then count + 1 else 0)"
  have c: "c < 10" "calm pc c a" using Cons.prems(1) by (auto simp: c_def Let_def)
  have w: "(if prev = pc then of_nat count + 1 else 0) = (of_nat c :: u32)" by (simp add: c_def)
  have "\<not> (of_nat c :: u32) \<ge> 10" using c(1) by (simp add: word_le_nat_alt unat_of_nat_small)
  then have r: "record_frame pc (of_nat c) st = st\<lparr>trace_file := FIRCLSFileWriteArrayEntryUint64 (trace_file st) pc\<rparr>"
    using Cons.prems(2) by (simp add: record_frame_def FIRCLSUnwindInfiniteRecursionCountThreshold_def)
  have "record_pcs prev (of_nat count) ((pc # a) @ b) st =
      record_pcs pc (of_nat c) (a @ b) (st\<lparr>trace_file := FIRCLSFileWriteArrayEntryUint64 (trace_file st) pc\<rparr>)"
    using w r by (simp add: Let_def)
  also have "\<dots> = record_pcs (last (pc # a)) (of_nat (run_count pc c a)) b
      (st\<lparr>trace_file := write_pcs a (FIRCLSFileWriteArrayEntryUint64 (trace_file st) pc)\<rparr>)"
    using c Cons.prems(2) by (subst Cons.IH) auto
  finally show ?case by (simp add: write_pcs_def c_def)
qed

text \<open>Once a recursion is known, its program counter is never written again.\<close>

lemma record_pcs_known:
  assumes "repeatedPC st = p" "p \<noteq> 0"
  shows "trace_file (record_pcs prev count b st) = write_pcs (filter (\<lambda>x. x \<noteq> p) b) (trace_file st)"
    and "repeatedPC (record_pcs prev count b st) = p"
    and "p \<notin> set b \<Longrightarrow> repeatedPCCount (record_pcs prev count b st) = repeatedPCCount st"
  using assms
  by (induction b arbitrary: prev count st) (auto simp: Let_def record_frame_def write_pcs_def)

lemma record_pcs_run:
  assumes "repeatedPC st = p" "p \<noteq> 0" "c + k < 2 ^ 32"
  shows "record_pcs p (of_nat c) (replicate k p @ b) st =
    record_pcs p (of_nat (c + k)) b (if k = 0 then st else st\<lparr>repeatedPCCount := of_nat (c + k)\<rparr>)"
  using assms
proof (induction k arbitrary: c st)
  case (Suc k)
  then show ?case
    using Suc.IH [of "st\<lparr>repeatedPCCount := of_nat (Suc c)\<rparr>" "Suc c"]
    by (simp add: Let_def record_frame_def algebra_simps)
qed simp

lemma calm_append:
  "calm prev c (a @ b) \<longleftrightarrow> calm prev c a \<and> calm (last (prev # a)) (run_count prev c a) b"
  by (induction a arbitrary: prev c) (auto simp: Let_def)

lemma calm_replicate: "c + k < 10 \<Longrightarrow> calm p c (replicate k p)"
  by (induction k arbitrary: c) (auto simp: Let_def)

lemma run_count_append: "run_count prev c (a @ b) = run_count (last (prev # a)) (run_count prev c a) b"
  by (induction a arbitrary: prev c) auto

lemma run_count_replicate: "run_count p c (replicate k p) = c + k"
  by (induction k arbitrary: c) auto

text \<open>A trace without long runs is recorded as it is.\<close>

lemma record_pcs_plain:
  assumes "calm 0 0 pcs" "repeatedPC st = 0"
  shows "record_pcs 0 0 pcs st = st\<lparr>trace_file := write_pcs pcs (trace_file st)\<rparr>"
  using record_pcs_calm [of 0 0 pcs st "[]"] assms by simp

lemma record_pcs_recursion:
  assumes a: "calm 0 0 a" and p: "last (0 # a) \<noteq> p" "p \<noteq> 0" and n: "10 < n" "n < 2 ^ 32"
    and st: "repeatedPC st = 0" and st'_def: "st' = record_pcs 0 0 (a @ replicate n p @ b) st"
  shows "repeatedPC st' = p"
    and "trace_file st' = write_pcs (a @ replicate 10 p @ filter (\<lambda>x. x \<noteq> p) b) (trace_file st)"
    and "p \<notin> set b \<Longrightarrow> repeatedPCCount st' = (if n = 11 then repeatedPCCount st else of_nat (n - 1))"
proof -
  let ?a = "a @ p # replicate 9 p"
  have n': "replicate n p = (p # replicate 9 p) @ p # replicate (n - 11) p"
    using n(1) by (simp flip: replicate_Suc add: replicate_add [symmetric])
  have calm: "calm 0 0 ?a" using a p(1) calm_replicate [of 0 9 p] by (simp add: calm_append Let_def)
  have last: "last (0 # ?a) = p" and count: "run_count 0 0 ?a = 9"
    using p(1) by (simp_all add: run_count_append run_count_replicate)
  define st1 where "st1 = st\<lparr>trace_file := write_pcs ?a (trace_file st)\<rparr>"
  have "st' = record_pcs p (of_nat 9) (p # replicate (n - 11) p @ b) st1"
    using record_pcs_calm [OF calm st, of "p # replicate (n - 11) p @ b"] unfolding last count st'_def n' st1_def
    by simp
  also have "\<dots> = record_pcs p (of_nat 10) (replicate (n - 11) p @ b) (st1\<lparr>repeatedPC := p\<rparr>)"
    using st p(2) by (simp add: st1_def record_frame_def FIRCLSUnwindInfiniteRecursionCountThreshold_def)
  also have "\<dots> = record_pcs p (of_nat (10 + (n - 11))) b
      (if n - 11 = 0 then st1\<lparr>repeatedPC := p\<rparr>
       else st1\<lparr>repeatedPC := p, repeatedPCCount := of_nat (10 + (n - 11))\<rparr>)"
    using n p(2) by (subst record_pcs_run) auto
  finally have st'_eq: "st' = record_pcs p (of_nat (n - 1)) b
      (if n = 11 then st1\<lparr>repeatedPC := p\<rparr> else st1\<lparr>repeatedPC := p, repeatedPCCount := of_nat (n - 1)\<rparr>)"
    using n(1) by (auto split: if_splits)
  have ten: "a @ replicate 10 p = ?a" by (simp add: numeral_eq_Suc)
  show "repeatedPC st' = p" unfolding st'_eq using p(2) by (intro record_pcs_known) auto
  show "trace_file st' = write_pcs (a @ replicate 10 p @ filter (\<lambda>x. x \<noteq> p) b) (trace_file st)"
    unfolding st'_eq append_assoc [symmetric] ten write_pcs_append [of ?a]
    by (subst record_pcs_known(1)) (auto simp: st1_def p(2))
  show "repeatedPCCount st' = (if n = 11 then repeatedPCCount st else of_nat (n - 1))" if "p \<notin> set b"
    unfolding st'_eq using that p(2) by (subst record_pcs_known(3)) (auto simp: st1_def)
qed

section \<open>The report of a thread\<close>

text \<open>What is recorded of a trace: the entries, the repeated program counter (0 for none) and its count.\<close>

definition recorded_as :: "u64 list \<Rightarrow> u64 list \<Rightarrow> u64 \<Rightarrow> u32 \<Rightarrow> bool" where
  "recorded_as pcs entries rep count \<longleftrightarrow>
     (\<forall>f. record_pcs 0 0 pcs \<lparr>repeatedPCCount = 0, repeatedPC = 0, trace_file = f\<rparr> =
        \<lparr>repeatedPCCount = count, repeatedPC = rep, trace_file = write_pcs entries f\<rparr>)"

lemma recorded_plain: "calm 0 0 pcs \<Longrightarrow> recorded_as pcs pcs 0 0"
  by (simp add: recorded_as_def record_pcs_plain)

lemma recorded_recursion:
  assumes "calm 0 0 a" "last (0 # a) \<noteq> p" "p \<noteq> 0" "10 < n" "n < 2 ^ 32" "p \<notin> set b"
  shows "recorded_as (a @ replicate n p @ b) (a @ replicate 10 p @ b) p (if n = 11 then 0 else of_nat (n - 1))"
  unfolding recorded_as_def
proof (intro allI)
  fix f
  have "filter (\<lambda>x. x \<noteq> p) b = b" using assms(6) by (auto simp: filter_id_conv)
  with record_pcs_recursion [OF assms(1-5), of "\<lparr>repeatedPCCount = 0, repeatedPC = 0, trace_file = f\<rparr>" _ b, OF _ refl] assms(6)
  show "record_pcs 0 0 (a @ replicate n p @ b) \<lparr>repeatedPCCount = 0, repeatedPC = 0, trace_file = f\<rparr> =
      \<lparr>repeatedPCCount = if n = 11 then 0 else of_nat (n - 1), repeatedPC = p,
       trace_file = write_pcs (a @ replicate 10 p @ b) f\<rparr>"
    by (intro trace_state.equality) auto
qed

definition thread_value :: "(string \<times> u64) list \<Rightarrow> u64 list \<Rightarrow> bool \<Rightarrow> u64 \<Rightarrow> u32 \<Rightarrow> json" where
  "thread_value regs entries crashed rep count =
     Object ([(''registers'', Object (map (\<lambda>(k, v). (k, Uint v)) regs)),
              (''stacktrace'', Array (map Uint entries))] @
             (if crashed then [(''crashed'', Boolean True)] else []) @
             (if rep \<noteq> 0 then [(''repeated_pc'', Uint rep), (''repeat_count'', Uint (ucast count))] else []))"

text \<open>The thread's registers and trace are available, and recorded so.\<close>

definition thread_recorded ::
    "('r, 'x) kernel \<Rightarrow> ('r, 'x) process_target \<Rightarrow> mem \<Rightarrow> images \<Rightarrow> ('r \<times> 'x) option \<Rightarrow> FIRCLSProcess \<Rightarrow>
       thread_t \<Rightarrow> json \<Rightarrow> bool" where
  "thread_recorded K T m ims uap p thread v \<longleftrightarrow>
     (\<exists>c regs pcs entries rep count.
        FIRCLSProcessGetThreadState K T uap p thread = Some c \<and>
        record_registers T c = write_uint64_entries regs \<and>
        unwinds (target_unwinder T) m ims (FIRCLSUnwindInit (fst c)) pcs \<and>
        recorded_as pcs entries rep count \<and>
        v = thread_value regs entries (FIRCLSProcessIsCrashedThread K p thread) rep count)"

lemma writes_uint64_entries:
  "writes_all (write_uint64_entries regs) (map member_text (map (\<lambda>(k, v). (k, Uint v)) regs))"
proof -
  have "writes (case x of (k, v) \<Rightarrow> (\<lambda>f. FIRCLSFileWriteHashEntryUint64 f k v))
      (member_text (case x of (k, v) \<Rightarrow> (k, Uint v)))" for x
    by (cases x) (simp add: writes_hash_entry)
  from writes_all_fold [of regs "\<lambda>(k, v) f. FIRCLSFileWriteHashEntryUint64 f k v", OF this]
  show ?thesis by (simp add: write_uint64_entries_def [abs_def] comp_def)
qed

lemma writes_pcs: "writes_all (write_pcs pcs) (map json_text (map Uint pcs))"
  using writes_all_fold [of pcs "\<lambda>pc f. FIRCLSFileWriteArrayEntryUint64 f pc" "\<lambda>pc. json_text (Uint pc)"]
    writes_array_entry(1) by (simp add: write_pcs_def [abs_def] comp_def)

definition thread_writer :: "(string \<times> u64) list \<Rightarrow> u64 list \<Rightarrow> bool \<Rightarrow> u64 \<Rightarrow> u32 \<Rightarrow> FIRCLSFile \<Rightarrow> FIRCLSFile" where
  "thread_writer regs entries crashed rep count f =
     (let f = FIRCLSFileWriteHashStart f;
          f = FIRCLSFileWriteHashEnd (write_uint64_entries regs
                (FIRCLSFileWriteHashStart (FIRCLSFileWriteHashKey f ''registers'')));
          f = FIRCLSFileWriteArrayEnd (write_pcs entries
                (FIRCLSFileWriteArrayStart (FIRCLSFileWriteHashKey f ''stacktrace'')));
          f = (if crashed then FIRCLSFileWriteHashEntryBoolean f ''crashed'' True else f);
          f = (if rep \<noteq> 0 then FIRCLSFileWriteHashEntryUint64
                  (FIRCLSFileWriteHashEntryUint64 f ''repeated_pc'' rep) ''repeat_count'' (ucast count) else f)
      in FIRCLSFileWriteHashEnd f)"

lemma separated_append:
  "ts \<noteq> [] \<Longrightarrow> us \<noteq> [] \<Longrightarrow> separated (ts @ us) = separated ts @ '','' @ separated us"
  by (cases ts; cases us) (auto simp: separated_Cons)

lemma writes_all_append:
  assumes "writes_all w ts" "writes_all w' us"
  shows "writes_all (\<lambda>f. w' (w f)) (ts @ us)"
  unfolding writes_all_def
proof (intro allI impI)
  fix f assume f: "reliable f \<and> collectionDepth f > 0"
  have 1: "appends f (w f) (if ts = [] then [] else comma (needComma f) @ separated ts)
      (ts \<noteq> [] \<or> needComma f) (collectionDepth f)"
    using assms(1) f by (simp add: writes_all_def)
  then have "appends (w f) (w' (w f)) (if us = [] then [] else comma (ts \<noteq> [] \<or> needComma f) @ separated us)
      (us \<noteq> [] \<or> ts \<noteq> [] \<or> needComma f) (collectionDepth f)"
    using assms(2) f unfolding writes_all_def by (force simp: appends_def)
  from appends_trans [OF 1 this]
  show "appends f (w' (w f)) (if ts @ us = [] then [] else comma (needComma f) @ separated (ts @ us))
      (ts @ us \<noteq> [] \<or> needComma f) (collectionDepth f)"
    by (cases "ts = []"; cases "us = []") (auto simp: separated_append comma_def)
qed

lemma writes_all_one: "writes w t \<Longrightarrow> writes_all w [t]"
  using writes_all_Cons [OF _ writes_all_Nil] by simp

lemma writes_thread:
  "writes (thread_writer regs entries crashed rep count)
     (json_text (thread_value regs entries crashed rep count))"
proof -
  define w1 where "w1 f = FIRCLSFileWriteHashEnd (write_uint64_entries regs
                (FIRCLSFileWriteHashStart (FIRCLSFileWriteHashKey f ''registers'')))" for f
  define w2 where "w2 f = FIRCLSFileWriteArrayEnd (write_pcs entries
                (FIRCLSFileWriteArrayStart (FIRCLSFileWriteHashKey f ''stacktrace'')))" for f
  define w3 where "w3 f = (if crashed then FIRCLSFileWriteHashEntryBoolean f ''crashed'' True else f)" for f
  define w4 where "w4 f = (if rep \<noteq> 0 then FIRCLSFileWriteHashEntryUint64
                  (FIRCLSFileWriteHashEntryUint64 f ''repeated_pc'' rep) ''repeat_count'' (ucast count) else f)" for f
  have 1: "writes_all w1 [member_text (''registers'', Object (map (\<lambda>(k, v). (k, Uint v)) regs))]"
    unfolding w1_def [abs_def] by (intro writes_all_one writes_member writes_hash writes_uint64_entries)
  have 2: "writes_all w2 [member_text (''stacktrace'', Array (map Uint entries))]"
    unfolding w2_def [abs_def] by (intro writes_all_one writes_member writes_array writes_pcs)
  have 3: "writes_all w3 (map member_text (if crashed then [(''crashed'', Boolean True)] else []))"
    unfolding w3_def [abs_def] using writes_all_one [OF writes_hash_entry(4)] writes_all_Nil by simp
  have 4: "writes_all w4 (map member_text
      (if rep \<noteq> 0 then [(''repeated_pc'', Uint rep), (''repeat_count'', Uint (ucast count))] else []))"
    unfolding w4_def [abs_def]
    using writes_all_Cons [OF writes_hash_entry(1) writes_all_one [OF writes_hash_entry(1)]] writes_all_Nil by simp
  have "writes_all (\<lambda>f. w4 (w3 (w2 (w1 f)))) (map member_text
     ([(''registers'', Object (map (\<lambda>(k, v). (k, Uint v)) regs)), (''stacktrace'', Array (map Uint entries))] @
      (if crashed then [(''crashed'', Boolean True)] else []) @
      (if rep \<noteq> 0 then [(''repeated_pc'', Uint rep), (''repeat_count'', Uint (ucast count))] else [])))"
    using writes_all_append [OF writes_all_append [OF writes_all_append [OF 1 2] 3] 4] by (simp only: append_assoc map_append list.map append_Cons append_Nil)
  from writes_hash [OF this] show ?thesis
    unfolding thread_writer_def [abs_def] thread_value_def w1_def w2_def w3_def w4_def Let_def .
qed

lemma record_thread_writer:
  assumes "thread_recorded K T m ims uap p thread v"
  shows "\<exists>w. (\<forall>f. FIRCLSProcessRecordThread K T m ims uap p thread f = Some (True, w f)) \<and>
             writes w (json_text v)"
proof -
  obtain c regs pcs entries rep count where a:
      "FIRCLSProcessGetThreadState K T uap p thread = Some c"
      "record_registers T c = write_uint64_entries regs"
      "unwinds (target_unwinder T) m ims (FIRCLSUnwindInit (fst c)) pcs"
      "recorded_as pcs entries rep count"
      "v = thread_value regs entries (FIRCLSProcessIsCrashedThread K p thread) rep count"
    using assms by (auto simp: thread_recorded_def)
  have "record_loop (target_unwinder T) m ims (FIRCLSUnwindInit (fst c))
      \<lparr>repeatedPCCount = 0, repeatedPC = 0, trace_file = f\<rparr> =
    Some \<lparr>repeatedPCCount = count, repeatedPC = rep, trace_file = write_pcs entries f\<rparr>" for f
    using record_loop_unwinds [OF a(3)] a(4) by (simp add: recorded_as_def FIRCLSUnwindInit_def)
  then have "FIRCLSProcessRecordThread K T m ims uap p thread f =
      Some (True, thread_writer regs entries (FIRCLSProcessIsCrashedThread K p thread) rep count f)" for f
    using a(1,2) by (simp add: FIRCLSProcessRecordThread_def thread_writer_def Let_def)
  with writes_thread a(5) show ?thesis by blast
qed

text \<open>The section of all threads, when every thread can be recorded.\<close>

lemma record_threads_loop_writer:
  assumes "\<And>k. k < n \<Longrightarrow> thread_recorded K T m ims uap p (FIRCLSProcessGetThread p (i + of_nat k)) (vs ! k)"
    and "length vs = n"
  shows "\<exists>w. (\<forall>f. record_threads_loop n i K T m ims uap p f = Some (True, w f)) \<and>
             writes_all w (map json_text vs)"
  using assms
proof (induction n arbitrary: i vs)
  case 0
  then show ?case by (intro exI [of _ "\<lambda>f. f"]) (simp add: writes_all_Nil)
next
  case (Suc n)
  then obtain v vs' where vs: "vs = v # vs'" by (cases vs) auto
  have rec: "thread_recorded K T m ims uap p (FIRCLSProcessGetThread p i) v"
    using Suc.prems(1) [of 0] vs by simp
  obtain w1 where w1: "\<And>f. FIRCLSProcessRecordThread K T m ims uap p (FIRCLSProcessGetThread p i) f = Some (True, w1 f)"
      "writes w1 (json_text v)"
    using record_thread_writer [OF rec] by blast
  have "thread_recorded K T m ims uap p (FIRCLSProcessGetThread p (i + 1 + of_nat k)) (vs' ! k)" if "k < n" for k
    using Suc.prems(1) [of "Suc k"] that vs by (simp add: add.assoc)
  then obtain w where w: "\<And>f. record_threads_loop n (i + 1) K T m ims uap p f = Some (True, w f)"
      "writes_all w (map json_text vs')"
    using Suc.IH [of "i + 1" vs'] Suc.prems(2) vs by auto
  have "record_threads_loop (Suc n) i K T m ims uap p f = Some (True, w (w1 f))" for f
    using w1(1) w(1) by simp
  moreover have "writes_all (\<lambda>f. w (w1 f)) (map json_text vs)"
    using writes_all_Cons [OF w1(2) w(2)] vs by simp
  ultimately show ?case by (intro exI [of _ "\<lambda>f. w (w1 f)"]) simp
qed

text \<open>C17: When every thread can be recorded, the whole section written is one line of JSON: the
  object with the array of thread reports, each with its registers, stack trace, crashed mark
  and recursion count.\<close>

theorem record_all_threads_json:
  assumes "\<And>k. k < unat (threadCount p) \<Longrightarrow>
      thread_recorded K T m ims uap p (FIRCLSProcessGetThread p (of_nat k)) (vs ! k)"
    and "length vs = unat (threadCount p)"
    and "reliable f" "collectionDepth f = 0" "\<not> needComma f"
  shows "\<exists>g. FIRCLSProcessRecordAllThreads K T m ims uap p f = Some (True, g) \<and>
             appends f g (json_text (Object [(''threads'', Array vs)]) @ [CHR 0x0A]) False 0"
proof -
  obtain w where w: "\<And>f. record_threads_loop (unat (threadCount p)) 0 K T m ims uap p f = Some (True, w f)"
      "writes_all w (map json_text vs)"
    using record_threads_loop_writer [of "unat (threadCount p)" K T m ims uap p 0 vs] assms(1,2) by auto
  from section_text [OF assms(3-5) writes_array [OF w(2)], of "''threads''"] w(1) show ?thesis
    by (simp add: FIRCLSProcessRecordAllThreads_def Let_def)
qed

text \<open>When the state of a thread cannot be had, the section is left open in the file.\<close>

theorem record_all_threads_failure:
  assumes "0 < threadCount p" "FIRCLSProcessGetThreadState K T uap p (FIRCLSProcessGetThread p 0) = None"
    and "reliable f" "collectionDepth f = 0" "\<not> needComma f"
  shows "\<exists>g. FIRCLSProcessRecordAllThreads K T m ims uap p f = Some (False, g) \<and>
             appends f g (''{'' @ quoted ''threads'' @ '':['') False 2"
proof -
  let ?g = "FIRCLSFileWriteArrayStart (FIRCLSFileWriteSectionStart f ''threads'')"
  obtain n where n: "unat (threadCount p) = Suc n"
    using assms(1) by (metis gr0_implies_Suc unat_gt_0 less_irrefl)
  have 1: "appends f (FIRCLSFileWriteHashStart f) ''{'' False 1"
    using appends_start [OF assms(3), of "CHR ''{''"] assms(4,5)
    by (simp add: FIRCLSFileWriteHashStart_def comma_def)
  have 2: "appends (FIRCLSFileWriteHashStart f) (FIRCLSFileWriteSectionStart f ''threads'')
      (quoted ''threads'' @ '':'') False 1"
    using appends_key [OF appends_reliable [OF 1], of "''threads''"] 1
    by (simp add: FIRCLSFileWriteSectionStart_def appends_def comma_def)
  have 3: "appends (FIRCLSFileWriteSectionStart f ''threads'') ?g ''['' False 2"
    using appends_start [OF appends_reliable [OF 2], of "CHR ''[''"] 2
    by (simp add: FIRCLSFileWriteArrayStart_def appends_def comma_def)
  have "appends f ?g (''{'' @ quoted ''threads'' @ '':['') False 2"
    using appends_trans [OF appends_trans [OF 1 2] 3] by simp
  with n assms(2) show ?thesis
    by (simp add: FIRCLSProcessRecordAllThreads_def FIRCLSProcessRecordThread_def Let_def)
qed

section \<open>Suspending\<close>

text \<open>The kernel call is made on the other threads in order, up to and including the first one it
  fails on; the result tells whether there was one.\<close>

definition others_from :: "('r, 'x) kernel \<Rightarrow> FIRCLSProcess \<Rightarrow> nat \<Rightarrow> thread_t list" where
  "others_from K p i = filter (\<lambda>t. \<not> FIRCLSProcessIsCurrentThread K p t) (drop i (process_threads p))"

lemma thread_op_loop_calls:
  assumes "n + unat i = length (process_threads p)" "unat (threadCount p) = length (process_threads p)"
  shows "thread_op_loop n i K op p success calls =
    (if \<not> success then (False, calls)
     else (list_all op (others_from K p (unat i)),
           calls @ take (length (takeWhile op (others_from K p (unat i))) + 1) (others_from K p (unat i))))"
  using assms(1)
proof (induction n arbitrary: i success calls)
  case 0
  then show ?case by (simp add: others_from_def)
next
  case (Suc n)
  have lt: "unat i < unat (threadCount p)" using Suc.prems assms(2) by simp
  then have i: "i < threadCount p" by (simp add: word_less_nat_alt)
  have i1: "unat (i + 1) = unat i + 1"
    using lt unat_less [of "threadCount p"] unat_add_of_nat_small [of i 1] by simp
  have t: "FIRCLSProcessGetThread p i = process_threads p ! unat i"
    using i by (auto simp: FIRCLSProcessGetThread_def)
  have d: "drop (unat i) (process_threads p) = process_threads p ! unat i # drop (unat (i + 1)) (process_threads p)"
    using Suc.prems i1 by (simp add: Cons_nth_drop_Suc)
  have others: "others_from K p (unat i) =
    (if FIRCLSProcessIsCurrentThread K p (process_threads p ! unat i) then others_from K p (unat (i + 1))
     else process_threads p ! unat i # others_from K p (unat (i + 1)))"
    unfolding others_from_def d by simp
  have "n + unat (i + 1) = length (process_threads p)" using Suc.prems i1 by simp
  note IH = Suc.IH [OF this]
  show ?case
    unfolding thread_op_loop.simps Let_def t IH others by auto
qed

theorem resume_stops_at_failure:
  assumes "unat (threadCount p) = length (process_threads p)"
  shows "FIRCLSProcessResumeAllOtherThreads K p =
    (let others = filter (\<lambda>t. \<not> FIRCLSProcessIsCurrentThread K p t) (process_threads p)
     in (list_all (thread_resume K) others, take (length (takeWhile (thread_resume K) others) + 1) others))"
  using thread_op_loop_calls [of "length (process_threads p)" 0 p K "thread_resume K" True "[]"] assms
  by (simp add: FIRCLSProcessResumeAllOtherThreads_def Let_def others_from_def)

section \<open>Recursion\<close>

text \<open>A thread in an endless recursion: ten entries of the repeated program counter, and how often.\<close>

theorem recursion_suppressed:
  assumes "unwinds P m ims (FIRCLSUnwindInit r) (a @ replicate n p @ b)"
    and "calm 0 0 a" "last (0 # a) \<noteq> p" "p \<noteq> 0" "11 < n" "n < 2 ^ 32" "p \<notin> set b"
  shows "record_loop P m ims (FIRCLSUnwindInit r) \<lparr>repeatedPCCount = 0, repeatedPC = 0, trace_file = f\<rparr> =
    Some \<lparr>repeatedPCCount = of_nat (n - 1), repeatedPC = p,
          trace_file = write_pcs (a @ replicate 10 p @ b) f\<rparr>"
  using record_loop_unwinds [OF assms(1)] recorded_recursion [OF assms(2-4) _ assms(6,7)] assms(5)
  by (simp add: recorded_as_def FIRCLSUnwindInit_def)

text \<open>With eleven frames the last one is dropped, but the count stays 0.\<close>

theorem eleven_frames_lose_one:
  assumes "unwinds P m ims (FIRCLSUnwindInit r) (replicate 11 p)" "p \<noteq> 0"
  shows "record_loop P m ims (FIRCLSUnwindInit r) \<lparr>repeatedPCCount = 0, repeatedPC = 0, trace_file = f\<rparr> =
    Some \<lparr>repeatedPCCount = 0, repeatedPC = p, trace_file = write_pcs (replicate 10 p) f\<rparr>"
proof -
  have "unwinds P m ims (FIRCLSUnwindInit r) ([] @ replicate 11 p @ [])" using assms(1) by simp
  from record_loop_unwinds [OF this] recorded_recursion [of "[]" p 11 "[]"] assms(2) show ?thesis
    by (simp add: recorded_as_def FIRCLSUnwindInit_def)
qed

section \<open>Statistics\<close>

text \<open>The section of the statistics: \<open>resident\<close> is the active memory of the host, not the resident
  size of the task.\<close>

definition stats_members :: "u64 \<Rightarrow> u64 \<Rightarrow> u64 \<Rightarrow> u64 \<Rightarrow> u64 \<Rightarrow> u64 \<Rightarrow> u64 \<Rightarrow> (string \<times> json) list" where
  "stats_members active inactive wired free virtual user sys =
     [(''active'', Uint active), (''inactive'', Uint inactive), (''wired'', Uint wired),
      (''freeMem'', Uint free), (''free_mem'', Uint free), (''virtual'', Uint virtual),
      (''resident'', Uint active), (''user_time'', Uint user), (''sys_time'', Uint sys)]"

theorem stats_report_active_as_resident:
  assumes "FIRCLSProcessGetMemoryUsage K = Some (active, inactive, wired, free)"
    and "FIRCLSProcessGetInfo K = Some (virtual, resident, user_time, sys_time)"
    and "microseconds user_time = Some user" "microseconds sys_time = Some sys"
    and "reliable f" "collectionDepth f = 0" "\<not> needComma f"
  shows "\<exists>g. FIRCLSProcessRecordStats K f = Some g \<and>
    appends f g (json_text (Object [(''process_stats'',
       Object (stats_members active inactive wired free virtual user sys))]) @ [CHR 0x0A]) False 0"
proof -
  define kvs where "kvs = [(''active'', active), (''inactive'', inactive), (''wired'', wired),
    (''freeMem'', free), (''free_mem'', free), (''virtual'', virtual), (''resident'', active),
    (''user_time'', user), (''sys_time'', sys)]"
  have "writes_all (write_uint64_entries kvs) (map member_text (stats_members active inactive wired free virtual user sys))"
    using writes_uint64_entries [of kvs] by (simp add: stats_members_def kvs_def)
  from section_text [OF assms(5-7) writes_hash [OF this], of "''process_stats''"] assms(1-4) show ?thesis
    by (simp add: FIRCLSProcessRecordStats_def Let_def write_uint64_entries_def kvs_def)
qed

section \<open>Instances\<close>

text \<open>A process with two threads, of which the second cannot be resumed or inspected.\<close>

definition sample_kernel :: "(arm64_context, u32) kernel" where
  "sample_kernel = \<lparr>port_index = drop_bit 8, mach_thread_self = 0x103, task_threads = Some [0x103, 0x203, 0x303],
     thread_suspend = (\<lambda>_. True), thread_resume = (\<lambda>t. t \<noteq> 0x203),
     thread_get_state = (\<lambda>_. None), thread_name = (\<lambda>_. ''main''), thread_dispatch_qaddr = (\<lambda>_. None),
     dispatch_queue_get_label = (\<lambda>_. 0), current_frame = (0x100001000, 0x8000, 0x100002000),
     host_statistics = Some (100, 200, 300, 400), page_size = 16384,
     task_info = Some (5, 7, (1, 500), (2, 0))\<rparr>"

definition sample_process :: FIRCLSProcess where
  "sample_process = snd (FIRCLSProcessInit sample_kernel 0x103)"

lemma sample_process_eq:
  "sample_process = \<lparr>thisThread = 0x103, crashedThread = 0x103,
     process_threads = [0x103, 0x203, 0x303], threadCount = 3\<rparr>"
  by (simp add: sample_process_def sample_kernel_def FIRCLSProcessInit_def)

theorem resume_stops_at_failure_witness:
  "FIRCLSProcessResumeAllOtherThreads sample_kernel sample_process = (False, [0x203])"
  using resume_stops_at_failure [of sample_process sample_kernel]
  by (simp add: sample_process_eq sample_kernel_def FIRCLSProcessIsCurrentThread_def)

theorem stats_report_active_as_resident_witness:
  "\<exists>g. FIRCLSProcessRecordStats sample_kernel (empty_file True) = Some g \<and>
    appends (empty_file True) g (json_text (Object [(''process_stats'',
       Object (stats_members 1638400 3276800 4915200 6553600 5 1000500 2000000))]) @ [CHR 0x0A]) False 0"
  by (rule stats_report_active_as_resident [where resident = 7 and user_time = "(1, 500)" and sys_time = "(2, 0)"])
    (simp_all add: sample_kernel_def FIRCLSProcessGetMemoryUsage_def FIRCLSProcessGetInfo_def
      microseconds_def int32_def)

definition sample_runtime :: objc_runtime where
  "sample_runtime = \<lparr>objc_msgSend = 0, objc_msgSendSuper = 0, objc_msgSend_stret = 0,
     objc_msgSendSuper_stret = 0, objc_msgSend_fpret = 0\<rparr>"

theorem record_all_threads_failure_witness:
  "\<exists>g. FIRCLSProcessRecordAllThreads sample_kernel (arm64_process sample_runtime mach_o_abi arm64_abi)
      (\<lambda>_. None) None None (sample_process\<lparr>thisThread := 0x403, crashedThread := 0x503\<rparr>) (empty_file True) =
      Some (False, g) \<and>
    appends (empty_file True) g (''{'' @ quoted ''threads'' @ '':['') False 2"
  by (rule record_all_threads_failure)
    (simp_all add: sample_process_eq sample_kernel_def FIRCLSProcessGetThreadState_def
      FIRCLSProcessIsCrashedThread_def FIRCLSProcessIsCurrentThread_def FIRCLSProcessGetThread_def)

text \<open>One thread, crashed, with the frames of the sample stack.\<close>

theorem record_all_threads_json_witness:
  "\<exists>g. FIRCLSProcessRecordAllThreads sample_kernel (arm64_process sample_runtime mach_o_abi arm64_abi)
      (mem_of 0x8000 (concat (map (le_bytes 8) [0x8010, 0x100003000, 0, 0x100004000]))) None
      (Some (arm64_sample, 0)) (sample_process\<lparr>process_threads := [0x103], threadCount := 1\<rparr>)
      (empty_file True) = Some (True, g) \<and>
    appends (empty_file True) g
      (json_text (Object [(''threads'', Array [thread_value (arm64_register_entries (arm64_sample, 0))
         [0x100001000, 0x100002000, 0x100003000, 0x100004000] True 0 0])]) @ [CHR 0x0A]) False 0"
proof -
  let ?m = "mem_of 0x8000 (concat (map (le_bytes 8) [0x8010, 0x100003000, 0, 0x100004000]))"
  let ?p = "sample_process\<lparr>process_threads := [0x103], threadCount := 1\<rparr>"
  let ?T = "arm64_process sample_runtime mach_o_abi arm64_abi"
  have "recorded_as [0x100001000, 0x100002000, 0x100003000, 0x100004000]
      [0x100001000, 0x100002000, 0x100003000, 0x100004000] 0 0"
    by (intro recorded_plain) simp
  moreover have "unwinds (target_unwinder ?T) ?m None (FIRCLSUnwindInit (fst (arm64_sample, 0 :: u32)))
      [0x100001000, 0x100002000, 0x100003000, 0x100004000]"
    using arm64_sample_unwinds by (simp add: arm64_process_def)
  ultimately have "thread_recorded sample_kernel ?T ?m None (Some (arm64_sample, 0)) ?p 0x103
      (thread_value (arm64_register_entries (arm64_sample, 0))
         [0x100001000, 0x100002000, 0x100003000, 0x100004000] True 0 0)"
    unfolding thread_recorded_def
    by (intro exI conjI) (auto simp: FIRCLSProcessGetThreadState_def FIRCLSProcessIsCrashedThread_def
        sample_process_eq arm64_process_def)
  then show ?thesis
    by (intro record_all_threads_json)
      (simp_all add: sample_process_eq FIRCLSProcessGetThread_def)
qed

text \<open>A function that calls itself: twelve frames with the same return address.\<close>

definition recursion_words :: "u64 list" where
  "recursion_words =
     [0x8010, 0x100002000, 0x8020, 0x100002000, 0x8030, 0x100002000, 0x8040, 0x100002000,
      0x8050, 0x100002000, 0x8060, 0x100002000, 0x8070, 0x100002000, 0x8080, 0x100002000,
      0x8090, 0x100002000, 0x80A0, 0x100002000, 0, 0x100002000]"

definition mem_of_words :: "addr \<Rightarrow> u64 list \<Rightarrow> mem" where
  "mem_of_words a ws = mem_of a (concat (map (\<lambda>w. le_bytes 8 (unat w)) ws))"

lemma words_at_bytes:
  "bytes_at m a (concat (map (\<lambda>w. le_bytes 8 (unat w)) ws)) \<Longrightarrow> words_at m a ws"
  by (induction ws arbitrary: a) (auto simp: bytes_at_append load64_at)

lemma words_at_mem_of_words: "length ws < 2 ^ 60 \<Longrightarrow> words_at (mem_of_words a ws) a ws"
  unfolding mem_of_words_def
  by (intro words_at_bytes bytes_at_mem_of) (simp add: length_concat comp_def sum_list_triv)

lemma read_frame_loads:
  assumes "4096 \<le> a"
  shows "read_frame m a = do { fp \<leftarrow> load64 m a; pc \<leftarrow> load64 m (a + 8); Some (fp, pc) }"
proof (cases "load64 m a = None \<or> load64 m (a + 8) = None")
  case True
  have "load_bytes m a 16 = do { xs \<leftarrow> load_bytes m a 8; ys \<leftarrow> load_bytes m (a + 8) 8; Some (xs @ ys) }"
    using load_bytes_add [of m a 8 8] by simp
  with True assms show ?thesis
    by (auto simp: read_frame_def FIRCLSReadMemory_def load64_def load_le_def FIRCLSIsValidPointer_def
        split: bind_splits)
qed (auto simp: read_frame_words assms)

lemma recursion_chain:
  "frame_chain CLS_PTRAUTH_STRIP (mem_of_words 0x8000 recursion_words) 0x8000
     (0x100002000 # replicate 10 0x100002000)"
  "frame_chain CLS_PTRAUTH_STRIP (mem_of_words 0x8000 recursion_words) 0x8020
     (0x100002000 # replicate 8 0x100002000)"
proof -
  define m where "m = mem_of_words 0x8000 recursion_words"
  have "words_at m 0x8000 recursion_words"
    unfolding m_def by (rule words_at_mem_of_words) (simp add: recursion_words_def)
  then show "frame_chain CLS_PTRAUTH_STRIP (mem_of_words 0x8000 recursion_words) 0x8000
      (0x100002000 # replicate 10 0x100002000)"
    "frame_chain CLS_PTRAUTH_STRIP (mem_of_words 0x8000 recursion_words) 0x8020
      (0x100002000 # replicate 8 0x100002000)"
    unfolding m_def [symmetric] unfolding recursion_words_def
    by (simp_all add: replicate_numeral_Cons read_frame_loads CLS_PTRAUTH_STRIP_def)
qed

lemma recursion_unwinds:
  "unwinds (arm64_unwinder mach_o_abi arm64_abi) (mem_of_words 0x8000 recursion_words) None
     (FIRCLSUnwindInit arm64_sample) ([0x100001000] @ replicate 12 0x100002000 @ [])"
  using arm64_unwinds_frame_chain [of None arm64_sample "mem_of_words 0x8000 recursion_words"
      "0x100002000" "replicate 10 0x100002000" mach_o_abi arm64_abi] recursion_chain(1)
  by (simp add: no_unwind_info_def arm64_defs arm64_sample_def CLS_PTRAUTH_STRIP_def replicate_numeral_Cons)

theorem recursion_suppressed_witness:
  "record_loop (arm64_unwinder mach_o_abi arm64_abi) (mem_of_words 0x8000 recursion_words) None
     (FIRCLSUnwindInit arm64_sample) \<lparr>repeatedPCCount = 0, repeatedPC = 0, trace_file = empty_file True\<rparr> =
   Some \<lparr>repeatedPCCount = 11, repeatedPC = 0x100002000,
         trace_file = write_pcs ([0x100001000] @ replicate 10 0x100002000 @ []) (empty_file True)\<rparr>"
  using recursion_suppressed [OF recursion_unwinds] by simp

theorem eleven_frames_lose_one_witness:
  "record_loop (arm64_unwinder mach_o_abi arm64_abi) (mem_of_words 0x8000 recursion_words) None
     (FIRCLSUnwindInit (arm64_sample\<lparr>arm_pc := 0x100002000, arm_fp := 0x8020\<rparr>))
     \<lparr>repeatedPCCount = 0, repeatedPC = 0, trace_file = empty_file True\<rparr> =
   Some \<lparr>repeatedPCCount = 0, repeatedPC = 0x100002000,
         trace_file = write_pcs (replicate 10 0x100002000) (empty_file True)\<rparr>"
proof (rule eleven_frames_lose_one)
  show "unwinds (arm64_unwinder mach_o_abi arm64_abi) (mem_of_words 0x8000 recursion_words) None
      (FIRCLSUnwindInit (arm64_sample\<lparr>arm_pc := 0x100002000, arm_fp := 0x8020\<rparr>)) (replicate 11 0x100002000)"
    using arm64_unwinds_frame_chain [of None "arm64_sample\<lparr>arm_pc := 0x100002000, arm_fp := 0x8020\<rparr>"
        "mem_of_words 0x8000 recursion_words" "0x100002000" "replicate 8 0x100002000" mach_o_abi arm64_abi]
      recursion_chain(2)
    by (simp add: no_unwind_info_def arm64_defs arm64_sample_def CLS_PTRAUTH_STRIP_def replicate_numeral_Cons)
qed simp

section \<open>Frame-pointer chains, recorded\<close>

text \<open>From the stack to the report: on a target without unwind information, what is recorded is the
  thread's own program counter, its link register, and the return addresses of the chain.\<close>

text \<open>C8: From the stack to the report on arm64: without unwind information, and without a run of more
  than ten equal program counters, the loop that records a thread writes exactly its program
  counter, its link register and the return addresses of its frame-pointer chain, and ends.\<close>

theorem arm64_stack_recorded:
  assumes "no_unwind_info ims"
    and "4096 < arm64_GetPC r" "4096 \<le> arm64_GetStackPointer r" "4096 < arm64_GetLinkRegister r"
    and "frame_chain CLS_PTRAUTH_STRIP m (arm64_GetFramePointer r) (ret # rets)"
    and "length rets < 99996"
    and "calm 0 0 (arm64_GetPC r # arm64_GetLinkRegister r # ret # rets)"
  shows "record_loop (arm64_unwinder B K) m ims (FIRCLSUnwindInit r)
      \<lparr>repeatedPCCount = 0, repeatedPC = 0, trace_file = f\<rparr> =
    Some \<lparr>repeatedPCCount = 0, repeatedPC = 0,
          trace_file = write_pcs (arm64_GetPC r # arm64_GetLinkRegister r # ret # rets) f\<rparr>"
  using record_loop_unwinds [OF arm64_unwinds_frame_chain [OF assms(1-6)]] recorded_plain [OF assms(7)]
  by (simp add: recorded_as_def FIRCLSUnwindInit_def)

theorem arm64_stack_recorded_witness:
  "record_loop (arm64_unwinder mach_o_abi arm64_abi)
     (mem_of_words 0x8000 [0x8010, 0x100003000, 0, 0x100004000]) None (FIRCLSUnwindInit arm64_sample)
     \<lparr>repeatedPCCount = 0, repeatedPC = 0, trace_file = empty_file True\<rparr> =
   Some \<lparr>repeatedPCCount = 0, repeatedPC = 0,
         trace_file = write_pcs [0x100001000, 0x100002000, 0x100003000, 0x100004000] (empty_file True)\<rparr>"
proof -
  define m where "m = mem_of_words 0x8000 [0x8010, 0x100003000, 0, 0x100004000]"
  have "words_at m 0x8000 [0x8010, 0x100003000, 0, 0x100004000]"
    unfolding m_def by (rule words_at_mem_of_words) simp
  then have "frame_chain CLS_PTRAUTH_STRIP m 0x8000 [0x100003000, 0x100004000]"
    by (simp add: read_frame_loads CLS_PTRAUTH_STRIP_def)
  then show ?thesis
    using arm64_stack_recorded [of None arm64_sample m "0x100003000" "[0x100004000]" mach_o_abi arm64_abi]
    unfolding m_def [symmetric]
    by (simp add: no_unwind_info_def arm64_defs arm64_sample_def CLS_PTRAUTH_STRIP_def)
qed

text \<open>On x86_64 there is no link register; the words between the stack and frame pointers are scanned
  first.\<close>

theorem x86_64_stack_recorded:
  assumes "no_unwind_info ims"
    and "4096 < rip r" "4096 \<le> rsp r"
    and "words_at m (rsp r) ws" "ws \<noteq> []" "unat (rsp r) + 8 * length ws < 2 ^ 64"
      "rbp r = rsp r + of_nat (8 * length ws)"
    and "find (FIRCLSUnwindIsAddressExecutable ims) ws = None"
    and "frame_chain (\<lambda>v. v) m (rbp r) (ret # rets)"
    and "length rets < 599996"
    and "calm 0 0 (rip r # ret # rets)"
  shows "record_loop (x86_64_unwinder B K) m ims (FIRCLSUnwindInit r)
      \<lparr>repeatedPCCount = 0, repeatedPC = 0, trace_file = f\<rparr> =
    Some \<lparr>repeatedPCCount = 0, repeatedPC = 0, trace_file = write_pcs (rip r # ret # rets) f\<rparr>"
  using record_loop_unwinds [OF x86_64_unwinds_frame_chain [OF assms(1-10)]] recorded_plain [OF assms(11)]
  by (simp add: recorded_as_def FIRCLSUnwindInit_def)

theorem x86_64_stack_recorded_witness:
  "record_loop (x86_64_unwinder mach_o_abi x86_64_abi)
     (mem_of_words 0x7000 [5, 0x7018, 0x401000, 0, 0x402000]) None
     (FIRCLSUnwindInit (sample_registers\<lparr>rbp := 0x7008\<rparr>))
     \<lparr>repeatedPCCount = 0, repeatedPC = 0, trace_file = empty_file True\<rparr> =
   Some \<lparr>repeatedPCCount = 0, repeatedPC = 0,
         trace_file = write_pcs [0x401234, 0x401000, 0x402000] (empty_file True)\<rparr>"
proof -
  define m where "m = mem_of_words 0x7000 [5, 0x7018, 0x401000, 0, 0x402000]"
  have w: "words_at m 0x7000 [5, 0x7018, 0x401000, 0, 0x402000]"
    unfolding m_def by (rule words_at_mem_of_words) simp
  then have "frame_chain (\<lambda>v. v) m 0x7008 [0x401000, 0x402000]" "words_at m 0x7000 [5]"
    by (simp_all add: read_frame_loads)
  then show ?thesis
    using x86_64_stack_recorded [of None "sample_registers\<lparr>rbp := 0x7008\<rparr>" m "[5]" "0x401000" "[0x402000]"
        mach_o_abi x86_64_abi]
    unfolding m_def [symmetric]
    by (simp add: no_unwind_info_def sample_registers_def FIRCLSUnwindIsAddressExecutable_def
        FIRCLSBinaryImageSafeFindImageForAddress_def)
qed

end
