(* ===== verification/Allocator.thy ===== *)
theory Allocator
  imports Utility
begin

text \<open>
  The crash-time allocator: \<open>Helpers/FIRCLSAllocate.h\<close> and \<open>Helpers/FIRCLSAllocate.c\<close>. One mapping is
  made at launch and divided into a writable and a read-only region between guard pages; blocks are
  handed out by moving a cursor with a compare-and-swap, so that no lock is needed in a signal
  handler.

  What the virtual memory system answers is the record \<open>vm\<close>, a parameter. \<open>protections\<close> are the access
  rights of the addresses, which \<open>mprotect\<close> changes. A NULL allocator is \<open>None\<close>, a NULL block the
  address 0. The allocation loop is modelled twice: as the steps of one thread among others, each an
  access to the shared cursor, and as the call of a thread that is not interrupted.
\<close>

section \<open>Structures\<close>

record FIRCLSAllocationRegion =
  region_size :: u64
  region_start :: addr
  cursor :: addr

record FIRCLSAllocator =
  alloc_buffer :: addr
  protectionEnabled :: bool
  writeableRegion :: FIRCLSAllocationRegion
  readableRegion :: FIRCLSAllocationRegion

text \<open>\<open>sizeof(FIRCLSAllocator)\<close>: a pointer, a padded \<open>bool\<close> and two regions of three words.\<close>

definition sizeof_FIRCLSAllocator :: u64 where
  "sizeof_FIRCLSAllocator = 64"

definition CLS_READONLY :: u32 where
  "CLS_READONLY = 0"

definition CLS_READWRITE :: u32 where
  "CLS_READWRITE = 1"

datatype access = PROT_NONE | PROT_READ | PROT_READ_WRITE

type_synonym protections = "addr \<Rightarrow> access"

record vm =
  host_page_size :: u64
  mmap_anonymous :: "u64 \<Rightarrow> addr option"
  mprotect_succeeds :: "addr \<Rightarrow> u64 \<Rightarrow> access \<Rightarrow> bool"
  c_malloc :: "u64 \<Rightarrow> addr"

definition set_access :: "addr \<Rightarrow> u64 \<Rightarrow> access \<Rightarrow> protections \<Rightarrow> protections" where
  "set_access a len p ps = (\<lambda>x. if x - a < len then p else ps x)"

definition mprotect :: "vm \<Rightarrow> addr \<Rightarrow> u64 \<Rightarrow> access \<Rightarrow> protections \<Rightarrow> bool \<times> protections" where
  "mprotect V a len p ps =
     (if mprotect_succeeds V a len p then (True, set_access a len p ps) else (False, ps))"

section \<open>Allocating from a region\<close>

text \<open>Where a thread is in \<open>FIRCLSAllocatorSafeAllocateFromRegion\<close>: about to read the cursor, having
  read it, about to swap it, or returned with a block of the region or of \<open>malloc\<close>.\<close>

datatype alloc_pc =
    ReadCursor
  | CheckSize addr
  | CompareExchange addr addr
  | FromRegion addr
  | FromMalloc addr

text \<open>One step of a thread that wants \<open>bytes\<close> bytes. A failed exchange starts over.\<close>

fun alloc_step :: "vm \<Rightarrow> u64 \<Rightarrow> FIRCLSAllocationRegion \<times> alloc_pc \<Rightarrow> FIRCLSAllocationRegion \<times> alloc_pc" where
  "alloc_step V bytes (region, ReadCursor) = (region, CheckSize (cursor region))"
| "alloc_step V bytes (region, CheckSize originalCursor) =
     (if originalCursor - region_start region + bytes > region_size region
      then (region, FromMalloc (c_malloc V bytes))
      else (region, CompareExchange originalCursor (originalCursor + bytes)))"
| "alloc_step V bytes (region, CompareExchange originalCursor newCursor) =
     (if cursor region = originalCursor
      then (region\<lparr>cursor := newCursor\<rparr>, FromRegion originalCursor)
      else (region, ReadCursor))"
| "alloc_step V bytes (region, FromRegion p) = (region, FromRegion p)"
| "alloc_step V bytes (region, FromMalloc p) = (region, FromMalloc p)"

text \<open>The call of a thread that is not interrupted, whose first exchange succeeds.\<close>

definition FIRCLSAllocatorSafeAllocateFromRegion ::
    "vm \<Rightarrow> FIRCLSAllocationRegion \<Rightarrow> u64 \<Rightarrow> addr \<times> FIRCLSAllocationRegion" where
  "FIRCLSAllocatorSafeAllocateFromRegion V region bytes =
     (let originalCursor = cursor region in
      if originalCursor - region_start region + bytes > region_size region
      then (c_malloc V bytes, region)
      else (originalCursor, region\<lparr>cursor := originalCursor + bytes\<rparr>))"

section \<open>The allocator\<close>

definition region_bytes :: "vm \<Rightarrow> u64 \<Rightarrow> u64" where
  "region_bytes V space =
     (if space > 0 then (space div host_page_size V + 1) * host_page_size V else 0)"

text \<open>The result is NULL, or the address of the allocator and what is stored there; the outer \<open>None\<close> is
  the fault of writing to an allocator that even \<open>malloc\<close> had no room for.\<close>

definition FIRCLSAllocatorCreate ::
    "vm \<Rightarrow> u64 \<Rightarrow> u64 \<Rightarrow> protections \<Rightarrow> ((addr \<times> FIRCLSAllocator) option \<times> protections) option" where
  "FIRCLSAllocatorCreate V writableSpace readableSpace ps =
     (let pageSize = host_page_size V;
          readableSpace = readableSpace + sizeof_FIRCLSAllocator;
          writableSize = region_bytes V writableSpace;
          readableSize = region_bytes V readableSpace;
          allocationSize = writableSize + readableSize + pageSize * 3
      in case mmap_anonymous V allocationSize of
           None \<Rightarrow> Some (None, ps)
         | Some buffer \<Rightarrow>
             let ps = set_access buffer allocationSize PROT_READ_WRITE ps;
                 writable = \<lparr>region_size = writableSize, region_start = buffer + pageSize,
                             cursor = buffer + pageSize\<rparr>;
                 readable = \<lparr>region_size = readableSize,
                             region_start = buffer + pageSize + writableSize + pageSize,
                             cursor = buffer + pageSize + writableSize + pageSize\<rparr>;
                 (ok, ps) = mprotect V buffer pageSize PROT_NONE ps
             in if \<not> ok then Some (None, ps)
             else let (ok, ps) = mprotect V (buffer + pageSize + writableSize) pageSize PROT_NONE ps
             in if \<not> ok then Some (None, ps)
             else let (ok, ps) = mprotect V (buffer + pageSize + writableSize + pageSize + readableSize)
                                   pageSize PROT_NONE ps
             in if \<not> ok then Some (None, ps)
             else let (allocator, readable) =
                    FIRCLSAllocatorSafeAllocateFromRegion V readable sizeof_FIRCLSAllocator
             in if allocator = 0 then None
             else Some (Some (allocator, \<lparr>alloc_buffer = buffer, protectionEnabled = False,
                          writeableRegion = writable, readableRegion = readable\<rparr>), ps))"

text \<open>Protecting: the flag is set before the region it lies in becomes read-only.\<close>

definition FIRCLSAllocatorProtect ::
    "vm \<Rightarrow> addr \<Rightarrow> FIRCLSAllocator \<Rightarrow> protections \<Rightarrow> bool \<times> FIRCLSAllocator \<times> protections" where
  "FIRCLSAllocatorProtect V p allocator ps =
     (if \<not> FIRCLSIsValidPointer p then (False, allocator, ps)
      else if protectionEnabled allocator then (True, allocator, ps)
      else let allocator = allocator\<lparr>protectionEnabled := True\<rparr>;
               pageSize = host_page_size V;
               address = alloc_buffer allocator + pageSize + region_size (writeableRegion allocator) + pageSize;
               (ok, ps) = mprotect V address (region_size (readableRegion allocator)) PROT_READ ps
           in (ok, allocator, ps))"

definition FIRCLSAllocatorUnprotect ::
    "vm \<Rightarrow> FIRCLSAllocator option \<Rightarrow> protections \<Rightarrow> bool \<times> FIRCLSAllocator option \<times> protections" where
  "FIRCLSAllocatorUnprotect V allocator ps =
     (case allocator of
        None \<Rightarrow> (False, None, ps)
      | Some a \<Rightarrow>
          let pageSize = host_page_size V;
              bufferSize = alloc_buffer a + pageSize + region_size (writeableRegion a) +
                pageSize + region_size (readableRegion a) + pageSize;
              (ok, ps) = mprotect V (alloc_buffer a) bufferSize PROT_READ_WRITE ps;
              a = a\<lparr>protectionEnabled := \<not> ok\<rparr>
          in (protectionEnabled a, Some a, ps))"

definition FIRCLSAllocatorSafeAllocate ::
    "vm \<Rightarrow> FIRCLSAllocator option \<Rightarrow> u64 \<Rightarrow> u32 \<Rightarrow> addr \<times> FIRCLSAllocator option" where
  "FIRCLSAllocatorSafeAllocate V allocator bytes type =
     (case allocator of
        None \<Rightarrow> (c_malloc V bytes, None)
      | Some a \<Rightarrow>
          if protectionEnabled a then (c_malloc V bytes, Some a)
          else if type = CLS_READONLY then
            (let (p, r) = FIRCLSAllocatorSafeAllocateFromRegion V (readableRegion a) bytes
             in (p, Some (a\<lparr>readableRegion := r\<rparr>)))
          else if type = CLS_READWRITE then
            (let (p, r) = FIRCLSAllocatorSafeAllocateFromRegion V (writeableRegion a) bytes
             in (p, Some (a\<lparr>writeableRegion := r\<rparr>)))
          else (0, Some a))"

text \<open>The blocks given to \<open>free\<close>: there is no deallocation within the regions.\<close>

definition FIRCLSAllocatorFree :: "FIRCLSAllocator option \<Rightarrow> addr \<Rightarrow> addr list" where
  "FIRCLSAllocatorFree allocator ptr = (if allocator = None then [ptr] else [])"

section \<open>Interleaved allocation\<close>

text \<open>Any number of threads allocate from one region, each its own number of bytes. A step lets one
  thread that has not returned do its next access.\<close>

record alloc_system =
  sys_region :: FIRCLSAllocationRegion
  sys_pc :: "nat \<Rightarrow> alloc_pc"

fun returned :: "alloc_pc \<Rightarrow> bool" where
  "returned (FromRegion p) = True"
| "returned (FromMalloc p) = True"
| "returned _ = False"

definition run_thread :: "vm \<Rightarrow> (nat \<Rightarrow> u64) \<Rightarrow> nat \<Rightarrow> alloc_system \<Rightarrow> alloc_system" where
  "run_thread V sizes i s =
     (let (r, p) = alloc_step V (sizes i) (sys_region s, sys_pc s i)
      in \<lparr>sys_region = r, sys_pc = (sys_pc s)(i := p)\<rparr>)"

definition all_start :: "FIRCLSAllocationRegion \<Rightarrow> alloc_system" where
  "all_start region = \<lparr>sys_region = region, sys_pc = (\<lambda>_. ReadCursor)\<rparr>"

inductive alloc_system_step :: "vm \<Rightarrow> (nat \<Rightarrow> u64) \<Rightarrow> nat \<Rightarrow> alloc_system \<Rightarrow> alloc_system \<Rightarrow> bool"
  for V sizes n where
  run: "i < n \<Longrightarrow> \<not> returned (sys_pc s i) \<Longrightarrow> alloc_system_step V sizes n s (run_thread V sizes i s)"

inductive_cases system_stepE: "alloc_system_step V sizes n s s'"

lemma run_thread_sel [simp]:
  "sys_region (run_thread V sizes i s) = fst (alloc_step V (sizes i) (sys_region s, sys_pc s i))"
  "sys_pc (run_thread V sizes i s) =
     (sys_pc s)(i := snd (alloc_step V (sizes i) (sys_region s, sys_pc s i)))"
  by (simp_all add: run_thread_def Let_def case_prod_beta')

lemma all_start_sel [simp]:
  "sys_region (all_start r) = r" "sys_pc (all_start r) = (\<lambda>_. ReadCursor)"
  by (simp_all add: all_start_def)

text \<open>The uninterrupted call is a thread's steps without another's in between.\<close>

lemma uninterrupted_allocation:
  "alloc_step V bytes (alloc_step V bytes (alloc_step V bytes (region, ReadCursor))) =
     (let (p, region') = FIRCLSAllocatorSafeAllocateFromRegion V region bytes
      in (region', if cursor region - region_start region + bytes > region_size region
                   then FromMalloc p else FromRegion p))"
  by (simp add: FIRCLSAllocatorSafeAllocateFromRegion_def Let_def)

text \<open>Offsets in a region, as numbers.\<close>

definition offset :: "FIRCLSAllocationRegion \<Rightarrow> addr \<Rightarrow> nat" where
  "offset region p = unat (p - region_start region)"

text \<open>What holds at every moment: the cursor is in the region, a thread's copy of it was, an exchange
  that is about to happen stays in the region, and the blocks handed out lie below the cursor and
  do not overlap.\<close>

fun pc_ok :: "FIRCLSAllocationRegion \<Rightarrow> addr \<Rightarrow> u64 \<Rightarrow> alloc_pc \<Rightarrow> bool" where
  "pc_ok region now bytes (CheckSize c) \<longleftrightarrow> offset region c \<le> unat (region_size region)"
| "pc_ok region now bytes (CompareExchange c c') \<longleftrightarrow>
     c' = c + bytes \<and> offset region c + unat bytes \<le> unat (region_size region)"
| "pc_ok region now bytes (FromRegion p) \<longleftrightarrow> offset region p + unat bytes \<le> offset region now"
| "pc_ok region now bytes _ \<longleftrightarrow> True"

definition alloc_invariant :: "FIRCLSAllocationRegion \<Rightarrow> (nat \<Rightarrow> u64) \<Rightarrow> alloc_system \<Rightarrow> bool" where
  "alloc_invariant region sizes s \<longleftrightarrow>
     region_start (sys_region s) = region_start region \<and>
     region_size (sys_region s) = region_size region \<and>
     offset region (cursor (sys_region s)) \<le> unat (region_size region) \<and>
     (\<forall>i. pc_ok region (cursor (sys_region s)) (sizes i) (sys_pc s i)) \<and>
     (\<forall>i j p q. i \<noteq> j \<and> sys_pc s i = FromRegion p \<and> sys_pc s j = FromRegion q \<longrightarrow>
        offset region p + unat (sizes i) \<le> offset region q \<or>
        offset region q + unat (sizes j) \<le> offset region p)"

lemma offset_add:
  assumes "offset region c + unat bytes < 2 ^ 64"
  shows "offset region (c + bytes) = offset region c + unat bytes"
proof -
  have e: "c + bytes - region_start region = (c - region_start region) + bytes" by simp
  have "unat ((c - region_start region) + bytes) = unat (c - region_start region) + unat bytes"
    using assms unat_add_of_nat_small [of "c - region_start region" "unat bytes"]
    by (simp add: offset_def)
  then show ?thesis unfolding offset_def e .
qed

lemma size_check:
  assumes "offset region c \<le> unat (region_size region)"
    and "unat bytes + unat (region_size region) < 2 ^ 64"
  shows "c - region_start region + bytes > region_size region \<longleftrightarrow>
         offset region c + unat bytes > unat (region_size region)"
proof -
  have "unat (c - region_start region + bytes) = offset region c + unat bytes"
    using assms unat_add_of_nat_small [of "c - region_start region" "unat bytes"]
    by (simp add: offset_def)
  then show ?thesis by (simp add: word_less_nat_alt)
qed

lemma alloc_step_fields:
  "region_start (fst (alloc_step V bytes (r, p))) = region_start r"
  "region_size (fst (alloc_step V bytes (r, p))) = region_size r"
  by (cases p; simp)+

text \<open>A step of a thread keeps its own part of the invariant, and only moves the cursor up.\<close>

lemma alloc_step_ok:
  assumes "region_start r = region_start region" "region_size r = region_size region"
    and "offset region (cursor r) \<le> unat (region_size region)"
    and "unat bytes + unat (region_size region) < 2 ^ 64"
    and "pc_ok region (cursor r) bytes p" "alloc_step V bytes (r, p) = (r', p')"
  shows "pc_ok region (cursor r') bytes p'" "offset region (cursor r) \<le> offset region (cursor r')"
    "offset region (cursor r') \<le> unat (region_size region)"
  using assms size_check [of region _ bytes] offset_add [of region _ bytes]
  by (cases p; auto split: if_splits simp: not_less)+

lemma alloc_step_new: "alloc_step V bytes (r, p) = (r', FromRegion q) \<Longrightarrow> p = FromRegion q \<or> q = cursor r"
  by (cases p) (auto split: if_splits)

lemma pc_ok_later:
  "pc_ok region now bytes p \<Longrightarrow> offset region now \<le> offset region later \<Longrightarrow> pc_ok region later bytes p"
  by (cases p) auto

lemma run_thread_invariant:
  assumes inv: "alloc_invariant region sizes s"
    and sz: "\<forall>i. unat (sizes i) + unat (region_size region) < 2 ^ 64"
  shows "alloc_invariant region sizes (run_thread V sizes i s)"
proof -
  obtain r' p' where st: "alloc_step V (sizes i) (sys_region s, sys_pc s i) = (r', p')"
    by (cases "alloc_step V (sizes i) (sys_region s, sys_pc s i)")
  note I = inv [unfolded alloc_invariant_def]
  note K = alloc_step_ok [OF _ _ _ spec [OF sz] _ st]
  have own: "pc_ok region (cursor r') (sizes i) p'"
    and up: "offset region (cursor (sys_region s)) \<le> offset region (cursor r')"
    and top: "offset region (cursor r') \<le> unat (region_size region)"
    using I by (auto intro: K)
  have new: "p' = FromRegion q \<Longrightarrow> sys_pc s i = p' \<or> q = cursor (sys_region s)" for q
    using alloc_step_new st by blast
  have others: "pc_ok region (cursor r') (sizes j) (sys_pc s j)" for j
    using I up pc_ok_later by blast
  have below: "sys_pc s j = FromRegion q \<Longrightarrow> offset region q + unat (sizes j) \<le> offset region (cursor (sys_region s))" for j q
    using I pc_ok.simps(3) by metis
  have apart: "offset region q + unat (sizes j) \<le> offset region p \<or> offset region p + unat (sizes i) \<le> offset region q"
    if "j \<noteq> i" "sys_pc s j = FromRegion q" "p' = FromRegion p" for j p q
    using new [OF that(3)] below [OF that(2)] I that by metis
  show ?thesis
    unfolding alloc_invariant_def
    using I st own top others apart alloc_step_fields [of V "sizes i" "sys_region s" "sys_pc s i"]
    by (auto simp: fun_upd_def)
qed

lemma step_invariant:
  assumes "alloc_system_step V sizes n s s'" "alloc_invariant region sizes s"
    and "\<forall>i. unat (sizes i) + unat (region_size region) < 2 ^ 64"
  shows "alloc_invariant region sizes s'"
  using assms by (auto elim!: system_stepE intro: run_thread_invariant)

lemma reachable_invariant:
  assumes "(alloc_system_step V sizes n)\<^sup>*\<^sup>* (all_start region) s"
    and "offset region (cursor region) \<le> unat (region_size region)"
    and "\<forall>i. unat (sizes i) + unat (region_size region) < 2 ^ 64"
  shows "alloc_invariant region sizes s"
  using assms(1)
proof (induction rule: rtranclp_induct)
  case base
  show ?case using assms(2) by (simp add: alloc_invariant_def)
next
  case (step s s')
  then show ?case using assms(3) by (blast intro: step_invariant)
qed

text \<open>An interleaving given as the list of the threads that move.\<close>

fun run_schedule ::
    "vm \<Rightarrow> (nat \<Rightarrow> u64) \<Rightarrow> nat \<Rightarrow> nat list \<Rightarrow> alloc_system \<Rightarrow> alloc_system option" where
  "run_schedule V sizes n [] s = Some s"
| "run_schedule V sizes n (i # is) s =
     (if i < n \<and> \<not> returned (sys_pc s i) then run_schedule V sizes n is (run_thread V sizes i s) else None)"

lemma run_schedule_reaches:
  "run_schedule V sizes n is s = Some s' \<Longrightarrow> (alloc_system_step V sizes n ^^ length is) s s'"
proof (induction "is" arbitrary: s)
  case (Cons i "is")
  then have "alloc_system_step V sizes n s (run_thread V sizes i s)"
    "(alloc_system_step V sizes n ^^ length is) (run_thread V sizes i s) s'"
    by (auto split: if_splits intro: run)
  then show ?case unfolding length_Cons by (rule relpowp_Suc_I2)
qed simp

lemma unat_from_offset:
  assumes "unat (region_start region) + offset region p < 2 ^ 64"
  shows "unat p = unat (region_start region) + offset region p"
proof -
  have "p = region_start region + of_nat (offset region p)" by (simp add: offset_def)
  with unat_add_of_nat_small [of "region_start region" "offset region p"] assms show ?thesis by simp
qed

text \<open>C27: However threads interleave, two blocks allocated from a region lie in it and do not
  overlap, as long as no size asked for, added to the size of the region, reaches 2^64.\<close>

theorem blocks_disjoint:
  assumes "(alloc_system_step V sizes n)\<^sup>*\<^sup>* (all_start region) s"
    and "cursor region = region_start region"
    and "unat (region_start region) + unat (region_size region) < 2 ^ 64"
    and "\<forall>i. unat (sizes i) + unat (region_size region) < 2 ^ 64"
    and "sys_pc s i = FromRegion p" "sys_pc s j = FromRegion q" "i \<noteq> j"
  shows "unat (region_start region) \<le> unat p \<and>
    unat p + unat (sizes i) \<le> unat (region_start region) + unat (region_size region) \<and>
    (unat p + unat (sizes i) \<le> unat q \<or> unat q + unat (sizes j) \<le> unat p)"
proof -
  have "alloc_invariant region sizes s"
    using reachable_invariant [OF assms(1) _ assms(4)] assms(2) by (simp add: offset_def)
  note I = this [unfolded alloc_invariant_def]
  have below: "offset region r + unat (sizes k) \<le> unat (region_size region)" if "sys_pc s k = FromRegion r" for k r
    using I that pc_ok.simps(3) order_trans by metis
  have "unat p = unat (region_start region) + offset region p" "unat q = unat (region_start region) + offset region q"
    using below [OF assms(5)] below [OF assms(6)] assms(3) by (auto intro!: unat_from_offset)
  moreover have "offset region p + unat (sizes i) \<le> offset region q \<or> offset region q + unat (sizes j) \<le> offset region p"
    using I assms(5-7) by metis
  ultimately show ?thesis using below [OF assms(5)] by auto
qed

text \<open>A machine on which every request for memory protection succeeds.\<close>

definition example_vm :: vm where
  "example_vm = \<lparr>host_page_size = 4096, mmap_anonymous = (\<lambda>_. Some 0x100000),
     mprotect_succeeds = (\<lambda>_ _ _. True), c_malloc = (\<lambda>_. 0x900000)\<rparr>"

definition example_region :: FIRCLSAllocationRegion where
  "example_region = \<lparr>region_size = 4096, region_start = 0x101000, cursor = 0x101000\<rparr>"

definition example_sizes :: "nat \<Rightarrow> u64" where
  "example_sizes i = (if i = 0 then 64 else 100)"

text \<open>Two threads read the same cursor; the second loses the exchange and tries again.\<close>

theorem blocks_disjoint_witness:
  "\<exists>s. (alloc_system_step example_vm example_sizes 2)\<^sup>*\<^sup>* (all_start example_region) s \<and>
     sys_pc s 0 = FromRegion 0x101000 \<and> sys_pc s 1 = FromRegion 0x101040 \<and>
     (unat (0x101000 :: addr) + unat (example_sizes 0) \<le> unat (0x101040 :: addr) \<or>
      unat (0x101040 :: addr) + unat (example_sizes 1) \<le> unat (0x101000 :: addr))"
proof -
  have "\<exists>s. run_schedule example_vm example_sizes 2 [0, 1, 0, 1, 0, 1, 1, 1, 1] (all_start example_region) = Some s \<and>
      sys_pc s 0 = FromRegion 0x101000 \<and> sys_pc s 1 = FromRegion 0x101040"
    by (simp add: example_region_def example_sizes_def)
  then obtain s where s: "(alloc_system_step example_vm example_sizes 2)\<^sup>*\<^sup>* (all_start example_region) s"
    "sys_pc s 0 = FromRegion 0x101000" "sys_pc s 1 = FromRegion 0x101040"
    using run_schedule_reaches relpowp_imp_rtranclp by metis
  have "\<forall>i. unat (example_sizes i) + unat (region_size example_region) < 2 ^ 64"
    by (simp add: example_sizes_def example_region_def)
  with blocks_disjoint [OF s(1) _ _ _ s(2,3)] s show ?thesis
    by (auto simp: example_region_def)
qed

section \<open>Progress\<close>

text \<open>An exchange fails only when another thread's has succeeded. The weight of a thread is what it
  has to do if nobody interferes, and more if its copy of the cursor is out of date; a thread that
  returns may put all the others out of date.\<close>

fun weight :: "addr \<Rightarrow> alloc_pc \<Rightarrow> nat" where
  "weight now ReadCursor = 3"
| "weight now (CheckSize c) = (if c = now then 2 else 5)"
| "weight now (CompareExchange c c') = (if c = now then 1 else 4)"
| "weight now (FromRegion p) = 0"
| "weight now (FromMalloc p) = 0"

definition running :: "nat \<Rightarrow> alloc_system \<Rightarrow> nat" where
  "running n s = card {i. i < n \<and> \<not> returned (sys_pc s i)}"

definition total_weight :: "nat \<Rightarrow> alloc_system \<Rightarrow> nat" where
  "total_weight n s =
     running n s * (5 * n + 1) + (\<Sum>i<n. weight (cursor (sys_region s)) (sys_pc s i))"

lemma weight_bound: "weight now p \<le> 5"
  by (cases p) auto

lemma alloc_step_weight:
  assumes "alloc_step V bytes (r, p) = (r', p')" "\<not> returned p" "\<not> returned p'"
  shows "cursor r' = cursor r" "weight (cursor r') p' < weight (cursor r) p"
  using assms by (cases p; auto split: if_splits)+

lemma step_lowers_weight:
  assumes "alloc_system_step V sizes n s s'"
  shows "total_weight n s' < total_weight n s"
  using assms
proof (rule system_stepE)
  fix i
  assume s': "s' = run_thread V sizes i s" and i: "i < n" "\<not> returned (sys_pc s i)"
  obtain r' p' where st: "alloc_step V (sizes i) (sys_region s, sys_pc s i) = (r', p')"
    by (cases "alloc_step V (sizes i) (sys_region s, sys_pc s i)")
  let ?S = "{i. i < n \<and> \<not> returned (sys_pc s i)}"
  have pc: "sys_pc s' = (sys_pc s)(i := p')" and reg: "sys_region s' = r'" using s' st by simp_all
  show ?thesis
  proof (cases "returned p'")
    case True
    have "{i. i < n \<and> \<not> returned (sys_pc s' i)} = ?S - {i}" using pc True by auto
    moreover have "card (?S - {i}) = card ?S - 1" "card ?S > 0" using i by (auto simp: card_gt_0_iff)
    ultimately have r: "running n s = Suc (running n s')" by (simp add: running_def)
    have "(\<Sum>i<n. weight (cursor (sys_region s')) (sys_pc s' i)) \<le> (\<Sum>i<n. 5)"
      by (rule sum_mono) (rule weight_bound)
    then show ?thesis by (simp add: total_weight_def r)
  next
    case False
    have w: "cursor r' = cursor (sys_region s)" "weight (cursor r') p' < weight (cursor (sys_region s)) (sys_pc s i)"
      using alloc_step_weight [OF st i(2) False] by auto
    have "{i. i < n \<and> \<not> returned (sys_pc s' i)} = ?S" using pc False i by auto
    then have "running n s' = running n s" by (simp add: running_def)
    moreover have "(\<Sum>j<n. weight (cursor r') (sys_pc s' j)) < (\<Sum>j<n. weight (cursor (sys_region s)) (sys_pc s j))"
      using i(1) pc w by (intro sum_strict_mono_ex1) auto
    ultimately show ?thesis by (simp add: total_weight_def reg)
  qed
qed

lemma run_length:
  "(alloc_system_step V sizes n ^^ k) s s' \<Longrightarrow> k + total_weight n s' \<le> total_weight n s"
proof (induction k arbitrary: s')
  case (Suc k)
  then obtain t where "(alloc_system_step V sizes n ^^ k) s t" "alloc_system_step V sizes n t s'" by auto
  with Suc.IH step_lowers_weight show ?case by fastforce
qed simp

lemma all_start_weight: "total_weight n (all_start region) = n * (5 * n + 4)"
  by (simp add: total_weight_def running_def algebra_simps)

text \<open>C28: However n threads interleave, all of them have returned after at most n(5n+4) accesses: an
  exchange fails only when another has succeeded, and some thread can always move.\<close>

theorem allocation_lock_free:
  assumes "(alloc_system_step V sizes n ^^ k) (all_start region) s"
  shows "k \<le> n * (5 * n + 4) \<and>
    ((\<forall>s'. \<not> alloc_system_step V sizes n s s') \<longrightarrow> (\<forall>i<n. returned (sys_pc s i)))"
  using run_length [OF assms] all_start_weight [of n region] run by fastforce

theorem allocation_lock_free_witness:
  "\<exists>s. (alloc_system_step example_vm example_sizes 2 ^^ 9) (all_start example_region) s \<and>
     9 \<le> (2::nat) * (5 * 2 + 4) \<and> (\<forall>i<2. returned (sys_pc s i))"
proof -
  have "\<exists>s. run_schedule example_vm example_sizes 2 [0, 1, 0, 1, 0, 1, 1, 1, 1] (all_start example_region) = Some s \<and>
      returned (sys_pc s 0) \<and> returned (sys_pc s 1)"
    by (simp add: example_region_def example_sizes_def)
  then obtain s where s: "run_schedule example_vm example_sizes 2 [0, 1, 0, 1, 0, 1, 1, 1, 1] (all_start example_region) = Some s"
    "returned (sys_pc s 0)" "returned (sys_pc s 1)" by blast
  have r: "(alloc_system_step example_vm example_sizes 2 ^^ 9) (all_start example_region) s"
  proof -
    have l: "length [0, 1, 0, 1, 0, 1, 1, 1, 1 :: nat] = 9" by simp
    show ?thesis using run_schedule_reaches [OF s(1)] unfolding l .
  qed
  have "\<forall>s'. \<not> alloc_system_step example_vm example_sizes 2 s s'"
    using s(2,3) by (auto elim!: system_stepE simp: less_2_cases_iff)
  with r allocation_lock_free [OF r] show ?thesis by blast
qed

section \<open>Sizes that wrap\<close>

text \<open>The check adds the size in 64 bits: a huge size wraps, passes, and moves the cursor back over
  blocks that are in use.\<close>

text \<open>C39: The size check wraps: a request of nearly 2^64 bytes passes and moves the cursor back over
  blocks in use.\<close>

theorem huge_allocation_overlaps:
  assumes "0 < k" "k \<le> unat (cursor region - region_start region)"
    and "cursor region - region_start region \<le> region_size region"
  shows "FIRCLSAllocatorSafeAllocateFromRegion V region (- of_nat k) =
    (cursor region, region\<lparr>cursor := cursor region - of_nat k\<rparr>)"
proof -
  let ?o = "cursor region - region_start region"
  have "of_nat k \<le> ?o"
    using assms(2) unat_less [of ?o] by (simp add: word_le_nat_alt unat_of_nat_small)
  then have "?o - of_nat k \<le> region_size region" using word_sub_le assms(3) order_trans by blast
  then show ?thesis by (simp add: FIRCLSAllocatorSafeAllocateFromRegion_def Let_def leD)
qed

theorem huge_allocation_overlaps_witness:
  "FIRCLSAllocatorSafeAllocateFromRegion example_vm (example_region\<lparr>cursor := 0x101040\<rparr>) (- 64) =
     (0x101040, example_region\<lparr>cursor := 0x101000\<rparr>)"
  using huge_allocation_overlaps [of 64 "example_region\<lparr>cursor := 0x101040\<rparr>" example_vm]
  by (simp add: example_region_def)

section \<open>The layout\<close>

text \<open>\<open>region_bytes\<close> as a number: whole pages, at least one byte more than asked for.\<close>

definition pages_for :: "nat \<Rightarrow> nat \<Rightarrow> nat" where
  "pages_for P space = (if space = 0 then 0 else (space div P + 1) * P)"

lemma pages_for_bounds:
  "0 < P \<Longrightarrow> space \<le> pages_for P space \<and> pages_for P space \<le> space + P"
proof -
  assume "0 < P"
  have "space = space div P * P + space mod P" by simp
  moreover have "space mod P < P" using \<open>0 < P\<close> by simp
  moreover have "space div P * P \<le> space" by simp
  ultimately have "space \<le> (space div P + 1) * P" "(space div P + 1) * P \<le> space + P" by (simp_all, linarith)
  then show ?thesis by (simp add: pages_for_def)
qed

lemma region_bytes_pages:
  assumes "0 < unat (host_page_size V)" "space + unat (host_page_size V) < 2 ^ 64"
  shows "region_bytes V (of_nat space) = of_nat (pages_for (unat (host_page_size V)) space)"
proof -
  let ?P = "unat (host_page_size V)"
  have s: "unat (of_nat space :: u64) = space" using assms by (simp add: unat_of_nat_small)
  have "(of_nat space :: u64) div host_page_size V = of_nat (space div ?P)"
    using s by (metis of_nat_unat unat_div_distrib word_arith_nat_div)
  then have "((of_nat space :: u64) div host_page_size V + 1) * host_page_size V = of_nat ((space div ?P + 1) * ?P)"
    by (simp add: algebra_simps)
  moreover have "(of_nat space :: u64) > 0 \<longleftrightarrow> space \<noteq> 0"
    using s by (metis of_nat_0 unat_eq_zero word_neq_0_conv)
  ultimately show ?thesis by (simp add: region_bytes_def pages_for_def)
qed

lemma offset_in_range:
  assumes "x < 2 ^ 64" "y + len < 2 ^ 64"
  shows "(of_nat x - of_nat y :: u64) < of_nat len \<longleftrightarrow> y \<le> x \<and> x < y + len"
  using assms by (auto simp: word_less_nat_alt unat_sub_if' unat_of_nat_small)


lemma set_access_offset:
  assumes "b + x < 2 ^ 64" "b + y + len < 2 ^ 64"
  shows "set_access (of_nat (b + y)) (of_nat len) p ps (of_nat (b + x)) =
    (if y \<le> x \<and> x < y + len then p else ps (of_nat (b + x)))"
  using offset_in_range [of "b + x" "b + y" len] assms by (simp add: set_access_def)

text \<open>Guard pages before, between and after the two regions.\<close>

definition layout_access :: "access \<Rightarrow> nat \<Rightarrow> nat \<Rightarrow> nat \<Rightarrow> nat \<Rightarrow> access" where
  "layout_access readable P W R x =
     (if x < P then PROT_NONE else if x < P + W then PROT_READ_WRITE
      else if x < 2 * P + W then PROT_NONE else if x < 2 * P + W + R then readable else PROT_NONE)"

lemma create_layout:
  assumes P: "host_page_size V = of_nat P" "0 < P" "P < 2 ^ 64"
    and W: "W = pages_for P w" and R: "R = pages_for P (r + 64)"
    and fits: "b + W + R + 3 * P < 2 ^ 64"
    and mmap: "mmap_anonymous V (of_nat (W + R + 3 * P)) = Some (of_nat b)"
    and ok: "\<forall>a len p. mprotect_succeeds V a len p"
  shows "\<exists>ps'. FIRCLSAllocatorCreate V (of_nat w) (of_nat r) ps =
     Some (Some (of_nat (b + 2 * P + W),
       \<lparr>alloc_buffer = of_nat b, protectionEnabled = False,
        writeableRegion = \<lparr>region_size = of_nat W, region_start = of_nat (b + P), cursor = of_nat (b + P)\<rparr>,
        readableRegion = \<lparr>region_size = of_nat R, region_start = of_nat (b + 2 * P + W),
          cursor = of_nat (b + 2 * P + W + 64)\<rparr>\<rparr>), ps') \<and>
     (\<forall>x < W + R + 3 * P. ps' (of_nat (b + x)) = layout_access PROT_READ_WRITE P W R x)"
proof -
  have uP: "unat (host_page_size V) = P" using P by (simp add: unat_of_nat_small)
  have bounds: "w \<le> W" "r + 64 \<le> R" using pages_for_bounds [OF P(2)] W R by auto
  have w: "region_bytes V (of_nat w) = of_nat W"
    using region_bytes_pages [of V w] uP P bounds fits W by simp
  have r: "region_bytes V (of_nat r + 64) = of_nat R"
    using region_bytes_pages [of V "r + 64"] uP P bounds fits R by simp
  define ps1 where "ps1 = set_access (of_nat (b + 0)) (of_nat (W + R + 3 * P)) PROT_READ_WRITE ps"
  define ps2 where "ps2 = set_access (of_nat (b + 0)) (of_nat P) PROT_NONE ps1"
  define ps3 where "ps3 = set_access (of_nat (b + (P + W))) (of_nat P) PROT_NONE ps2"
  define ps4 where "ps4 = set_access (of_nat (b + (2 * P + W + R))) (of_nat P) PROT_NONE ps3"
  have "ps4 (of_nat (b + x)) = layout_access PROT_READ_WRITE P W R x" if "x < W + R + 3 * P" for x
    using that fits P(2)
    by (simp only: ps4_def ps3_def ps2_def ps1_def set_access_offset) (auto simp: layout_access_def)
  moreover have "FIRCLSAllocatorCreate V (of_nat w) (of_nat r) ps = Some (Some (of_nat (b + 2 * P + W),
       \<lparr>alloc_buffer = of_nat b, protectionEnabled = False,
        writeableRegion = \<lparr>region_size = of_nat W, region_start = of_nat (b + P), cursor = of_nat (b + P)\<rparr>,
        readableRegion = \<lparr>region_size = of_nat R, region_start = of_nat (b + 2 * P + W),
          cursor = of_nat (b + 2 * P + W + 64)\<rparr>\<rparr>), ps4)"
  proof -
    have size: "(of_nat W + of_nat R + of_nat P * 3 :: u64) = of_nat (W + R + 3 * P)" by simp
    have "\<not> (of_nat R :: u64) < 64"
      using bounds(2) fits by (simp add: word_less_nat_alt unat_of_nat_small)
    moreover have "of_nat (b + 2 * P + W) \<noteq> (0 :: u64)"
      using P(2) fits unat_of_nat_small [of "b + 2 * P + W", where 'a = 64] by (auto simp del: of_nat_add)
    moreover have "mmap_anonymous V (of_nat W + of_nat R + of_nat P * 3) = Some (of_nat b)"
      using mmap unfolding size .
    ultimately show ?thesis
      using ok unfolding ps4_def ps3_def ps2_def ps1_def
      by (simp add: FIRCLSAllocatorCreate_def w r P(1) mprotect_def FIRCLSAllocatorSafeAllocateFromRegion_def
          sizeof_FIRCLSAllocator_def Let_def algebra_simps)
  qed
  ultimately show ?thesis by blast
qed

text \<open>C29: The mapping has guard pages before, between and after the two regions; after protecting,
  the readable region, with the allocator in it, is read-only and the writable one still
  writable.\<close>

theorem protected_layout:
  assumes "host_page_size V = of_nat P" "4096 \<le> P" "P < 2 ^ 64"
    and "W = pages_for P w" "R = pages_for P (r + 64)" "b + W + R + 3 * P < 2 ^ 64"
    and "mmap_anonymous V (of_nat (W + R + 3 * P)) = Some (of_nat b)"
    and "\<forall>a len p. mprotect_succeeds V a len p"
  shows "\<exists>a ps1 ps2. FIRCLSAllocatorCreate V (of_nat w) (of_nat r) ps =
       Some (Some (of_nat (b + 2 * P + W), a), ps1) \<and>
     FIRCLSAllocatorProtect V (of_nat (b + 2 * P + W)) a ps1 = (True, a\<lparr>protectionEnabled := True\<rparr>, ps2) \<and>
     (\<forall>x < W + R + 3 * P. ps1 (of_nat (b + x)) = layout_access PROT_READ_WRITE P W R x) \<and>
     (\<forall>x < W + R + 3 * P. ps2 (of_nat (b + x)) = layout_access PROT_READ P W R x)"
proof -
  let ?p = "of_nat (b + 2 * P + W) :: addr"
  obtain a ps1 where c: "FIRCLSAllocatorCreate V (of_nat w) (of_nat r) ps = Some (Some (?p, a), ps1)"
    and a: "alloc_buffer a = of_nat b" "\<not> protectionEnabled a"
      "region_size (writeableRegion a) = of_nat W" "region_size (readableRegion a) = of_nat R"
    and l: "\<forall>x < W + R + 3 * P. ps1 (of_nat (b + x)) = layout_access PROT_READ_WRITE P W R x"
    using create_layout [of V P W w R r b ps] assms by fastforce
  define ps2 where "ps2 = set_access (of_nat (b + (2 * P + W))) (of_nat R) PROT_READ ps1"
  have "FIRCLSIsValidPointer ?p"
    using assms(2,6) unat_of_nat_small [of "b + 2 * P + W", where 'a = 64]
    by (simp add: FIRCLSIsValidPointer_def word_le_nat_alt)
  then have "FIRCLSAllocatorProtect V ?p a ps1 = (True, a\<lparr>protectionEnabled := True\<rparr>, ps2)"
    using a assms(1,8) by (simp add: FIRCLSAllocatorProtect_def mprotect_def ps2_def Let_def algebra_simps)
  moreover have "ps2 (of_nat (b + x)) = layout_access PROT_READ P W R x" if "x < W + R + 3 * P" for x
    using that l assms(2,6) by (simp only: ps2_def set_access_offset) (auto simp: layout_access_def)
  ultimately show ?thesis using c l by blast
qed

theorem protected_layout_witness:
  "\<exists>a ps1 ps2. FIRCLSAllocatorCreate example_vm 100 5000 (\<lambda>_. PROT_NONE) = Some (Some (0x103000, a), ps1) \<and>
     FIRCLSAllocatorProtect example_vm 0x103000 a ps1 = (True, a\<lparr>protectionEnabled := True\<rparr>, ps2) \<and>
     ps1 0x103000 = PROT_READ_WRITE \<and> ps2 0x103000 = PROT_READ \<and> ps2 0x101000 = PROT_READ_WRITE \<and>
     ps2 0x102FFF = PROT_NONE"
proof -
  have "host_page_size example_vm = of_nat 4096" "\<forall>a len p. mprotect_succeeds example_vm a len p"
    "mmap_anonymous example_vm (of_nat (4096 + 8192 + 3 * 4096)) = Some (of_nat 0x100000)"
    by (simp_all add: example_vm_def)
  from protected_layout [OF this(1) _ _ _ _ _ this(3,2), of 100 5000 "\<lambda>_. PROT_NONE"]
  obtain a ps1 ps2 where
    r: "FIRCLSAllocatorCreate example_vm 100 5000 (\<lambda>_. PROT_NONE) = Some (Some (0x103000, a), ps1)"
      "FIRCLSAllocatorProtect example_vm 0x103000 a ps1 = (True, a\<lparr>protectionEnabled := True\<rparr>, ps2)"
    and l: "\<forall>x < 24576. ps1 (of_nat (0x100000 + x)) = layout_access PROT_READ_WRITE 4096 4096 8192 x"
      "\<forall>x < 24576. ps2 (of_nat (0x100000 + x)) = layout_access PROT_READ 4096 4096 8192 x"
    by (auto simp: pages_for_def)
  have "ps1 0x103000 = PROT_READ_WRITE" "ps2 0x103000 = PROT_READ" "ps2 0x101000 = PROT_READ_WRITE"
    "ps2 0x102FFF = PROT_NONE"
    using spec [OF l(1), of 12288] spec [OF l(2), of 12288] spec [OF l(2), of 4096] spec [OF l(2), of 12287]
    by (simp_all add: layout_access_def)
  with r show ?thesis by blast
qed

text \<open>Unprotecting asks for the address of the buffer too many bytes, and says true when it failed.\<close>

lemma unprotect_inverted:
  assumes "alloc_buffer a = of_nat b" "host_page_size V = of_nat P"
    and "region_size (writeableRegion a) = of_nat W" "region_size (readableRegion a) = of_nat R"
  shows "FIRCLSAllocatorUnprotect V (Some a) ps =
    (if mprotect_succeeds V (of_nat b) (of_nat (b + (W + R + 3 * P))) PROT_READ_WRITE
     then (False, Some (a\<lparr>protectionEnabled := False\<rparr>),
           set_access (of_nat b) (of_nat (b + (W + R + 3 * P))) PROT_READ_WRITE ps)
     else (True, Some (a\<lparr>protectionEnabled := True\<rparr>), ps))"
  using assms by (simp add: FIRCLSAllocatorUnprotect_def mprotect_def Let_def algebra_simps)

lemma protected_allocator_uses_malloc:
  "protectionEnabled a \<Longrightarrow> FIRCLSAllocatorSafeAllocate V (Some a) bytes type = (c_malloc V bytes, Some a)"
  by (simp add: FIRCLSAllocatorSafeAllocate_def)

end
