(* ===== verification/PbTypes.thy ===== *)
theory PbTypes
  imports DataParsing
begin

text \<open>
  The message descriptors of nanopb (\<open>Pods/nanopb/pb.h\<close>) and the iterator over them
  (\<open>Pods/nanopb/pb_common.h\<close>, \<open>Pods/nanopb/pb_common.c\<close>), as the app builds them: with
  \<open>PB_FIELD_32BIT\<close>, \<open>PB_NO_PACKED_STRUCTS\<close> and \<open>PB_ENABLE_MALLOC\<close>.

  The tables of descriptors are constants that the nanopb generator writes. A table is the list of
  its entries up to the terminator \<open>PB_LAST_FIELD\<close>, and a message type is the number of its table, so
  that types may refer to each other and to themselves. A position of the iterator is an index.
\<close>

section \<open>Field types\<close>

definition PB_LTYPE_BOOL :: u8 where "PB_LTYPE_BOOL = 0x00"
definition PB_LTYPE_VARINT :: u8 where "PB_LTYPE_VARINT = 0x01"
definition PB_LTYPE_UVARINT :: u8 where "PB_LTYPE_UVARINT = 0x02"
definition PB_LTYPE_SVARINT :: u8 where "PB_LTYPE_SVARINT = 0x03"
definition PB_LTYPE_FIXED32 :: u8 where "PB_LTYPE_FIXED32 = 0x04"
definition PB_LTYPE_FIXED64 :: u8 where "PB_LTYPE_FIXED64 = 0x05"
definition PB_LTYPE_LAST_PACKABLE :: u8 where "PB_LTYPE_LAST_PACKABLE = 0x05"
definition PB_LTYPE_BYTES :: u8 where "PB_LTYPE_BYTES = 0x06"
definition PB_LTYPE_STRING :: u8 where "PB_LTYPE_STRING = 0x07"
definition PB_LTYPE_SUBMESSAGE :: u8 where "PB_LTYPE_SUBMESSAGE = 0x08"
definition PB_LTYPE_EXTENSION :: u8 where "PB_LTYPE_EXTENSION = 0x09"
definition PB_LTYPE_FIXED_LENGTH_BYTES :: u8 where "PB_LTYPE_FIXED_LENGTH_BYTES = 0x0A"

definition PB_HTYPE_REQUIRED :: u8 where "PB_HTYPE_REQUIRED = 0x00"
definition PB_HTYPE_OPTIONAL :: u8 where "PB_HTYPE_OPTIONAL = 0x10"
definition PB_HTYPE_REPEATED :: u8 where "PB_HTYPE_REPEATED = 0x20"
definition PB_HTYPE_ONEOF :: u8 where "PB_HTYPE_ONEOF = 0x30"

definition PB_ATYPE_STATIC :: u8 where "PB_ATYPE_STATIC = 0x00"
definition PB_ATYPE_POINTER :: u8 where "PB_ATYPE_POINTER = 0x80"
definition PB_ATYPE_CALLBACK :: u8 where "PB_ATYPE_CALLBACK = 0x40"

definition PB_ATYPE :: "u8 \<Rightarrow> u8" where "PB_ATYPE x = x AND 0xC0"
definition PB_HTYPE :: "u8 \<Rightarrow> u8" where "PB_HTYPE x = x AND 0x30"
definition PB_LTYPE :: "u8 \<Rightarrow> u8" where "PB_LTYPE x = x AND 0x0F"

lemmas pb_ltypes = PB_LTYPE_BOOL_def PB_LTYPE_VARINT_def PB_LTYPE_UVARINT_def PB_LTYPE_SVARINT_def
  PB_LTYPE_FIXED32_def PB_LTYPE_FIXED64_def PB_LTYPE_LAST_PACKABLE_def PB_LTYPE_BYTES_def
  PB_LTYPE_STRING_def PB_LTYPE_SUBMESSAGE_def PB_LTYPE_EXTENSION_def PB_LTYPE_FIXED_LENGTH_BYTES_def

lemmas pb_htypes = PB_HTYPE_REQUIRED_def PB_HTYPE_OPTIONAL_def PB_HTYPE_REPEATED_def PB_HTYPE_ONEOF_def

lemmas pb_atypes = PB_ATYPE_STATIC_def PB_ATYPE_POINTER_def PB_ATYPE_CALLBACK_def

section \<open>Descriptors\<close>

text \<open>The pointer of a descriptor: to the fields of a submessage, to a default value, or NULL.\<close>

datatype pb_ptr = NoPtr | Submessage nat | DefaultValue "u8 list"

record pb_field =
  tag :: u32
  ftype :: u8
  data_offset :: u32
  size_offset :: u32      \<comment> \<open>\<open>pb_ssize_t\<close>, signed\<close>
  data_size :: u32
  array_size :: u32
  ptr :: pb_ptr

definition PB_LAST_FIELD :: pb_field where
  "PB_LAST_FIELD = \<lparr>tag = 0, ftype = 0, data_offset = 0, size_offset = 0, data_size = 0,
     array_size = 0, ptr = NoPtr\<rparr>"

definition PB_SIZE_MAX :: u32 where
  "PB_SIZE_MAX = 0xFFFFFFFF"

type_synonym pb_fields = "pb_field list"

definition field_at :: "pb_fields \<Rightarrow> nat \<Rightarrow> pb_field" where
  "field_at fs i = (if i < length fs then fs ! i else PB_LAST_FIELD)"

section \<open>The iterator\<close>

record pb_field_iter =
  start :: pb_fields
  pos :: nat
  required_field_index :: u32
  dest_struct :: addr
  pData :: addr
  pSize :: addr

abbreviation iter_field :: "pb_field_iter \<Rightarrow> pb_field" where
  "iter_field iter \<equiv> field_at (start iter) (pos iter)"

text \<open>\<open>size_offset\<close> is sign-extended when it is added to a pointer.\<close>

definition field_pSize :: "pb_field \<Rightarrow> addr \<Rightarrow> addr" where
  "field_pSize field data = data + scast (size_offset field)"

definition pb_field_iter_begin :: "pb_fields \<Rightarrow> addr \<Rightarrow> bool \<times> pb_field_iter" where
  "pb_field_iter_begin fs dest =
     (let field = field_at fs 0; data = dest + ucast (data_offset field)
      in (tag field \<noteq> 0,
          \<lparr>start = fs, pos = 0, required_field_index = 0, dest_struct = dest,
           pData = data, pSize = field_pSize field data\<rparr>))"

definition prev_field_size :: "pb_field \<Rightarrow> u64" where
  "prev_field_size prev =
     (if PB_ATYPE (ftype prev) = PB_ATYPE_STATIC \<and> PB_HTYPE (ftype prev) = PB_HTYPE_REPEATED
      then ucast (data_size prev) * ucast (array_size prev)
      else if PB_ATYPE (ftype prev) = PB_ATYPE_POINTER then 8
      else ucast (data_size prev))"

definition pb_field_iter_next :: "pb_field_iter \<Rightarrow> bool \<times> pb_field_iter" where
  "pb_field_iter_next iter =
     (let prev = iter_field iter in
      if tag prev = 0 then (False, iter)
      else
        let iter = iter\<lparr>pos := pos iter + 1\<rparr>; field = iter_field iter in
        if tag field = 0 then (False, snd (pb_field_iter_begin (start iter) (dest_struct iter)))
        else if PB_HTYPE (ftype prev) = PB_HTYPE_ONEOF \<and> PB_HTYPE (ftype field) = PB_HTYPE_ONEOF \<and>
                data_offset field = PB_SIZE_MAX
        then (True, iter)
        else
          let iter = (if PB_HTYPE (ftype prev) = PB_HTYPE_REQUIRED
                      then iter\<lparr>required_field_index := required_field_index iter + 1\<rparr> else iter);
              data = pData iter + prev_field_size prev + ucast (data_offset field)
          in (True, iter\<lparr>pData := data, pSize := field_pSize field data\<rparr>))"

text \<open>The search starts at the current position and goes round until it is back there.\<close>

fun find_loop :: "nat \<Rightarrow> pb_field_iter \<Rightarrow> u32 \<Rightarrow> nat \<Rightarrow> (bool \<times> pb_field_iter) option" where
  "find_loop 0 iter wanted begin_pos = None"
| "find_loop (Suc n) iter wanted begin_pos =
     (if tag (iter_field iter) = wanted \<and> PB_LTYPE (ftype (iter_field iter)) \<noteq> PB_LTYPE_EXTENSION
      then Some (True, iter)
      else let iter = snd (pb_field_iter_next iter) in
        if pos iter \<noteq> begin_pos then find_loop n iter wanted begin_pos else Some (False, iter))"

text \<open>Fuel: one more than the number of fields is enough (lemma \<open>iter_find_correct\<close>).\<close>

definition pb_field_iter_find :: "pb_field_iter \<Rightarrow> u32 \<Rightarrow> (bool \<times> pb_field_iter) option" where
  "pb_field_iter_find iter wanted = find_loop (length (start iter) + 1) iter wanted (pos iter)"

section \<open>Where the fields of a structure are\<close>

definition same_union :: "pb_field \<Rightarrow> pb_field \<Rightarrow> bool" where
  "same_union prev f \<longleftrightarrow> PB_HTYPE (ftype prev) = PB_HTYPE_ONEOF \<and> PB_HTYPE (ftype f) = PB_HTYPE_ONEOF \<and>
     data_offset f = PB_SIZE_MAX"

definition next_address :: "pb_field \<Rightarrow> addr \<Rightarrow> pb_field \<Rightarrow> addr" where
  "next_address prev data f =
     (if same_union prev f then data else data + prev_field_size prev + ucast (data_offset f))"

fun later_addresses :: "pb_field \<Rightarrow> addr \<Rightarrow> pb_fields \<Rightarrow> addr list" where
  "later_addresses prev data [] = []"
| "later_addresses prev data (f # fs) =
     (let d = next_address prev data f in d # later_addresses f d fs)"

fun field_addresses :: "pb_fields \<Rightarrow> addr \<Rightarrow> addr list" where
  "field_addresses [] dest = []"
| "field_addresses (f # fs) dest =
     (let d = dest + ucast (data_offset f) in d # later_addresses f d fs)"

text \<open>What the generator makes sure of: no tag is 0, and the members of a union have their
  which-field at the same place.\<close>

fun union_sizes_agree :: "pb_fields \<Rightarrow> bool" where
  "union_sizes_agree (prev # f # fs) \<longleftrightarrow>
     (same_union prev f \<longrightarrow> size_offset f = size_offset prev) \<and> union_sizes_agree (f # fs)"
| "union_sizes_agree _ \<longleftrightarrow> True"

definition fields_ok :: "pb_fields \<Rightarrow> bool" where
  "fields_ok fs \<longleftrightarrow> (\<forall>f \<in> set fs. tag f \<noteq> 0) \<and> union_sizes_agree fs"

text \<open>The iterator at a field: its pointers are those of that field, and it has counted the required
  fields before it.\<close>

definition is_required :: "pb_field \<Rightarrow> bool" where
  "is_required f \<longleftrightarrow> PB_HTYPE (ftype f) = PB_HTYPE_REQUIRED"

definition iter_at :: "pb_fields \<Rightarrow> addr \<Rightarrow> nat \<Rightarrow> pb_field_iter \<Rightarrow> bool" where
  "iter_at fs dest i iter \<longleftrightarrow> i < length fs \<and> start iter = fs \<and> pos iter = i \<and> dest_struct iter = dest \<and>
     pData iter = field_addresses fs dest ! i \<and> pSize iter = field_pSize (fs ! i) (pData iter) \<and>
     required_field_index iter = of_nat (length (filter is_required (take i fs)))"

lemma length_later_addresses [simp]: "length (later_addresses prev data fs) = length fs"
  by (induction fs arbitrary: prev data) (simp_all add: Let_def)

lemma length_field_addresses [simp]: "length (field_addresses fs dest) = length fs"
  by (cases fs) (simp_all add: Let_def)

lemma later_addresses_step:
  "Suc i < length fs \<Longrightarrow> later_addresses prev data fs ! Suc i =
     next_address (fs ! i) (later_addresses prev data fs ! i) (fs ! Suc i)"
proof (induction fs arbitrary: prev data i)
  case (Cons f fs)
  then show ?case by (cases i; cases fs) (auto simp: Let_def)
qed simp

lemma field_addresses_step:
  "Suc i < length fs \<Longrightarrow> field_addresses fs dest ! Suc i =
     next_address (fs ! i) (field_addresses fs dest ! i) (fs ! Suc i)"
proof (cases fs)
  case (Cons f gs)
  assume "Suc i < length fs"
  with Cons show ?thesis
    using later_addresses_step [of "i - 1" gs f] by (cases i; cases gs) (auto simp: Let_def)
qed simp

lemma union_sizes_agree_nth:
  "union_sizes_agree fs \<Longrightarrow> Suc i < length fs \<Longrightarrow> same_union (fs ! i) (fs ! Suc i) \<Longrightarrow>
   size_offset (fs ! Suc i) = size_offset (fs ! i)"
proof (induction fs arbitrary: i rule: union_sizes_agree.induct)
  case (1 prev f fs)
  then show ?case by (cases i) auto
qed auto

lemma iter_begin_at: "fs \<noteq> [] \<Longrightarrow> iter_at fs dest 0 (snd (pb_field_iter_begin fs dest))"
  by (cases fs) (auto simp: iter_at_def pb_field_iter_begin_def field_at_def Let_def)

lemma iter_begin_true: "fields_ok fs \<Longrightarrow> fst (pb_field_iter_begin fs dest) \<longleftrightarrow> fs \<noteq> []"
  by (cases fs) (auto simp: fields_ok_def pb_field_iter_begin_def field_at_def PB_LAST_FIELD_def Let_def)

lemma iter_next_at:
  assumes ok: "fields_ok fs" and at: "iter_at fs dest i iter"
  shows "fst (pb_field_iter_next iter) \<longleftrightarrow> Suc i < length fs"
    "iter_at fs dest (if Suc i < length fs then Suc i else 0) (snd (pb_field_iter_next iter))"
proof -
  note A = at [unfolded iter_at_def]
  have t: "tag (fs ! i) \<noteq> 0" "Suc i < length fs \<Longrightarrow> tag (fs ! Suc i) \<noteq> 0"
    using ok A by (auto simp: fields_ok_def)
  have u: "Suc i < length fs \<Longrightarrow> same_union (fs ! i) (fs ! Suc i) \<Longrightarrow> size_offset (fs ! Suc i) = size_offset (fs ! i)"
    using ok union_sizes_agree_nth by (auto simp: fields_ok_def)
  have req: "Suc i < length fs \<Longrightarrow> filter is_required (take (Suc i) fs) =
      filter is_required (take i fs) @ (if is_required (fs ! i) then [fs ! i] else [])"
    by (simp add: take_Suc_conv_app_nth)
  have not_req: "same_union (fs ! i) f \<Longrightarrow> \<not> is_required (fs ! i)" for f
    by (simp add: same_union_def is_required_def pb_htypes)
  have fst_snd: "fst (pb_field_iter_next iter) \<and> iter_at fs dest (Suc i) (snd (pb_field_iter_next iter))"
    if n: "Suc i < length fs"
  proof -
    have f: "field_at fs i = fs ! i" "field_at fs (Suc i) = fs ! Suc i" using n by (simp_all add: field_at_def)
    show ?thesis
    proof (cases "same_union (fs ! i) (fs ! Suc i)")
      case True
      then show ?thesis
        using A t(1) t(2) [OF n] f n u [OF n True] not_req [OF True] req [OF n] field_addresses_step [OF n, of dest]
        by (simp add: pb_field_iter_next_def iter_at_def same_union_def next_address_def field_pSize_def Let_def)
    next
      case False
      then show ?thesis
        using A t(1) t(2) [OF n] f n req [OF n] field_addresses_step [OF n, of dest]
        by (auto simp: pb_field_iter_next_def iter_at_def same_union_def next_address_def is_required_def Let_def)
    qed
  qed
  have next_out: "pb_field_iter_next iter = (False, snd (pb_field_iter_begin fs dest))" if "\<not> Suc i < length fs"
    using A t(1) that by (auto simp: pb_field_iter_next_def field_at_def PB_LAST_FIELD_def Let_def)
  have "fs \<noteq> []" using A by auto
  then show "fst (pb_field_iter_next iter) \<longleftrightarrow> Suc i < length fs"
    "iter_at fs dest (if Suc i < length fs then Suc i else 0) (snd (pb_field_iter_next iter))"
    by (cases "Suc i < length fs"; use fst_snd next_out iter_begin_at [of fs dest] in simp)+
qed

definition field_matches :: "u32 \<Rightarrow> pb_field \<Rightarrow> bool" where
  "field_matches wanted f \<longleftrightarrow> tag f = wanted \<and> PB_LTYPE (ftype f) \<noteq> PB_LTYPE_EXTENSION"

lemma mod_next:
  "i < (n::nat) \<Longrightarrow> (if Suc i < n then Suc i else 0) = Suc i mod n"
  by (auto simp: not_less_eq less_Suc_eq)

lemma mod_return: "b < (n::nat) \<Longrightarrow> k < n \<Longrightarrow> (b + Suc k) mod n = b \<longleftrightarrow> Suc k = n"
proof
  assume "b < n" "k < n" "(b + Suc k) mod n = b"
  then have "n dvd Suc k" by (metis add_diff_cancel_left' le_add1 mod_eq_dvd_iff_nat mod_less)
  with \<open>k < n\<close> show "Suc k = n" by (meson Suc_leI dvd_imp_le le_antisym zero_less_Suc)
qed auto

lemma find_loop_result:
  assumes ok: "fields_ok fs" and b: "b < length fs"
  shows "iter_at fs dest ((b + k) mod length fs) iter \<Longrightarrow> k < length fs \<Longrightarrow> length fs - k \<le> n \<Longrightarrow>
    \<exists>found iter'. find_loop n iter wanted b = Some (found, iter') \<and>
      (found \<longleftrightarrow> (\<exists>j. k \<le> j \<and> j < length fs \<and> field_matches wanted (fs ! ((b + j) mod length fs)))) \<and>
      (\<exists>j. iter_at fs dest j iter' \<and> (found \<longrightarrow> field_matches wanted (fs ! j)) \<and> (\<not> found \<longrightarrow> j = b))"
proof (induction n arbitrary: k iter)
  case (Suc n)
  let ?i = "(b + k) mod length fs"
  have here: "iter_field iter = fs ! ?i" using Suc.prems(1) by (auto simp: iter_at_def field_at_def)
  show ?case
  proof (cases "field_matches wanted (fs ! ?i)")
    case True
    then have "find_loop (Suc n) iter wanted b = Some (True, iter)"
      "\<exists>j. k \<le> j \<and> j < length fs \<and> field_matches wanted (fs ! ((b + j) mod length fs))"
      using Suc.prems(2) here by (auto simp: field_matches_def)
    with True Suc.prems(1) show ?thesis by blast
  next
    case no: False
    let ?next = "snd (pb_field_iter_next iter)"
    have lt: "?i < length fs" using b by (intro mod_less_divisor) auto
    have at: "iter_at fs dest ((b + Suc k) mod length fs) ?next"
      using iter_next_at(2) [OF ok Suc.prems(1)] unfolding mod_next [OF lt] by (simp add: mod_Suc_eq)
    then have p: "pos ?next = (b + Suc k) mod length fs" by (simp add: iter_at_def)
    have later: "(\<exists>j. k \<le> j \<and> j < length fs \<and> field_matches wanted (fs ! ((b + j) mod length fs))) \<longleftrightarrow>
        (\<exists>j. Suc k \<le> j \<and> j < length fs \<and> field_matches wanted (fs ! ((b + j) mod length fs)))"
      using no by (metis Suc_leD le_antisym not_less_eq_eq)
    have loop: "find_loop (Suc n) iter wanted b =
        (if pos ?next \<noteq> b then find_loop n ?next wanted b else Some (False, ?next))"
      using no here by (auto simp: field_matches_def Let_def)
    show ?thesis
    proof (cases "Suc k = length fs")
      case True
      have "find_loop (Suc n) iter wanted b = Some (False, ?next)"
        using loop p mod_return [OF b Suc.prems(2)] True by simp
      with at later True b show ?thesis by (auto simp: not_less)
    next
      case False
      have "find_loop (Suc n) iter wanted b = find_loop n ?next wanted b"
        using loop p mod_return [OF b Suc.prems(2)] False by simp
      then show ?thesis
        using Suc.IH [OF at] Suc.prems False later by simp
    qed
  qed
qed simp

text \<open>The search never fails to return; it finds a field of that tag if there is one, with the pointers
  of that field, and is back where it began if there is none.\<close>

lemma iter_find_correct:
  assumes "fields_ok fs" "iter_at fs dest i iter"
  shows "\<exists>found iter' j. pb_field_iter_find iter wanted = Some (found, iter') \<and> iter_at fs dest j iter' \<and>
    (found \<longleftrightarrow> (\<exists>f \<in> set fs. field_matches wanted f)) \<and>
    (if found then field_matches wanted (fs ! j) else j = i)"
proof -
  have i: "i < length fs" "start iter = fs" "pos iter = i" using assms(2) by (auto simp: iter_at_def)
  have all: "(\<exists>j < length fs. field_matches wanted (fs ! ((i + j) mod length fs))) \<longleftrightarrow>
      (\<exists>f \<in> set fs. field_matches wanted f)"
  proof
    assume "\<exists>f \<in> set fs. field_matches wanted f"
    then obtain l where l: "l < length fs" "field_matches wanted (fs ! l)" by (auto simp: in_set_conv_nth)
    define j where "j = (if i \<le> l then l - i else length fs - i + l)"
    have "j < length fs" "(i + j) mod length fs = l" using l i by (auto simp: j_def)
    with l show "\<exists>j < length fs. field_matches wanted (fs ! ((i + j) mod length fs))" by auto
  qed (use i in \<open>force intro!: bexI [OF _ nth_mem] mod_less_divisor\<close>)
  show ?thesis
    using find_loop_result [OF assms(1) i(1), of dest 0 iter "length fs + 1" wanted] assms(2) i all
    by (fastforce simp: pb_field_iter_find_def)
qed

text \<open>A loop \<open>do ... while (pb_field_iter_next(&iter))\<close> ends: the position goes up to the terminator.\<close>

lemma iter_next_position:
  "fst (pb_field_iter_next iter) \<Longrightarrow>
   start (snd (pb_field_iter_next iter)) = start iter \<and> pos (snd (pb_field_iter_next iter)) = Suc (pos iter) \<and>
   Suc (pos iter) < length (start iter)"
  by (auto simp: pb_field_iter_next_def field_at_def PB_LAST_FIELD_def Let_def split: if_splits)

lemma iter_next_measure:
  "(again, iter') = pb_field_iter_next iter \<Longrightarrow> again \<Longrightarrow>
   length (start iter') - pos iter' < length (start iter) - pos iter"
  using iter_next_position [of iter] by (cases "pb_field_iter_next iter") auto

end
