(* ===== verification/PbEncode.thy ===== *)
theory PbEncode
  imports PbTypes
begin

text \<open>
  The nanopb encoder: \<open>Pods/nanopb/pb_encode.h\<close> and \<open>Pods/nanopb/pb_encode.c\<close>. It writes a C structure,
  described by a table of fields, as a protocol buffers message; Crashlytics and the data transport
  encode their reports with it.

  A stream is a record over the state \<open>'s\<close> of its callback, which the code passes as an opaque
  pointer; the callback reads and changes that state only. A stream without callback only counts. The
  structure is read from a memory \<open>m\<close> the stream does not write to. A result is the source's \<open>bool\<close> with
  the changed stream; \<open>None\<close> is a fault, such as reading memory that is not mapped, calling a
  NULL entry of the encoder table, or exceeding the depth of the recursion (below).
\<close>

section \<open>Output streams\<close>

record 's pb_ostream =
  callback :: "('s \<Rightarrow> u8 list \<Rightarrow> (bool \<times> 's) option) option"
  stream_state :: 's
  max_size :: u64
  bytes_written :: u64
  errmsg :: "string option"

type_synonym 's written = "(bool \<times> 's pb_ostream) option"

text \<open>\<open>if (!a) return false; b\<close>: \<open>b\<close> runs when \<open>a\<close> has returned true.\<close>

definition and_then :: "'s written \<Rightarrow> ('s pb_ostream \<Rightarrow> 's written) \<Rightarrow> 's written" where
  "and_then a b = do { (ok, stream) \<leftarrow> a; if ok then b stream else Some (False, stream) }"

definition PB_RETURN_ERROR :: "'s pb_ostream \<Rightarrow> string \<Rightarrow> 's written" where
  "PB_RETURN_ERROR stream msg =
     Some (False, stream\<lparr>errmsg := (case errmsg stream of None \<Rightarrow> Some msg | Some e \<Rightarrow> Some e)\<rparr>)"

text \<open>The state of a sizing stream is NULL in the source and never used; any value stands for it.\<close>

definition PB_OSTREAM_SIZING :: "'s \<Rightarrow> 's pb_ostream" where
  "PB_OSTREAM_SIZING unused =
     \<lparr>callback = None, stream_state = unused, max_size = 0, bytes_written = 0, errmsg = None\<rparr>"

text \<open>The stream into a memory buffer: the bytes of the buffer and where the next one goes. Writing
  past the end of the buffer is a fault.\<close>

record out_buffer =
  out_bytes :: "u8 list"
  out_pos :: nat

definition buf_write :: "out_buffer \<Rightarrow> u8 list \<Rightarrow> (bool \<times> out_buffer) option" where
  "buf_write b bs =
     (if out_pos b + length bs \<le> length (out_bytes b)
      then Some (True, b\<lparr>out_bytes := take (out_pos b) (out_bytes b) @ bs @ drop (out_pos b + length bs) (out_bytes b),
                         out_pos := out_pos b + length bs\<rparr>)
      else None)"

definition pb_ostream_from_buffer :: "u8 list \<Rightarrow> u64 \<Rightarrow> out_buffer pb_ostream" where
  "pb_ostream_from_buffer buf bufsize =
     \<lparr>callback = Some buf_write, stream_state = \<lparr>out_bytes = buf, out_pos = 0\<rparr>,
      max_size = bufsize, bytes_written = 0, errmsg = None\<rparr>"

text \<open>\<open>buf\<close> is what is at the address given to \<open>pb_write\<close>, \<open>None\<close> if it cannot be read; it is only looked
  at by the callback.\<close>

definition pb_write :: "'s pb_ostream \<Rightarrow> u8 list option \<Rightarrow> u64 \<Rightarrow> 's written" where
  "pb_write stream buf count =
     (case (if count > 0 then callback stream else None) of
        None \<Rightarrow> Some (True, stream\<lparr>bytes_written := bytes_written stream + count\<rparr>)
      | Some write \<Rightarrow>
          if bytes_written stream + count > max_size stream then PB_RETURN_ERROR stream ''stream full''
          else do {
            bs \<leftarrow> buf;
            (ok, s) \<leftarrow> write (stream_state stream) bs;
            let stream = stream\<lparr>stream_state := s\<rparr>;
            if ok then Some (True, stream\<lparr>bytes_written := bytes_written stream + count\<rparr>)
            else PB_RETURN_ERROR stream ''io error'' })"

section \<open>Numbers\<close>

lemma drop_bit_7_less: "v \<noteq> 0 \<Longrightarrow> unat (drop_bit 7 v :: u64) < unat v"
  by (simp add: drop_bit_eq_div unat_div_distrib unat_gt_0)

text \<open>The bytes of \<open>pb_encode_varint\<close> before the top bit of the last one is cleared.\<close>

function varint_loop :: "u64 \<Rightarrow> u8 list" where
  "varint_loop v =
     (if v = 0 then [] else ucast ((v AND 0x7F) OR 0x80) # varint_loop (drop_bit 7 v))"
  by pat_completeness auto

termination
  by (relation "measure unat") (simp_all only: in_measure drop_bit_7_less wf_measure simp_thms)

declare varint_loop.simps [simp del]

definition varint_bytes :: "u64 \<Rightarrow> u8 list" where
  "varint_bytes v =
     (if v \<le> 0x7F then [ucast v]
      else let bs = varint_loop v in butlast bs @ [last bs AND 0x7F])"

definition pb_encode_varint :: "'s pb_ostream \<Rightarrow> u64 \<Rightarrow> 's written" where
  "pb_encode_varint stream v =
     (let bs = varint_bytes v in pb_write stream (Some bs) (of_nat (length bs)))"

definition zigzag :: "u64 \<Rightarrow> u64" where
  "zigzag v = (if v <s 0 then NOT (push_bit 1 v) else push_bit 1 v)"

definition pb_encode_svarint :: "'s pb_ostream \<Rightarrow> u64 \<Rightarrow> 's written" where
  "pb_encode_svarint stream v = pb_encode_varint stream (zigzag v)"

definition fixed32_bytes :: "u32 \<Rightarrow> u8 list" where
  "fixed32_bytes val =
     [ucast (val AND 0xFF), ucast (drop_bit 8 val AND 0xFF), ucast (drop_bit 16 val AND 0xFF),
      ucast (drop_bit 24 val AND 0xFF)]"

definition pb_encode_fixed32 :: "mem \<Rightarrow> 's pb_ostream \<Rightarrow> addr \<Rightarrow> 's written" where
  "pb_encode_fixed32 m stream src =
     do { val \<leftarrow> load32 m src; pb_write stream (Some (fixed32_bytes val)) 4 }"

definition fixed64_bytes :: "u64 \<Rightarrow> u8 list" where
  "fixed64_bytes val =
     [ucast (val AND 0xFF), ucast (drop_bit 8 val AND 0xFF), ucast (drop_bit 16 val AND 0xFF),
      ucast (drop_bit 24 val AND 0xFF), ucast (drop_bit 32 val AND 0xFF), ucast (drop_bit 40 val AND 0xFF),
      ucast (drop_bit 48 val AND 0xFF), ucast (drop_bit 56 val AND 0xFF)]"

definition pb_encode_fixed64 :: "mem \<Rightarrow> 's pb_ostream \<Rightarrow> addr \<Rightarrow> 's written" where
  "pb_encode_fixed64 m stream src =
     do { val \<leftarrow> load64 m src; pb_write stream (Some (fixed64_bytes val)) 8 }"

section \<open>Tags and strings\<close>

definition PB_WT_VARINT :: u64 where "PB_WT_VARINT = 0"
definition PB_WT_64BIT :: u64 where "PB_WT_64BIT = 1"
definition PB_WT_STRING :: u64 where "PB_WT_STRING = 2"
definition PB_WT_32BIT :: u64 where "PB_WT_32BIT = 5"

definition pb_encode_tag :: "'s pb_ostream \<Rightarrow> u64 \<Rightarrow> u32 \<Rightarrow> 's written" where
  "pb_encode_tag stream wiretype field_number =
     pb_encode_varint stream (push_bit 3 (ucast field_number) OR wiretype)"

definition pb_encode_tag_for_field :: "'s pb_ostream \<Rightarrow> pb_field \<Rightarrow> 's written" where
  "pb_encode_tag_for_field stream field =
     (let ltype = PB_LTYPE (ftype field) in
      if ltype = PB_LTYPE_BOOL \<or> ltype = PB_LTYPE_VARINT \<or> ltype = PB_LTYPE_UVARINT \<or> ltype = PB_LTYPE_SVARINT
      then pb_encode_tag stream PB_WT_VARINT (tag field)
      else if ltype = PB_LTYPE_FIXED32 then pb_encode_tag stream PB_WT_32BIT (tag field)
      else if ltype = PB_LTYPE_FIXED64 then pb_encode_tag stream PB_WT_64BIT (tag field)
      else if ltype = PB_LTYPE_BYTES \<or> ltype = PB_LTYPE_STRING \<or> ltype = PB_LTYPE_SUBMESSAGE \<or>
              ltype = PB_LTYPE_FIXED_LENGTH_BYTES
      then pb_encode_tag stream PB_WT_STRING (tag field)
      else PB_RETURN_ERROR stream ''invalid field type'')"

definition pb_encode_string :: "mem \<Rightarrow> 's pb_ostream \<Rightarrow> addr \<Rightarrow> u64 \<Rightarrow> 's written" where
  "pb_encode_string m stream buf count =
     and_then (pb_encode_varint stream count)
       (\<lambda>stream. pb_write stream (load_bytes m buf (unat count)) count)"

section \<open>The environment\<close>

text \<open>What the encoder is given beside the stream: the memory, the generated tables, and the functions
  of the user of the library, found by the value of the pointer to them. \<open>extension_fields\<close> is the
  descriptor an extension type refers to.\<close>

record 's pb_env =
  env_mem :: mem
  messages :: "nat \<Rightarrow> pb_fields"
  user_encode :: "addr \<Rightarrow> 's pb_ostream \<Rightarrow> pb_field \<Rightarrow> addr \<Rightarrow> 's written"
  extension_encode :: "addr \<Rightarrow> 's pb_ostream \<Rightarrow> addr \<Rightarrow> 's written"
  extension_fields :: "addr \<Rightarrow> pb_field"

type_synonym 's encoder = "'s pb_ostream \<Rightarrow> pb_field \<Rightarrow> addr \<Rightarrow> 's written"

type_synonym 's message_encoder = "'s pb_ostream \<Rightarrow> pb_fields \<Rightarrow> addr \<Rightarrow> 's written"

definition safe_read_bool :: "mem \<Rightarrow> addr \<Rightarrow> bool option" where
  "safe_read_bool m p = do { b \<leftarrow> load8 m p; Some (b \<noteq> 0) }"

section \<open>Submessages\<close>

text \<open>The message is encoded twice, first to know its length. \<open>enc\<close> is \<open>pb_encode\<close>.\<close>

definition pb_encode_submessage :: "'s message_encoder \<Rightarrow> 's message_encoder" where
  "pb_encode_submessage enc stream fs src =
     do {
       (ok, sizing) \<leftarrow> enc (PB_OSTREAM_SIZING (stream_state stream)) fs src;
       if \<not> ok then Some (False, stream\<lparr>errmsg := errmsg sizing\<rparr>)
       else
         let count = bytes_written sizing in
         and_then (pb_encode_varint stream count) (\<lambda>stream.
           if callback stream = None then pb_write stream None count
           else if bytes_written stream + count > max_size stream
           then PB_RETURN_ERROR stream ''stream full''
           else do {
             (status, sub) \<leftarrow> enc \<lparr>callback = callback stream, stream_state = stream_state stream,
               max_size = count, bytes_written = 0, errmsg = None\<rparr> fs src;
             let stream = stream\<lparr>bytes_written := bytes_written stream + bytes_written sub,
               stream_state := stream_state sub, errmsg := errmsg sub\<rparr>;
             if bytes_written sub \<noteq> count then PB_RETURN_ERROR stream ''submsg size changed''
             else Some (status, stream) }) }"

section \<open>Field encoders\<close>

definition pb_enc_bool :: "mem \<Rightarrow> 's encoder" where
  "pb_enc_bool m stream field src =
     do { b \<leftarrow> safe_read_bool m src; pb_encode_varint stream (if b then 1 else 0) }"

definition load_signed :: "mem \<Rightarrow> u32 \<Rightarrow> addr \<Rightarrow> u64 option option" where
  "load_signed m bytes src =
     (if bytes = 1 then map_option (Some \<circ> scast) (load8 m src)
      else if bytes = 2 then map_option (Some \<circ> scast) (load16 m src)
      else if bytes = 4 then map_option (Some \<circ> scast) (load32 m src)
      else if bytes = 8 then map_option Some (load64 m src)
      else Some None)"

definition load_unsigned :: "mem \<Rightarrow> u32 \<Rightarrow> addr \<Rightarrow> u64 option option" where
  "load_unsigned m bytes src =
     (if bytes = 1 then map_option (Some \<circ> ucast) (load8 m src)
      else if bytes = 2 then map_option (Some \<circ> ucast) (load16 m src)
      else if bytes = 4 then map_option (Some \<circ> ucast) (load32 m src)
      else if bytes = 8 then map_option Some (load64 m src)
      else Some None)"

definition pb_enc_varint :: "mem \<Rightarrow> 's encoder" where
  "pb_enc_varint m stream field src =
     do { v \<leftarrow> load_signed m (data_size field) src;
          case v of None \<Rightarrow> PB_RETURN_ERROR stream ''invalid data_size''
                  | Some n \<Rightarrow> pb_encode_varint stream n }"

definition pb_enc_uvarint :: "mem \<Rightarrow> 's encoder" where
  "pb_enc_uvarint m stream field src =
     do { v \<leftarrow> load_unsigned m (data_size field) src;
          case v of None \<Rightarrow> PB_RETURN_ERROR stream ''invalid data_size''
                  | Some n \<Rightarrow> pb_encode_varint stream n }"

definition pb_enc_svarint :: "mem \<Rightarrow> 's encoder" where
  "pb_enc_svarint m stream field src =
     do { v \<leftarrow> load_signed m (data_size field) src;
          case v of None \<Rightarrow> PB_RETURN_ERROR stream ''invalid data_size''
                  | Some n \<Rightarrow> pb_encode_svarint stream n }"

definition pb_enc_fixed32 :: "mem \<Rightarrow> 's encoder" where
  "pb_enc_fixed32 m stream field src = pb_encode_fixed32 m stream src"

definition pb_enc_fixed64 :: "mem \<Rightarrow> 's encoder" where
  "pb_enc_fixed64 m stream field src = pb_encode_fixed64 m stream src"

text \<open>A \<open>pb_bytes_array_t\<close> is its size and, at offset 4, the bytes.\<close>

definition PB_BYTES_ARRAY_T_ALLOCSIZE :: "u64 \<Rightarrow> u64" where
  "PB_BYTES_ARRAY_T_ALLOCSIZE n = n + 4"

definition pb_enc_bytes :: "mem \<Rightarrow> 's encoder" where
  "pb_enc_bytes m stream field src =
     (if src = 0 then pb_encode_string m stream 0 0
      else do {
        n \<leftarrow> load32 m src;
        if PB_ATYPE (ftype field) = PB_ATYPE_STATIC \<and>
           PB_BYTES_ARRAY_T_ALLOCSIZE (ucast n) > ucast (data_size field)
        then PB_RETURN_ERROR stream ''bytes size exceeded''
        else pb_encode_string m stream (src + 4) (ucast n) })"

text \<open>\<open>while (size < max_size && *p != '\0')\<close>: the number of characters, at most \<open>max_size\<close>.\<close>

fun string_loop :: "nat \<Rightarrow> mem \<Rightarrow> addr \<Rightarrow> u64 option" where
  "string_loop 0 m p = Some 0"
| "string_loop (Suc n) m p =
     do { b \<leftarrow> load8 m p;
          if b = 0 then Some 0 else do { k \<leftarrow> string_loop n m (p + 1); Some (k + 1) } }"

definition pb_enc_string :: "mem \<Rightarrow> 's encoder" where
  "pb_enc_string m stream field src =
     (let max_size = (if PB_ATYPE (ftype field) = PB_ATYPE_POINTER then 2 ^ 64 - 1
                      else unat (data_size field)) in
      do { count \<leftarrow> (if src = 0 then Some 0 else string_loop max_size m src);
           pb_encode_string m stream src count })"

definition pb_enc_submessage :: "(nat \<Rightarrow> pb_fields) \<Rightarrow> 's message_encoder \<Rightarrow> 's encoder" where
  "pb_enc_submessage tables enc stream field src =
     (case ptr field of
        NoPtr \<Rightarrow> PB_RETURN_ERROR stream ''invalid field descriptor''
      | Submessage i \<Rightarrow> pb_encode_submessage enc stream (tables i) src
      | DefaultValue v \<Rightarrow> None)"

definition pb_enc_fixed_length_bytes :: "mem \<Rightarrow> 's encoder" where
  "pb_enc_fixed_length_bytes m stream field src = pb_encode_string m stream src (ucast (data_size field))"

text \<open>The table of encoders. It has eleven entries; the one for extensions is NULL.\<close>

definition PB_ENCODERS :: "'s pb_env \<Rightarrow> 's message_encoder \<Rightarrow> u8 \<Rightarrow> 's encoder option" where
  "PB_ENCODERS E enc ltype =
     (let m = env_mem E in
      if ltype = PB_LTYPE_BOOL then Some (pb_enc_bool m)
      else if ltype = PB_LTYPE_VARINT then Some (pb_enc_varint m)
      else if ltype = PB_LTYPE_UVARINT then Some (pb_enc_uvarint m)
      else if ltype = PB_LTYPE_SVARINT then Some (pb_enc_svarint m)
      else if ltype = PB_LTYPE_FIXED32 then Some (pb_enc_fixed32 m)
      else if ltype = PB_LTYPE_FIXED64 then Some (pb_enc_fixed64 m)
      else if ltype = PB_LTYPE_BYTES then Some (pb_enc_bytes m)
      else if ltype = PB_LTYPE_STRING then Some (pb_enc_string m)
      else if ltype = PB_LTYPE_SUBMESSAGE then Some (pb_enc_submessage (messages E) enc)
      else if ltype = PB_LTYPE_EXTENSION then Some (\<lambda>stream field src. None)
      else if ltype = PB_LTYPE_FIXED_LENGTH_BYTES then Some (pb_enc_fixed_length_bytes m)
      else None)"

section \<open>Arrays\<close>

fun encode_items :: "nat \<Rightarrow> ('s pb_ostream \<Rightarrow> addr \<Rightarrow> 's written) \<Rightarrow> u64 \<Rightarrow> 's pb_ostream \<Rightarrow> addr \<Rightarrow> 's written" where
  "encode_items 0 item stride stream p = Some (True, stream)"
| "encode_items (Suc n) item stride stream p =
     and_then (item stream p) (\<lambda>stream. encode_items n item stride stream (p + stride))"

definition packed_size :: "'s encoder \<Rightarrow> 's pb_ostream \<Rightarrow> pb_field \<Rightarrow> addr \<Rightarrow> u32 \<Rightarrow> (bool \<times> u64) option" where
  "packed_size func stream field data count =
     (if PB_LTYPE (ftype field) = PB_LTYPE_FIXED32 then Some (True, 4 * ucast count)
      else if PB_LTYPE (ftype field) = PB_LTYPE_FIXED64 then Some (True, 8 * ucast count)
      else do {
        (ok, sizing) \<leftarrow> encode_items (unat count) (\<lambda>stream p. func stream field p) (ucast (data_size field))
                         (PB_OSTREAM_SIZING (stream_state stream)) data;
        Some (ok, bytes_written sizing) })"

definition encode_array :: "mem \<Rightarrow> 's encoder \<Rightarrow> 's pb_ostream \<Rightarrow> pb_field \<Rightarrow> addr \<Rightarrow> u32 \<Rightarrow> 's written" where
  "encode_array m func stream field data count =
     (let stride = ucast (data_size field) in
      if count = 0 then Some (True, stream)
      else if PB_ATYPE (ftype field) \<noteq> PB_ATYPE_POINTER \<and> count > array_size field
      then PB_RETURN_ERROR stream ''array max size exceeded''
      else if PB_LTYPE (ftype field) \<le> PB_LTYPE_LAST_PACKABLE
      then and_then (pb_encode_tag stream PB_WT_STRING (tag field)) (\<lambda>stream. do {
        (ok, total) \<leftarrow> packed_size func stream field data count;
        if \<not> ok then Some (False, stream)
        else and_then (pb_encode_varint stream total) (\<lambda>stream.
          if callback stream = None then pb_write stream None total
          else encode_items (unat count) (\<lambda>stream p. func stream field p) stride stream data) })
      else encode_items (unat count) (\<lambda>stream p.
        and_then (pb_encode_tag_for_field stream field) (\<lambda>stream.
          if PB_ATYPE (ftype field) = PB_ATYPE_POINTER \<and>
             (PB_LTYPE (ftype field) = PB_LTYPE_STRING \<or> PB_LTYPE (ftype field) = PB_LTYPE_BYTES)
          then do { q \<leftarrow> load64 m p; func stream field q }
          else func stream field p)) stride stream data)"

section \<open>Proto3 default values\<close>

text \<open>\<open>do ... while (pb_field_iter_next(&iter))\<close>, left with false at the first field whose test is false.\<close>

function all_fields :: "(pb_field \<Rightarrow> addr \<Rightarrow> bool option) \<Rightarrow> pb_field_iter \<Rightarrow> bool option" where
  "all_fields test iter =
     do { ok \<leftarrow> test (iter_field iter) (pData iter);
          if \<not> ok then Some False
          else let (again, iter) = pb_field_iter_next iter in
            if again then all_fields test iter else Some True }"
  by pat_completeness auto

termination
  by (relation "measure (\<lambda>(test, iter). length (start iter) - pos iter)")
    (auto dest: iter_next_measure)

declare all_fields.simps [simp del]

fun all_zero :: "nat \<Rightarrow> mem \<Rightarrow> addr \<Rightarrow> bool option" where
  "all_zero 0 m p = Some True"
| "all_zero (Suc n) m p = do { b \<leftarrow> load8 m p; if b \<noteq> 0 then Some False else all_zero n m (p + 1) }"

text \<open>The test of one field; \<open>check\<close> is the test itself, for the fields of a submessage.\<close>

definition check_proto3_default ::
    "'s pb_env \<Rightarrow> (pb_field \<Rightarrow> addr \<Rightarrow> bool option) \<Rightarrow> pb_field \<Rightarrow> addr \<Rightarrow> bool option" where
  "check_proto3_default E check field data =
     (let m = env_mem E; type = ftype field; size = field_pSize field data in
      if PB_HTYPE type = PB_HTYPE_REQUIRED then Some False
      else if PB_HTYPE type = PB_HTYPE_REPEATED \<and> size_offset field \<noteq> 0
      then map_option (\<lambda>n. n = 0) (load32 m size)
      else if PB_HTYPE type = PB_HTYPE_REPEATED \<and> PB_ATYPE type = PB_ATYPE_STATIC then Some False
      else if PB_HTYPE type = PB_HTYPE_ONEOF then map_option (\<lambda>n. n = 0) (load32 m size)
      else if PB_HTYPE type = PB_HTYPE_OPTIONAL \<and> size_offset field \<noteq> 0
      then map_option Not (safe_read_bool m size)
      else if PB_ATYPE type = PB_ATYPE_STATIC \<and> PB_LTYPE type = PB_LTYPE_BYTES
      then map_option (\<lambda>n. n = 0) (load32 m data)
      else if PB_ATYPE type = PB_ATYPE_STATIC \<and> PB_LTYPE type = PB_LTYPE_STRING
      then map_option (\<lambda>c. c = 0) (load8 m data)
      else if PB_ATYPE type = PB_ATYPE_STATIC \<and> PB_LTYPE type = PB_LTYPE_FIXED_LENGTH_BYTES
      then Some (data_size field = 0)
      else if PB_ATYPE type = PB_ATYPE_STATIC \<and> PB_LTYPE type = PB_LTYPE_SUBMESSAGE
      then (case ptr field of
              Submessage i \<Rightarrow>
                (let (ok, iter) = pb_field_iter_begin (messages E i) data in
                 if ok then all_fields check iter else Some True)
            | _ \<Rightarrow> None)
      else all_zero (unat (data_size field)) m data)"

text \<open>The recursion goes through the submessages that are part of the structure; the first argument
  bounds its depth.\<close>

fun pb_check_proto3_default_value :: "nat \<Rightarrow> 's pb_env \<Rightarrow> pb_field \<Rightarrow> addr \<Rightarrow> bool option" where
  "pb_check_proto3_default_value 0 E field data = None"
| "pb_check_proto3_default_value (Suc d) E field data =
     check_proto3_default E (pb_check_proto3_default_value d E) field data"

section \<open>One field\<close>

text \<open>\<open>check\<close> is \<open>pb_check_proto3_default_value\<close>. \<open>pSize\<close> points to a local where \<open>size_offset\<close> is 0; a
  union whose which-field would be read there is a broken table.\<close>

definition encode_basic_field ::
    "'s pb_env \<Rightarrow> 's message_encoder \<Rightarrow> (pb_field \<Rightarrow> addr \<Rightarrow> bool option) \<Rightarrow> 's encoder" where
  "encode_basic_field E enc check stream field data =
     (let m = env_mem E; type = ftype field; size = field_pSize field data in
      do {
        func \<leftarrow> PB_ENCODERS E enc (PB_LTYPE type);
        implicit_has \<leftarrow> (if size_offset field = 0 \<and> PB_HTYPE type = PB_HTYPE_OPTIONAL
                          then map_option Not (check field data) else Some True);
        data \<leftarrow> (if PB_ATYPE type = PB_ATYPE_POINTER then load64 m data else Some data);
        let implicit_has = (if PB_ATYPE type = PB_ATYPE_POINTER then data \<noteq> 0 else implicit_has);
        if PB_HTYPE type = PB_HTYPE_REQUIRED then
          (if data = 0 then PB_RETURN_ERROR stream ''missing required field''
           else and_then (pb_encode_tag_for_field stream field) (\<lambda>stream. func stream field data))
        else if PB_HTYPE type = PB_HTYPE_OPTIONAL then do {
          has \<leftarrow> (if size_offset field \<noteq> 0 then safe_read_bool m size else Some implicit_has);
          if has then and_then (pb_encode_tag_for_field stream field) (\<lambda>stream. func stream field data)
          else Some (True, stream) }
        else if PB_HTYPE type = PB_HTYPE_REPEATED then do {
          count \<leftarrow> (if size_offset field \<noteq> 0 then load32 m size else Some (array_size field));
          encode_array m func stream field data count }
        else do {
          which \<leftarrow> (if size_offset field \<noteq> 0 then load32 m size else None);
          if which = tag field
          then and_then (pb_encode_tag_for_field stream field) (\<lambda>stream. func stream field data)
          else Some (True, stream) } })"

definition encode_callback_field :: "'s pb_env \<Rightarrow> 's encoder" where
  "encode_callback_field E stream field data =
     do { encode \<leftarrow> load64 (env_mem E) data;
          if encode = 0 then Some (True, stream)
          else do { (ok, stream) \<leftarrow> user_encode E encode stream field (data + 8);
                    if ok then Some (True, stream) else PB_RETURN_ERROR stream ''callback error'' } }"

definition encode_field ::
    "'s pb_env \<Rightarrow> 's message_encoder \<Rightarrow> (pb_field \<Rightarrow> addr \<Rightarrow> bool option) \<Rightarrow> 's encoder" where
  "encode_field E enc check stream field data =
     (if PB_ATYPE (ftype field) = PB_ATYPE_STATIC \<or> PB_ATYPE (ftype field) = PB_ATYPE_POINTER
      then encode_basic_field E enc check stream field data
      else if PB_ATYPE (ftype field) = PB_ATYPE_CALLBACK then encode_callback_field E stream field data
      else PB_RETURN_ERROR stream ''invalid field type'')"

section \<open>Extensions\<close>

text \<open>A \<open>pb_extension_t\<close> holds its type, its destination and the next extension; a \<open>pb_extension_type_t\<close>
  the decoder, the encoder and the argument, for the default handler a descriptor.\<close>

definition default_extension_encoder ::
    "'s pb_env \<Rightarrow> 's encoder \<Rightarrow> 's pb_ostream \<Rightarrow> addr \<Rightarrow> 's written" where
  "default_extension_encoder E field_encoder stream extension =
     do { type \<leftarrow> load64 (env_mem E) extension;
          arg \<leftarrow> load64 (env_mem E) (type + 16);
          let field = extension_fields E arg;
          if PB_ATYPE (ftype field) = PB_ATYPE_POINTER then field_encoder stream field (extension + 8)
          else do { dest \<leftarrow> load64 (env_mem E) (extension + 8); field_encoder stream field dest } }"

text \<open>\<open>while (extension)\<close>: the list may be circular, then the loop does not end.\<close>

partial_function (option) encode_extensions ::
    "'s pb_env \<Rightarrow> 's encoder \<Rightarrow> 's pb_ostream \<Rightarrow> addr \<Rightarrow> 's written" where
  "encode_extensions E field_encoder stream extension =
     (if extension = 0 then Some (True, stream)
      else do {
        type \<leftarrow> load64 (env_mem E) extension;
        encode \<leftarrow> load64 (env_mem E) (type + 8);
        (ok, stream) \<leftarrow> (if encode \<noteq> 0 then extension_encode E encode stream extension
                          else default_extension_encoder E field_encoder stream extension);
        if \<not> ok then Some (False, stream)
        else do { following \<leftarrow> load64 (env_mem E) (extension + 16);
                  encode_extensions E field_encoder stream following } })"

definition encode_extension_field :: "'s pb_env \<Rightarrow> 's encoder \<Rightarrow> 's encoder" where
  "encode_extension_field E field_encoder stream field data =
     do { extension \<leftarrow> load64 (env_mem E) data; encode_extensions E field_encoder stream extension }"

section \<open>Messages\<close>

function encode_fields ::
    "('s pb_ostream \<Rightarrow> pb_field \<Rightarrow> addr \<Rightarrow> 's written) \<Rightarrow> 's pb_ostream \<Rightarrow> pb_field_iter \<Rightarrow> 's written" where
  "encode_fields one stream iter =
     and_then (one stream (iter_field iter) (pData iter)) (\<lambda>stream.
       let (again, iter) = pb_field_iter_next iter in
         if again then encode_fields one stream iter else Some (True, stream))"
  by pat_completeness auto

termination
  by (relation "measure (\<lambda>(one, stream, iter). length (start iter) - pos iter)")
    (auto dest: iter_next_measure)

declare encode_fields.simps [simp del]

definition encode_message ::
    "'s pb_env \<Rightarrow> 's message_encoder \<Rightarrow> (pb_field \<Rightarrow> addr \<Rightarrow> bool option) \<Rightarrow> 's message_encoder" where
  "encode_message E enc check stream fs src =
     (let (ok, iter) = pb_field_iter_begin fs src in
      if \<not> ok then Some (True, stream)
      else encode_fields (\<lambda>stream field data.
        if PB_LTYPE (ftype field) = PB_LTYPE_EXTENSION
        then encode_extension_field E (encode_field E enc check) stream field data
        else encode_field E enc check stream field data) stream iter)"

text \<open>\<open>pb_encode\<close> calls itself for submessages; the first argument bounds how deep they are nested:
  a message nested deeper has no result here. The theorems ask for a bound of at least the nesting.\<close>

fun pb_encode :: "nat \<Rightarrow> 's pb_env \<Rightarrow> 's message_encoder" where
  "pb_encode 0 E stream fs src = None"
| "pb_encode (Suc d) E stream fs src =
     encode_message E (pb_encode d E) (pb_check_proto3_default_value (Suc d) E) stream fs src"

definition pb_encode_delimited :: "nat \<Rightarrow> 's pb_env \<Rightarrow> 's message_encoder" where
  "pb_encode_delimited d E = pb_encode_submessage (pb_encode d E)"

definition pb_encode_nullterminated :: "nat \<Rightarrow> 's pb_env \<Rightarrow> 's message_encoder" where
  "pb_encode_nullterminated d E stream fs src =
     and_then (pb_encode d E stream fs src) (\<lambda>stream. pb_write stream (Some [0]) 1)"

definition pb_get_encoded_size :: "nat \<Rightarrow> 's pb_env \<Rightarrow> 's \<Rightarrow> pb_fields \<Rightarrow> addr \<Rightarrow> u64 option option" where
  "pb_get_encoded_size d E unused fs src =
     do { (ok, stream) \<leftarrow> pb_encode d E (PB_OSTREAM_SIZING unused) fs src;
          Some (if ok then Some (bytes_written stream) else None) }"

end
