(* ===== verification/PbDecode.thy ===== *)
theory PbDecode
  imports PbEncode
begin

text \<open>
  The nanopb decoder: \<open>Pods/nanopb/pb_decode.h\<close> and \<open>Pods/nanopb/pb_decode.c\<close>, built with
  \<open>PB_ENABLE_MALLOC\<close>. It reads a protocol buffers message into a C structure, described by a table of
  fields; the data transport and the Firestore client decode the answers of the servers with it.

  The structure, what it points to, and the local variable the code takes the address of are in a memory
  that the decoder changes. The input is apart from it: a stream reads from a buffer, which is a list of the
  bytes not yet read, or through a callback with a state of its own. As for the encoder, \<open>None\<close> is a
  fault or a recursion deeper than the number given.
\<close>

section \<open>Writing memory\<close>

fun store_bytes :: "mem \<Rightarrow> addr \<Rightarrow> u8 list \<Rightarrow> mem option" where
  "store_bytes m a [] = Some m"
| "store_bytes m a (b # bs) = (if m a = None then None else store_bytes (m(a \<mapsto> b)) (a + 1) bs)"

definition store8 :: "mem \<Rightarrow> addr \<Rightarrow> u8 \<Rightarrow> mem option" where
  "store8 m a v = store_bytes m a [v]"

definition store32 :: "mem \<Rightarrow> addr \<Rightarrow> u32 \<Rightarrow> mem option" where
  "store32 m a v = store_bytes m a (le_bytes 4 (unat v))"

definition store64 :: "mem \<Rightarrow> addr \<Rightarrow> u64 \<Rightarrow> mem option" where
  "store64 m a v = store_bytes m a (le_bytes 8 (unat v))"

text \<open>The memory, and what the allocator keeps for itself.\<close>

record 'h world =
  wmem :: mem
  heap :: 'h

definition update_mem :: "'h world \<Rightarrow> (mem \<Rightarrow> mem option) \<Rightarrow> 'h world option" where
  "update_mem w f = map_option (\<lambda>m. w\<lparr>wmem := m\<rparr>) (f (wmem w))"

section \<open>Input streams\<close>

text \<open>\<open>Buffer\<close> is a stream whose callback is \<open>buf_read\<close>. A callback returns what it read, which it has
  also stored where it was asked to; it is undefined what happens when it reports success with another
  number of bytes.\<close>

datatype 's source = Buffer "u8 list" | Callback "'s \<Rightarrow> u64 \<Rightarrow> (bool \<times> u8 list \<times> 's) option" 's

record 's pb_istream =
  source :: "'s source"
  bytes_left :: u64
  ierrmsg :: "string option"

type_synonym ('a, 's) reading = "('a option \<times> 's pb_istream) option"

type_synonym ('s, 'h) decoded = "(bool \<times> 's pb_istream \<times> 'h world) option"

definition stream_error :: "'s pb_istream \<Rightarrow> string \<Rightarrow> 's pb_istream" where
  "stream_error stream msg =
     stream\<lparr>ierrmsg := (case ierrmsg stream of None \<Rightarrow> Some msg | Some e \<Rightarrow> Some e)\<rparr>"

text \<open>\<open>if (!read(stream, &x)) return false;\<close> before a function that reads on, and before one that also
  changes the world.\<close>

definition read_then :: "('a, 's) reading \<Rightarrow> ('a \<Rightarrow> 's pb_istream \<Rightarrow> ('b, 's) reading) \<Rightarrow> ('b, 's) reading" where
  "read_then r f = do { (v, stream) \<leftarrow> r; case v of None \<Rightarrow> Some (None, stream) | Some x \<Rightarrow> f x stream }"

definition decode_then ::
    "('a, 's) reading \<Rightarrow> 'h world \<Rightarrow> ('a \<Rightarrow> 's pb_istream \<Rightarrow> ('s, 'h) decoded) \<Rightarrow> ('s, 'h) decoded" where
  "decode_then r w f = do { (v, stream) \<leftarrow> r; case v of None \<Rightarrow> Some (False, stream, w) | Some x \<Rightarrow> f x stream }"

fun source_read :: "'s source \<Rightarrow> u64 \<Rightarrow> (bool \<times> u8 list \<times> 's source) option" where
  "source_read (Buffer bs) count =
     (if unat count \<le> length bs then Some (True, take (unat count) bs, Buffer (drop (unat count) bs)) else None)"
| "source_read (Callback f s) count =
     do { (ok, bs, s) \<leftarrow> f s count;
          if ok \<and> length bs \<noteq> unat count then None else Some (ok, bs, Callback f s) }"

text \<open>\<open>pb_read\<close> into a buffer: whether it succeeded, and what it has stored.\<close>

definition raw_read :: "'s pb_istream \<Rightarrow> u64 \<Rightarrow> (bool \<times> u8 list \<times> 's pb_istream) option" where
  "raw_read stream count =
     (if count = 0 then Some (True, [], stream)
      else if bytes_left stream < count then Some (False, [], stream_error stream ''end-of-stream'')
      else do {
        (ok, bs, src) \<leftarrow> source_read (source stream) count;
        let stream = stream\<lparr>source := src\<rparr>;
        if ok then Some (True, bs, stream\<lparr>bytes_left := bytes_left stream - count\<rparr>)
        else Some (False, bs, stream_error stream ''io error'') })"

definition pb_read :: "'s pb_istream \<Rightarrow> u64 \<Rightarrow> (u8 list, 's) reading" where
  "pb_read stream count =
     do { (ok, bs, stream) \<leftarrow> raw_read stream count; Some (if ok then Some bs else None, stream) }"

text \<open>\<open>pb_read\<close> with \<open>NULL\<close> for the buffer skips; through a callback in pieces of 16 bytes.\<close>

function skip_loop :: "'s pb_istream \<Rightarrow> u64 \<Rightarrow> (unit, 's) reading" where
  "skip_loop stream count =
     (if count > 16
      then read_then (pb_read stream 16) (\<lambda>_ stream. skip_loop stream (count - 16))
      else read_then (pb_read stream count) (\<lambda>_ stream. Some (Some (), stream)))"
  by pat_completeness auto

termination
  by (relation "measure (\<lambda>(stream, count). unat count)") (auto simp: word_less_nat_alt unat_sub_if')

declare skip_loop.simps [simp del]

definition pb_read_null :: "'s pb_istream \<Rightarrow> u64 \<Rightarrow> (unit, 's) reading" where
  "pb_read_null stream count =
     (if count = 0 then Some (Some (), stream)
      else case source stream of
        Buffer _ \<Rightarrow> read_then (pb_read stream count) (\<lambda>_ stream. Some (Some (), stream))
      | Callback _ _ \<Rightarrow> skip_loop stream count)"

text \<open>\<open>pb_read\<close> to an address.\<close>

definition pb_read_mem :: "'s pb_istream \<Rightarrow> 'h world \<Rightarrow> addr \<Rightarrow> u64 \<Rightarrow> ('s, 'h) decoded" where
  "pb_read_mem stream w buf count =
     (if buf = 0 then decode_then (pb_read_null stream count) w (\<lambda>_ stream. Some (True, stream, w))
      else do {
        (ok, bs, stream) \<leftarrow> raw_read stream count;
        w \<leftarrow> update_mem w (\<lambda>m. store_bytes m buf bs);
        Some (ok, stream, w) })"

definition pb_readbyte :: "'s pb_istream \<Rightarrow> (u8, 's) reading" where
  "pb_readbyte stream =
     (if bytes_left stream = 0 then Some (None, stream_error stream ''end-of-stream'')
      else do {
        (ok, bs, src) \<leftarrow> source_read (source stream) 1;
        let stream = stream\<lparr>source := src\<rparr>;
        if ok then Some (Some (hd bs), stream\<lparr>bytes_left := bytes_left stream - 1\<rparr>)
        else Some (None, stream_error stream ''io error'') })"

definition pb_istream_from_buffer :: "u8 list \<Rightarrow> u64 \<Rightarrow> 's pb_istream" where
  "pb_istream_from_buffer buf bufsize = \<lparr>source = Buffer buf, bytes_left = bufsize, ierrmsg = None\<rparr>"

section \<open>Numbers, tags, and skipping\<close>

lemma minus_one_less: "w \<noteq> 0 \<Longrightarrow> unat (w - 1 :: u64) < unat w"
  using unat_gt_0 [of w] by (simp add: unat_minus_one)

lemma readbyte_less:
  "pb_readbyte stream = Some (Some b, stream') \<Longrightarrow> unat (bytes_left stream') < unat (bytes_left stream)"
  by (auto simp: pb_readbyte_def bind_eq_Some_conv Let_def minus_one_less split: if_splits)

text \<open>The loop of \<open>pb_decode_varint32_eof\<close>: the result, the bit position and the last byte at its end.
  The position is a \<open>uint_fast8_t\<close>, which has 8 bits.\<close>

function varint32_loop :: "'s pb_istream \<Rightarrow> u32 \<Rightarrow> u8 \<Rightarrow> (u32 \<times> u8 \<times> u8, 's) reading" where
  "varint32_loop stream result bitpos =
     (case pb_readbyte stream of
        None \<Rightarrow> None
      | Some (None, stream) \<Rightarrow> Some (None, stream)
      | Some (Some byte, stream) \<Rightarrow>
          if bitpos \<ge> 32 \<and> byte AND 0x7F \<noteq> 0 \<and>
             (drop_bit 31 result = 0 \<or> byte \<noteq> (if bitpos < 63 then 0xFF else 0x01))
          then Some (None, stream_error stream ''varint overflow'')
          else
            let result = (if bitpos \<ge> 32 then result else result OR push_bit (unat bitpos) (ucast (byte AND 0x7F)))
            in if byte AND 0x80 \<noteq> 0 then varint32_loop stream result (bitpos + 7)
               else Some (Some (result, bitpos + 7, byte), stream))"
  by pat_completeness auto

termination
  by (relation "measure (\<lambda>(stream, result, bitpos). unat (bytes_left stream))") (auto dest: readbyte_less)

declare varint32_loop.simps [simp del]

text \<open>The second component is what the code stores through \<open>eof\<close>.\<close>

definition pb_decode_varint32_eof :: "'s pb_istream \<Rightarrow> (u32 option \<times> bool \<times> 's pb_istream) option" where
  "pb_decode_varint32_eof stream =
     (case pb_readbyte stream of
        None \<Rightarrow> None
      | Some (None, stream) \<Rightarrow> Some (None, bytes_left stream = 0, stream)
      | Some (Some byte, stream) \<Rightarrow>
          if byte AND 0x80 = 0 then Some (Some (ucast byte), False, stream)
          else do {
            (v, stream) \<leftarrow> varint32_loop stream (ucast (byte AND 0x7F)) 7;
            case v of
              None \<Rightarrow> Some (None, False, stream)
            | Some (result, bitpos, byte) \<Rightarrow>
                if bitpos = 35 \<and> byte AND 0x70 \<noteq> 0
                then Some (None, False, stream_error stream ''varint overflow'')
                else Some (Some result, False, stream) })"

definition pb_decode_varint32 :: "'s pb_istream \<Rightarrow> (u32, 's) reading" where
  "pb_decode_varint32 stream = do { (v, eof, stream) \<leftarrow> pb_decode_varint32_eof stream; Some (v, stream) }"

function varint64_loop :: "'s pb_istream \<Rightarrow> u64 \<Rightarrow> u8 \<Rightarrow> (u64, 's) reading" where
  "varint64_loop stream result bitpos =
     (if bitpos \<ge> 64 then Some (None, stream_error stream ''varint overflow'')
      else case pb_readbyte stream of
        None \<Rightarrow> None
      | Some (None, stream) \<Rightarrow> Some (None, stream)
      | Some (Some byte, stream) \<Rightarrow>
          let result = result OR push_bit (unat bitpos) (ucast (byte AND 0x7F))
          in if byte AND 0x80 \<noteq> 0 then varint64_loop stream result (bitpos + 7)
             else Some (Some result, stream))"
  by pat_completeness auto

termination
  by (relation "measure (\<lambda>(stream, result, bitpos). unat (bytes_left stream))") (auto dest: readbyte_less)

declare varint64_loop.simps [simp del]

definition pb_decode_varint :: "'s pb_istream \<Rightarrow> (u64, 's) reading" where
  "pb_decode_varint stream = varint64_loop stream 0 0"

lemma read_one_less:
  "pb_read stream 1 = Some (Some bs, stream') \<Longrightarrow> unat (bytes_left stream') < unat (bytes_left stream)"
  by (auto simp: pb_read_def raw_read_def bind_eq_Some_conv Let_def minus_one_less split: if_splits)

function pb_skip_varint :: "'s pb_istream \<Rightarrow> (unit, 's) reading" where
  "pb_skip_varint stream =
     (case pb_read stream 1 of
        None \<Rightarrow> None
      | Some (None, stream) \<Rightarrow> Some (None, stream)
      | Some (Some bs, stream) \<Rightarrow>
          if hd bs AND 0x80 \<noteq> 0 then pb_skip_varint stream else Some (Some (), stream))"
  by pat_completeness auto

termination
  by (relation "measure (\<lambda>stream. unat (bytes_left stream))") (auto dest: read_one_less)

declare pb_skip_varint.simps [simp del]

definition pb_skip_string :: "'s pb_istream \<Rightarrow> (unit, 's) reading" where
  "pb_skip_string stream =
     read_then (pb_decode_varint32 stream) (\<lambda>n stream. pb_read_null stream (ucast n))"

text \<open>The tag and the wire type, and \<open>eof\<close>.\<close>

definition pb_decode_tag :: "'s pb_istream \<Rightarrow> ((u32 \<times> u64) option \<times> bool \<times> 's pb_istream) option" where
  "pb_decode_tag stream =
     do { (v, eof, stream) \<leftarrow> pb_decode_varint32_eof stream;
          case v of
            None \<Rightarrow> Some (None, eof, stream)
          | Some temp \<Rightarrow>
              if temp = 0 then Some (None, True, stream)
              else Some (Some (drop_bit 3 temp, ucast (temp AND 7)), False, stream) }"

definition pb_skip_field :: "'s pb_istream \<Rightarrow> u64 \<Rightarrow> (unit, 's) reading" where
  "pb_skip_field stream wire_type =
     (if wire_type = PB_WT_VARINT then pb_skip_varint stream
      else if wire_type = PB_WT_64BIT then pb_read_null stream 8
      else if wire_type = PB_WT_STRING then pb_skip_string stream
      else if wire_type = PB_WT_32BIT then pb_read_null stream 4
      else Some (None, stream_error stream ''invalid wire_type''))"

text \<open>The bytes of a varint, at most \<open>n\<close>; the error has no message.\<close>

fun raw_varint :: "nat \<Rightarrow> 's pb_istream \<Rightarrow> (u8 list, 's) reading" where
  "raw_varint 0 stream = Some (None, stream)"
| "raw_varint (Suc n) stream =
     read_then (pb_read stream 1) (\<lambda>bs stream.
       if hd bs AND 0x80 \<noteq> 0 then read_then (raw_varint n stream) (\<lambda>cs stream. Some (Some (bs @ cs), stream))
       else Some (Some bs, stream))"

definition read_raw_value :: "'s pb_istream \<Rightarrow> u64 \<Rightarrow> nat \<Rightarrow> (u8 list, 's) reading" where
  "read_raw_value stream wire_type limit =
     (if wire_type = PB_WT_VARINT then raw_varint limit stream
      else if wire_type = PB_WT_64BIT then pb_read stream 8
      else if wire_type = PB_WT_32BIT then pb_read stream 4
      else Some (None, stream_error stream ''invalid wire_type''))"

definition pb_make_string_substream :: "'s pb_istream \<Rightarrow> ('s pb_istream, 's) reading" where
  "pb_make_string_substream stream =
     read_then (pb_decode_varint32 stream) (\<lambda>n stream.
       if bytes_left stream < ucast n then Some (None, stream_error stream ''parent stream too short'')
       else Some (Some (stream\<lparr>bytes_left := ucast n\<rparr>), stream\<lparr>bytes_left := bytes_left stream - ucast n\<rparr>))"

definition pb_close_string_substream :: "'s pb_istream \<Rightarrow> 's pb_istream \<Rightarrow> (unit, 's) reading" where
  "pb_close_string_substream stream substream =
     do { (v, substream) \<leftarrow> (if bytes_left substream \<noteq> 0 then pb_read_null substream (bytes_left substream)
                             else Some (Some (), substream));
          case v of
            None \<Rightarrow> Some (None, stream)
          | Some _ \<Rightarrow> Some (Some (), stream\<lparr>source := source substream, ierrmsg := ierrmsg substream\<rparr>) }"

section \<open>The environment\<close>

text \<open>The tables, the functions of the user of the library (found by the value of the pointer to them),
  \<open>realloc\<close> and \<open>free\<close>, and where the local variable \<open>fixed_count_size\<close> of a call of \<open>pb_decode_noinit\<close>
  is, by the depth of the call.\<close>

record ('s, 'h) pb_denv =
  dmessages :: "nat \<Rightarrow> pb_fields"
  user_decode :: "addr \<Rightarrow> 's pb_istream \<Rightarrow> pb_field \<Rightarrow> addr \<Rightarrow> 'h world \<Rightarrow> ('s, 'h) decoded"
  extension_decode :: "addr \<Rightarrow> 's pb_istream \<Rightarrow> addr \<Rightarrow> u32 \<Rightarrow> u64 \<Rightarrow> 'h world \<Rightarrow> ('s, 'h) decoded"
  dextension_fields :: "addr \<Rightarrow> pb_field"
  pb_realloc :: "'h world \<Rightarrow> addr \<Rightarrow> u64 \<Rightarrow> (addr \<times> 'h world) option"
  pb_free :: "'h world \<Rightarrow> addr \<Rightarrow> 'h world option"
  fixed_count_local :: "nat \<Rightarrow> addr"

text \<open>A decoder of a value: \<open>func(stream, field, dest)\<close>; and a decoder of a message.\<close>

type_synonym ('s, 'h) decoder = "'s pb_istream \<Rightarrow> pb_field \<Rightarrow> addr \<Rightarrow> 'h world \<Rightarrow> ('s, 'h) decoded"

type_synonym ('s, 'h) message_decoder = "'s pb_istream \<Rightarrow> pb_fields \<Rightarrow> addr \<Rightarrow> 'h world \<Rightarrow> ('s, 'h) decoded"

text \<open>\<open>if (!f(...)) return false;\<close> where \<open>f\<close> changes the world.\<close>

definition dec_then ::
    "('s, 'h) decoded \<Rightarrow> ('s pb_istream \<Rightarrow> 'h world \<Rightarrow> ('s, 'h) decoded) \<Rightarrow> ('s, 'h) decoded" where
  "dec_then r f = do { (ok, stream, w) \<leftarrow> r; if ok then f stream w else Some (False, stream, w) }"

definition dec_error :: "'s pb_istream \<Rightarrow> 'h world \<Rightarrow> string \<Rightarrow> ('s, 'h) decoded" where
  "dec_error stream w msg = Some (False, stream_error stream msg, w)"

section \<open>Storage for pointer fields\<close>

definition allocate_field ::
    "('s, 'h) pb_denv \<Rightarrow> 's pb_istream \<Rightarrow> 'h world \<Rightarrow> addr \<Rightarrow> u64 \<Rightarrow> u64 \<Rightarrow> ('s, 'h) decoded" where
  "allocate_field E stream w dst dsize asize =
     do {
       p \<leftarrow> load64 (wmem w) dst;
       if dsize = 0 \<or> asize = 0 then dec_error stream w ''invalid size''
       else if (dsize \<ge> 2 ^ 32 \<or> asize \<ge> 2 ^ 32) \<and> (- 1 :: u64) div asize < dsize
       then dec_error stream w ''size too large''
       else do {
         (p, w) \<leftarrow> pb_realloc E w p (asize * dsize);
         if p = 0 then dec_error stream w ''realloc failed''
         else do { w \<leftarrow> update_mem w (\<lambda>m. store64 m dst p); Some (True, stream, w) } } }"

definition memset_zero :: "'h world \<Rightarrow> addr \<Rightarrow> u32 \<Rightarrow> 'h world option" where
  "memset_zero w p n = update_mem w (\<lambda>m. store_bytes m p (replicate (unat n) 0))"

section \<open>Default values\<close>

text \<open>\<open>do f(&iter); while (pb_field_iter_next(&iter));\<close>\<close>

function each_field :: "(pb_field_iter \<Rightarrow> 'h world \<Rightarrow> 'h world option) \<Rightarrow> pb_field_iter \<Rightarrow> 'h world \<Rightarrow> 'h world option" where
  "each_field f iter w =
     do { w \<leftarrow> f iter w;
          let (again, iter) = pb_field_iter_next iter in
            if again then each_field f iter w else Some w }"
  by pat_completeness auto

termination
  by (relation "measure (\<lambda>(f, iter, w). length (start iter) - pos iter)") (auto dest: iter_next_measure)

declare each_field.simps [simp del]

definition iter_from_extension :: "('s, 'h) pb_denv \<Rightarrow> mem \<Rightarrow> addr \<Rightarrow> pb_field_iter option" where
  "iter_from_extension E m extension =
     do {
       type \<leftarrow> load64 m extension;
       arg \<leftarrow> load64 m (type + 16);
       dest \<leftarrow> load64 m (extension + 8);
       let field = dextension_fields E arg;
       Some ((snd (pb_field_iter_begin [field] dest))
         \<lparr>pData := (if PB_ATYPE (ftype field) = PB_ATYPE_POINTER then extension + 8 else dest),
          pSize := extension + 24\<rparr>) }"

text \<open>\<open>while (ext != NULL)\<close>, for the two functions that go through the list.\<close>

partial_function (option) each_extension ::
    "('s, 'h) pb_denv \<Rightarrow> ('h world \<Rightarrow> addr \<Rightarrow> 'h world option) \<Rightarrow>
       (pb_field_iter \<Rightarrow> 'h world \<Rightarrow> 'h world option) \<Rightarrow> addr \<Rightarrow> 'h world \<Rightarrow> 'h world option" where
  "each_extension E before f ext w =
     (if ext = 0 then Some w
      else do {
        w \<leftarrow> before w ext;
        iter \<leftarrow> iter_from_extension E (wmem w) ext;
        w \<leftarrow> f iter w;
        following \<leftarrow> load64 (wmem w) (ext + 16);
        each_extension E before f following w })"

text \<open>\<open>again\<close> is the function itself, for the fields of extensions and submessages.\<close>

definition set_to_default ::
    "('s, 'h) pb_denv \<Rightarrow> (pb_field_iter \<Rightarrow> 'h world \<Rightarrow> 'h world option) \<Rightarrow> pb_field_iter \<Rightarrow> 'h world \<Rightarrow> 'h world option" where
  "set_to_default E again iter w =
     (let field = iter_field iter; type = ftype field in
      if PB_LTYPE type = PB_LTYPE_EXTENSION then do {
        ext \<leftarrow> load64 (wmem w) (pData iter);
        each_extension E (\<lambda>w ext. update_mem w (\<lambda>m. store8 m (ext + 24) 0)) again ext w }
      else if PB_ATYPE type = PB_ATYPE_STATIC then do {
        w \<leftarrow> (if PB_HTYPE type = PB_HTYPE_OPTIONAL \<and> pSize iter \<noteq> pData iter
               then update_mem w (\<lambda>m. store8 m (pSize iter) 0)
               else if PB_HTYPE type = PB_HTYPE_REPEATED \<or> PB_HTYPE type = PB_HTYPE_ONEOF
               then update_mem w (\<lambda>m. store32 m (pSize iter) 0)
               else Some w);
        if PB_HTYPE type = PB_HTYPE_REPEATED \<or> PB_HTYPE type = PB_HTYPE_ONEOF then Some w
        else if PB_LTYPE type = PB_LTYPE_SUBMESSAGE
        then (case ptr field of
                Submessage i \<Rightarrow>
                  (let (ok, sub) = pb_field_iter_begin (dmessages E i) (pData iter) in
                   if ok then each_field again sub w else Some w)
              | _ \<Rightarrow> None)
        else (case ptr field of
                DefaultValue bs \<Rightarrow> update_mem w (\<lambda>m. store_bytes m (pData iter) (take (unat (data_size field)) bs))
              | NoPtr \<Rightarrow> memset_zero w (pData iter) (data_size field)
              | Submessage i \<Rightarrow> None) }
      else if PB_ATYPE type = PB_ATYPE_POINTER then do {
        w \<leftarrow> update_mem w (\<lambda>m. store64 m (pData iter) 0);
        if PB_HTYPE type = PB_HTYPE_REPEATED \<or> PB_HTYPE type = PB_HTYPE_ONEOF
        then update_mem w (\<lambda>m. store32 m (pSize iter) 0) else Some w }
      else Some w)"

fun pb_field_set_to_default :: "nat \<Rightarrow> ('s, 'h) pb_denv \<Rightarrow> pb_field_iter \<Rightarrow> 'h world \<Rightarrow> 'h world option" where
  "pb_field_set_to_default 0 E iter w = None"
| "pb_field_set_to_default (Suc d) E iter w = set_to_default E (pb_field_set_to_default d E) iter w"

definition pb_message_set_to_defaults :: "nat \<Rightarrow> ('s, 'h) pb_denv \<Rightarrow> pb_fields \<Rightarrow> addr \<Rightarrow> 'h world \<Rightarrow> 'h world option" where
  "pb_message_set_to_defaults d E fs dest w =
     (let (ok, iter) = pb_field_iter_begin fs dest in
      if ok then each_field (pb_field_set_to_default d E) iter w else Some w)"

section \<open>Releasing\<close>

fun repeat_items :: "nat \<Rightarrow> (addr \<Rightarrow> 'h world \<Rightarrow> 'h world option) \<Rightarrow> u64 \<Rightarrow> addr \<Rightarrow> 'h world \<Rightarrow> 'h world option" where
  "repeat_items 0 f stride p w = Some w"
| "repeat_items (Suc n) f stride p w = do { w \<leftarrow> f p w; repeat_items n f stride (p + stride) w }"

text \<open>The number of items in a submessage field.\<close>

definition release_count :: "'h world \<Rightarrow> pb_field_iter \<Rightarrow> u32 option" where
  "release_count w iter =
     (let field = iter_field iter; type = ftype field in
      if PB_HTYPE type \<noteq> PB_HTYPE_REPEATED then Some 1
      else do {
        n \<leftarrow> (if PB_ATYPE type = PB_ATYPE_STATIC \<and> pSize iter = pData iter then Some (array_size field)
              else load32 (wmem w) (pSize iter));
        Some (if PB_ATYPE type = PB_ATYPE_STATIC \<and> n > array_size field then array_size field else n) })"

text \<open>\<open>release\<close> is \<open>pb_release\<close> and \<open>again\<close> the function itself.\<close>

definition release_inside ::
    "('s, 'h) pb_denv \<Rightarrow> (pb_fields \<Rightarrow> addr \<Rightarrow> 'h world \<Rightarrow> 'h world option) \<Rightarrow>
       (pb_field_iter \<Rightarrow> 'h world \<Rightarrow> 'h world option) \<Rightarrow> pb_field_iter \<Rightarrow> 'h world \<Rightarrow> 'h world option" where
  "release_inside E release again iter w =
     (let field = iter_field iter; type = ftype field in
      if PB_LTYPE type = PB_LTYPE_EXTENSION then do {
        ext \<leftarrow> load64 (wmem w) (pData iter);
        each_extension E (\<lambda>w ext. Some w) again ext w }
      else if PB_LTYPE type = PB_LTYPE_SUBMESSAGE \<and> PB_ATYPE type \<noteq> PB_ATYPE_CALLBACK then do {
        item \<leftarrow> (if PB_ATYPE type = PB_ATYPE_POINTER then load64 (wmem w) (pData iter) else Some (pData iter));
        count \<leftarrow> release_count w iter;
        if item = 0 then Some w
        else (case ptr field of
                Submessage i \<Rightarrow>
                  repeat_items (unat count) (release (dmessages E i)) (ucast (data_size field)) item w
              | _ \<Rightarrow> if count = 0 then Some w else None) }
      else Some w)"

definition release_pointer :: "('s, 'h) pb_denv \<Rightarrow> pb_field_iter \<Rightarrow> 'h world \<Rightarrow> 'h world option" where
  "release_pointer E iter w =
     (let field = iter_field iter; type = ftype field in
      if PB_ATYPE type \<noteq> PB_ATYPE_POINTER then Some w
      else do {
        w \<leftarrow> (if PB_HTYPE type = PB_HTYPE_REPEATED \<and>
                  (PB_LTYPE type = PB_LTYPE_STRING \<or> PB_LTYPE type = PB_LTYPE_BYTES)
               then do {
                 item \<leftarrow> load64 (wmem w) (pData iter);
                 count \<leftarrow> load32 (wmem w) (pSize iter);
                 repeat_items (unat count) (\<lambda>p w. do {
                   q \<leftarrow> load64 (wmem w) p;
                   w \<leftarrow> pb_free E w q;
                   update_mem w (\<lambda>m. store64 m p 0) }) 8 item w }
               else Some w);
        w \<leftarrow> (if PB_HTYPE type = PB_HTYPE_REPEATED then update_mem w (\<lambda>m. store32 m (pSize iter) 0) else Some w);
        q \<leftarrow> load64 (wmem w) (pData iter);
        w \<leftarrow> pb_free E w q;
        update_mem w (\<lambda>m. store64 m (pData iter) 0) })"

definition release_single ::
    "('s, 'h) pb_denv \<Rightarrow> (pb_fields \<Rightarrow> addr \<Rightarrow> 'h world \<Rightarrow> 'h world option) \<Rightarrow>
       (pb_field_iter \<Rightarrow> 'h world \<Rightarrow> 'h world option) \<Rightarrow> pb_field_iter \<Rightarrow> 'h world \<Rightarrow> 'h world option" where
  "release_single E release again iter w =
     do {
       current \<leftarrow> (if PB_HTYPE (ftype (iter_field iter)) = PB_HTYPE_ONEOF
                   then map_option (\<lambda>n. n = tag (iter_field iter)) (load32 (wmem w) (pSize iter)) else Some True);
       if \<not> current then Some w
       else do { w \<leftarrow> release_inside E release again iter w; release_pointer E iter w } }"

definition release_message ::
    "(pb_field_iter \<Rightarrow> 'h world \<Rightarrow> 'h world option) \<Rightarrow> pb_fields \<Rightarrow> addr \<Rightarrow> 'h world \<Rightarrow> 'h world option" where
  "release_message single fs dest w =
     (if dest = 0 then Some w
      else let (ok, iter) = pb_field_iter_begin fs dest in
        if ok then each_field single iter w else Some w)"

fun pb_release_single_field :: "nat \<Rightarrow> ('s, 'h) pb_denv \<Rightarrow> pb_field_iter \<Rightarrow> 'h world \<Rightarrow> 'h world option" where
  "pb_release_single_field 0 E iter w = None"
| "pb_release_single_field (Suc d) E iter w =
     release_single E (release_message (pb_release_single_field d E)) (pb_release_single_field d E) iter w"

definition pb_release :: "nat \<Rightarrow> ('s, 'h) pb_denv \<Rightarrow> pb_fields \<Rightarrow> addr \<Rightarrow> 'h world \<Rightarrow> 'h world option" where
  "pb_release d E = release_message (pb_release_single_field d E)"

section \<open>Values\<close>

definition pb_decode_svarint :: "'s pb_istream \<Rightarrow> (u64, 's) reading" where
  "pb_decode_svarint stream =
     read_then (pb_decode_varint stream) (\<lambda>v stream.
       Some (Some (if v AND 1 \<noteq> 0 then NOT (drop_bit 1 v) else drop_bit 1 v), stream))"

definition fixed32_value :: "u8 list \<Rightarrow> u32" where
  "fixed32_value bs =
     push_bit 0 (ucast (bs ! 0)) OR push_bit 8 (ucast (bs ! 1)) OR push_bit 16 (ucast (bs ! 2)) OR
     push_bit 24 (ucast (bs ! 3))"

definition pb_decode_fixed32 :: "'s pb_istream \<Rightarrow> 'h world \<Rightarrow> addr \<Rightarrow> ('s, 'h) decoded" where
  "pb_decode_fixed32 stream w dest =
     decode_then (pb_read stream 4) w (\<lambda>bs stream.
       do { w \<leftarrow> update_mem w (\<lambda>m. store32 m dest (fixed32_value bs)); Some (True, stream, w) })"

definition fixed64_value :: "u8 list \<Rightarrow> u64" where
  "fixed64_value bs =
     push_bit 0 (ucast (bs ! 0)) OR push_bit 8 (ucast (bs ! 1)) OR push_bit 16 (ucast (bs ! 2)) OR
     push_bit 24 (ucast (bs ! 3)) OR push_bit 32 (ucast (bs ! 4)) OR push_bit 40 (ucast (bs ! 5)) OR
     push_bit 48 (ucast (bs ! 6)) OR push_bit 56 (ucast (bs ! 7))"

definition pb_decode_fixed64 :: "'s pb_istream \<Rightarrow> 'h world \<Rightarrow> addr \<Rightarrow> ('s, 'h) decoded" where
  "pb_decode_fixed64 stream w dest =
     decode_then (pb_read stream 8) w (\<lambda>bs stream.
       do { w \<leftarrow> update_mem w (\<lambda>m. store64 m dest (fixed64_value bs)); Some (True, stream, w) })"

definition pb_dec_bool :: "('s, 'h) decoder" where
  "pb_dec_bool stream field dest w =
     decode_then (pb_decode_varint32 stream) w (\<lambda>v stream.
       do { w \<leftarrow> update_mem w (\<lambda>m. store8 m dest (if v \<noteq> 0 then 1 else 0)); Some (True, stream, w) })"

definition pb_decode_bool :: "'s pb_istream \<Rightarrow> addr \<Rightarrow> 'h world \<Rightarrow> ('s, 'h) decoded" where
  "pb_decode_bool stream dest w = pb_dec_bool stream PB_LAST_FIELD dest w"

text \<open>\<open>clamped = *(intN_t* )dest = (intN_t)value\<close>: store the low bytes, and read them back signed or
  unsigned. \<open>None\<close> for a size that is none of the four.\<close>

definition clamp_signed :: "u32 \<Rightarrow> u64 \<Rightarrow> u64 option" where
  "clamp_signed n v =
     (if n = 8 then Some v
      else if n = 4 then Some (scast (ucast v :: u32))
      else if n = 2 then Some (scast (ucast v :: u16))
      else if n = 1 then Some (scast (ucast v :: u8))
      else None)"

definition clamp_unsigned :: "u32 \<Rightarrow> u64 \<Rightarrow> u64 option" where
  "clamp_unsigned n v =
     (if n = 8 then Some v
      else if n = 4 then Some (ucast (ucast v :: u32))
      else if n = 2 then Some (ucast (ucast v :: u16))
      else if n = 1 then Some (ucast (ucast v :: u8))
      else None)"

definition store_clamped ::
    "'s pb_istream \<Rightarrow> 'h world \<Rightarrow> addr \<Rightarrow> u32 \<Rightarrow> u64 \<Rightarrow> u64 option \<Rightarrow> ('s, 'h) decoded" where
  "store_clamped stream w dest n v clamped =
     (case clamped of
        None \<Rightarrow> dec_error stream w ''invalid data_size''
      | Some c \<Rightarrow> do {
          w \<leftarrow> update_mem w (\<lambda>m. store_bytes m dest (le_bytes (unat n) (unat v)));
          if c \<noteq> v then dec_error stream w ''integer too large'' else Some (True, stream, w) })"

definition pb_dec_varint :: "('s, 'h) decoder" where
  "pb_dec_varint stream field dest w =
     decode_then (pb_decode_varint stream) w (\<lambda>v stream.
       let svalue = (if data_size field = 8 then v else scast (ucast v :: u32))
       in store_clamped stream w dest (data_size field) svalue (clamp_signed (data_size field) svalue))"

definition pb_dec_uvarint :: "('s, 'h) decoder" where
  "pb_dec_uvarint stream field dest w =
     decode_then (pb_decode_varint stream) w (\<lambda>v stream.
       store_clamped stream w dest (data_size field) v (clamp_unsigned (data_size field) v))"

definition pb_dec_svarint :: "('s, 'h) decoder" where
  "pb_dec_svarint stream field dest w =
     decode_then (pb_decode_svarint stream) w (\<lambda>v stream.
       store_clamped stream w dest (data_size field) v (clamp_signed (data_size field) v))"

definition pb_dec_fixed32 :: "('s, 'h) decoder" where
  "pb_dec_fixed32 stream field dest w = pb_decode_fixed32 stream w dest"

definition pb_dec_fixed64 :: "('s, 'h) decoder" where
  "pb_dec_fixed64 stream field dest w = pb_decode_fixed64 stream w dest"

text \<open>In \<open>pb_dec_bytes\<close> the two first checks compare a 32-bit size with \<open>PB_SIZE_MAX\<close> and with itself plus
  4 in 64 bits; they never fail.\<close>

definition pb_dec_bytes :: "('s, 'h) pb_denv \<Rightarrow> ('s, 'h) decoder" where
  "pb_dec_bytes E stream field dest w =
     decode_then (pb_decode_varint32 stream) w (\<lambda>n stream.
       let alloc_size = PB_BYTES_ARRAY_T_ALLOCSIZE (ucast n) in
       if n > PB_SIZE_MAX then dec_error stream w ''bytes overflow''
       else if ucast n > alloc_size then dec_error stream w ''size too large''
       else if PB_ATYPE (ftype field) = PB_ATYPE_POINTER
       then dec_then (allocate_field E stream w dest alloc_size 1) (\<lambda>stream w. do {
         bdest \<leftarrow> load64 (wmem w) dest;
         w \<leftarrow> update_mem w (\<lambda>m. store32 m bdest n);
         pb_read_mem stream w (bdest + 4) (ucast n) })
       else if alloc_size > ucast (data_size field) then dec_error stream w ''bytes overflow''
       else do {
         w \<leftarrow> update_mem w (\<lambda>m. store32 m dest n);
         pb_read_mem stream w (dest + 4) (ucast n) })"

text \<open>\<open>size + 1\<close> is computed in 32 bits, so that it is smaller for the largest size.\<close>

definition read_string :: "'s pb_istream \<Rightarrow> 'h world \<Rightarrow> addr \<Rightarrow> u32 \<Rightarrow> ('s, 'h) decoded" where
  "read_string stream w dest n =
     do { (status, stream, w) \<leftarrow> pb_read_mem stream w dest (ucast n);
          w \<leftarrow> update_mem w (\<lambda>m. store8 m (dest + ucast n) 0);
          Some (status, stream, w) }"

definition pb_dec_string :: "('s, 'h) pb_denv \<Rightarrow> ('s, 'h) decoder" where
  "pb_dec_string E stream field dest w =
     decode_then (pb_decode_varint32 stream) w (\<lambda>n stream.
       let alloc_size = ucast (n + 1) in
       if alloc_size < ucast n then dec_error stream w ''size too large''
       else if PB_ATYPE (ftype field) = PB_ATYPE_POINTER
       then dec_then (allocate_field E stream w dest alloc_size 1) (\<lambda>stream w. do {
         dest \<leftarrow> load64 (wmem w) dest;
         read_string stream w dest n })
       else if alloc_size > ucast (data_size field) then dec_error stream w ''string overflow''
       else read_string stream w dest n)"

text \<open>\<open>initialised\<close> is \<open>pb_decode\<close> and \<open>noinit\<close> is \<open>pb_decode_noinit\<close>.\<close>

definition decode_delimited :: "('s, 'h) message_decoder \<Rightarrow> ('s, 'h) message_decoder" where
  "decode_delimited decode stream fs dest w =
     decode_then (pb_make_string_substream stream) w (\<lambda>substream stream. do {
       (status, substream, w) \<leftarrow> decode substream fs dest w;
       decode_then (pb_close_string_substream stream substream) w (\<lambda>_ stream. Some (status, stream, w)) })"

definition pb_dec_submessage ::
    "('s, 'h) pb_denv \<Rightarrow> ('s, 'h) message_decoder \<Rightarrow> ('s, 'h) message_decoder \<Rightarrow> ('s, 'h) decoder" where
  "pb_dec_submessage E initialised noinit stream field dest w =
     (case ptr field of
        NoPtr \<Rightarrow> decode_then (pb_make_string_substream stream) w (\<lambda>_ stream.
          dec_error stream w ''invalid field descriptor'')
      | DefaultValue _ \<Rightarrow> None
      | Submessage i \<Rightarrow>
          decode_delimited (if PB_HTYPE (ftype field) = PB_HTYPE_REPEATED then initialised else noinit)
            stream (dmessages E i) dest w)"

definition pb_dec_fixed_length_bytes :: "('s, 'h) decoder" where
  "pb_dec_fixed_length_bytes stream field dest w =
     decode_then (pb_decode_varint32 stream) w (\<lambda>n stream.
       if n > PB_SIZE_MAX then dec_error stream w ''bytes overflow''
       else if n = 0 then do { w \<leftarrow> memset_zero w dest (data_size field); Some (True, stream, w) }
       else if n \<noteq> data_size field then dec_error stream w ''incorrect fixed length bytes size''
       else pb_read_mem stream w dest (ucast (data_size field)))"

definition PB_DECODERS ::
    "('s, 'h) pb_denv \<Rightarrow> ('s, 'h) message_decoder \<Rightarrow> ('s, 'h) message_decoder \<Rightarrow> u8 \<Rightarrow> ('s, 'h) decoder option" where
  "PB_DECODERS E initialised noinit ltype =
     (if ltype = PB_LTYPE_BOOL then Some pb_dec_bool
      else if ltype = PB_LTYPE_VARINT then Some pb_dec_varint
      else if ltype = PB_LTYPE_UVARINT then Some pb_dec_uvarint
      else if ltype = PB_LTYPE_SVARINT then Some pb_dec_svarint
      else if ltype = PB_LTYPE_FIXED32 then Some pb_dec_fixed32
      else if ltype = PB_LTYPE_FIXED64 then Some pb_dec_fixed64
      else if ltype = PB_LTYPE_BYTES then Some (pb_dec_bytes E)
      else if ltype = PB_LTYPE_STRING then Some (pb_dec_string E)
      else if ltype = PB_LTYPE_SUBMESSAGE then Some (pb_dec_submessage E initialised noinit)
      else if ltype = PB_LTYPE_EXTENSION then Some (\<lambda>stream field dest w. None)
      else if ltype = PB_LTYPE_FIXED_LENGTH_BYTES then Some pb_dec_fixed_length_bytes
      else None)"

section \<open>Static fields\<close>

text \<open>\<open>defaults\<close> is \<open>pb_message_set_to_defaults\<close>. The packed loop is without a bound: an item is stored
  before its number is counted, which may be the same memory in a broken table.\<close>

partial_function (option) static_packed ::
    "('s, 'h) decoder \<Rightarrow> pb_field \<Rightarrow> addr \<Rightarrow> addr \<Rightarrow> 's pb_istream \<Rightarrow> 'h world \<Rightarrow> ('s, 'h) decoded" where
  "static_packed func field data count substream w =
     do {
       n \<leftarrow> (if bytes_left substream > 0 then load32 (wmem w) count else Some 0);
       if bytes_left substream > 0 \<and> n < array_size field
       then do {
         (ok, substream, w) \<leftarrow> func substream field (data + ucast (data_size field * n)) w;
         if \<not> ok then Some (False, substream, w)
         else do {
           n \<leftarrow> load32 (wmem w) count;
           w \<leftarrow> update_mem w (\<lambda>m. store32 m count (n + 1));
           static_packed func field data count substream w } }
       else Some (True, substream, w) }"

definition decode_static_field ::
    "('s, 'h) pb_denv \<Rightarrow> ('s, 'h) message_decoder \<Rightarrow> ('s, 'h) message_decoder \<Rightarrow>
       (pb_fields \<Rightarrow> addr \<Rightarrow> 'h world \<Rightarrow> 'h world option) \<Rightarrow> 's pb_istream \<Rightarrow> u64 \<Rightarrow> pb_field_iter \<Rightarrow> 'h world \<Rightarrow>
       ('s, 'h) decoded" where
  "decode_static_field E initialised noinit defaults stream wire_type iter w =
     (let field = iter_field iter; type = ftype field in
      do {
        func \<leftarrow> PB_DECODERS E initialised noinit (PB_LTYPE type);
        if PB_HTYPE type = PB_HTYPE_REQUIRED then func stream field (pData iter) w
        else if PB_HTYPE type = PB_HTYPE_OPTIONAL then do {
          w \<leftarrow> (if pSize iter \<noteq> pData iter then update_mem w (\<lambda>m. store8 m (pSize iter) 1) else Some w);
          func stream field (pData iter) w }
        else if PB_HTYPE type = PB_HTYPE_REPEATED then
          (if wire_type = PB_WT_STRING \<and> PB_LTYPE type \<le> PB_LTYPE_LAST_PACKABLE
           then decode_then (pb_make_string_substream stream) w (\<lambda>substream stream. do {
             (status, substream, w) \<leftarrow> static_packed func field (pData iter) (pSize iter) substream w;
             if bytes_left substream \<noteq> 0 then dec_error stream w ''array overflow''
             else decode_then (pb_close_string_substream stream substream) w (\<lambda>_ stream.
               Some (status, stream, w)) })
           else do {
             n \<leftarrow> load32 (wmem w) (pSize iter);
             w \<leftarrow> update_mem w (\<lambda>m. store32 m (pSize iter) (n + 1));
             if n \<ge> array_size field then dec_error stream w ''array overflow''
             else func stream field (pData iter + ucast (data_size field * n)) w })
        else do {
          w \<leftarrow> update_mem w (\<lambda>m. store32 m (pSize iter) (tag field));
          w \<leftarrow> (if PB_LTYPE type = PB_LTYPE_SUBMESSAGE
                 then do {
                   w \<leftarrow> memset_zero w (pData iter) (data_size field);
                   case ptr field of Submessage i \<Rightarrow> defaults (dmessages E i) (pData iter) w | _ \<Rightarrow> None }
                 else Some w);
          func stream field (pData iter) w } })"

section \<open>Pointer fields\<close>

definition initialize_pointer_field ::
    "('s, 'h) pb_denv \<Rightarrow> (pb_fields \<Rightarrow> addr \<Rightarrow> 'h world \<Rightarrow> 'h world option) \<Rightarrow> addr \<Rightarrow> pb_field \<Rightarrow> 'h world \<Rightarrow> 'h world option" where
  "initialize_pointer_field E defaults item field w =
     (if PB_LTYPE (ftype field) = PB_LTYPE_STRING \<or> PB_LTYPE (ftype field) = PB_LTYPE_BYTES
      then update_mem w (\<lambda>m. store64 m item 0)
      else if PB_LTYPE (ftype field) = PB_LTYPE_SUBMESSAGE
      then do {
        w \<leftarrow> memset_zero w item (data_size field);
        case ptr field of Submessage i \<Rightarrow> defaults (dmessages E i) item w | _ \<Rightarrow> None }
      else Some w)"

definition set_errmsg :: "'s pb_istream \<Rightarrow> string \<Rightarrow> 's pb_istream" where
  "set_errmsg stream msg = stream\<lparr>ierrmsg := Some msg\<rparr>"

text \<open>The number of entries to have after more storage was found necessary: the rest of the input divided
  by the size of an entry, rounded up, is the guess at how many are to come.\<close>

definition grown_size :: "u64 \<Rightarrow> u32 \<Rightarrow> u64 \<Rightarrow> u64" where
  "grown_size left dsize allocated =
     (let remain = (left - 1) div ucast dsize + 1 in
      if remain < ucast PB_SIZE_MAX - allocated then allocated + remain else allocated + 1)"

text \<open>The loop over a packed array: the status, the stream (for its error message) and the substream. A
  division by a size of 0 is a fault.\<close>

partial_function (option) pointer_packed ::
    "('s, 'h) pb_denv \<Rightarrow> (pb_fields \<Rightarrow> addr \<Rightarrow> 'h world \<Rightarrow> 'h world option) \<Rightarrow> ('s, 'h) decoder \<Rightarrow> pb_field \<Rightarrow>
       addr \<Rightarrow> addr \<Rightarrow> u64 \<Rightarrow> 's pb_istream \<Rightarrow> 's pb_istream \<Rightarrow> 'h world \<Rightarrow>
       (bool \<times> 's pb_istream \<times> 's pb_istream \<times> 'h world) option" where
  "pointer_packed E defaults func field data count allocated stream substream w =
     (if bytes_left substream = 0 then Some (True, stream, substream, w)
      else do {
        n \<leftarrow> load32 (wmem w) count;
        if n = PB_SIZE_MAX then Some (False, set_errmsg stream ''too many array entries'', substream, w)
        else do {
          (ok, allocated, substream, w) \<leftarrow>
            (if ucast n + 1 > allocated
             then if data_size field = 0 then None
             else do {
               let allocated = grown_size (bytes_left substream) (data_size field) allocated;
               (ok, substream, w) \<leftarrow> allocate_field E substream w data (ucast (data_size field)) allocated;
               Some (ok, allocated, substream, w) }
             else Some (True, allocated, substream, w));
          if \<not> ok then Some (False, stream, substream, w)
          else do {
            base \<leftarrow> load64 (wmem w) data;
            n \<leftarrow> load32 (wmem w) count;
            let item = base + ucast (data_size field * n);
            w \<leftarrow> initialize_pointer_field E defaults item field w;
            (ok, substream, w) \<leftarrow> func substream field item w;
            if \<not> ok then Some (False, stream, substream, w)
            else do {
              n \<leftarrow> load32 (wmem w) count;
              w \<leftarrow> update_mem w (\<lambda>m. store32 m count (n + 1));
              pointer_packed E defaults func field data count allocated stream substream w } } } })"

definition decode_pointer_single ::
    "('s, 'h) pb_denv \<Rightarrow> ('s, 'h) decoder \<Rightarrow> (pb_fields \<Rightarrow> addr \<Rightarrow> 'h world \<Rightarrow> 'h world option) \<Rightarrow>
       (pb_field_iter \<Rightarrow> 'h world \<Rightarrow> 'h world option) \<Rightarrow> 's pb_istream \<Rightarrow> pb_field_iter \<Rightarrow> 'h world \<Rightarrow> ('s, 'h) decoded" where
  "decode_pointer_single E func defaults release_one stream iter w =
     (let field = iter_field iter; type = ftype field in
      do {
        p \<leftarrow> (if PB_LTYPE type = PB_LTYPE_SUBMESSAGE then load64 (wmem w) (pData iter) else Some 0);
        w \<leftarrow> (if p \<noteq> 0 then release_one iter w else Some w);
        w \<leftarrow> (if PB_HTYPE type = PB_HTYPE_ONEOF
               then update_mem w (\<lambda>m. store32 m (pSize iter) (tag field)) else Some w);
        if PB_LTYPE type = PB_LTYPE_STRING \<or> PB_LTYPE type = PB_LTYPE_BYTES
        then func stream field (pData iter) w
        else dec_then (allocate_field E stream w (pData iter) (ucast (data_size field)) 1) (\<lambda>stream w. do {
          p \<leftarrow> load64 (wmem w) (pData iter);
          w \<leftarrow> initialize_pointer_field E defaults p field w;
          p \<leftarrow> load64 (wmem w) (pData iter);
          func stream field p w }) })"

definition decode_pointer_field ::
    "('s, 'h) pb_denv \<Rightarrow> ('s, 'h) message_decoder \<Rightarrow> ('s, 'h) message_decoder \<Rightarrow>
       (pb_fields \<Rightarrow> addr \<Rightarrow> 'h world \<Rightarrow> 'h world option) \<Rightarrow> (pb_field_iter \<Rightarrow> 'h world \<Rightarrow> 'h world option) \<Rightarrow>
       's pb_istream \<Rightarrow> u64 \<Rightarrow> pb_field_iter \<Rightarrow> 'h world \<Rightarrow> ('s, 'h) decoded" where
  "decode_pointer_field E initialised noinit defaults release_one stream wire_type iter w =
     (let field = iter_field iter; type = ftype field in
      do {
        func \<leftarrow> PB_DECODERS E initialised noinit (PB_LTYPE type);
        if PB_HTYPE type \<noteq> PB_HTYPE_REPEATED
        then decode_pointer_single E func defaults release_one stream iter w
        else if wire_type = PB_WT_STRING \<and> PB_LTYPE type \<le> PB_LTYPE_LAST_PACKABLE
        then do {
          n \<leftarrow> load32 (wmem w) (pSize iter);
          decode_then (pb_make_string_substream stream) w (\<lambda>substream stream. do {
            (status, stream, substream, w) \<leftarrow>
              pointer_packed E defaults func field (pData iter) (pSize iter) (ucast n) stream substream w;
            decode_then (pb_close_string_substream stream substream) w (\<lambda>_ stream.
              Some (status, stream, w)) }) }
        else do {
          n \<leftarrow> load32 (wmem w) (pSize iter);
          if n = PB_SIZE_MAX then dec_error stream w ''too many array entries''
          else dec_then (allocate_field E stream w (pData iter) (ucast (data_size field)) (ucast (n + 1))) (\<lambda>stream w. do {
            base \<leftarrow> load64 (wmem w) (pData iter);
            n \<leftarrow> load32 (wmem w) (pSize iter);
            let item = base + ucast (data_size field * n);
            w \<leftarrow> update_mem w (\<lambda>m. store32 m (pSize iter) (n + 1));
            w \<leftarrow> initialize_pointer_field E defaults item field w;
            func stream field item w }) } })"

section \<open>Callback fields\<close>

text \<open>\<open>do ... while (substream.bytes_left)\<close>: it does not end if the callback leaves bytes and reads none.\<close>

partial_function (option) callback_loop ::
    "('s pb_istream \<Rightarrow> 'h world \<Rightarrow> ('s, 'h) decoded) \<Rightarrow> 's pb_istream \<Rightarrow> 'h world \<Rightarrow> ('s, 'h) decoded" where
  "callback_loop decode substream w =
     do {
       (ok, substream, w) \<leftarrow> decode substream w;
       if \<not> ok then Some (False, substream, w)
       else if bytes_left substream \<noteq> 0 then callback_loop decode substream w
       else Some (True, substream, w) }"

text \<open>A callback structure is the function and, at offset 8, its argument. A value that is not a string
  is first copied to a buffer of 10 bytes.\<close>

definition decode_callback_field ::
    "('s, 'h) pb_denv \<Rightarrow> 's pb_istream \<Rightarrow> u64 \<Rightarrow> pb_field_iter \<Rightarrow> 'h world \<Rightarrow> ('s, 'h) decoded" where
  "decode_callback_field E stream wire_type iter w =
     do {
       decode \<leftarrow> (if pData iter = 0 then Some 0 else load64 (wmem w) (pData iter));
       if decode = 0 then decode_then (pb_skip_field stream wire_type) w (\<lambda>_ stream. Some (True, stream, w))
       else if wire_type = PB_WT_STRING
       then decode_then (pb_make_string_substream stream) w (\<lambda>substream stream. do {
         (ok, substream, w) \<leftarrow> callback_loop (\<lambda>s w. user_decode E decode s (iter_field iter) (pData iter + 8) w) substream w;
         if \<not> ok then dec_error stream w ''callback failed''
         else decode_then (pb_close_string_substream stream substream) w (\<lambda>_ stream. Some (True, stream, w)) })
       else decode_then (read_raw_value stream wire_type 10) w (\<lambda>bs stream. do {
         (ok, substream, w) \<leftarrow>
           user_decode E decode (pb_istream_from_buffer bs (of_nat (length bs))) (iter_field iter) (pData iter + 8) w;
         Some (ok, stream, w) }) }"

section \<open>One field\<close>

text \<open>What an oneof field holds is released before another member of it is decoded. The iterator is
  moved to the old member and back.\<close>

definition pb_release_union_field ::
    "(pb_field_iter \<Rightarrow> 'h world \<Rightarrow> 'h world option) \<Rightarrow> 's pb_istream \<Rightarrow> pb_field_iter \<Rightarrow> 'h world \<Rightarrow>
       (bool \<times> 's pb_istream \<times> pb_field_iter \<times> 'h world) option" where
  "pb_release_union_field release_one stream iter w =
     do {
       old_tag \<leftarrow> load32 (wmem w) (pSize iter);
       let new_tag = tag (iter_field iter);
       if old_tag = 0 \<or> old_tag = new_tag then Some (True, stream, iter, w)
       else do {
         (found, iter) \<leftarrow> pb_field_iter_find iter old_tag;
         if \<not> found then Some (False, stream_error stream ''invalid union tag'', iter, w)
         else do {
           w \<leftarrow> release_one iter w;
           (found, iter) \<leftarrow> pb_field_iter_find iter new_tag;
           if \<not> found then Some (False, stream_error stream ''iterator error'', iter, w)
           else Some (True, stream, iter, w) } } }"

definition decode_field ::
    "('s, 'h) pb_denv \<Rightarrow> ('s, 'h) message_decoder \<Rightarrow> ('s, 'h) message_decoder \<Rightarrow>
       (pb_fields \<Rightarrow> addr \<Rightarrow> 'h world \<Rightarrow> 'h world option) \<Rightarrow> (pb_field_iter \<Rightarrow> 'h world \<Rightarrow> 'h world option) \<Rightarrow>
       's pb_istream \<Rightarrow> u64 \<Rightarrow> pb_field_iter \<Rightarrow> 'h world \<Rightarrow> (bool \<times> 's pb_istream \<times> pb_field_iter \<times> 'h world) option" where
  "decode_field E initialised noinit defaults release_one stream wire_type iter w =
     do {
       (ok, stream, iter, w) \<leftarrow>
         (if PB_HTYPE (ftype (iter_field iter)) = PB_HTYPE_ONEOF
          then pb_release_union_field release_one stream iter w else Some (True, stream, iter, w));
       if \<not> ok then Some (False, stream, iter, w)
       else do {
         (ok, stream, w) \<leftarrow>
           (if PB_ATYPE (ftype (iter_field iter)) = PB_ATYPE_STATIC
            then decode_static_field E initialised noinit defaults stream wire_type iter w
            else if PB_ATYPE (ftype (iter_field iter)) = PB_ATYPE_POINTER
            then decode_pointer_field E initialised noinit defaults release_one stream wire_type iter w
            else if PB_ATYPE (ftype (iter_field iter)) = PB_ATYPE_CALLBACK
            then decode_callback_field E stream wire_type iter w
            else dec_error stream w ''invalid field type'');
         Some (ok, stream, iter, w) } }"

section \<open>Extensions\<close>

text \<open>\<open>decode\<close> is \<open>decode_field\<close>.\<close>

definition default_extension_decoder ::
    "('s, 'h) pb_denv \<Rightarrow> ('s pb_istream \<Rightarrow> u64 \<Rightarrow> pb_field_iter \<Rightarrow> 'h world \<Rightarrow> (bool \<times> 's pb_istream \<times> pb_field_iter \<times> 'h world) option) \<Rightarrow>
       's pb_istream \<Rightarrow> addr \<Rightarrow> u32 \<Rightarrow> u64 \<Rightarrow> 'h world \<Rightarrow> ('s, 'h) decoded" where
  "default_extension_decoder E decode stream extension wanted wire_type w =
     do {
       type \<leftarrow> load64 (wmem w) extension;
       arg \<leftarrow> load64 (wmem w) (type + 16);
       if tag (dextension_fields E arg) \<noteq> wanted then Some (True, stream, w)
       else do {
         iter \<leftarrow> iter_from_extension E (wmem w) extension;
         w \<leftarrow> update_mem w (\<lambda>m. store8 m (extension + 24) 1);
         (ok, stream, iter, w) \<leftarrow> decode stream wire_type iter w;
         Some (ok, stream, w) } }"

partial_function (option) decode_extensions ::
    "('s, 'h) pb_denv \<Rightarrow> ('s pb_istream \<Rightarrow> u64 \<Rightarrow> pb_field_iter \<Rightarrow> 'h world \<Rightarrow> (bool \<times> 's pb_istream \<times> pb_field_iter \<times> 'h world) option) \<Rightarrow>
       u64 \<Rightarrow> u32 \<Rightarrow> u64 \<Rightarrow> addr \<Rightarrow> 's pb_istream \<Rightarrow> 'h world \<Rightarrow> ('s, 'h) decoded" where
  "decode_extensions E decode before wanted wire_type extension stream w =
     (if extension = 0 \<or> before \<noteq> bytes_left stream then Some (True, stream, w)
      else do {
        type \<leftarrow> load64 (wmem w) extension;
        user \<leftarrow> load64 (wmem w) type;
        (ok, stream, w) \<leftarrow> (if user \<noteq> 0 then extension_decode E user stream extension wanted wire_type w
                            else default_extension_decoder E decode stream extension wanted wire_type w);
        if \<not> ok then Some (False, stream, w)
        else do {
          following \<leftarrow> load64 (wmem w) (extension + 16);
          decode_extensions E decode before wanted wire_type following stream w } })"

definition decode_extension ::
    "('s, 'h) pb_denv \<Rightarrow> ('s pb_istream \<Rightarrow> u64 \<Rightarrow> pb_field_iter \<Rightarrow> 'h world \<Rightarrow> (bool \<times> 's pb_istream \<times> pb_field_iter \<times> 'h world) option) \<Rightarrow>
       's pb_istream \<Rightarrow> u32 \<Rightarrow> u64 \<Rightarrow> pb_field_iter \<Rightarrow> 'h world \<Rightarrow> ('s, 'h) decoded" where
  "decode_extension E decode stream wanted wire_type iter w =
     do { extension \<leftarrow> load64 (wmem w) (pData iter);
          decode_extensions E decode (bytes_left stream) wanted wire_type extension stream w }"

text \<open>Like \<open>find_loop\<close>, for a field of type extension.\<close>

fun find_extension_loop :: "nat \<Rightarrow> pb_field_iter \<Rightarrow> nat \<Rightarrow> (bool \<times> pb_field_iter) option" where
  "find_extension_loop 0 iter begin_pos = None"
| "find_extension_loop (Suc n) iter begin_pos =
     (if PB_LTYPE (ftype (iter_field iter)) = PB_LTYPE_EXTENSION then Some (True, iter)
      else let iter = snd (pb_field_iter_next iter) in
        if pos iter \<noteq> begin_pos then find_extension_loop n iter begin_pos else Some (False, iter))"

definition find_extension_field :: "pb_field_iter \<Rightarrow> (bool \<times> pb_field_iter) option" where
  "find_extension_field iter = find_extension_loop (length (start iter) + 1) iter (pos iter)"

section \<open>Messages\<close>

definition PB_MAX_REQUIRED_FIELDS :: u32 where
  "PB_MAX_REQUIRED_FIELDS = 64"

text \<open>The variables of \<open>pb_decode_noinit\<close>. \<open>fixed_count_field\<close> is the index of a field; \<open>fixed_count_size\<close> is
  in memory, as its address is taken; it is set before it is read.\<close>

record ('s, 'h) decoding =
  dstream :: "'s pb_istream"
  dworld :: "'h world"
  diter :: pb_field_iter
  fields_seen :: "u32 list"
  extension_range_start :: u32
  fixed_count_field :: "nat option"

text \<open>How an iteration ends.\<close>

datatype signal = Continue | Break | Return_false

text \<open>The size of the last fixed count field is not the number of its entries.\<close>

definition fixed_count_wrong :: "addr \<Rightarrow> ('s, 'h) decoding \<Rightarrow> bool option" where
  "fixed_count_wrong local st =
     (case fixed_count_field st of
        None \<Rightarrow> Some False
      | Some i \<Rightarrow> map_option (\<lambda>n. n \<noteq> array_size (field_at (start (diter st)) i)) (load32 (wmem (dworld st)) local))"

definition mark_seen :: "pb_field_iter \<Rightarrow> u32 list \<Rightarrow> u32 list" where
  "mark_seen iter seen =
     (let k = required_field_index iter in
      if PB_HTYPE (ftype (iter_field iter)) = PB_HTYPE_REQUIRED \<and> k < PB_MAX_REQUIRED_FIELDS
      then seen[unat (drop_bit 5 k) := seen ! unat (drop_bit 5 k) OR push_bit (unat (k AND 31)) 1]
      else seen)"

definition decode_known ::
    "addr \<Rightarrow> ('s pb_istream \<Rightarrow> u64 \<Rightarrow> pb_field_iter \<Rightarrow> 'h world \<Rightarrow> (bool \<times> 's pb_istream \<times> pb_field_iter \<times> 'h world) option) \<Rightarrow>
       u64 \<Rightarrow> ('s, 'h) decoding \<Rightarrow> (signal \<times> ('s, 'h) decoding) option" where
  "decode_known local decode wire_type st =
     do {
       (ok, st) \<leftarrow>
         (if PB_HTYPE (ftype (iter_field (diter st))) = PB_HTYPE_REPEATED \<and> pSize (diter st) = pData (diter st)
          then if fixed_count_field st \<noteq> Some (pos (diter st))
            then do {
              wrong \<leftarrow> fixed_count_wrong local st;
              if wrong then Some (False, st\<lparr>dstream := stream_error (dstream st) ''wrong size for fixed count field''\<rparr>)
              else do {
                w \<leftarrow> update_mem (dworld st) (\<lambda>m. store32 m local 0);
                Some (True, st\<lparr>dworld := w, fixed_count_field := Some (pos (diter st)),
                               diter := (diter st)\<lparr>pSize := local\<rparr>\<rparr>) } }
            else Some (True, st\<lparr>diter := (diter st)\<lparr>pSize := local\<rparr>\<rparr>)
          else Some (True, st));
       if \<not> ok then Some (Return_false, st)
       else do {
         let st = st\<lparr>fields_seen := mark_seen (diter st) (fields_seen st)\<rparr>;
         (ok, stream, iter, w) \<leftarrow> decode (dstream st) wire_type (diter st) (dworld st);
         Some (if ok then Continue else Return_false, st\<lparr>dstream := stream, diter := iter, dworld := w\<rparr>) } }"

definition skip_unknown :: "u64 \<Rightarrow> ('s, 'h) decoding \<Rightarrow> (signal \<times> ('s, 'h) decoding) option" where
  "skip_unknown wire_type st =
     do { (v, stream) \<leftarrow> pb_skip_field (dstream st) wire_type;
          Some (if v = None then Return_false else Continue, st\<lparr>dstream := stream\<rparr>) }"

definition decode_unknown ::
    "('s, 'h) pb_denv \<Rightarrow> ('s pb_istream \<Rightarrow> u64 \<Rightarrow> pb_field_iter \<Rightarrow> 'h world \<Rightarrow> (bool \<times> 's pb_istream \<times> pb_field_iter \<times> 'h world) option) \<Rightarrow>
       u32 \<Rightarrow> u64 \<Rightarrow> ('s, 'h) decoding \<Rightarrow> (signal \<times> ('s, 'h) decoding) option" where
  "decode_unknown E decode wanted wire_type st =
     (if wanted < extension_range_start st then skip_unknown wire_type st
      else do {
        (found, iter) \<leftarrow> find_extension_field (diter st);
        let st = st\<lparr>diter := iter, extension_range_start := (if found then tag (iter_field iter) else - 1)\<rparr>;
        if wanted < extension_range_start st then skip_unknown wire_type st
        else do {
          (ok, stream, w) \<leftarrow> decode_extension E decode (dstream st) wanted wire_type (diter st) (dworld st);
          let before = bytes_left (dstream st);
          let st = st\<lparr>dstream := stream, dworld := w\<rparr>;
          if \<not> ok then Some (Return_false, st)
          else if before \<noteq> bytes_left stream then Some (Continue, st)
          else skip_unknown wire_type st } })"

definition decode_next ::
    "('s, 'h) pb_denv \<Rightarrow> addr \<Rightarrow> ('s pb_istream \<Rightarrow> u64 \<Rightarrow> pb_field_iter \<Rightarrow> 'h world \<Rightarrow> (bool \<times> 's pb_istream \<times> pb_field_iter \<times> 'h world) option) \<Rightarrow>
       ('s, 'h) decoding \<Rightarrow> (signal \<times> ('s, 'h) decoding) option" where
  "decode_next E local decode st =
     do {
       (v, eof, stream) \<leftarrow> pb_decode_tag (dstream st);
       let st = st\<lparr>dstream := stream\<rparr>;
       case v of
         None \<Rightarrow> Some (if eof then Break else Return_false, st)
       | Some (wanted, wire_type) \<Rightarrow> do {
           (found, iter) \<leftarrow> pb_field_iter_find (diter st) wanted;
           let st = st\<lparr>diter := iter\<rparr>;
           if found then decode_known local decode wire_type st
           else decode_unknown E decode wanted wire_type st } }"

text \<open>\<open>while (stream->bytes_left)\<close>: whether the loop was left to go on behind it.\<close>

partial_function (option) decode_loop ::
    "(('s, 'h) decoding \<Rightarrow> (signal \<times> ('s, 'h) decoding) option) \<Rightarrow> ('s, 'h) decoding \<Rightarrow>
       (bool \<times> ('s, 'h) decoding) option" where
  "decode_loop body st =
     (if bytes_left (dstream st) = 0 then Some (True, st)
      else do {
        (signal, st) \<leftarrow> body st;
        if signal = Continue then decode_loop body st else Some (signal = Break, st) })"

text \<open>The number of required fields before the last field, the type of the last field, and the iterator,
  which is then at the first.\<close>

function seek_last :: "pb_field_iter \<Rightarrow> u32 \<times> u8 \<times> pb_field_iter" where
  "seek_last iter =
     (let (again, following) = pb_field_iter_next iter in
      if again then seek_last following
      else (required_field_index iter, ftype (iter_field iter), following))"
  by pat_completeness auto

termination
  by (relation "measure (\<lambda>iter. length (start iter) - pos iter)") (auto dest: iter_next_measure)

declare seek_last.simps [simp del]

definition required_missing :: "pb_field_iter \<Rightarrow> u32 list \<Rightarrow> bool" where
  "required_missing iter seen =
     (let (count, last_type, iter) = seek_last iter;
          count = (if PB_HTYPE last_type = PB_HTYPE_REQUIRED \<and> tag (iter_field iter) \<noteq> 0 then count + 1 else count);
          count = min count PB_MAX_REQUIRED_FIELDS
      in count > 0 \<and>
         (list_ex (\<lambda>i. seen ! i \<noteq> - 1) [0..<unat (drop_bit 5 count)] \<or>
          count AND 31 \<noteq> 0 \<and>
          seen ! unat (drop_bit 5 count) \<noteq> drop_bit (unat (32 - (count AND 31))) (- 1)))"

definition decode_message ::
    "('s, 'h) pb_denv \<Rightarrow> addr \<Rightarrow> ('s pb_istream \<Rightarrow> u64 \<Rightarrow> pb_field_iter \<Rightarrow> 'h world \<Rightarrow> (bool \<times> 's pb_istream \<times> pb_field_iter \<times> 'h world) option) \<Rightarrow>
       ('s, 'h) message_decoder" where
  "decode_message E local decode stream fs dest w =
     do {
       (ok, st) \<leftarrow> decode_loop (decode_next E local decode)
         \<lparr>dstream = stream, dworld = w, diter = snd (pb_field_iter_begin fs dest), fields_seen = [0, 0],
          extension_range_start = 0, fixed_count_field = None\<rparr>;
       if \<not> ok then Some (False, dstream st, dworld st)
       else do {
         wrong \<leftarrow> fixed_count_wrong local st;
         if wrong then dec_error (dstream st) (dworld st) ''wrong size for fixed count field''
         else if required_missing (diter st) (fields_seen st)
         then dec_error (dstream st) (dworld st) ''missing required field''
         else Some (True, dstream st, dworld st) } }"

definition decode_initialised :: "nat \<Rightarrow> ('s, 'h) pb_denv \<Rightarrow> ('s, 'h) message_decoder \<Rightarrow> ('s, 'h) message_decoder" where
  "decode_initialised d E noinit stream fs dest w =
     do {
       w \<leftarrow> pb_message_set_to_defaults d E fs dest w;
       (status, stream, w) \<leftarrow> noinit stream fs dest w;
       w \<leftarrow> (if status then Some w else pb_release d E fs dest w);
       Some (status, stream, w) }"

text \<open>The first argument bounds how deep messages are nested, in the input and in the structure.\<close>

fun pb_decode_noinit :: "nat \<Rightarrow> ('s, 'h) pb_denv \<Rightarrow> ('s, 'h) message_decoder" where
  "pb_decode_noinit 0 E stream fs dest w = None"
| "pb_decode_noinit (Suc d) E stream fs dest w =
     decode_message E (fixed_count_local E (Suc d))
       (decode_field E (decode_initialised d E (pb_decode_noinit d E)) (pb_decode_noinit d E)
          (pb_message_set_to_defaults d E) (pb_release_single_field d E)) stream fs dest w"

definition pb_decode :: "nat \<Rightarrow> ('s, 'h) pb_denv \<Rightarrow> ('s, 'h) message_decoder" where
  "pb_decode d E = decode_initialised d E (pb_decode_noinit d E)"

definition pb_decode_delimited_noinit :: "nat \<Rightarrow> ('s, 'h) pb_denv \<Rightarrow> ('s, 'h) message_decoder" where
  "pb_decode_delimited_noinit d E = decode_delimited (pb_decode_noinit d E)"

definition pb_decode_delimited :: "nat \<Rightarrow> ('s, 'h) pb_denv \<Rightarrow> ('s, 'h) message_decoder" where
  "pb_decode_delimited d E = decode_delimited (pb_decode d E)"

definition pb_decode_nullterminated :: "nat \<Rightarrow> ('s, 'h) pb_denv \<Rightarrow> ('s, 'h) message_decoder" where
  "pb_decode_nullterminated d E = pb_decode d E"

end
