(* ===== verification/PbEncodeCorrect.thy ===== *)
theory PbEncodeCorrect
  imports PbEncode
begin

text \<open>
  What the nanopb encoder writes. The reference is the protocol buffers wire format: a message is a list
  of records, each a field number and a value of one of four wire types. \<open>message_records\<close> reads the
  records off the memory of a C structure; the theorems say that the encoder writes exactly their
  encoding, that its sizing pass predicts the length, and that a stream that is too short gets a prefix
  and no more.
\<close>

section \<open>The bytes of numbers\<close>

lemma word_eq_of_nat: "unat (w :: 'a::len word) = n \<Longrightarrow> w = of_nat n"
  by auto

lemma ucast_eq_of_nat: "unat (w :: 'a::len word) = n \<Longrightarrow> (ucast w :: 'b::len word) = of_nat n"
  by auto

lemma low7: "unat (v AND 0x7F :: u64) = unat v mod 128"
proof -
  have "v AND 0x7F = take_bit 7 v" by (simp add: take_bit_eq_mask mask_eq_exp_minus_1)
  then have "unat (v AND 0x7F) = take_bit 7 (unat v)" by (simp only: unsigned_take_bit_eq)
  then show ?thesis by (simp add: take_bit_eq_mod)
qed

lemma or_80:
  assumes "d < 128" shows "(of_nat d OR 0x80 :: u64) = of_nat (128 + d)"
proof -
  have "(of_nat d OR of_nat (1 * 2 ^ 7) :: u64) = of_nat (d + 1 * 2 ^ 7)"
    by (rule word_or_of_nat) (use assms in simp)
  moreover have "(of_nat (1 * 2 ^ 7) :: u64) = 0x80" "d + 1 * 2 ^ 7 = 128 + d" by simp_all
  ultimately show ?thesis by (simp only:)
qed

lemma varint_byte: "ucast ((v AND 0x7F) OR 0x80 :: u64) = (of_nat (128 + unat v mod 128) :: u8)"
proof -
  have e: "v AND 0x7F = of_nat (unat v mod 128)" by (rule word_eq_of_nat [OF low7])
  have f: "(of_nat (unat v mod 128) OR 0x80 :: u64) = of_nat (128 + unat v mod 128)"
    by (rule or_80) simp
  show ?thesis unfolding e f by (rule ucast_of_nat_small) simp
qed

lemma unat_drop_7: "unat (drop_bit 7 v :: u64) = unat v div 128"
  by (simp add: drop_bit_eq_div unat_div_distrib)

lemma clear_top:
  assumes "d < 128" shows "(of_nat (128 + d) AND 0x7F :: u8) = of_nat d"
proof -
  have "unat (of_nat (128 + d) AND 0x7F :: u8) = d"
    using and_7f [of "of_nat (128 + d)"] byte_of_nat [of "128 + d"] assms by (simp add: and.commute)
  then show ?thesis by (rule word_eq_of_nat)
qed

lemma varint_loop_uleb:
  "v \<noteq> 0 \<Longrightarrow> varint_loop v \<noteq> [] \<and>
     butlast (varint_loop v) @ [last (varint_loop v) AND 0x7F] = uleb128_encode (unat v)"
proof (induction v rule: varint_loop.induct)
  case (1 v)
  let ?w = "drop_bit 7 v" and ?d = "unat v mod 128"
  have e: "varint_loop v = of_nat (128 + ?d) # varint_loop ?w"
    using "1.prems" varint_byte [of v] by (simp add: varint_loop.simps [of v])
  show ?case
  proof (cases "?w = 0")
    case True
    then have "unat v < 128" using unat_drop_7 [of v] by simp
    moreover have "varint_loop ?w = []" using True by (simp add: varint_loop.simps)
    ultimately show ?thesis using e clear_top [of ?d] by (simp add: uleb128_encode.simps)
  next
    case False
    then have big: "\<not> unat v < 128" using unat_drop_7 [of v] by (metis div_less unat_eq_zero)
    note IH = "1.IH" [OF "1.prems" False]
    have "uleb128_encode (unat v) = of_nat (128 + ?d) # uleb128_encode (unat ?w)"
      using big by (simp add: uleb128_encode.simps [of "unat v"] unat_drop_7)
    with e IH show ?thesis by auto
  qed
qed

text \<open>The loop writes the LEB128 form of the number.\<close>

lemma varint_bytes_uleb: "varint_bytes v = uleb128_encode (unat v)"
proof (cases "v \<le> 0x7F")
  case True
  then have "unat v < 128" by (simp add: word_le_nat_alt)
  moreover have "(ucast v :: u8) = of_nat (unat v)" by (rule ucast_eq_of_nat) simp
  ultimately show ?thesis using True by (simp add: varint_bytes_def uleb128_encode.simps)
next
  case False
  then have "v \<noteq> 0" by auto
  with False varint_loop_uleb [of v] show ?thesis by (simp add: varint_bytes_def Let_def)
qed

lemma length_varint_bytes: "0 < length (varint_bytes v) \<and> length (varint_bytes v) \<le> 10"
proof -
  have "unat v < 128 ^ 10" using unat_less [of v] by simp
  then have "length (varint_bytes v) \<le> 10"
    unfolding varint_bytes_uleb by (rule length_uleb128_encode) simp
  moreover have "varint_bytes v \<noteq> []"
    unfolding varint_bytes_uleb by (subst uleb128_encode.simps) simp
  ultimately show ?thesis by simp
qed

lemma fixed_byte:
  fixes v :: "'a::len word"
  assumes "8 \<le> LENGTH('a)"
  shows "(ucast (drop_bit k v AND 0xFF) :: u8) = of_nat (unat v div 2 ^ k mod 256)"
proof -
  have "drop_bit k v AND 0xFF = take_bit 8 (drop_bit k v)" by (simp add: take_bit_eq_mask mask_eq_exp_minus_1)
  moreover have "unat (take_bit 8 (drop_bit k v)) = take_bit 8 (unat v div 2 ^ k)"
    unfolding unsigned_take_bit_eq unsigned_drop_bit_eq
    using unat_less [of v] by (simp add: take_bit_nat_eq_self drop_bit_eq_div)
  ultimately have "unat (drop_bit k v AND 0xFF) = unat v div 2 ^ k mod 256"
    by (simp add: take_bit_eq_mod)
  then show ?thesis by (rule ucast_eq_of_nat)
qed

lemma fixed32_bytes_le: "fixed32_bytes v = le_bytes 4 (unat v)"
  using fixed_byte [of 0 v] fixed_byte [of 8 v] fixed_byte [of 16 v] fixed_byte [of 24 v]
  by (simp add: fixed32_bytes_def eval_simps flip: div_mult2_eq)

lemma fixed64_bytes_le: "fixed64_bytes v = le_bytes 8 (unat v)"
  using fixed_byte [of 0 v] fixed_byte [of 8 v] fixed_byte [of 16 v] fixed_byte [of 24 v]
    fixed_byte [of 32 v] fixed_byte [of 40 v] fixed_byte [of 48 v] fixed_byte [of 56 v]
  by (simp add: fixed64_bytes_def eval_simps flip: div_mult2_eq)

section \<open>The wire format\<close>

datatype wire = Varint u64 | Fixed64 u64 | Length "u8 list" | Fixed32 u32

fun wire_type :: "wire \<Rightarrow> nat" where
  "wire_type (Varint v) = 0"
| "wire_type (Fixed64 v) = 1"
| "wire_type (Length bs) = 2"
| "wire_type (Fixed32 v) = 5"

fun payload :: "wire \<Rightarrow> u8 list" where
  "payload (Varint v) = uleb128_encode (unat v)"
| "payload (Fixed64 v) = le_bytes 8 (unat v)"
| "payload (Length bs) = uleb128_encode (length bs) @ bs"
| "payload (Fixed32 v) = le_bytes 4 (unat v)"

definition record_tag :: "u32 \<Rightarrow> nat \<Rightarrow> u8 list" where
  "record_tag t w = uleb128_encode (8 * unat t + w)"

definition encode_record :: "u32 \<times> wire \<Rightarrow> u8 list" where
  "encode_record = (\<lambda>(t, w). record_tag t (wire_type w) @ payload w)"

definition wire_encode :: "(u32 \<times> wire) list \<Rightarrow> u8 list" where
  "wire_encode rs = concat (map encode_record rs)"

section \<open>Sinks\<close>

text \<open>What the encoder asks of a stream's callback: it takes bytes there is room for. (It is
  not called with none.)\<close>

locale byte_sink =
  fixes put :: "'s \<Rightarrow> u8 list \<Rightarrow> (bool \<times> 's) option"
    and content :: "'s \<Rightarrow> u8 list"
    and room :: "'s \<Rightarrow> nat"
  assumes put_accepts: "bs \<noteq> [] \<Longrightarrow> length bs \<le> room s \<Longrightarrow>
    \<exists>t. put s bs = Some (True, t) \<and> content t = content s @ bs \<and> room t = room s - length bs"

definition out_content :: "out_buffer \<Rightarrow> u8 list" where
  "out_content b = take (out_pos b) (out_bytes b)"

definition out_room :: "out_buffer \<Rightarrow> nat" where
  "out_room b = length (out_bytes b) - out_pos b"

interpretation buffer: byte_sink buf_write out_content out_room
proof
  fix bs :: "u8 list" and s
  assume "bs \<noteq> []" "length bs \<le> out_room s"
  then have "out_pos s + length bs \<le> length (out_bytes s)" by (cases bs) (auto simp: out_room_def)
  then show "\<exists>t. buf_write s bs = Some (True, t) \<and> out_content t = out_content s @ bs \<and> out_room t = out_room s - length bs"
    by (simp add: buf_write_def out_content_def out_room_def)
qed

text \<open>A stream that writes, within its limit and the room of its sink; a stream that can take \<open>bs\<close>; and what
  it means that an operation emits \<open>bs\<close>: a counting stream counts them, a stream that can take them writes
  them, one with a limit that is too small fails after a part of them.\<close>

definition writer :: "('s \<Rightarrow> u8 list \<Rightarrow> (bool \<times> 's) option) \<Rightarrow> ('s \<Rightarrow> nat) \<Rightarrow> 's pb_ostream \<Rightarrow> bool" where
  "writer put room s \<longleftrightarrow> callback s = Some put \<and> errmsg s = None \<and> bytes_written s \<le> max_size s \<and> max_size s < 2 ^ 63 \<and>
     unat (max_size s) - unat (bytes_written s) \<le> room (stream_state s)"

definition fits :: "'s pb_ostream \<Rightarrow> u8 list \<Rightarrow> bool" where
  "fits s bs \<longleftrightarrow> unat (bytes_written s) + length bs \<le> unat (max_size s)"

definition able :: "('s \<Rightarrow> u8 list \<Rightarrow> (bool \<times> 's) option) \<Rightarrow> ('s \<Rightarrow> nat) \<Rightarrow> 's pb_ostream \<Rightarrow> u8 list \<Rightarrow> bool" where
  "able put room s bs \<longleftrightarrow> callback s = Some put \<and> errmsg s = None \<and> bytes_written s \<le> max_size s \<and>
     fits s bs \<and> length bs \<le> room (stream_state s)"

lemma writer_able: "writer put room s \<Longrightarrow> fits s bs \<Longrightarrow> able put room s bs"
  by (auto simp: writer_def able_def fits_def)

definition counted :: "'s pb_ostream \<Rightarrow> u8 list \<Rightarrow> 's pb_ostream" where
  "counted s bs = s\<lparr>bytes_written := bytes_written s + of_nat (length bs)\<rparr>"

definition emits ::
    "('s \<Rightarrow> u8 list \<Rightarrow> (bool \<times> 's) option) \<Rightarrow> ('s \<Rightarrow> u8 list) \<Rightarrow> ('s \<Rightarrow> nat) \<Rightarrow>
       ('s pb_ostream \<Rightarrow> 's written) \<Rightarrow> u8 list \<Rightarrow> bool" where
  "emits put content room w bs \<longleftrightarrow> length bs < 2 ^ 63 \<longrightarrow>
     (\<forall>s. callback s = None \<longrightarrow> w s = Some (True, counted s bs)) \<and>
     (\<forall>s. able put room s bs \<longrightarrow>
        (\<exists>t. w s = Some (True, (counted s bs)\<lparr>stream_state := t\<rparr>) \<and>
             content t = content (stream_state s) @ bs \<and> room t = room (stream_state s) - length bs)) \<and>
     (\<forall>s. writer put room s \<and> \<not> fits s bs \<longrightarrow>
        (\<exists>s' ys zs. w s = Some (False, s') \<and> bs = ys @ zs \<and>
             content (stream_state s') = content (stream_state s) @ ys))"

lemma counted_append: "counted (counted s xs) ys = counted s (xs @ ys)"
  by (simp add: counted_def add.assoc)

lemma counted_state: "counted (s\<lparr>stream_state := t\<rparr>) bs = (counted s bs)\<lparr>stream_state := t\<rparr>"
  by (simp add: counted_def)

lemma counted_sel [simp]:
  "callback (counted s bs) = callback s" "max_size (counted s bs) = max_size s"
  "stream_state (counted s bs) = stream_state s" "errmsg (counted s bs) = errmsg s"
  "bytes_written (counted s bs) = bytes_written s + of_nat (length bs)"
  by (simp_all add: counted_def)

lemma counted_nil [simp]: "counted s [] = s"
  by (simp add: counted_def)

lemma fits_bytes:
  assumes "fits s bs" shows "unat (bytes_written s + of_nat (length bs)) = unat (bytes_written s) + length bs"
  using assms unat_less [of "max_size s"] by (intro unat_add_of_nat_small) (simp add: fits_def)

lemma writer_counted:
  assumes "writer put room s" "fits s bs" "room t = room (stream_state s) - length bs"
  shows "writer put room ((counted s bs)\<lparr>stream_state := t\<rparr>)"
  using assms fits_bytes [OF assms(2)] by (auto simp: writer_def fits_def word_le_nat_alt)

lemma able_append:
  assumes "able put room s (xs @ ys)"
  shows "able put room s xs"
    "room t = room (stream_state s) - length xs \<Longrightarrow> able put room ((counted s xs)\<lparr>stream_state := t\<rparr>) ys"
proof -
  have f: "fits s xs" using assms by (auto simp: able_def fits_def)
  then show "able put room s xs" using assms by (auto simp: able_def)
  show "able put room ((counted s xs)\<lparr>stream_state := t\<rparr>) ys" if "room t = room (stream_state s) - length xs"
    using assms that fits_bytes [OF f] by (auto simp: able_def fits_def word_le_nat_alt)
qed

lemma fits_append: "fits s xs \<Longrightarrow> fits ((counted s xs)\<lparr>stream_state := t\<rparr>) ys \<longleftrightarrow> fits s (xs @ ys)"
  using fits_bytes [of s xs] by (auto simp: fits_def)


context byte_sink begin

abbreviation emit :: "('s pb_ostream \<Rightarrow> 's written) \<Rightarrow> u8 list \<Rightarrow> bool" where
  "emit \<equiv> emits put content room"

lemma emit_cong: "emit w bs \<Longrightarrow> (\<And>s. w' s = w s) \<Longrightarrow> emit w' bs"
  by (simp add: emits_def)

lemma same_state:
  "\<exists>t. s = s\<lparr>stream_state := t\<rparr> \<and> content t = content (stream_state s) \<and> room t = room (stream_state s)"
  by (intro exI [of _ "stream_state s"]) simp

lemma write_nothing: "pb_write s (Some []) 0 = Some (True, s)"
  by (simp add: pb_write_def)

lemma emit_return: "emit (\<lambda>s. Some (True, s)) []"
  using same_state by (auto simp: emits_def fits_def writer_def able_def word_le_nat_alt)

lemma emit_write: "emit (\<lambda>s. pb_write s (Some bs) (of_nat (length bs))) bs"
proof (cases "bs = []")
  case True
  then show ?thesis using emit_return by (simp add: write_nothing)
next
  case False
  have "pb_write s (Some bs) (of_nat (length bs)) = Some (True, counted s bs)" if "callback s = None" for s :: "'s pb_ostream"
    using that by (simp add: pb_write_def counted_def)
  moreover have "\<exists>t. pb_write s (Some bs) (of_nat (length bs)) = Some (True, (counted s bs)\<lparr>stream_state := t\<rparr>) \<and>
      content t = content (stream_state s) @ bs \<and> room t = room (stream_state s) - length bs"
    if l: "length bs < 2 ^ 63" and w: "able put room s bs" for s
  proof -
    have f: "fits s bs" and "length bs \<le> room (stream_state s)" using w by (auto simp: able_def)
    then obtain t where t: "put (stream_state s) bs = Some (True, t)" "content t = content (stream_state s) @ bs"
      "room t = room (stream_state s) - length bs" using put_accepts [OF False] by blast
    have "(of_nat (length bs) :: u64) > 0"
      using False l by (simp add: word_less_nat_alt unat_of_nat_small)
    moreover have "\<not> bytes_written s + of_nat (length bs) > max_size s"
      using f fits_bytes [OF f] by (simp add: word_less_nat_alt fits_def)
    ultimately have "pb_write s (Some bs) (of_nat (length bs)) = Some (True, (counted s bs)\<lparr>stream_state := t\<rparr>)"
      using w t(1) by (simp add: pb_write_def able_def counted_def)
    with t show ?thesis by blast
  qed
  moreover have "\<exists>s' ys zs. pb_write s (Some bs) (of_nat (length bs)) = Some (False, s') \<and> bs = ys @ zs \<and>
      content (stream_state s') = content (stream_state s) @ ys"
    if l: "length bs < 2 ^ 63" and w: "writer put room s" and f: "\<not> fits s bs" for s
  proof -
    have p: "(of_nat (length bs) :: u64) > 0"
      using False l by (simp add: word_less_nat_alt unat_of_nat_small)
    have "unat (bytes_written s) \<le> unat (max_size s)" "unat (max_size s) < 2 ^ 63"
      using w by (auto simp: writer_def word_le_nat_alt word_less_nat_alt)
    then have "unat (bytes_written s + of_nat (length bs)) = unat (bytes_written s) + length bs"
      using l by (intro unat_add_of_nat_small) simp
    then have "bytes_written s + of_nat (length bs) > max_size s"
      using f by (simp add: word_less_nat_alt fits_def)
    then have "pb_write s (Some bs) (of_nat (length bs)) = PB_RETURN_ERROR s ''stream full''"
      using p w by (simp add: pb_write_def writer_def)
    then show ?thesis by (auto simp: PB_RETURN_ERROR_def intro!: exI [of _ "[]"])
  qed
  ultimately show ?thesis by (simp add: emits_def)
qed

lemma emit_then:
  assumes 1: "emit v xs" and 2: "emit w ys"
  shows "emit (\<lambda>s. and_then (v s) w) (xs @ ys)"
  unfolding emits_def
proof (intro impI conjI allI)
  assume l: "length (xs @ ys) < 2 ^ 63"
  then have lx: "length xs < 2 ^ 63" and ly: "length ys < 2 ^ 63" by auto
  note V = 1 [unfolded emits_def, rule_format, OF lx] and W = 2 [unfolded emits_def, rule_format, OF ly]
  fix s :: "'s pb_ostream"
  show "and_then (v s) w = Some (True, counted s (xs @ ys))" if "callback s = None"
    using V W that by (simp add: and_then_def counted_append)
  show "\<exists>t. and_then (v s) w = Some (True, (counted s (xs @ ys))\<lparr>stream_state := t\<rparr>) \<and>
      content t = content (stream_state s) @ (xs @ ys) \<and> room t = room (stream_state s) - length (xs @ ys)"
    if w: "able put room s (xs @ ys)"
  proof -
    obtain t where t: "v s = Some (True, (counted s xs)\<lparr>stream_state := t\<rparr>)"
      "content t = content (stream_state s) @ xs" "room t = room (stream_state s) - length xs"
      using V able_append(1) [OF w] by blast
    let ?s = "(counted s xs)\<lparr>stream_state := t\<rparr>"
    have "able put room ?s ys" by (rule able_append(2) [OF w t(3)])
    then obtain t' where "w ?s = Some (True, (counted ?s ys)\<lparr>stream_state := t'\<rparr>)"
      "content t' = content t @ ys" "room t' = room t - length ys" using W by fastforce
    with t show ?thesis by (auto simp: and_then_def counted_append counted_state)
  qed
  show "\<exists>s' as bs. and_then (v s) w = Some (False, s') \<and> xs @ ys = as @ bs \<and>
      content (stream_state s') = content (stream_state s) @ as"
    if w: "writer put room s \<and> \<not> fits s (xs @ ys)"
  proof (cases "fits s xs")
    case True
    obtain t where t: "v s = Some (True, (counted s xs)\<lparr>stream_state := t\<rparr>)"
      "content t = content (stream_state s) @ xs" "room t = room (stream_state s) - length xs"
      using V writer_able w True by blast
    let ?s = "(counted s xs)\<lparr>stream_state := t\<rparr>"
    have "writer put room ?s" "\<not> fits ?s ys"
      using writer_counted [of put room s xs t] w True t fits_append [OF True] by auto
    then obtain s' as bs where "w ?s = Some (False, s')" "ys = as @ bs" "content (stream_state s') = content t @ as"
      using W by fastforce
    with t show ?thesis by (auto simp: and_then_def intro!: exI [of _ s'] exI [of _ "xs @ as"])
  next
    case False
    then obtain s' as bs where "v s = Some (False, s')" "xs = as @ bs" "content (stream_state s') = content (stream_state s) @ as"
      using V w by blast
    then show ?thesis by (auto simp: and_then_def)
  qed
qed

lemma emit_varint: "emit (\<lambda>s. pb_encode_varint s v) (uleb128_encode (unat v))"
  using emit_write [of "varint_bytes v"] by (simp add: pb_encode_varint_def varint_bytes_uleb Let_def)

lemma sizing_zero: "bytes_written (PB_OSTREAM_SIZING t) = 0" "callback (PB_OSTREAM_SIZING t) = None"
  by (simp_all add: PB_OSTREAM_SIZING_def)

text \<open>A submessage: its length, then itself.\<close>

lemma emit_submessage:
  assumes enc: "emit (\<lambda>s. enc s fs src) bs"
  shows "emit (\<lambda>s. pb_encode_submessage enc s fs src) (uleb128_encode (length bs) @ bs)"
proof (cases "length bs < 2 ^ 63")
  case False
  then show ?thesis by (simp add: emits_def)
next
  case l: True
  define count :: u64 where "count = of_nat (length bs)"
  have u: "unat count = length bs" using l by (simp add: count_def unat_of_nat_small)
  note E = enc [unfolded emits_def, rule_format, OF l]
  define rest where "rest = (\<lambda>stream :: 's pb_ostream.
     if callback stream = None then pb_write stream None count
     else if bytes_written stream + count > max_size stream then PB_RETURN_ERROR stream ''stream full''
     else do {
       (status, sub) \<leftarrow> enc \<lparr>callback = callback stream, stream_state = stream_state stream,
         max_size = count, bytes_written = 0, errmsg = None\<rparr> fs src;
       let stream = stream\<lparr>bytes_written := bytes_written stream + bytes_written sub,
         stream_state := stream_state sub, errmsg := errmsg sub\<rparr>;
       if bytes_written sub \<noteq> count then PB_RETURN_ERROR stream ''submsg size changed''
       else Some (status, stream) })"
  have sizing: "enc (PB_OSTREAM_SIZING t) fs src = Some (True, counted (PB_OSTREAM_SIZING t) bs)" for t
    using E by (simp add: PB_OSTREAM_SIZING_def)
  have split: "pb_encode_submessage enc s fs src = and_then (pb_encode_varint s count) rest" for s
    unfolding pb_encode_submessage_def sizing bind.bind_lunit case_prod_conv not_True_eq_False if_False
      Let_def counted_sel sizing_zero add_0 rest_def count_def by simp
  have "emit rest bs"
    unfolding emits_def
  proof (intro impI conjI allI)
    fix s :: "'s pb_ostream"
    show "rest s = Some (True, counted s bs)" if "callback s = None"
      using that by (simp add: rest_def pb_write_def counted_def count_def)
    show "\<exists>t. rest s = Some (True, (counted s bs)\<lparr>stream_state := t\<rparr>) \<and>
        content t = content (stream_state s) @ bs \<and> room t = room (stream_state s) - length bs"
      if w: "able put room s bs"
    proof -
      let ?sub = "\<lparr>callback = callback s, stream_state = stream_state s, max_size = count, bytes_written = 0, errmsg = None\<rparr>"
      have "able put room ?sub bs" using w u by (auto simp: able_def fits_def)
      then obtain t where t: "enc ?sub fs src = Some (True, (counted ?sub bs)\<lparr>stream_state := t\<rparr>)"
        "content t = content (stream_state s) @ bs" "room t = room (stream_state s) - length bs"
        using E by fastforce
      have "\<not> bytes_written s + count > max_size s"
        using w fits_bytes [of s bs] by (simp add: count_def word_less_nat_alt fits_def able_def)
      then have "rest s = Some (True, (counted s bs)\<lparr>stream_state := t\<rparr>)"
        using w t(1) by (simp add: rest_def able_def count_def counted_def)
      with t show ?thesis by blast
    qed
    show "\<exists>s' ys zs. rest s = Some (False, s') \<and> bs = ys @ zs \<and> content (stream_state s') = content (stream_state s) @ ys"
      if w: "writer put room s \<and> \<not> fits s bs"
    proof -
      have "unat (bytes_written s) \<le> unat (max_size s)" "unat (max_size s) < 2 ^ 63"
        using w by (auto simp: writer_def word_le_nat_alt word_less_nat_alt)
      then have "unat (bytes_written s + of_nat (length bs)) = unat (bytes_written s) + length bs"
        using l by (intro unat_add_of_nat_small) simp
      then have "bytes_written s + count > max_size s"
        using w by (simp add: count_def word_less_nat_alt fits_def)
      then have "rest s = PB_RETURN_ERROR s ''stream full''"
        using w by (simp add: rest_def writer_def)
      then show ?thesis by (auto simp: PB_RETURN_ERROR_def intro!: exI [of _ "[]"])
    qed
  qed
  from emit_then [OF emit_varint [of count] this] show ?thesis
    unfolding split u .
qed

end

section \<open>The records of a structure\<close>

text \<open>The value of a field of some type at an address; \<open>sub\<close> gives the records of a submessage.\<close>

definition length_wire :: "mem \<Rightarrow> addr \<Rightarrow> nat \<Rightarrow> wire option" where
  "length_wire m p n = map_option Length (load_bytes m p n)"

definition bytes_wire :: "mem \<Rightarrow> pb_field \<Rightarrow> addr \<Rightarrow> wire option" where
  "bytes_wire m field p =
     (if p = 0 then Some (Length [])
      else do { n \<leftarrow> load32 m p;
                if PB_ATYPE (ftype field) = PB_ATYPE_STATIC \<and> unat n + 4 > unat (data_size field) then None
                else length_wire m (p + 4) (unat n) })"

definition string_wire :: "mem \<Rightarrow> pb_field \<Rightarrow> addr \<Rightarrow> wire option" where
  "string_wire m field p =
     (if p = 0 then Some (Length [])
      else do { n \<leftarrow> string_loop (if PB_ATYPE (ftype field) = PB_ATYPE_POINTER then 2 ^ 64 - 1
                                  else unat (data_size field)) m p;
                length_wire m p (unat n) })"

definition submessage_wire :: "(nat \<Rightarrow> addr \<Rightarrow> (u32 \<times> wire) list option) \<Rightarrow> pb_field \<Rightarrow> addr \<Rightarrow> wire option" where
  "submessage_wire sub field p =
     (case ptr field of Submessage i \<Rightarrow> map_option (Length \<circ> wire_encode) (sub i p) | _ \<Rightarrow> None)"

definition value_wire ::
    "(nat \<Rightarrow> addr \<Rightarrow> (u32 \<times> wire) list option) \<Rightarrow> mem \<Rightarrow> pb_field \<Rightarrow> addr \<Rightarrow> wire option" where
  "value_wire sub m field p =
     (let l = PB_LTYPE (ftype field); n = data_size field in
      if l = PB_LTYPE_BOOL then map_option (\<lambda>b. Varint (if b \<noteq> 0 then 1 else 0)) (load8 m p)
      else if l = PB_LTYPE_VARINT then map_option Varint (Option.bind (load_signed m n p) id)
      else if l = PB_LTYPE_UVARINT then map_option Varint (Option.bind (load_unsigned m n p) id)
      else if l = PB_LTYPE_SVARINT then map_option (Varint \<circ> zigzag) (Option.bind (load_signed m n p) id)
      else if l = PB_LTYPE_FIXED32 then map_option Fixed32 (load32 m p)
      else if l = PB_LTYPE_FIXED64 then map_option Fixed64 (load64 m p)
      else if l = PB_LTYPE_BYTES then bytes_wire m field p
      else if l = PB_LTYPE_STRING then string_wire m field p
      else if l = PB_LTYPE_SUBMESSAGE then submessage_wire sub field p
      else if l = PB_LTYPE_FIXED_LENGTH_BYTES then length_wire m p (unat n)
      else None)"

text \<open>The \<open>n\<close> values of an array.\<close>

fun array_wires :: "nat \<Rightarrow> (addr \<Rightarrow> wire option) \<Rightarrow> u64 \<Rightarrow> addr \<Rightarrow> wire list option" where
  "array_wires 0 item stride p = Some []"
| "array_wires (Suc n) item stride p =
     do { w \<leftarrow> item p; ws \<leftarrow> array_wires n item stride (p + stride); Some (w # ws) }"

definition array_records ::
    "(nat \<Rightarrow> addr \<Rightarrow> (u32 \<times> wire) list option) \<Rightarrow> mem \<Rightarrow> pb_field \<Rightarrow> addr \<Rightarrow> u32 \<Rightarrow> (u32 \<times> wire) list option" where
  "array_records sub m field data count =
     (let value = value_wire sub m field; stride = ucast (data_size field); n = unat count in
      if count = 0 then Some []
      else if PB_ATYPE (ftype field) \<noteq> PB_ATYPE_POINTER \<and> count > array_size field then None
      else if PB_LTYPE (ftype field) \<le> PB_LTYPE_LAST_PACKABLE
      then map_option (\<lambda>ws. [(tag field, Length (concat (map payload ws)))]) (array_wires n value stride data)
      else if PB_ATYPE (ftype field) = PB_ATYPE_POINTER \<and>
              (PB_LTYPE (ftype field) = PB_LTYPE_STRING \<or> PB_LTYPE (ftype field) = PB_LTYPE_BYTES)
      then map_option (map (Pair (tag field))) (array_wires n (\<lambda>p. Option.bind (load64 m p) value) stride data)
      else map_option (map (Pair (tag field))) (array_wires n value stride data))"

text \<open>The records of a field: none, one, or one per entry of an array that cannot be packed. \<open>check\<close>
  tells whether a proto3 field has its default value, which is not written.\<close>

definition one_record :: "u32 \<Rightarrow> bool \<Rightarrow> wire option \<Rightarrow> (u32 \<times> wire) list option" where
  "one_record t present w = (if present then map_option (\<lambda>w. [(t, w)]) w else Some [])"

definition field_records ::
    "(nat \<Rightarrow> addr \<Rightarrow> (u32 \<times> wire) list option) \<Rightarrow> (pb_field \<Rightarrow> addr \<Rightarrow> bool option) \<Rightarrow> mem \<Rightarrow>
       pb_field \<Rightarrow> addr \<Rightarrow> (u32 \<times> wire) list option" where
  "field_records sub check m field p =
     (let type = ftype field; size = field_pSize field p in
      if PB_LTYPE type = PB_LTYPE_EXTENSION \<or> PB_ATYPE type = PB_ATYPE_CALLBACK
      then do { q \<leftarrow> load64 m p; if q = 0 then Some [] else None }
      else if PB_ATYPE type \<noteq> PB_ATYPE_STATIC \<and> PB_ATYPE type \<noteq> PB_ATYPE_POINTER \<or>
              PB_LTYPE type > PB_LTYPE_FIXED_LENGTH_BYTES then None
      else do {
        default \<leftarrow> (if size_offset field = 0 \<and> PB_HTYPE type = PB_HTYPE_OPTIONAL then check field p else Some False);
        data \<leftarrow> (if PB_ATYPE type = PB_ATYPE_POINTER then load64 m p else Some p);
        let value = value_wire sub m field data;
        if PB_HTYPE type = PB_HTYPE_REQUIRED then (if data = 0 then None else one_record (tag field) True value)
        else if PB_HTYPE type = PB_HTYPE_OPTIONAL then do {
          present \<leftarrow> (if size_offset field \<noteq> 0 then safe_read_bool m size
                      else Some (if PB_ATYPE type = PB_ATYPE_POINTER then data \<noteq> 0 else \<not> default));
          one_record (tag field) present value }
        else if PB_HTYPE type = PB_HTYPE_REPEATED then do {
          count \<leftarrow> (if size_offset field \<noteq> 0 then load32 m size else Some (array_size field));
          array_records sub m field data count }
        else if size_offset field = 0 then None
        else do { which \<leftarrow> load32 m size; one_record (tag field) (which = tag field) value } })"

fun message_records :: "nat \<Rightarrow> 's pb_env \<Rightarrow> pb_fields \<Rightarrow> addr \<Rightarrow> (u32 \<times> wire) list option" where
  "message_records 0 E fs p = None"
| "message_records (Suc d) E fs p =
     map_option concat (those (map
       (\<lambda>(f, a). field_records (\<lambda>i. message_records d E (messages E i))
          (pb_check_proto3_default_value (Suc d) E) (env_mem E) f a)
       (zip fs (field_addresses fs p))))"

section \<open>What an encoder emits\<close>

lemma wire_encode_simps [simp]:
  "wire_encode [] = []" "wire_encode (r # rs) = encode_record r @ wire_encode rs"
  "wire_encode (rs @ qs) = wire_encode rs @ wire_encode qs"
  by (simp_all add: wire_encode_def)

context byte_sink begin

lemma emit_tag: "w < 8 \<Longrightarrow> emit (\<lambda>s. pb_encode_tag s (of_nat w) t) (record_tag t w)"
proof -
  assume w: "w < 8"
  have "(of_nat w OR of_nat (unat t * 2 ^ 3) :: u64) = of_nat (w + unat t * 2 ^ 3)"
    by (rule word_or_of_nat) (use w in simp)
  moreover have "(of_nat (unat t * 2 ^ 3) :: u64) = push_bit 3 (ucast t)"
    by (simp add: push_bit_eq_mult)
  ultimately have "push_bit 3 (ucast t) OR of_nat w = (of_nat (8 * unat t + w) :: u64)"
    by (simp add: or.commute algebra_simps)
  moreover have "unat (of_nat (8 * unat t + w) :: u64) = 8 * unat t + w"
    using w unat_less [of t] by (intro unat_of_nat_small) simp
  ultimately show ?thesis
    using emit_varint [of "of_nat (8 * unat t + w)"] by (simp add: pb_encode_tag_def record_tag_def)
qed

lemma emit_string:
  assumes "load_bytes m p (unat n) = Some bs"
  shows "emit (\<lambda>s. pb_encode_string m s p n) (uleb128_encode (length bs) @ bs)"
proof -
  have n: "unat n = length bs" using load_bytes_length [OF assms] by simp
  then have "of_nat (length bs) = n" by (rule word_eq_of_nat [symmetric])
  with emit_then [OF emit_varint [of n] emit_write [of bs]] n show ?thesis
    unfolding pb_encode_string_def assms by simp
qed

text \<open>Each encoder of the table emits the payload of the value.\<close>

lemma encoder_emits:
  assumes sub: "\<And>i q rs. sub i q = Some rs \<Longrightarrow> emit (\<lambda>s. enc s (messages E i) q) (wire_encode rs)"
    and func: "PB_ENCODERS E enc (PB_LTYPE (ftype field)) = Some func"
    and w: "value_wire sub (env_mem E) field p = Some w"
  shows "emit (\<lambda>s. func s field p) (payload w)"
proof -
  let ?l = "PB_LTYPE (ftype field)" and ?m = "env_mem E"
  note F = func [unfolded PB_ENCODERS_def Let_def] and W = w [unfolded value_wire_def Let_def]
  consider "?l = PB_LTYPE_BOOL" | "?l = PB_LTYPE_VARINT" | "?l = PB_LTYPE_UVARINT" | "?l = PB_LTYPE_SVARINT"
    | "?l = PB_LTYPE_FIXED32" | "?l = PB_LTYPE_FIXED64" | "?l = PB_LTYPE_BYTES" | "?l = PB_LTYPE_STRING"
    | "?l = PB_LTYPE_SUBMESSAGE" | "?l = PB_LTYPE_FIXED_LENGTH_BYTES"
    using W by (auto split: if_splits)
  then show ?thesis
  proof cases
    case 1
    with F W have f: "func = pb_enc_bool ?m" by simp
    from W 1 obtain b where "load8 ?m p = Some b" "w = Varint (if b \<noteq> 0 then 1 else 0)" by auto
    with emit_varint [of "if b \<noteq> 0 then 1 else 0"] show ?thesis
      by (simp add: f pb_enc_bool_def safe_read_bool_def)
  next
    case 2
    with F have f: "func = pb_enc_varint ?m" by (simp add: pb_ltypes)
    from W 2 obtain v where "load_signed ?m (data_size field) p = Some (Some v)" "w = Varint v"
      by (auto simp: pb_ltypes bind_eq_Some_conv)
    with emit_varint [of v] show ?thesis by (simp add: f pb_enc_varint_def)
  next
    case 3
    with F have f: "func = pb_enc_uvarint ?m" by (simp add: pb_ltypes)
    from W 3 obtain v where "load_unsigned ?m (data_size field) p = Some (Some v)" "w = Varint v"
      by (auto simp: pb_ltypes bind_eq_Some_conv)
    with emit_varint [of v] show ?thesis by (simp add: f pb_enc_uvarint_def)
  next
    case 4
    with F have f: "func = pb_enc_svarint ?m" by (simp add: pb_ltypes)
    from W 4 obtain v where "load_signed ?m (data_size field) p = Some (Some v)" "w = Varint (zigzag v)"
      by (auto simp: pb_ltypes bind_eq_Some_conv)
    with emit_varint [of "zigzag v"] show ?thesis by (simp add: f pb_enc_svarint_def pb_encode_svarint_def)
  next
    case 5
    with F have f: "func = pb_enc_fixed32 ?m" by (simp add: pb_ltypes)
    from W 5 obtain v where "load32 ?m p = Some v" "w = Fixed32 v" by (auto simp: pb_ltypes)
    with emit_write [of "fixed32_bytes v"] show ?thesis
      by (simp add: f pb_enc_fixed32_def pb_encode_fixed32_def fixed32_bytes_le)
  next
    case 6
    with F have f: "func = pb_enc_fixed64 ?m" by (simp add: pb_ltypes)
    from W 6 obtain v where "load64 ?m p = Some v" "w = Fixed64 v" by (auto simp: pb_ltypes)
    with emit_write [of "fixed64_bytes v"] show ?thesis
      by (simp add: f pb_enc_fixed64_def pb_encode_fixed64_def fixed64_bytes_le)
  next
    case 7
    with F have f: "func = pb_enc_bytes ?m" by (simp add: pb_ltypes)
    have b: "bytes_wire ?m field p = Some w" using W 7 by (simp add: pb_ltypes)
    show ?thesis
    proof (cases "p = 0")
      case True
      with b have "w = Length []" by (simp add: bytes_wire_def)
      with emit_string [of ?m 0 0 "[]"] True show ?thesis by (simp add: f pb_enc_bytes_def)
    next
      case False
      from b False obtain n bs where n: "load32 ?m p = Some n"
        "\<not> (PB_ATYPE (ftype field) = PB_ATYPE_STATIC \<and> unat n + 4 > unat (data_size field))"
        "load_bytes ?m (p + 4) (unat n) = Some bs" "w = Length bs"
        by (auto simp: bytes_wire_def length_wire_def bind_eq_Some_conv split: if_splits)
      have "unat (PB_BYTES_ARRAY_T_ALLOCSIZE (ucast n)) = unat n + 4"
        using unat_less [of n] unat_add_of_nat_small [of "ucast n :: u64" 4]
        by (simp add: PB_BYTES_ARRAY_T_ALLOCSIZE_def unat_ucast_u32)
      then have "PB_BYTES_ARRAY_T_ALLOCSIZE (ucast n) > ucast (data_size field) \<longleftrightarrow> unat n + 4 > unat (data_size field)"
        by (simp add: word_less_nat_alt unat_ucast_u32)
      with False n emit_string [of ?m "p + 4" "ucast n" bs] show ?thesis
        by (auto simp: f pb_enc_bytes_def unat_ucast_u32)
    qed
  next
    case 8
    with F have f: "func = pb_enc_string ?m" by (simp add: pb_ltypes)
    have b: "string_wire ?m field p = Some w" using W 8 by (simp add: pb_ltypes)
    show ?thesis
    proof (cases "p = 0")
      case True
      with b have "w = Length []" by (simp add: string_wire_def)
      with emit_string [of ?m 0 0 "[]"] True show ?thesis by (simp add: f pb_enc_string_def)
    next
      case False
      define k where "k = (if PB_ATYPE (ftype field) = PB_ATYPE_POINTER then 2 ^ 64 - 1 else unat (data_size field))"
      have "Option.bind (string_loop k ?m p) (\<lambda>n. length_wire ?m p (unat n)) = Some w"
        using b False unfolding string_wire_def k_def by simp
      then obtain n bs where n: "string_loop k ?m p = Some n" "load_bytes ?m p (unat n) = Some bs" "w = Length bs"
        by (auto simp: length_wire_def bind_eq_Some_conv)
      have "func s field p = pb_encode_string ?m s p n" for s
        using False n(1) unfolding f pb_enc_string_def Let_def k_def by simp
      with emit_string [of ?m p n bs] n show ?thesis by simp
    qed
  next
    case 9
    with F have f: "func = pb_enc_submessage (messages E) enc" by (simp add: pb_ltypes)
    from W 9 obtain i rs where i: "ptr field = Submessage i" "sub i p = Some rs" "w = Length (wire_encode rs)"
      by (auto simp: pb_ltypes submessage_wire_def split: pb_ptr.splits)
    from emit_submessage [of enc "messages E i" p, OF sub [OF i(2)]] i(1,3) show ?thesis
      by (simp add: f pb_enc_submessage_def)
  next
    case 10
    with F have f: "func = pb_enc_fixed_length_bytes ?m" by (simp add: pb_ltypes)
    from W 10 obtain bs where "load_bytes ?m p (unat (data_size field)) = Some bs" "w = Length bs"
      by (auto simp: pb_ltypes length_wire_def)
    with emit_string [of ?m p "ucast (data_size field)" bs] show ?thesis
      by (simp add: f pb_enc_fixed_length_bytes_def unat_ucast_u32)
  qed
qed

lemma emit_tag_for_field:
  assumes "value_wire sub m field p = Some w"
  shows "emit (\<lambda>s. pb_encode_tag_for_field s field) (record_tag (tag field) (wire_type w))"
proof -
  have t: "emit (\<lambda>s. pb_encode_tag s 0 (tag field)) (record_tag (tag field) 0)"
    "emit (\<lambda>s. pb_encode_tag s 1 (tag field)) (record_tag (tag field) 1)"
    "emit (\<lambda>s. pb_encode_tag s 2 (tag field)) (record_tag (tag field) 2)"
    "emit (\<lambda>s. pb_encode_tag s 5 (tag field)) (record_tag (tag field) 5)"
    using emit_tag [of 0 "tag field"] emit_tag [of 1 "tag field"] emit_tag [of 2 "tag field"] emit_tag [of 5 "tag field"]
    by simp_all
  show ?thesis
    using assms t
    by (auto simp: value_wire_def pb_encode_tag_for_field_def PB_WT_VARINT_def PB_WT_32BIT_def PB_WT_64BIT_def
        PB_WT_STRING_def pb_ltypes bytes_wire_def string_wire_def length_wire_def submessage_wire_def
        bind_eq_Some_conv Let_def simp del: string_loop.simps split: if_splits pb_ptr.splits)
qed

lemma emit_items:
  assumes "\<And>q w. item q = Some w \<Longrightarrow> emit (\<lambda>s. f s q) (g w)"
  shows "array_wires n item stride p = Some ws \<Longrightarrow>
    emit (\<lambda>s. encode_items n f stride s p) (concat (map g ws))"
proof (induction n arbitrary: p ws)
  case 0
  then show ?case using emit_return by simp
next
  case (Suc n)
  then obtain v vs where v: "item p = Some v" "array_wires n item stride (p + stride) = Some vs" "ws = v # vs"
    by (auto simp: bind_eq_Some_conv)
  with emit_then [OF assms [OF v(1)] Suc.IH [OF v(2)]] show ?case by simp
qed

end

lemma concat_fixed: "(\<And>w. w \<in> set ws \<Longrightarrow> length (payload w) = k) \<Longrightarrow> length (concat (map payload ws)) = k * length ws"
  by (induction ws) auto

lemma array_wires_length: "array_wires n item stride p = Some ws \<Longrightarrow> length ws = n"
  by (induction n arbitrary: p ws) (auto simp: bind_eq_Some_conv)

lemma array_wires_set:
  "array_wires n item stride p = Some ws \<Longrightarrow> w \<in> set ws \<Longrightarrow> \<exists>q. item q = Some w"
  by (induction n arbitrary: p ws) (auto simp: bind_eq_Some_conv)

lemma fixed_payload:
  assumes "value_wire sub m field p = Some w"
  shows "PB_LTYPE (ftype field) = PB_LTYPE_FIXED32 \<Longrightarrow> length (payload w) = 4"
    "PB_LTYPE (ftype field) = PB_LTYPE_FIXED64 \<Longrightarrow> length (payload w) = 8"
  using assms by (auto simp: value_wire_def pb_ltypes Let_def)

lemma wire_encode_records: "wire_encode (map (Pair t) ws) = concat (map (\<lambda>w. encode_record (t, w)) ws)"
  by (simp add: wire_encode_def comp_def)

context byte_sink begin

text \<open>The size of a packed array, predicted without writing it.\<close>

lemma packed_size_correct:
  assumes items: "\<And>q w. value_wire sub m field q = Some w \<Longrightarrow> emit (\<lambda>s. func s field q) (payload w)"
    and ws: "array_wires (unat count) (value_wire sub m field) (ucast (data_size field)) data = Some ws"
    and l: "length (concat (map payload ws)) < 2 ^ 63"
  shows "packed_size func s field data count = Some (True, of_nat (length (concat (map payload ws))))"
proof -
  have n: "of_nat (length ws) = (ucast count :: u64)" using array_wires_length [OF ws] by simp
  consider "PB_LTYPE (ftype field) = PB_LTYPE_FIXED32" | "PB_LTYPE (ftype field) = PB_LTYPE_FIXED64"
    | "PB_LTYPE (ftype field) \<noteq> PB_LTYPE_FIXED32" "PB_LTYPE (ftype field) \<noteq> PB_LTYPE_FIXED64" by blast
  then show ?thesis
  proof cases
    case 1
    then have "length (concat (map payload ws)) = 4 * length ws"
      using array_wires_set [OF ws] fixed_payload(1) by (intro concat_fixed) blast
    with 1 n show ?thesis by (simp add: packed_size_def)
  next
    case 2
    then have "length (concat (map payload ws)) = 8 * length ws"
      using array_wires_set [OF ws] fixed_payload(2) by (intro concat_fixed) blast
    with 2 n show ?thesis by (simp add: packed_size_def pb_ltypes)
  next
    case 3
    have "emit (\<lambda>s. encode_items (unat count) (\<lambda>stream p. func stream field p) (ucast (data_size field)) s data)
        (concat (map payload ws))"
      by (rule emit_items [OF items ws])
    with l have "encode_items (unat count) (\<lambda>stream p. func stream field p) (ucast (data_size field))
        (PB_OSTREAM_SIZING t) data = Some (True, counted (PB_OSTREAM_SIZING t) (concat (map payload ws)))" for t
      by (simp add: emits_def sizing_zero)
    with 3 show ?thesis by (simp add: packed_size_def sizing_zero)
  qed
qed

lemma emit_packed:
  assumes items: "\<And>q w. value_wire sub m field q = Some w \<Longrightarrow> emit (\<lambda>s. func s field q) (payload w)"
    and ws: "array_wires (unat count) (value_wire sub m field) (ucast (data_size field)) data = Some ws"
  defines "bs \<equiv> concat (map payload ws)"
  shows "emit (\<lambda>stream. do {
        (ok, total) \<leftarrow> packed_size func stream field data count;
        if \<not> ok then Some (False, stream)
        else and_then (pb_encode_varint stream total) (\<lambda>stream.
          if callback stream = None then pb_write stream None total
          else encode_items (unat count) (\<lambda>stream p. func stream field p) (ucast (data_size field)) stream data) })
     (uleb128_encode (length bs) @ bs)"
proof (cases "length bs < 2 ^ 63")
  case False
  then show ?thesis by (simp add: emits_def)
next
  case l: True
  have size: "packed_size func s field data count = Some (True, of_nat (length bs))" for s :: "'s pb_ostream"
    using packed_size_correct [of sub m field func, OF items ws] l by (simp add: bs_def)
  have its: "emit (\<lambda>s. encode_items (unat count) (\<lambda>stream p. func stream field p) (ucast (data_size field)) s data) bs"
    unfolding bs_def by (rule emit_items [OF items ws])
  have "emit (\<lambda>stream. if callback stream = None then pb_write stream None (of_nat (length bs))
      else encode_items (unat count) (\<lambda>stream p. func stream field p) (ucast (data_size field)) stream data) bs"
    using its by (auto simp: emits_def pb_write_def counted_def writer_def able_def)
  from emit_then [OF emit_varint [of "of_nat (length bs)"] this]
  show ?thesis
    using l unfolding size bind.bind_lunit case_prod_conv not_True_eq_False if_False
    by (simp add: unat_of_nat_small)
qed

lemma emit_array:
  assumes items: "\<And>q w. value_wire sub m field q = Some w \<Longrightarrow> emit (\<lambda>s. func s field q) (payload w)"
    and rs: "array_records sub m field data count = Some rs"
  shows "emit (\<lambda>s. encode_array m func s field data count) (wire_encode rs)"
proof -
  note R = rs [unfolded array_records_def Let_def]
  consider (none) "count = 0" "rs = []"
    | (packed) ws where "count \<noteq> 0" "\<not> (PB_ATYPE (ftype field) \<noteq> PB_ATYPE_POINTER \<and> count > array_size field)"
        "PB_LTYPE (ftype field) \<le> PB_LTYPE_LAST_PACKABLE"
        "array_wires (unat count) (value_wire sub m field) (ucast (data_size field)) data = Some ws"
        "rs = [(tag field, Length (concat (map payload ws)))]"
    | (pointers) ws where "count \<noteq> 0" "\<not> (PB_ATYPE (ftype field) \<noteq> PB_ATYPE_POINTER \<and> count > array_size field)"
        "\<not> PB_LTYPE (ftype field) \<le> PB_LTYPE_LAST_PACKABLE" "PB_ATYPE (ftype field) = PB_ATYPE_POINTER"
        "PB_LTYPE (ftype field) = PB_LTYPE_STRING \<or> PB_LTYPE (ftype field) = PB_LTYPE_BYTES"
        "array_wires (unat count) (\<lambda>p. Option.bind (load64 m p) (value_wire sub m field)) (ucast (data_size field)) data = Some ws"
        "rs = map (Pair (tag field)) ws"
    | (separate) ws where "count \<noteq> 0" "\<not> (PB_ATYPE (ftype field) \<noteq> PB_ATYPE_POINTER \<and> count > array_size field)"
        "\<not> PB_LTYPE (ftype field) \<le> PB_LTYPE_LAST_PACKABLE"
        "\<not> (PB_ATYPE (ftype field) = PB_ATYPE_POINTER \<and>
             (PB_LTYPE (ftype field) = PB_LTYPE_STRING \<or> PB_LTYPE (ftype field) = PB_LTYPE_BYTES))"
        "array_wires (unat count) (value_wire sub m field) (ucast (data_size field)) data = Some ws"
        "rs = map (Pair (tag field)) ws"
    using R by (auto split: if_splits)
  then show ?thesis
  proof cases
    case none
    then show ?thesis using emit_return by (simp add: encode_array_def)
  next
    case (packed ws)
    have "emit (\<lambda>s. pb_encode_tag s PB_WT_STRING (tag field)) (record_tag (tag field) 2)"
      using emit_tag [of 2 "tag field"] by (simp add: PB_WT_STRING_def)
    from emit_then [OF this emit_packed [of sub m field func, OF items packed(4)]]
    show ?thesis
      unfolding encode_array_def Let_def if_not_P [OF packed(1)] if_not_P [OF packed(2)] if_P [OF packed(3)] packed(5)
      by (simp add: encode_record_def)
  next
    case (pointers ws)
    have "emit (\<lambda>s. and_then (pb_encode_tag_for_field s field) (\<lambda>s. do { q \<leftarrow> load64 m p; func s field q }))
        (encode_record (tag field, w))" if h: "Option.bind (load64 m p) (value_wire sub m field) = Some w" for p w
    proof -
      obtain q where q: "load64 m p = Some q" "value_wire sub m field q = Some w"
        using h by (auto simp: bind_eq_Some_conv)
      from emit_then [OF emit_tag_for_field [OF q(2)] items [OF q(2)]] q(1) show ?thesis
        by (simp add: encode_record_def)
    qed
    from emit_items [OF this pointers(6)] pointers(4,5) show ?thesis
      unfolding encode_array_def Let_def if_not_P [OF pointers(1)] if_not_P [OF pointers(2)]
        if_not_P [OF pointers(3)] pointers(7) by (simp add: wire_encode_records)
  next
    case (separate ws)
    have "emit (\<lambda>s. and_then (pb_encode_tag_for_field s field) (\<lambda>s. func s field p))
        (encode_record (tag field, w))" if "value_wire sub m field p = Some w" for p w
      using emit_then [OF emit_tag_for_field [OF that] items [OF that]] by (simp add: encode_record_def)
    from emit_items [OF this separate(5)] show ?thesis
      unfolding encode_array_def Let_def if_not_P [OF separate(1)] if_not_P [OF separate(2)]
        if_not_P [OF separate(3)] if_not_P [OF separate(4)] separate(6) by (simp add: wire_encode_records)
  qed
qed

end

lemma PB_ENCODERS_defined:
  assumes "l \<le> PB_LTYPE_FIXED_LENGTH_BYTES" shows "\<exists>func. PB_ENCODERS E enc l = Some func"
proof -
  have "unat l \<le> 10" using assms by (simp add: pb_ltypes word_le_nat_alt)
  then have "unat l \<in> {0, 1, 2, 3, 4, 5, 6, 7, 8, 9, 10}" by (simp, presburger)
  then have "l \<in> {0, 1, 2, 3, 4, 5, 6, 7, 8, 9, 10}" by (auto dest: word_eq_of_nat)
  then show ?thesis unfolding PB_ENCODERS_def Let_def pb_ltypes by auto
qed

context byte_sink begin

lemma emit_one:
  assumes "one_record (tag field) present (value_wire sub m field p) = Some rs"
    and "\<And>w. value_wire sub m field p = Some w \<Longrightarrow> emit (\<lambda>s. func s field p) (payload w)"
  shows "emit (\<lambda>s. if present then and_then (pb_encode_tag_for_field s field) (\<lambda>s. func s field p) else Some (True, s))
    (wire_encode rs)"
proof (cases present)
  case True
  with assms(1) obtain w where w: "value_wire sub m field p = Some w" "rs = [(tag field, w)]"
    by (auto simp: one_record_def)
  from emit_then [OF emit_tag_for_field [OF w(1)] assms(2) [OF w(1)]] show ?thesis
    using True w(2) by (simp add: encode_record_def)
next
  case False
  with assms(1) emit_return show ?thesis by (simp add: one_record_def)
qed

text \<open>What \<open>encode_basic_field\<close> finds before it looks at the kind of the field, and that it then emits
  the records of the field.\<close>

lemma emit_basic_field:
  assumes sub: "\<And>i q rs. sub i q = Some rs \<Longrightarrow> emit (\<lambda>s. enc s (messages E i) q) (wire_encode rs)"
    and rs: "field_records sub check (env_mem E) field p = Some rs"
    and kind: "PB_LTYPE (ftype field) \<noteq> PB_LTYPE_EXTENSION" "PB_ATYPE (ftype field) \<noteq> PB_ATYPE_CALLBACK"
  shows "emit (\<lambda>s. encode_basic_field E enc check s field p) (wire_encode rs)"
proof -
  let ?type = "ftype field" and ?m = "env_mem E" and ?size = "field_pSize field p"
  have k: "\<not> (PB_ATYPE ?type \<noteq> PB_ATYPE_STATIC \<and> PB_ATYPE ?type \<noteq> PB_ATYPE_POINTER \<or>
      PB_LTYPE ?type > PB_LTYPE_FIXED_LENGTH_BYTES)"
    using rs kind unfolding field_records_def Let_def by (auto split: if_splits)
  then obtain func where func: "PB_ENCODERS E enc (PB_LTYPE ?type) = Some func"
    using PB_ENCODERS_defined [of "PB_LTYPE ?type"] by (auto simp: not_less)
  have n: "\<not> (PB_LTYPE ?type = PB_LTYPE_EXTENSION \<or> PB_ATYPE ?type = PB_ATYPE_CALLBACK)" using kind by simp
  note R = rs [unfolded field_records_def Let_def if_not_P [OF k] if_not_P [OF n]]
  obtain default data where d:
    "(if size_offset field = 0 \<and> PB_HTYPE ?type = PB_HTYPE_OPTIONAL then check field p else Some False) = Some default"
    "(if PB_ATYPE ?type = PB_ATYPE_POINTER then load64 ?m p else Some p) = Some data"
    using R unfolding bind_eq_Some_conv by blast
  note R' = R [unfolded d bind.bind_lunit]
  have vals: "emit (\<lambda>s. func s field q) (payload w)" if "value_wire sub ?m field q = Some w" for q w
    by (rule encoder_emits [OF sub func that])
  have implicit: "(if size_offset field = 0 \<and> PB_HTYPE ?type = PB_HTYPE_OPTIONAL
      then map_option Not (check field p) else Some True) =
      Some (\<not> (size_offset field = 0 \<and> PB_HTYPE ?type = PB_HTYPE_OPTIONAL \<and> default))"
    using d(1) by (auto split: if_splits)
  note unfold = encode_basic_field_def Let_def func implicit d(2) bind.bind_lunit
  consider (required) "PB_HTYPE ?type = PB_HTYPE_REQUIRED"
    | (optional) "PB_HTYPE ?type \<noteq> PB_HTYPE_REQUIRED" "PB_HTYPE ?type = PB_HTYPE_OPTIONAL"
    | (repeated) "PB_HTYPE ?type \<noteq> PB_HTYPE_REQUIRED" "PB_HTYPE ?type \<noteq> PB_HTYPE_OPTIONAL" "PB_HTYPE ?type = PB_HTYPE_REPEATED"
    | (oneof) "PB_HTYPE ?type \<noteq> PB_HTYPE_REQUIRED" "PB_HTYPE ?type \<noteq> PB_HTYPE_OPTIONAL" "PB_HTYPE ?type \<noteq> PB_HTYPE_REPEATED"
    by blast
  then show ?thesis
  proof cases
    case required
    note R'' = R' [unfolded if_P [OF required]]
    then have "data \<noteq> 0" "one_record (tag field) True (value_wire sub ?m field data) = Some rs"
      by (auto split: if_splits)
    from emit_one [of field True sub ?m data rs func, OF this(2) vals] this(1) show ?thesis
      unfolding unfold if_P [OF required] by simp
  next
    case optional
    note R'' = R' [unfolded if_not_P [OF optional(1)] if_P [OF optional(2)]]
    then obtain present where has: "(if size_offset field \<noteq> 0 then safe_read_bool ?m ?size
          else Some (if PB_ATYPE ?type = PB_ATYPE_POINTER then data \<noteq> 0 else \<not> default)) = Some present"
      "one_record (tag field) present (value_wire sub ?m field data) = Some rs"
      unfolding bind_eq_Some_conv by blast
    have "(if size_offset field \<noteq> 0 then safe_read_bool ?m ?size
        else Some (if PB_ATYPE ?type = PB_ATYPE_POINTER then data \<noteq> 0
          else \<not> (size_offset field = 0 \<and> PB_HTYPE ?type = PB_HTYPE_OPTIONAL \<and> default))) = Some present"
      using has(1) optional(2) by (auto split: if_splits)
    with emit_one [of field present sub ?m data rs func, OF has(2) vals] show ?thesis
      unfolding unfold if_not_P [OF optional(1)] if_P [OF optional(2)] by simp
  next
    case repeated
    note R'' = R' [unfolded if_not_P [OF repeated(1)] if_not_P [OF repeated(2)] if_P [OF repeated(3)]]
    then obtain count where c: "(if size_offset field \<noteq> 0 then load32 ?m ?size else Some (array_size field)) = Some count"
      "array_records sub ?m field data count = Some rs"
      unfolding bind_eq_Some_conv by blast
    from emit_array [of sub ?m field func, OF vals c(2)] show ?thesis
      unfolding unfold if_not_P [OF repeated(1)] if_not_P [OF repeated(2)] if_P [OF repeated(3)] c(1) .
  next
    case oneof
    note R'' = R' [unfolded if_not_P [OF oneof(1)] if_not_P [OF oneof(2)] if_not_P [OF oneof(3)]]
    then obtain which where w: "size_offset field \<noteq> 0" "load32 ?m ?size = Some which"
      "one_record (tag field) (which = tag field) (value_wire sub ?m field data) = Some rs"
      by (auto simp: bind_eq_Some_conv split: if_splits)
    from emit_one [of field "which = tag field" sub ?m data rs func, OF w(3) vals] w(1,2) show ?thesis
      unfolding unfold if_not_P [OF oneof(1)] if_not_P [OF oneof(2)] if_not_P [OF oneof(3)] by simp
  qed
qed

end

lemma wire_encode_concat: "wire_encode (concat rss) = concat (map wire_encode rss)"
  by (induction rss) simp_all

definition message_field ::
    "'s pb_env \<Rightarrow> 's message_encoder \<Rightarrow> (pb_field \<Rightarrow> addr \<Rightarrow> bool option) \<Rightarrow> 's encoder" where
  "message_field E enc check stream field data =
     (if PB_LTYPE (ftype field) = PB_LTYPE_EXTENSION
      then encode_extension_field E (encode_field E enc check) stream field data
      else encode_field E enc check stream field data)"

context byte_sink begin

lemma emit_message_field:
  assumes sub: "\<And>i q rs. sub i q = Some rs \<Longrightarrow> emit (\<lambda>s. enc s (messages E i) q) (wire_encode rs)"
    and rs: "field_records sub check (env_mem E) field p = Some rs"
  shows "emit (\<lambda>s. message_field E enc check s field p) (wire_encode rs)"
proof (cases "PB_LTYPE (ftype field) = PB_LTYPE_EXTENSION \<or> PB_ATYPE (ftype field) = PB_ATYPE_CALLBACK")
  case True
  with rs have "load64 (env_mem E) p = Some 0" "rs = []"
    by (auto simp: field_records_def bind_eq_Some_conv Let_def split: if_splits)
  then have "message_field E enc check s field p = Some (True, s)" for s
    using True by (auto simp: message_field_def encode_extension_field_def encode_extensions.simps
        encode_field_def encode_callback_field_def pb_atypes)
  with emit_return \<open>rs = []\<close> show ?thesis by simp
next
  case False
  then have n: "\<not> (PB_LTYPE (ftype field) = PB_LTYPE_EXTENSION \<or> PB_ATYPE (ftype field) = PB_ATYPE_CALLBACK)" .
  have "PB_ATYPE (ftype field) = PB_ATYPE_STATIC \<or> PB_ATYPE (ftype field) = PB_ATYPE_POINTER"
    using rs unfolding field_records_def Let_def if_not_P [OF n] by (auto split: if_splits)
  then have "message_field E enc check s field p = encode_basic_field E enc check s field p" for s
    using False by (simp add: message_field_def encode_field_def)
  with emit_basic_field [of sub enc E check field p, OF sub rs] False show ?thesis by simp
qed

lemma emit_fields:
  assumes ok: "fields_ok fs"
    and each: "\<And>j. j < length fs \<Longrightarrow> emit (\<lambda>s. one s (fs ! j) (field_addresses fs p ! j)) (g j)"
  shows "iter_at fs p i iter \<Longrightarrow> emit (\<lambda>s. encode_fields one s iter) (concat (map g [i..<length fs]))"
proof (induction "length fs - i" arbitrary: i iter)
  case 0
  then show ?case by (simp add: iter_at_def)
next
  case (Suc n)
  let ?next = "pb_field_iter_next iter"
  have i: "i < length fs" "iter_field iter = fs ! i" "pData iter = field_addresses fs p ! i"
    using Suc.prems by (auto simp: iter_at_def field_at_def)
  note step = iter_next_at [OF ok Suc.prems]
  have split: "[i..<length fs] = i # [Suc i..<length fs]" using i(1) by (rule upt_conv_Cons)
  have unfold: "encode_fields one s iter = and_then (one s (fs ! i) (field_addresses fs p ! i))
      (\<lambda>s. if fst ?next then encode_fields one s (snd ?next) else Some (True, s))" for s
    by (subst encode_fields.simps) (simp add: i(2,3) case_prod_beta)
  have "emit (\<lambda>s. if fst ?next then encode_fields one s (snd ?next) else Some (True, s))
      (concat (map g [Suc i..<length fs]))"
  proof (cases "Suc i < length fs")
    case True
    then have "iter_at fs p (Suc i) (snd ?next)" "fst ?next" using step by simp_all
    moreover have "n = length fs - Suc i" using Suc.hyps(2) by simp
    ultimately show ?thesis using Suc.hyps(1) [of "Suc i" "snd ?next"] by simp
  next
    case False
    with emit_return step(1) show ?thesis by simp
  qed
  from emit_then [OF each [OF i(1)] this] show ?case by (simp add: unfold split)
qed

text \<open>A message emits its records.\<close>

lemma emit_message:
  assumes tables: "\<And>i. fields_ok (messages E i)"
  shows "fields_ok fs \<Longrightarrow> message_records d E fs p = Some rs \<Longrightarrow> emit (\<lambda>s. pb_encode d E s fs p) (wire_encode rs)"
proof (induction d arbitrary: fs p rs)
  case (Suc d)
  let ?check = "pb_check_proto3_default_value (Suc d) E"
  let ?sub = "\<lambda>i. message_records d E (messages E i)"
  have sub: "emit (\<lambda>s. pb_encode d E s (messages E i) q) (wire_encode qs)" if "?sub i q = Some qs" for i q qs
    using Suc.IH [OF tables that] .
  obtain rss where rss: "those (map (\<lambda>(f, a). field_records ?sub ?check (env_mem E) f a)
      (zip fs (field_addresses fs p))) = Some rss" "rs = concat rss"
    using Suc.prems(2) by auto
  have len: "length rss = length fs" using those_nth [OF rss(1)] by simp
  show ?case
  proof (cases "fs = []")
    case True
    then have "pb_encode (Suc d) E s fs p = Some (True, s)" for s
      by (simp add: encode_message_def pb_field_iter_begin_def field_at_def PB_LAST_FIELD_def)
    with emit_return True len rss(2) show ?thesis by simp
  next
    case False
    have "field_records ?sub ?check (env_mem E) (fs ! j) (field_addresses fs p ! j) = Some (rss ! j)"
      if "j < length fs" for j
      using those_nth [OF rss(1)] that by auto
    then have each: "emit (\<lambda>s. message_field E (pb_encode d E) ?check s (fs ! j) (field_addresses fs p ! j))
        (wire_encode (rss ! j))" if "j < length fs" for j
      using emit_message_field [of ?sub "pb_encode d E" E ?check, OF sub] that by blast
    have "pb_encode (Suc d) E s fs p =
        encode_fields (message_field E (pb_encode d E) ?check) s (snd (pb_field_iter_begin fs p))" for s
      using iter_begin_true [OF Suc.prems(1), of p] False
      by (simp add: encode_message_def case_prod_beta message_field_def [abs_def])
    moreover have "map (\<lambda>j. wire_encode (rss ! j)) [0..<length fs] = map wire_encode rss"
      by (rule nth_equalityI) (simp_all add: len)
    ultimately show ?thesis
      using emit_fields [of fs "message_field E (pb_encode d E) ?check" p "\<lambda>j. wire_encode (rss ! j)",
          OF Suc.prems(1) each iter_begin_at [OF False]]
      by (simp add: rss(2) wire_encode_concat)
  qed
qed simp

end

end
