(* ===== verification/PbDecodeCorrect.thy ===== *)
theory PbDecodeCorrect
  imports PbDecode PbEncodeCorrect
begin

text \<open>
  What the nanopb decoder reads. A stream over a buffer is described by the bytes that come next; the
  readers are shown to take exactly those that the wire format of a value has, and the decoder to change
  memory as the records of the message say.
\<close>

section \<open>What a stream has to give\<close>

definition gives :: "'s pb_istream \<Rightarrow> u8 list \<Rightarrow> u8 list \<Rightarrow> bool" where
  "gives s bs rest \<longleftrightarrow> source s = Buffer (bs @ rest) \<and> length bs \<le> unat (bytes_left s)"

definition after :: "'s pb_istream \<Rightarrow> nat \<Rightarrow> u8 list \<Rightarrow> 's pb_istream" where
  "after s n rest = s\<lparr>source := Buffer rest, bytes_left := bytes_left s - of_nat n\<rparr>"

lemma after_sel [simp]:
  "source (after s n rest) = Buffer rest" "ierrmsg (after s n rest) = ierrmsg s"
  "bytes_left (after s n rest) = bytes_left s - of_nat n"
  by (simp_all add: after_def)

lemma after_after [simp]: "after (after s n xs) k ys = after s (n + k) ys"
  by (simp add: after_def)

lemma after_zero: "gives s [] rest \<Longrightarrow> after s 0 rest = s"
  by (simp add: after_def gives_def)

lemma left_after: "n \<le> unat (bytes_left s) \<Longrightarrow> unat (bytes_left (after s n rest)) = unat (bytes_left s) - n"
  using unat_less [of "bytes_left s"] by (simp add: unat_sub_if' unat_of_nat_small word_le_nat_alt)

lemma gives_append:
  "gives s (xs @ ys) rest \<longleftrightarrow> gives s xs (ys @ rest) \<and> gives (after s (length xs) (ys @ rest)) ys rest"
  using left_after [of "length xs" s "ys @ rest"] by (auto simp: gives_def)

lemma gives_Cons:
  "gives s (b # bs) rest \<longleftrightarrow> gives s [b] (bs @ rest) \<and> gives (after s 1 (bs @ rest)) bs rest"
  using gives_append [of s "[b]" bs rest] by simp

lemma gives_left: "gives s bs rest \<Longrightarrow> bytes_left s = 0 \<Longrightarrow> bs = []"
  by (simp add: gives_def)

lemma readbyte_gives: "gives s [b] rest \<Longrightarrow> pb_readbyte s = Some (Some b, after s 1 rest)"
  by (auto simp: gives_def pb_readbyte_def after_def)

lemma read_gives:
  assumes "gives s bs rest"
  shows "pb_read s (of_nat (length bs)) = Some (Some bs, after s (length bs) rest)"
proof (cases "bs = []")
  case True
  with assms show ?thesis by (simp add: pb_read_def raw_read_def after_zero)
next
  case False
  have n: "unat (of_nat (length bs) :: u64) = length bs"
    using assms unat_less [of "bytes_left s"] by (intro unat_of_nat_small) (simp add: gives_def)
  then have "(of_nat (length bs) :: u64) \<noteq> 0" using False by (metis length_0_conv unat_0)
  with assms n show ?thesis
    by (auto simp: pb_read_def raw_read_def gives_def after_def word_less_nat_alt Let_def)
qed

lemma read_null_gives:
  assumes "gives s bs rest"
  shows "pb_read_null s (of_nat (length bs)) = Some (Some (), after s (length bs) rest)"
proof -
  have "source s = Buffer (bs @ rest)" using assms by (simp add: gives_def)
  moreover have "after s (length bs) rest = s" if "(of_nat (length bs) :: u64) = 0"
  proof -
    have "unat (of_nat (length bs) :: u64) = length bs"
      using assms unat_less [of "bytes_left s"] by (intro unat_of_nat_small) (simp add: gives_def)
    with that assms show ?thesis by (simp add: after_def gives_def)
  qed
  ultimately show ?thesis using read_gives [OF assms] by (simp add: pb_read_null_def read_then_def)
qed

section \<open>Variable-length integers\<close>

lemma leb_step:
  fixes k v :: nat
  assumes "\<not> v < 128" "k < 2 ^ s" "k + v * 2 ^ s < 2 ^ N"
  shows "k + v * 2 ^ s = (k + v mod 128 * 2 ^ s) + v div 128 * 2 ^ (s + 7)"
    "s + 7 < N" "k + v mod 128 * 2 ^ s < 2 ^ (s + 7)"
proof -
  have "v * 2 ^ s = (v mod 128 + 128 * (v div 128)) * 2 ^ s" by simp
  then show split: "k + v * 2 ^ s = (k + v mod 128 * 2 ^ s) + v div 128 * 2 ^ (s + 7)"
    by (simp only: power_add add_mult_distrib) simp
  have "v div 128 * 2 ^ (s + 7) < 2 ^ N" using split assms(3) by linarith
  moreover have "1 \<le> v div 128" using assms(1) by arith
  ultimately have "2 ^ (s + 7) < (2::nat) ^ N" by (metis le_less_trans mult.commute mult.right_neutral mult_le_mono2)
  then show "s + 7 < N" by (simp only: power_strict_increasing_iff)
  have "v mod 128 * 2 ^ s \<le> 127 * 2 ^ s" by (rule mult_le_mono1) simp
  moreover have "2 ^ (s + 7) = 128 * (2::nat) ^ s" by (simp add: power_add)
  ultimately show "k + v mod 128 * 2 ^ s < 2 ^ (s + 7)" using assms(2) by linarith
qed

lemma varint_digit:
  assumes "k < 2 ^ s" "unat (byte :: u8) mod 128 = d"
  shows "(of_nat k OR push_bit s (ucast (byte AND 0x7F)) :: 'a::len word) = of_nat (k + d * 2 ^ s)"
proof -
  have "(ucast (byte AND 0x7F) :: 'a word) = of_nat d"
    by (rule ucast_eq_of_nat) (use assms(2) and_7f [of byte] in \<open>simp add: and.commute\<close>)
  then have "push_bit s (ucast (byte AND 0x7F) :: 'a word) = of_nat (d * 2 ^ s)" by (simp add: push_bit_eq_mult)
  with word_or_of_nat [OF assms(1), of d] show ?thesis by simp
qed

lemma leb_byte:
  "v < 128 \<Longrightarrow> unat (of_nat v :: u8) = v \<and> of_nat v AND (0x80 :: u8) = 0"
  "unat (of_nat (128 + v mod 128) :: u8) = 128 + v mod 128 \<and> of_nat (128 + v mod 128) AND (0x80 :: u8) \<noteq> 0"
proof -
  show "unat (of_nat v :: u8) = v \<and> of_nat v AND (0x80 :: u8) = 0" if "v < 128"
    using that byte_of_nat [of v] and_80 [of "of_nat v"] by (simp add: and.commute)
  have b: "unat (of_nat (128 + v mod 128) :: u8) = 128 + v mod 128" by (intro byte_of_nat) simp
  with and_80 [of "of_nat (128 + v mod 128)"]
  show "unat (of_nat (128 + v mod 128) :: u8) = 128 + v mod 128 \<and> of_nat (128 + v mod 128) AND (0x80 :: u8) \<noteq> 0"
    by (simp add: and.commute)
qed

lemma uleb_small: "v < 128 \<Longrightarrow> uleb128_encode v = [of_nat v]"
  and uleb_large: "\<not> v < 128 \<Longrightarrow> uleb128_encode v = of_nat (128 + v mod 128) # uleb128_encode (v div 128)"
  by (simp_all add: uleb128_encode.simps [of v])

lemma varint64_loop_gives:
  "gives st (uleb128_encode v) rest \<Longrightarrow> k < 2 ^ s \<Longrightarrow> s < 64 \<Longrightarrow> k + v * 2 ^ s < 2 ^ 64 \<Longrightarrow>
   varint64_loop st (of_nat k) (of_nat s) =
     Some (Some (of_nat (k + v * 2 ^ s)), after st (length (uleb128_encode v)) rest)"
proof (induction v arbitrary: st k s rule: uleb128_encode.induct)
  case (1 v)
  have s: "unat (of_nat s :: u8) = s" "\<not> (of_nat s :: u8) \<ge> 64"
    using "1.prems"(3) by (simp_all add: byte_of_nat word_le_nat_alt)
  show ?case
  proof (cases "v < 128")
    case True
    then have "gives st [of_nat v] rest" using "1.prems"(1) by (simp add: uleb_small)
    from readbyte_gives [OF this] show ?thesis
      using True s leb_byte(1) [OF True] varint_digit [OF "1.prems"(2), of "of_nat v" v]
      by (subst varint64_loop.simps) (simp add: uleb_small Let_def)
  next
    case False
    let ?d = "v mod 128" and ?rest = "uleb128_encode (v div 128) @ rest"
    note step = leb_step [OF False "1.prems"(2,4)]
    have g: "gives st [of_nat (128 + ?d)] ?rest" "gives (after st 1 ?rest) (uleb128_encode (v div 128)) rest"
      using "1.prems"(1) gives_Cons [of st _ "uleb128_encode (v div 128)"] False by (simp_all add: uleb_large)
    have digit: "(of_nat k OR push_bit s (ucast (of_nat (128 + ?d) AND 0x7F :: u8)) :: u64) = of_nat (k + ?d * 2 ^ s)"
      using "1.prems"(2) leb_byte(2) [of v] by (intro varint_digit) simp_all
    have "varint64_loop (after st 1 ?rest) (of_nat (k + ?d * 2 ^ s)) (of_nat (s + 7)) =
        Some (Some (of_nat (k + ?d * 2 ^ s + v div 128 * 2 ^ (s + 7))),
          after (after st 1 ?rest) (length (uleb128_encode (v div 128))) rest)"
      using g step "1.prems"(4) by (intro "1.IH" [OF False]) simp_all
    then have IH: "varint64_loop (after st 1 ?rest) (of_nat (k + ?d * 2 ^ s)) (of_nat s + 7) =
        Some (Some (of_nat (k + v * 2 ^ s)), after st (length (uleb128_encode v)) rest)"
      unfolding step(1) using False by (simp add: uleb_large)
    show ?thesis
      by (subst varint64_loop.simps)
        (simp only: s readbyte_gives [OF g(1)] option.case prod.case if_False Let_def digit leb_byte(2) [of v]
          simp_thms if_True IH)
  qed
qed

lemma decode_varint_gives:
  "gives s (uleb128_encode (unat v)) rest \<Longrightarrow>
   pb_decode_varint s = Some (Some v, after s (length (uleb128_encode (unat v))) rest)"
  using varint64_loop_gives [of s "unat v" rest 0 0] unat_less [of v] by (simp add: pb_decode_varint_def)

lemma low_nibble: "v < 16 \<Longrightarrow> (of_nat v AND 0x70 :: u8) = 0"
proof -
  assume v: "v < 16"
  have "of_nat v AND 0x70 = take_bit 4 (of_nat v) AND (0x70 :: u8)"
    using v by (simp add: take_bit_of_nat_small)
  also have "\<dots> = of_nat v AND take_bit 4 0x70" by (simp only: take_bit_eq_mask and.assoc and.commute)
  finally show ?thesis by simp
qed

lemma varint32_loop_gives:
  "gives st (uleb128_encode v) rest \<Longrightarrow> k < 2 ^ s \<Longrightarrow> s < 32 \<Longrightarrow> k + v * 2 ^ s < 2 ^ 32 \<Longrightarrow>
   \<exists>bitpos byte. varint32_loop st (of_nat k) (of_nat s) =
     Some (Some (of_nat (k + v * 2 ^ s), bitpos, byte), after st (length (uleb128_encode v)) rest) \<and>
     (bitpos = 35 \<longrightarrow> byte AND 0x70 = 0)"
proof (induction v arbitrary: st k s rule: uleb128_encode.induct)
  case (1 v)
  have s: "unat (of_nat s :: u8) = s" "\<not> (of_nat s :: u8) \<ge> 32"
    using "1.prems"(3) by (simp_all add: byte_of_nat word_le_nat_alt)
  show ?case
  proof (cases "v < 128")
    case True
    then have "gives st [of_nat v] rest" using "1.prems"(1) by (simp add: uleb_small)
    from readbyte_gives [OF this] have "varint32_loop st (of_nat k) (of_nat s) =
        Some (Some (of_nat (k + v * 2 ^ s), of_nat s + 7, of_nat v), after st 1 rest)"
      using True s leb_byte(1) [OF True] varint_digit [OF "1.prems"(2), of "of_nat v" v]
      by (subst varint32_loop.simps) (simp add: Let_def)
    moreover have "of_nat v AND (0x70 :: u8) = 0" if b: "of_nat s + 7 = (35 :: u8)"
    proof -
      have "s + 7 = 35" using b "1.prems"(3) byte_of_nat [of "s + 7"] by simp
      then have "s = 28" by simp
      with "1.prems"(4) have "v < 16" by simp
      then show ?thesis by (rule low_nibble)
    qed
    ultimately show ?thesis using True by (auto simp: uleb_small)
  next
    case False
    let ?d = "v mod 128" and ?rest = "uleb128_encode (v div 128) @ rest"
    note step = leb_step [OF False "1.prems"(2,4)]
    have g: "gives st [of_nat (128 + ?d)] ?rest" "gives (after st 1 ?rest) (uleb128_encode (v div 128)) rest"
      using "1.prems"(1) gives_Cons [of st _ "uleb128_encode (v div 128)"] False by (simp_all add: uleb_large)
    have digit: "(of_nat k OR push_bit s (ucast (of_nat (128 + ?d) AND 0x7F :: u8)) :: u32) = of_nat (k + ?d * 2 ^ s)"
      using "1.prems"(2) leb_byte(2) [of v] by (intro varint_digit) simp_all
    have "\<exists>bitpos byte. varint32_loop (after st 1 ?rest) (of_nat (k + ?d * 2 ^ s)) (of_nat (s + 7)) =
        Some (Some (of_nat (k + ?d * 2 ^ s + v div 128 * 2 ^ (s + 7)), bitpos, byte),
          after (after st 1 ?rest) (length (uleb128_encode (v div 128))) rest) \<and> (bitpos = 35 \<longrightarrow> byte AND 0x70 = 0)"
      using g step "1.prems"(4) by (intro "1.IH" [OF False]) simp_all
    then obtain bitpos byte where IH: "varint32_loop (after st 1 ?rest) (of_nat (k + ?d * 2 ^ s)) (of_nat s + 7) =
        Some (Some (of_nat (k + v * 2 ^ s), bitpos, byte), after st (length (uleb128_encode v)) rest)"
      "bitpos = 35 \<longrightarrow> byte AND 0x70 = 0"
      unfolding step(1) using False by (auto simp: uleb_large)
    have "varint32_loop st (of_nat k) (of_nat s) = varint32_loop (after st 1 ?rest) (of_nat (k + ?d * 2 ^ s)) (of_nat s + 7)"
      by (subst varint32_loop.simps)
        (simp only: s readbyte_gives [OF g(1)] option.case prod.case if_False Let_def digit leb_byte(2) [of v]
          simp_thms if_True)
    with IH show ?thesis by auto
  qed
qed

lemma decode_varint32_eof_gives:
  assumes "gives s (uleb128_encode v) rest" "v < 2 ^ 32"
  shows "pb_decode_varint32_eof s = Some (Some (of_nat v), False, after s (length (uleb128_encode v)) rest)"
proof (cases "v < 128")
  case True
  then have "gives s [of_nat v] rest" using assms(1) by (simp add: uleb_small)
  moreover have "(ucast (of_nat v :: u8) :: u32) = of_nat v" using True by (intro ucast_of_nat_small) simp
  ultimately show ?thesis
    using readbyte_gives [of s "of_nat v" rest] True leb_byte(1) [OF True]
    by (simp add: pb_decode_varint32_eof_def uleb_small)
next
  case False
  let ?rest = "uleb128_encode (v div 128) @ rest"
  define c :: u8 where "c = of_nat (128 + v mod 128)"
  have c: "unat c = 128 + v mod 128" "c AND 0x80 \<noteq> 0" using leb_byte(2) [of v] unfolding c_def by blast+
  have enc: "uleb128_encode v = c # uleb128_encode (v div 128)" unfolding c_def using False by (rule uleb_large)
  have g: "gives s [c] ?rest" "gives (after s 1 ?rest) (uleb128_encode (v div 128)) rest"
    using assms(1) gives_Cons [of s c "uleb128_encode (v div 128)"] by (simp_all add: enc)
  have digit: "(ucast (c AND 0x7F) :: u32) = of_nat (v mod 128)"
    using varint_digit [of 0 0 c "v mod 128", where 'a = 32] c(1) by simp
  have v: "v mod 128 + v div 128 * 2 ^ 7 = v" by simp
  obtain bitpos byte where l: "varint32_loop (after s 1 ?rest) (of_nat (v mod 128)) (of_nat 7) =
      Some (Some (of_nat v, bitpos, byte), after (after s 1 ?rest) (length (uleb128_encode (v div 128))) rest)"
      "bitpos = 35 \<longrightarrow> byte AND 0x70 = 0"
    using varint32_loop_gives [OF g(2), of "v mod 128" 7] assms(2) unfolding v by auto
  then show ?thesis
    unfolding pb_decode_varint32_eof_def readbyte_gives [OF g(1)] using c(2) by (auto simp: digit enc)
qed

lemma decode_varint32_gives:
  "gives s (uleb128_encode v) rest \<Longrightarrow> v < 2 ^ 32 \<Longrightarrow>
   pb_decode_varint32 s = Some (Some (of_nat v), after s (length (uleb128_encode v)) rest)"
  using decode_varint32_eof_gives [of s v rest] by (simp add: pb_decode_varint32_def)

section \<open>Tags and skipping\<close>

text \<open>A field number the wire format allows: a tag is a 32-bit number with the wire type in its three
  lowest bits, and not 0.\<close>

definition field_number :: "u32 \<Rightarrow> bool" where
  "field_number t \<longleftrightarrow> t \<noteq> 0 \<and> unat t < 2 ^ 29"

lemma decode_tag_gives:
  assumes "gives s (record_tag t wt) rest" "field_number t" "wt < 8"
  shows "pb_decode_tag s = Some (Some (t, of_nat wt), False, after s (length (record_tag t wt)) rest)"
proof -
  define n where "n = 8 * unat t + wt"
  have n: "n < 2 ^ 32" "n div 8 = unat t" "n mod 8 = wt" "n \<noteq> 0"
    using assms(2,3) by (auto simp: field_number_def n_def unat_eq_zero)
  then have u: "unat (of_nat n :: u32) = n" by (intro unat_of_nat_small) simp
  then have "(of_nat n :: u32) \<noteq> 0" using n(4) by (metis unat_0)
  moreover have "drop_bit 3 (of_nat n :: u32) = t"
  proof -
    have "unat (drop_bit 3 (of_nat n :: u32)) = unat t"
      using u n(2) by (simp add: drop_bit_eq_div unat_div_distrib)
    then show ?thesis by (rule unsigned_word_eqI)
  qed
  moreover have "(ucast (of_nat n AND 7 :: u32) :: u64) = of_nat wt"
  proof (rule ucast_eq_of_nat)
    have "of_nat n AND 7 = take_bit 3 (of_nat n :: u32)" by (simp add: take_bit_eq_mask mask_eq_exp_minus_1)
    then have "unat (of_nat n AND 7 :: u32) = take_bit 3 n" by (simp only: unsigned_take_bit_eq u)
    then show "unat (of_nat n AND 7 :: u32) = wt" using n(3) by (simp add: take_bit_eq_mod)
  qed
  ultimately show ?thesis
    using decode_varint32_eof_gives [of s n rest] assms(1) n(1) by (simp add: pb_decode_tag_def record_tag_def flip: n_def)
qed

fun wire_ok :: "wire \<Rightarrow> bool" where
  "wire_ok (Length bs) \<longleftrightarrow> length bs < 2 ^ 32"
| "wire_ok _ \<longleftrightarrow> True"

lemma skip_varint_gives:
  "gives s (uleb128_encode v) rest \<Longrightarrow> pb_skip_varint s = Some (Some (), after s (length (uleb128_encode v)) rest)"
proof (induction v arbitrary: s rule: uleb128_encode.induct)
  case (1 v)
  show ?case
  proof (cases "v < 128")
    case True
    then have "gives s [of_nat v] rest" using "1.prems" by (simp add: uleb_small)
    from read_gives [OF this] show ?thesis
      using True leb_byte(1) [OF True] by (subst pb_skip_varint.simps) (simp add: uleb_small)
  next
    case False
    define c :: u8 where "c = of_nat (128 + v mod 128)"
    have c: "c AND 0x80 \<noteq> 0" using leb_byte(2) [of v] unfolding c_def by blast
    have enc: "uleb128_encode v = c # uleb128_encode (v div 128)" unfolding c_def using False by (rule uleb_large)
    have g: "gives s [c] (uleb128_encode (v div 128) @ rest)"
      "gives (after s 1 (uleb128_encode (v div 128) @ rest)) (uleb128_encode (v div 128)) rest"
      using "1.prems" gives_Cons [of s c "uleb128_encode (v div 128)"] by (simp_all add: enc)
    from read_gives [OF g(1)] show ?thesis
      using c "1.IH" [OF False g(2)] by (subst pb_skip_varint.simps) (simp add: enc)
  qed
qed

lemma fixed_payload_length [simp]: "length (le_bytes n v) = n"
  by (rule length_le_bytes)

text \<open>Skipping a field skips its payload.\<close>

lemma skip_field_gives:
  assumes g: "gives s (payload w) rest" and ok: "wire_ok w"
  shows "pb_skip_field s (of_nat (wire_type w)) = Some (Some (), after s (length (payload w)) rest)"
proof (cases w)
  case (Varint v)
  then show ?thesis using skip_varint_gives [of s "unat v" rest] g by (simp add: pb_skip_field_def PB_WT_VARINT_def)
next
  case (Fixed64 v)
  then show ?thesis using read_null_gives [OF g]
    by (simp add: pb_skip_field_def PB_WT_VARINT_def PB_WT_64BIT_def)
next
  case (Fixed32 v)
  then show ?thesis using read_null_gives [OF g]
    by (simp add: pb_skip_field_def PB_WT_VARINT_def PB_WT_64BIT_def PB_WT_STRING_def PB_WT_32BIT_def)
next
  case (Length bs)
  then have g: "gives s (uleb128_encode (length bs)) (bs @ rest)"
    "gives (after s (length (uleb128_encode (length bs))) (bs @ rest)) bs rest"
    using g gives_append [of s "uleb128_encode (length bs)" bs rest] by simp_all
  have n: "(ucast (of_nat (length bs) :: u32) :: u64) = of_nat (length bs)"
    using Length ok by (intro ucast_of_nat_small) simp
  show ?thesis
    using decode_varint32_gives [OF g(1)] read_null_gives [OF g(2)] Length ok
    by (simp add: pb_skip_field_def pb_skip_string_def read_then_def n PB_WT_VARINT_def PB_WT_64BIT_def PB_WT_STRING_def)
qed

section \<open>Substreams\<close>

text \<open>A length and what it delimits: decoding it in a substream takes both from the stream.\<close>

lemma delimited_gives:
  assumes g: "gives s (uleb128_encode (length bs) @ bs) rest" and l: "length bs < 2 ^ 32"
    and dec: "\<And>sub. source sub = Buffer (bs @ rest) \<Longrightarrow> bytes_left sub = of_nat (length bs) \<Longrightarrow> ierrmsg sub = ierrmsg s \<Longrightarrow>
      decode sub fs p w = Some (True, after sub (length bs) rest, w')"
  shows "decode_delimited decode s fs p w = Some (True, after s (length (uleb128_encode (length bs) @ bs)) rest, w')"
proof -
  let ?k = "length (uleb128_encode (length bs))" and ?n = "of_nat (length bs) :: u64"
  have g1: "gives s (uleb128_encode (length bs)) (bs @ rest)" and g2: "gives (after s ?k (bs @ rest)) bs rest"
    using g gives_append [of s "uleb128_encode (length bs)" bs rest] by simp_all
  have n: "(ucast (of_nat (length bs) :: u32) :: u64) = ?n" using l by (intro ucast_of_nat_small) simp
  have u: "unat ?n = length bs" using l by (intro unat_of_nat_small) simp
  let ?sub = "(after s ?k (bs @ rest))\<lparr>bytes_left := ?n\<rparr>"
  let ?rest = "(after s ?k (bs @ rest))\<lparr>bytes_left := bytes_left s - of_nat ?k - ?n\<rparr>"
  have "\<not> bytes_left (after s ?k (bs @ rest)) < ?n"
    using g2 u by (simp add: gives_def word_less_nat_alt)
  then have sub: "pb_make_string_substream s = Some (Some ?sub, ?rest)"
    using decode_varint32_gives [OF g1 l] by (simp add: pb_make_string_substream_def read_then_def n)
  have "decode ?sub fs p w = Some (True, after ?sub (length bs) rest, w')" by (rule dec) simp_all
  moreover have "pb_close_string_substream ?rest (after ?sub (length bs) rest) = Some (Some (), after s (?k + length bs) rest)"
    by (simp add: pb_close_string_substream_def after_def)
  ultimately show ?thesis by (simp add: decode_delimited_def decode_then_def sub)
qed

section \<open>What a message does to memory\<close>

text \<open>A message as a tree: the records of submessages are known, not only their bytes.\<close>

datatype value_tree =
  VarintValue u64 | Fixed64Value u64 | BytesValue "u8 list" | Fixed32Value u32
| MessageValue "(u32 \<times> value_tree) list"

fun wire_of :: "value_tree \<Rightarrow> wire" where
  "wire_of (VarintValue v) = Varint v"
| "wire_of (Fixed64Value v) = Fixed64 v"
| "wire_of (BytesValue bs) = Length bs"
| "wire_of (Fixed32Value v) = Fixed32 v"
| "wire_of (MessageValue rs) = Length (wire_encode (map (map_prod id wire_of) rs))"

definition tree_encode :: "(u32 \<times> value_tree) list \<Rightarrow> u8 list" where
  "tree_encode rs = wire_encode (map (map_prod id wire_of) rs)"

text \<open>Field numbers are in range and lengths fit the 32 bits the decoder has for them.\<close>

fun value_ok :: "value_tree \<Rightarrow> bool" where
  "value_ok (BytesValue bs) \<longleftrightarrow> length bs < 2 ^ 32"
| "value_ok (MessageValue rs) \<longleftrightarrow>
     (\<forall>(t, v) \<in> set rs. field_number t \<and> value_ok v) \<and> length (wire_encode (map (map_prod id wire_of) rs)) < 2 ^ 32"
| "value_ok _ \<longleftrightarrow> True"

definition records_ok :: "(u32 \<times> value_tree) list \<Rightarrow> bool" where
  "records_ok rs \<longleftrightarrow> (\<forall>(t, v) \<in> set rs. field_number t \<and> value_ok v)"

lemma wire_ok_of: "value_ok v \<Longrightarrow> wire_ok (wire_of v)"
  by (cases v) simp_all

lemma tree_encode_simps [simp]:
  "tree_encode [] = []"
  "tree_encode ((t, v) # rs) = record_tag t (wire_type (wire_of v)) @ payload (wire_of v) @ tree_encode rs"
  by (simp_all add: tree_encode_def encode_record_def)

text \<open>The value of a number, as it is stored; \<open>None\<close> where the code reports that it is too large.\<close>

definition unzigzag :: "u64 \<Rightarrow> u64" where
  "unzigzag v = (if v AND 1 \<noteq> 0 then NOT (drop_bit 1 v) else drop_bit 1 v)"

definition apply_number :: "pb_field \<Rightarrow> addr \<Rightarrow> u64 \<Rightarrow> 'h world \<Rightarrow> 'h world option" where
  "apply_number f p v w =
     (let n = data_size f; l = PB_LTYPE (ftype f);
          signed = (if l = PB_LTYPE_SVARINT then unzigzag v else if n = 8 then v else scast (ucast v :: u32))
      in if l = PB_LTYPE_BOOL
         then (if unat v < 2 ^ 32 then update_mem w (\<lambda>m. store8 m p (if v \<noteq> 0 then 1 else 0)) else None)
         else if l = PB_LTYPE_VARINT \<or> l = PB_LTYPE_SVARINT
         then (if clamp_signed n signed = Some signed
               then update_mem w (\<lambda>m. store_bytes m p (le_bytes (unat n) (unat signed))) else None)
         else if l = PB_LTYPE_UVARINT
         then (if clamp_unsigned n v = Some v
               then update_mem w (\<lambda>m. store_bytes m p (le_bytes (unat n) (unat v))) else None)
         else None)"

text \<open>New storage for a pointer field at \<open>p\<close>, and where it is.\<close>

definition apply_allocate :: "('s, 'h) pb_denv \<Rightarrow> addr \<Rightarrow> nat \<Rightarrow> 'h world \<Rightarrow> (addr \<times> 'h world) option" where
  "apply_allocate E p n w =
     do { old \<leftarrow> load64 (wmem w) p;
          (q, w) \<leftarrow> pb_realloc E w old (of_nat n);
          w \<leftarrow> (if q = 0 then None else update_mem w (\<lambda>m. store64 m p q));
          q \<leftarrow> load64 (wmem w) p;
          Some (q, w) }"

definition apply_bytes :: "('s, 'h) pb_denv \<Rightarrow> pb_field \<Rightarrow> addr \<Rightarrow> u8 list \<Rightarrow> 'h world \<Rightarrow> 'h world option" where
  "apply_bytes E f p bs w =
     (if PB_LTYPE (ftype f) = PB_LTYPE_BYTES then do {
        (q, w) \<leftarrow> (if PB_ATYPE (ftype f) = PB_ATYPE_POINTER then apply_allocate E p (length bs + 4) w
                   else if length bs + 4 > unat (data_size f) then None else Some (p, w));
        w \<leftarrow> update_mem w (\<lambda>m. store32 m q (of_nat (length bs)));
        if q + 4 = 0 then None else update_mem w (\<lambda>m. store_bytes m (q + 4) bs) }
      else if PB_LTYPE (ftype f) = PB_LTYPE_STRING then do {
        (q, w) \<leftarrow> (if PB_ATYPE (ftype f) = PB_ATYPE_POINTER
                   then if length bs + 1 < 2 ^ 32 then apply_allocate E p (length bs + 1) w else None
                   else if length bs + 1 > unat (data_size f) then None else Some (p, w));
        w \<leftarrow> (if q = 0 then None else update_mem w (\<lambda>m. store_bytes m q bs));
        update_mem w (\<lambda>m. store8 m (q + of_nat (length bs)) 0) }
      else None)"

text \<open>The value of a field; \<open>sub\<close> does what the records of a submessage do.\<close>

definition apply_value ::
    "('s, 'h) pb_denv \<Rightarrow> (nat \<Rightarrow> (u32 \<times> value_tree) list \<Rightarrow> addr \<Rightarrow> 'h world \<Rightarrow> 'h world option) \<Rightarrow>
       pb_field \<Rightarrow> addr \<Rightarrow> value_tree \<Rightarrow> 'h world \<Rightarrow> 'h world option" where
  "apply_value E sub f p v w =
     (case v of
        VarintValue n \<Rightarrow> apply_number f p n w
      | Fixed32Value n \<Rightarrow>
          if PB_LTYPE (ftype f) = PB_LTYPE_FIXED32 then update_mem w (\<lambda>m. store32 m p n) else None
      | Fixed64Value n \<Rightarrow>
          if PB_LTYPE (ftype f) = PB_LTYPE_FIXED64 then update_mem w (\<lambda>m. store64 m p n) else None
      | BytesValue bs \<Rightarrow> apply_bytes E f p bs w
      | MessageValue rs \<Rightarrow>
          if PB_LTYPE (ftype f) = PB_LTYPE_SUBMESSAGE
          then (case ptr f of Submessage i \<Rightarrow> sub i rs p w | _ \<Rightarrow> None) else None)"

text \<open>Another entry at the end of an array behind a pointer: storage for one more, the entry initialised and
  given its value. The entry of an array of messages is initialised once more by \<open>pb_decode\<close>.\<close>

definition apply_append ::
    "('s, 'h) pb_denv \<Rightarrow> (pb_fields \<Rightarrow> addr \<Rightarrow> 'h world \<Rightarrow> 'h world option) \<Rightarrow>
       (nat \<Rightarrow> (u32 \<times> value_tree) list \<Rightarrow> addr \<Rightarrow> 'h world \<Rightarrow> 'h world option) \<Rightarrow>
       pb_field \<Rightarrow> addr \<Rightarrow> value_tree \<Rightarrow> 'h world \<Rightarrow> 'h world option" where
  "apply_append E defaults sub f p v w =
     do { n \<leftarrow> load32 (wmem w) (field_pSize f p);
          (q, w) \<leftarrow> (if n = PB_SIZE_MAX \<or> data_size f = 0 then None
                    else apply_allocate E p (unat (n + 1) * unat (data_size f)) w);
          n \<leftarrow> load32 (wmem w) (field_pSize f p);
          let item = q + ucast (data_size f * n);
          w \<leftarrow> update_mem w (\<lambda>m. store32 m (field_pSize f p) (n + 1));
          w \<leftarrow> initialize_pointer_field E defaults item f w;
          apply_value E (\<lambda>i rs q w. do { w \<leftarrow> defaults (dmessages E i) q w; sub i rs q w }) f item v w }"

text \<open>A member of a union, where the union holds nothing or the same member.\<close>

definition apply_oneof ::
    "('s, 'h) pb_denv \<Rightarrow> (pb_fields \<Rightarrow> addr \<Rightarrow> 'h world \<Rightarrow> 'h world option) \<Rightarrow>
       (nat \<Rightarrow> (u32 \<times> value_tree) list \<Rightarrow> addr \<Rightarrow> 'h world \<Rightarrow> 'h world option) \<Rightarrow>
       pb_field \<Rightarrow> addr \<Rightarrow> value_tree \<Rightarrow> 'h world \<Rightarrow> 'h world option" where
  "apply_oneof E defaults sub f p v w =
     do { old \<leftarrow> load32 (wmem w) (field_pSize f p);
          w \<leftarrow> (if old = 0 \<or> old = tag f then update_mem w (\<lambda>m. store32 m (field_pSize f p) (tag f)) else None);
          w \<leftarrow> (if PB_ATYPE (ftype f) = PB_ATYPE_STATIC \<and> PB_LTYPE (ftype f) = PB_LTYPE_SUBMESSAGE
                 then do { w \<leftarrow> memset_zero w p (data_size f);
                           case ptr f of Submessage i \<Rightarrow> defaults (dmessages E i) p w | _ \<Rightarrow> None }
                 else Some w);
          apply_value E sub f p v w }"

text \<open>The fields covered: optional ones and members of unions, in the structure, or bytes and strings behind a
  pointer; and arrays of bytes, strings, and messages behind a pointer.\<close>

definition covered :: "pb_field \<Rightarrow> bool" where
  "covered f \<longleftrightarrow>
     (PB_HTYPE (ftype f) = PB_HTYPE_OPTIONAL \<or> PB_HTYPE (ftype f) = PB_HTYPE_ONEOF) \<and>
       (PB_ATYPE (ftype f) = PB_ATYPE_STATIC \<or>
        PB_ATYPE (ftype f) = PB_ATYPE_POINTER \<and>
        (PB_LTYPE (ftype f) = PB_LTYPE_STRING \<or> PB_LTYPE (ftype f) = PB_LTYPE_BYTES)) \<or>
     PB_HTYPE (ftype f) = PB_HTYPE_REPEATED \<and> PB_ATYPE (ftype f) = PB_ATYPE_POINTER \<and>
       PB_LTYPE (ftype f) > PB_LTYPE_LAST_PACKABLE"

definition apply_field ::
    "('s, 'h) pb_denv \<Rightarrow> (pb_fields \<Rightarrow> addr \<Rightarrow> 'h world \<Rightarrow> 'h world option) \<Rightarrow>
       (nat \<Rightarrow> (u32 \<times> value_tree) list \<Rightarrow> addr \<Rightarrow> 'h world \<Rightarrow> 'h world option) \<Rightarrow>
       pb_field \<Rightarrow> addr \<Rightarrow> value_tree \<Rightarrow> 'h world \<Rightarrow> 'h world option" where
  "apply_field E defaults sub f p v w =
     (if \<not> covered f then None
      else if PB_HTYPE (ftype f) = PB_HTYPE_REPEATED
      then (if field_pSize f p = p then None else apply_append E defaults sub f p v w)
      else if PB_HTYPE (ftype f) = PB_HTYPE_ONEOF then apply_oneof E defaults sub f p v w
      else do {
        w \<leftarrow> (if PB_ATYPE (ftype f) = PB_ATYPE_STATIC \<and> field_pSize f p \<noteq> p
              then update_mem w (\<lambda>m. store8 m (field_pSize f p) 1) else Some w);
        apply_value E sub f p v w })"

text \<open>A record of a field that the table does not have changes nothing.\<close>

definition apply_record ::
    "('s, 'h) pb_denv \<Rightarrow> (pb_fields \<Rightarrow> addr \<Rightarrow> 'h world \<Rightarrow> 'h world option) \<Rightarrow>
       (nat \<Rightarrow> (u32 \<times> value_tree) list \<Rightarrow> addr \<Rightarrow> 'h world \<Rightarrow> 'h world option) \<Rightarrow>
       pb_fields \<Rightarrow> addr \<Rightarrow> (u32 \<times> value_tree) \<Rightarrow> 'h world \<Rightarrow> 'h world option" where
  "apply_record E defaults sub fs p = (\<lambda>(t, v) w.
     case find (\<lambda>(f, a). field_matches t f) (zip fs (field_addresses fs p)) of
       None \<Rightarrow> Some w
     | Some (f, a) \<Rightarrow> apply_field E defaults sub f a v w)"

fun apply_all :: "('a \<Rightarrow> 'w \<Rightarrow> 'w option) \<Rightarrow> 'a list \<Rightarrow> 'w \<Rightarrow> 'w option" where
  "apply_all f [] w = Some w"
| "apply_all f (x # xs) w = do { w \<leftarrow> f x w; apply_all f xs w }"

text \<open>The tables covered: those whose fields have numbers of their own, with no required field and no
  place for extensions.\<close>

definition table_ok :: "pb_fields \<Rightarrow> bool" where
  "table_ok fs \<longleftrightarrow> fs \<noteq> [] \<and> fields_ok fs \<and> distinct (map tag fs) \<and>
     (\<forall>f \<in> set fs. \<not> is_required f \<and> PB_LTYPE (ftype f) \<noteq> PB_LTYPE_EXTENSION)"

fun apply_message ::
    "nat \<Rightarrow> ('s, 'h) pb_denv \<Rightarrow> pb_fields \<Rightarrow> addr \<Rightarrow> (u32 \<times> value_tree) list \<Rightarrow> 'h world \<Rightarrow> 'h world option" where
  "apply_message 0 E fs p rs w = None"
| "apply_message (Suc d) E fs p rs w =
     (if table_ok fs then apply_all (apply_record E (pb_message_set_to_defaults d E)
        (\<lambda>i rs p w. apply_message d E (dmessages E i) p rs w) fs p) rs w
      else None)"

section \<open>Values\<close>

lemma or_byte:
  assumes "k < 256"
  shows "(push_bit s (of_nat k) OR of_nat (m * 2 ^ (s + 8)) :: 'a::len word) = of_nat ((k + 256 * m) * 2 ^ s)"
proof -
  have "(of_nat k OR of_nat (m * 2 ^ 8) :: 'a word) = of_nat (k + m * 2 ^ 8)"
    by (rule word_or_of_nat) (use assms in simp)
  moreover have "of_nat (m * 2 ^ (s + 8)) = push_bit s (of_nat (m * 2 ^ 8) :: 'a word)"
    by (simp add: push_bit_eq_mult power_add algebra_simps)
  ultimately have "(push_bit s (of_nat k) OR of_nat (m * 2 ^ (s + 8)) :: 'a word) = push_bit s (of_nat (k + m * 2 ^ 8))"
    by (simp only: flip: push_bit_or)
  then show ?thesis by (simp add: push_bit_eq_mult algebra_simps)
qed

lemma fixed32_value_le: "fixed32_value [a, b, c, d] = of_nat (le_nat [a, b, c, d])"
proof -
  have u: "(ucast x :: u32) = of_nat (unat x)" for x :: u8 by simp
  have "push_bit 24 (of_nat (unat d) :: u32) = of_nat (unat d * 2 ^ (16 + 8))" by (simp add: push_bit_eq_mult)
  then show ?thesis
    using or_byte [of "unat c" 16 "unat d", where 'a = 32] or_byte [of "unat b" 8 "unat c + 256 * unat d", where 'a = 32]
      or_byte [of "unat a" 0 "unat b + 256 * (unat c + 256 * unat d)", where 'a = 32]
      unat_less [of a] unat_less [of b] unat_less [of c]
    unfolding fixed32_value_def u by (simp del: of_nat_add of_nat_mult)
qed

lemma fixed64_value_le: "fixed64_value [a, b, c, d, e, f, g, h] = of_nat (le_nat [a, b, c, d, e, f, g, h])"
proof -
  have u: "(ucast x :: u64) = of_nat (unat x)" for x :: u8 by simp
  have "push_bit 56 (of_nat (unat h) :: u64) = of_nat (unat h * 2 ^ (48 + 8))" by (simp add: push_bit_eq_mult)
  then show ?thesis
    using or_byte [of "unat g" 48 "unat h", where 'a = 64]
      or_byte [of "unat f" 40 "unat g + 256 * unat h", where 'a = 64]
      or_byte [of "unat e" 32 "unat f + 256 * (unat g + 256 * unat h)", where 'a = 64]
      or_byte [of "unat d" 24 "unat e + 256 * (unat f + 256 * (unat g + 256 * unat h))", where 'a = 64]
      or_byte [of "unat c" 16 "unat d + 256 * (unat e + 256 * (unat f + 256 * (unat g + 256 * unat h)))", where 'a = 64]
      or_byte [of "unat b" 8 "unat c + 256 * (unat d + 256 * (unat e + 256 * (unat f + 256 * (unat g + 256 * unat h))))", where 'a = 64]
      or_byte [of "unat a" 0 "unat b + 256 * (unat c + 256 * (unat d + 256 * (unat e + 256 * (unat f + 256 * (unat g + 256 * unat h)))))", where 'a = 64]
      unat_less [of a] unat_less [of b] unat_less [of c] unat_less [of d] unat_less [of e] unat_less [of f] unat_less [of g]
    unfolding fixed64_value_def u by (simp del: of_nat_add of_nat_mult)
qed

lemma fixed_value_bytes:
  "fixed32_value (le_bytes 4 (unat v)) = v" "fixed64_value (le_bytes 8 (unat w)) = w"
proof -
  obtain a b c d where l: "le_bytes 4 (unat v) = [a, b, c, d]" by (simp add: le_bytes_numeral)
  have "le_nat (le_bytes 4 (unat v)) = unat v" using unat_less [of v] by (simp add: le_nat_le_bytes)
  then show "fixed32_value (le_bytes 4 (unat v)) = v" unfolding l fixed32_value_le by (simp del: le_nat.simps)
  obtain a b c d e f g h where l: "le_bytes 8 (unat w) = [a, b, c, d, e, f, g, h]" by (simp add: le_bytes_numeral)
  have "le_nat (le_bytes 8 (unat w)) = unat w" using unat_less [of w] by (simp add: le_nat_le_bytes)
  then show "fixed64_value (le_bytes 8 (unat w)) = w" unfolding l fixed64_value_le by (simp del: le_nat.simps)
qed

lemma read_mem_gives:
  assumes "gives s bs rest" "buf \<noteq> 0" "update_mem w (\<lambda>m. store_bytes m buf bs) = Some w'"
  shows "pb_read_mem s w buf (of_nat (length bs)) = Some (True, after s (length bs) rest, w')"
proof -
  have "raw_read s (of_nat (length bs)) = Some (True, bs, after s (length bs) rest)"
    using read_gives [OF assms(1)] by (auto simp: pb_read_def bind_eq_Some_conv split: if_splits)
  with assms show ?thesis by (simp add: pb_read_mem_def)
qed

lemma decode_thenI: "r = Some (Some x, s') \<Longrightarrow> decode_then r w f = f x s'"
  by (simp add: decode_then_def)

lemma store_clampedI:
  "clamped = Some v \<Longrightarrow> update_mem w (\<lambda>m. store_bytes m p (le_bytes (unat n) (unat v))) = Some w' \<Longrightarrow>
   store_clamped s w p n v clamped = Some (True, s, w')"
  by (simp add: store_clamped_def)

lemma number_gives:
  assumes g: "gives s (uleb128_encode (unat v)) rest" and a: "apply_number f p v w = Some w'"
    and func: "PB_DECODERS E initialised noinit (PB_LTYPE (ftype f)) = Some func"
  shows "func s f p w = Some (True, after s (length (uleb128_encode (unat v))) rest, w')"
proof -
  let ?l = "PB_LTYPE (ftype f)" and ?n = "data_size f"
  note A = a [unfolded apply_number_def Let_def] and F = func [unfolded PB_DECODERS_def]
  note varint = decode_varint_gives [OF g]
  consider "?l = PB_LTYPE_BOOL" | "?l = PB_LTYPE_VARINT" | "?l = PB_LTYPE_SVARINT" | "?l = PB_LTYPE_UVARINT"
    using A by (auto split: if_splits)
  then show ?thesis
  proof cases
    case 1
    with A have l: "unat v < 2 ^ 32" "update_mem w (\<lambda>m. store8 m p (if v \<noteq> 0 then 1 else 0)) = Some w'"
      by (auto split: if_splits)
    have "unat (of_nat (unat v) :: u32) = unat v" using l(1) by (intro unat_of_nat_small) simp
    then have "(of_nat (unat v) :: u32) = 0 \<longleftrightarrow> v = 0" by (metis unat_eq_zero)
    with l decode_varint32_gives [OF g l(1)] 1 F show ?thesis by (auto simp: pb_dec_bool_def decode_then_def)
  next
    case 2
    let ?sv = "if ?n = 8 then v else scast (ucast v :: u32)"
    have f: "func = pb_dec_varint" using F 2 by (simp add: pb_ltypes)
    have "clamp_signed ?n ?sv = Some ?sv" "update_mem w (\<lambda>m. store_bytes m p (le_bytes (unat ?n) (unat ?sv))) = Some w'"
      using A 2 by (auto simp: pb_ltypes split: if_splits)
    from store_clampedI [OF this] show ?thesis
      unfolding f pb_dec_varint_def decode_thenI [OF varint] Let_def .
  next
    case 3
    have f: "func = pb_dec_svarint" using F 3 by (simp add: pb_ltypes)
    have sv: "pb_decode_svarint s = Some (Some (unzigzag v), after s (length (uleb128_encode (unat v))) rest)"
      unfolding pb_decode_svarint_def varint by (simp add: read_then_def unzigzag_def)
    have "clamp_signed ?n (unzigzag v) = Some (unzigzag v)"
      "update_mem w (\<lambda>m. store_bytes m p (le_bytes (unat ?n) (unat (unzigzag v)))) = Some w'"
      using A 3 by (auto simp: pb_ltypes split: if_splits)
    from store_clampedI [OF this] show ?thesis
      unfolding f pb_dec_svarint_def decode_thenI [OF sv] .
  next
    case 4
    have f: "func = pb_dec_uvarint" using F 4 by (simp add: pb_ltypes)
    have "clamp_unsigned ?n v = Some v" "update_mem w (\<lambda>m. store_bytes m p (le_bytes (unat ?n) (unat v))) = Some w'"
      using A 4 by (auto simp: pb_ltypes split: if_splits)
    from store_clampedI [OF this] show ?thesis
      unfolding f pb_dec_uvarint_def decode_thenI [OF varint] .
  qed
qed

lemma allocate_gives:
  assumes "apply_allocate E p n w = Some (q, w')" "0 < n" "n < 2 ^ 33"
  shows "allocate_field E s w p (of_nat n) 1 = Some (True, s, w')" "load64 (wmem w') p = Some q"
proof -
  have u: "unat (of_nat n :: u64) = n" using assms(3) by (intro unat_of_nat_small) simp
  then have nz: "(of_nat n :: u64) \<noteq> 0" using assms(2) by (metis unat_0 less_irrefl)
  obtain old r w1 where o: "load64 (wmem w) p = Some old" "pb_realloc E w old (of_nat n) = Some (r, w1)" "r \<noteq> 0"
    "update_mem w1 (\<lambda>m. store64 m p r) = Some w'" "load64 (wmem w') p = Some q"
    using assms(1) by (auto simp: apply_allocate_def bind_eq_Some_conv split: if_splits)
  then show "load64 (wmem w') p = Some q" by simp
  have "\<not> (- 1 :: u64) div 1 < of_nat n" by (simp add: word_order.extremum_strict)
  then show "allocate_field E s w p (of_nat n) 1 = Some (True, s, w')"
    using o nz by (simp add: allocate_field_def)
qed

lemma pb_dec_bytes_gives:
  assumes g: "gives s (uleb128_encode (length bs) @ bs) rest" and l: "length bs < 2 ^ 32"
    and a: "apply_bytes E f p bs w = Some w'" and t: "PB_LTYPE (ftype f) = PB_LTYPE_BYTES"
  shows "pb_dec_bytes E s f p w = Some (True, after s (length (uleb128_encode (length bs) @ bs)) rest, w')"
proof -
  let ?k = "length (uleb128_encode (length bs))"
  let ?n = "of_nat (length bs) :: u32"
  have g1: "gives s (uleb128_encode (length bs)) (bs @ rest)" and g2: "gives (after s ?k (bs @ rest)) bs rest"
    using g gives_append [of s "uleb128_encode (length bs)" bs rest] by simp_all
  have n: "(ucast ?n :: u64) = of_nat (length bs)" using l by (intro ucast_of_nat_small) simp
  have alloc: "PB_BYTES_ARRAY_T_ALLOCSIZE (of_nat (length bs)) = of_nat (length bs + 4)"
    by (simp add: PB_BYTES_ARRAY_T_ALLOCSIZE_def)
  have u4: "unat (of_nat (length bs + 4) :: u64) = length bs + 4" by (rule unat_of_nat_small) (use l in simp)
  have u0: "unat (of_nat (length bs) :: u64) = length bs" by (rule unat_of_nat_small) (use l in simp)
  note u = u4 u0
  have checks: "\<not> ?n > PB_SIZE_MAX" "\<not> (of_nat (length bs) :: u64) > of_nat (length bs + 4)"
    using unat_less [of ?n] by (simp_all only: PB_SIZE_MAX_def word_less_nat_alt u) simp_all
  obtain q w1 w2 where q: "(if PB_ATYPE (ftype f) = PB_ATYPE_POINTER then apply_allocate E p (length bs + 4) w
         else if length bs + 4 > unat (data_size f) then None else Some (p, w)) = Some (q, w1)"
      "update_mem w1 (\<lambda>m. store32 m q ?n) = Some w2" "q + 4 \<noteq> 0" "update_mem w2 (\<lambda>m. store_bytes m (q + 4) bs) = Some w'"
    using a t by (auto simp: apply_bytes_def bind_eq_Some_conv simp del: of_nat_add split: if_splits)
  note rd = read_mem_gives [OF g2 q(3,4)]
  show ?thesis
  proof (cases "PB_ATYPE (ftype f) = PB_ATYPE_POINTER")
    case True
    with q(1) have al: "apply_allocate E p (length bs + 4) w = Some (q, w1)" by simp
    show ?thesis
      unfolding pb_dec_bytes_def decode_thenI [OF decode_varint32_gives [OF g1 l]] Let_def n alloc
        if_not_P [OF checks(1)] if_not_P [OF checks(2)] if_P [OF True]
      using allocate_gives [OF al] l q(2) rd by (simp add: dec_then_def)
  next
    case False
    with q(1) have "\<not> length bs + 4 > unat (data_size f)" "q = p" "w1 = w" by (auto split: if_splits)
    moreover from this have "\<not> (of_nat (length bs + 4) :: u64) > ucast (data_size f)"
      by (simp only: word_less_nat_alt u unat_ucast_u32 not_False_eq_True)
    ultimately show ?thesis
      unfolding pb_dec_bytes_def decode_thenI [OF decode_varint32_gives [OF g1 l]] Let_def n alloc
        if_not_P [OF checks(1)] if_not_P [OF checks(2)] if_not_P [OF False]
      using q(2) rd by simp
  qed
qed

lemma pb_dec_string_gives:
  assumes g: "gives s (uleb128_encode (length bs) @ bs) rest" and l: "length bs < 2 ^ 32"
    and a: "apply_bytes E f p bs w = Some w'" and t: "PB_LTYPE (ftype f) = PB_LTYPE_STRING"
  shows "pb_dec_string E s f p w = Some (True, after s (length (uleb128_encode (length bs) @ bs)) rest, w')"
proof -
  let ?k = "length (uleb128_encode (length bs))"
  let ?n = "of_nat (length bs) :: u32"
  have g1: "gives s (uleb128_encode (length bs)) (bs @ rest)" and g2: "gives (after s ?k (bs @ rest)) bs rest"
    using g gives_append [of s "uleb128_encode (length bs)" bs rest] by simp_all
  have n: "(ucast ?n :: u64) = of_nat (length bs)" using l by (intro ucast_of_nat_small) simp
  obtain q w1 w2 where q: "(if PB_ATYPE (ftype f) = PB_ATYPE_POINTER
         then if length bs + 1 < 2 ^ 32 then apply_allocate E p (length bs + 1) w else None
         else if length bs + 1 > unat (data_size f) then None else Some (p, w)) = Some (q, w1)"
      "q \<noteq> 0" "update_mem w1 (\<lambda>m. store_bytes m q bs) = Some w2"
      "update_mem w2 (\<lambda>m. store8 m (q + of_nat (length bs)) 0) = Some w'"
    using a t by (auto simp: apply_bytes_def bind_eq_Some_conv pb_ltypes simp del: of_nat_add split: if_splits)
  have l1: "length bs + 1 < 2 ^ 32"
    using q(1) unat_less [of "data_size f"] by (auto split: if_splits)
  have u1: "unat (of_nat (length bs + 1) :: u64) = length bs + 1" by (rule unat_of_nat_small) (use l1 in simp)
  have u0: "unat (of_nat (length bs) :: u64) = length bs" by (rule unat_of_nat_small) (use l in simp)
  note u = u1 u0
  have alloc: "(ucast (?n + 1) :: u64) = of_nat (length bs + 1)"
  proof -
    have e: "?n + 1 = of_nat (length bs + 1)" by simp
    show ?thesis unfolding e by (rule ucast_of_nat_small) (use l1 in simp)
  qed
  have check: "\<not> (of_nat (length bs + 1) :: u64) < of_nat (length bs)"
    by (simp only: word_less_nat_alt u)
  have rd: "read_string (after s ?k (bs @ rest)) w1 q ?n = Some (True, after s (?k + length bs) rest, w')"
    unfolding read_string_def n read_mem_gives [OF g2 q(2,3)] using q(4) by simp
  show ?thesis
  proof (cases "PB_ATYPE (ftype f) = PB_ATYPE_POINTER")
    case True
    with q(1) have al: "apply_allocate E p (length bs + 1) w = Some (q, w1)" by (simp split: if_splits)
    have "length bs + 1 < 2 ^ 33" using l1 by simp
    note al' = allocate_gives [OF al _ this]
    show ?thesis
      unfolding pb_dec_string_def decode_thenI [OF decode_varint32_gives [OF g1 l]] Let_def alloc n
        if_not_P [OF check] if_P [OF True]
      using al' rd by (simp add: dec_then_def)
  next
    case False
    with q(1) have "\<not> length bs + 1 > unat (data_size f)" "q = p" "w1 = w" by (auto split: if_splits)
    moreover from this have "\<not> (of_nat (length bs + 1) :: u64) > ucast (data_size f)"
      by (simp only: word_less_nat_alt u unat_ucast_u32 not_False_eq_True)
    ultimately show ?thesis
      unfolding pb_dec_string_def decode_thenI [OF decode_varint32_gives [OF g1 l]] Let_def alloc n
        if_not_P [OF check] if_not_P [OF False]
      using rd by simp
  qed
qed

lemma value_gives:
  assumes sub: "\<And>i rs q w w' s rest. sub i rs q w = Some w' \<Longrightarrow> records_ok rs \<Longrightarrow> source s = Buffer (tree_encode rs @ rest) \<Longrightarrow>
      bytes_left s = of_nat (length (tree_encode rs)) \<Longrightarrow> length (tree_encode rs) < 2 ^ 32 \<Longrightarrow>
      (if PB_HTYPE (ftype f) = PB_HTYPE_REPEATED then initialised else noinit) s (dmessages E i) q w = Some (True, after s (length (tree_encode rs)) rest, w')"
    and func: "PB_DECODERS E initialised noinit (PB_LTYPE (ftype f)) = Some func"
    and a: "apply_value E sub f p v w = Some w'" and ok: "value_ok v" and g: "gives s (payload (wire_of v)) rest"
  shows "func s f p w = Some (True, after s (length (payload (wire_of v))) rest, w')"
proof (cases v)
  case (VarintValue n)
  then show ?thesis using number_gives [OF _ _ func, of s n rest] g a by (simp add: apply_value_def)
next
  case (Fixed64Value n)
  with a have l: "PB_LTYPE (ftype f) = PB_LTYPE_FIXED64" "update_mem w (\<lambda>m. store64 m p n) = Some w'"
    by (auto simp: apply_value_def split: if_splits)
  then have f: "func = pb_dec_fixed64" using func by (simp add: PB_DECODERS_def pb_ltypes)
  have "pb_read s 8 = Some (Some (le_bytes 8 (unat n)), after s 8 rest)"
    using read_gives [of s "le_bytes 8 (unat n)" rest] g Fixed64Value by simp
  then show ?thesis
    unfolding f pb_dec_fixed64_def pb_decode_fixed64_def
    using l(2) Fixed64Value by (simp add: decode_then_def fixed_value_bytes)
next
  case (Fixed32Value n)
  with a have l: "PB_LTYPE (ftype f) = PB_LTYPE_FIXED32" "update_mem w (\<lambda>m. store32 m p n) = Some w'"
    by (auto simp: apply_value_def split: if_splits)
  then have f: "func = pb_dec_fixed32" using func by (simp add: PB_DECODERS_def pb_ltypes)
  have "pb_read s 4 = Some (Some (le_bytes 4 (unat n)), after s 4 rest)"
    using read_gives [of s "le_bytes 4 (unat n)" rest] g Fixed32Value by simp
  then show ?thesis
    unfolding f pb_dec_fixed32_def pb_decode_fixed32_def
    using l(2) Fixed32Value by (simp add: decode_then_def fixed_value_bytes)
next
  case (BytesValue bs)
  then have b: "apply_bytes E f p bs w = Some w'" "length bs < 2 ^ 32" "gives s (uleb128_encode (length bs) @ bs) rest"
    using a ok g by (simp_all add: apply_value_def)
  consider "PB_LTYPE (ftype f) = PB_LTYPE_BYTES" | "PB_LTYPE (ftype f) = PB_LTYPE_STRING"
    using b(1) by (auto simp: apply_bytes_def split: if_splits)
  then show ?thesis
  proof cases
    case 1
    then have "func = pb_dec_bytes E" using func by (simp add: PB_DECODERS_def pb_ltypes)
    then show ?thesis using pb_dec_bytes_gives [OF b(3,2,1) 1] BytesValue by simp
  next
    case 2
    then have "func = pb_dec_string E" using func by (simp add: PB_DECODERS_def pb_ltypes)
    then show ?thesis using pb_dec_string_gives [OF b(3,2,1) 2] BytesValue by simp
  qed
next
  case (MessageValue rs)
  then obtain i where i: "ptr f = Submessage i" "sub i rs p w = Some w'" "PB_LTYPE (ftype f) = PB_LTYPE_SUBMESSAGE"
    using a by (auto simp: apply_value_def split: if_splits pb_ptr.splits)
  then have f: "func = pb_dec_submessage E initialised noinit" using func by (simp add: PB_DECODERS_def pb_ltypes)
  have r: "records_ok rs" "length (tree_encode rs) < 2 ^ 32"
    using ok MessageValue by (auto simp: records_ok_def tree_encode_def)
  have "gives s (uleb128_encode (length (tree_encode rs)) @ tree_encode rs) rest"
    using g MessageValue by (simp add: tree_encode_def)
  from delimited_gives [OF this r(2), of "if PB_HTYPE (ftype f) = PB_HTYPE_REPEATED then initialised else noinit" "dmessages E i" p w w']
  have "decode_delimited (if PB_HTYPE (ftype f) = PB_HTYPE_REPEATED then initialised else noinit) s (dmessages E i) p w = Some (True,
      after s (length (uleb128_encode (length (tree_encode rs)) @ tree_encode rs)) rest, w')"
    using sub [OF i(2) r(1) _ _ r(2)] by simp
  then show ?thesis
    using i(1) MessageValue by (simp add: f pb_dec_submessage_def tree_encode_def)
qed

lemma decoders_defined:
  "l \<le> PB_LTYPE_FIXED_LENGTH_BYTES \<Longrightarrow> \<exists>func. PB_DECODERS E initialised noinit l = Some func"
proof -
  assume "l \<le> PB_LTYPE_FIXED_LENGTH_BYTES"
  then have "unat l \<le> 10" by (simp add: pb_ltypes word_le_nat_alt)
  then have "unat l \<in> {0, 1, 2, 3, 4, 5, 6, 7, 8, 9, 10}" by (simp, presburger)
  then have "l \<in> {0, 1, 2, 3, 4, 5, 6, 7, 8, 9, 10}" by (auto dest: word_eq_of_nat)
  then show ?thesis unfolding PB_DECODERS_def pb_ltypes by auto
qed

lemma apply_value_type:
  "apply_value E sub f p v w = Some w' \<Longrightarrow> PB_LTYPE (ftype f) \<le> PB_LTYPE_FIXED_LENGTH_BYTES"
  by (auto simp: apply_value_def apply_number_def apply_bytes_def Let_def pb_ltypes
      split: value_tree.splits if_splits)

lemma allocate_entries:
  assumes "apply_allocate E p (unat k * unat m) w = Some (q, w')" "k \<noteq> 0" "m \<noteq> (0 :: u32)"
  shows "allocate_field E s w p (ucast m) (ucast (k :: u32)) = Some (True, s, w')" "load64 (wmem w') p = Some q"
proof -
  have u: "(of_nat (unat k * unat m) :: u64) = ucast k * ucast m" by simp
  obtain old r w1 where o: "load64 (wmem w) p = Some old" "pb_realloc E w old (ucast k * ucast m) = Some (r, w1)" "r \<noteq> 0"
    "update_mem w1 (\<lambda>x. store64 x p r) = Some w'" "load64 (wmem w') p = Some q"
    using assms(1) unfolding apply_allocate_def u by (auto simp: bind_eq_Some_conv split: if_splits)
  then show "load64 (wmem w') p = Some q" by simp
  have nz: "(ucast k :: u64) \<noteq> 0" "(ucast m :: u64) \<noteq> 0" using assms(2,3) by (metis unat_ucast_u32 unat_eq_zero)+
  have "(ucast k :: u64) < 2 ^ 32" "(ucast m :: u64) < 2 ^ 32"
    using unat_less [of k] unat_less [of m] by (simp_all add: word_less_nat_alt unat_ucast_u32)
  then have "\<not> (((ucast m :: u64) \<ge> 2 ^ 32 \<or> (ucast k :: u64) \<ge> 2 ^ 32) \<and> (- 1 :: u64) div ucast k < ucast m)"
    by (simp only: not_le [symmetric] simp_thms)
  then show "allocate_field E s w p (ucast m) (ucast k) = Some (True, s, w')"
    unfolding allocate_field_def using o nz by (simp only: bind.bind_lunit case_prod_conv if_False if_True simp_thms Let_def)
qed

lemma initialised_gives:
  assumes "do { w \<leftarrow> pb_message_set_to_defaults d E fs q w; sub w } = Some w'"
    and "\<And>w. sub w = Some w' \<Longrightarrow> noinit s fs q w = Some (True, s', w')"
  shows "decode_initialised d E noinit s fs q w = Some (True, s', w')"
  using assms by (auto simp: decode_initialised_def bind_eq_Some_conv)

text \<open>Decoding a covered field.\<close>

lemma append_gives:
  assumes sub: "\<And>i rs q w w' s rest. sub i rs q w = Some w' \<Longrightarrow> records_ok rs \<Longrightarrow> source s = Buffer (tree_encode rs @ rest) \<Longrightarrow>
      bytes_left s = of_nat (length (tree_encode rs)) \<Longrightarrow> length (tree_encode rs) < 2 ^ 32 \<Longrightarrow>
      noinit s (dmessages E i) q w = Some (True, after s (length (tree_encode rs)) rest, w')"
    and size: "pSize iter = field_pSize (iter_field iter) (pData iter)"
    and repeated: "PB_HTYPE (ftype (iter_field iter)) = PB_HTYPE_REPEATED" "PB_LTYPE (ftype (iter_field iter)) > PB_LTYPE_LAST_PACKABLE"
    and a: "apply_append E (pb_message_set_to_defaults d E) sub (iter_field iter) (pData iter) v w = Some w'"
    and ok: "value_ok v" and g: "gives s (payload (wire_of v)) rest"
  shows "decode_pointer_field E (decode_initialised d E noinit) noinit (pb_message_set_to_defaults d E) release_one s wt iter w =
    Some (True, after s (length (payload (wire_of v))) rest, w')"
proof -
  let ?f = "iter_field iter" and ?p = "pData iter" and ?defaults = "pb_message_set_to_defaults d E"
  let ?sub = "\<lambda>i rs q w. do { w \<leftarrow> ?defaults (dmessages E i) q w; sub i rs q w }"
  obtain n q w1 k w2 w3 where A: "load32 (wmem w) (pSize iter) = Some n" "n \<noteq> PB_SIZE_MAX" "data_size ?f \<noteq> 0"
    "apply_allocate E ?p (unat (n + 1) * unat (data_size ?f)) w = Some (q, w1)"
    "load32 (wmem w1) (pSize iter) = Some k" "update_mem w1 (\<lambda>m. store32 m (pSize iter) (k + 1)) = Some w2"
    "initialize_pointer_field E ?defaults (q + ucast (data_size ?f * k)) ?f w2 = Some w3"
    "apply_value E ?sub ?f (q + ucast (data_size ?f * k)) v w3 = Some w'"
    using a unfolding apply_append_def Let_def size by (auto simp: bind_eq_Some_conv split: if_splits)
  obtain func where func: "PB_DECODERS E (decode_initialised d E noinit) noinit (PB_LTYPE (ftype ?f)) = Some func"
    using decoders_defined [OF apply_value_type [OF A(8)]] by blast
  have v: "func s ?f (q + ucast (data_size ?f * k)) w3 = Some (True, after s (length (payload (wire_of v))) rest, w')"
  proof (rule value_gives [where sub = ?sub, OF _ func A(8) ok g])
    show "(if PB_HTYPE (ftype ?f) = PB_HTYPE_REPEATED then decode_initialised d E noinit else noinit) s (dmessages E i) q w =
        Some (True, after s (length (tree_encode rs)) rest, w')"
      if "?sub i rs q w = Some w'" "records_ok rs" "source s = Buffer (tree_encode rs @ rest)"
        "bytes_left s = of_nat (length (tree_encode rs))" "length (tree_encode rs) < 2 ^ 32" for i rs q w w' s rest
      unfolding if_P [OF repeated(1)] by (rule initialised_gives [where sub = "sub i rs q", OF that(1)]) (rule sub [OF _ that(2-5)])
  qed
  have "n + 1 \<noteq> 0"
  proof
    assume "n + 1 = 0"
    then have "n = - 1" by (rule eq_neg_iff_add_eq_0 [THEN iffD2])
    with A(2) show False by (simp add: PB_SIZE_MAX_def)
  qed
  note al = allocate_entries [OF A(4) this A(3)]
  have pack: "\<not> (wt = PB_WT_STRING \<and> PB_LTYPE (ftype ?f) \<le> PB_LTYPE_LAST_PACKABLE)" using repeated(2) by (simp add: not_le)
  show ?thesis
    unfolding decode_pointer_field_def Let_def func bind.bind_lunit if_not_P [OF pack] A(1) if_not_P [OF A(2)]
    using al A(5-7) v repeated(1) by (simp add: dec_then_def)
qed

lemma bind_SomeE:
  "Option.bind m f = Some y \<Longrightarrow> (\<And>x. m = Some x \<Longrightarrow> f x = Some y \<Longrightarrow> P) \<Longrightarrow> P"
  by (cases m) auto

lemma oneof_gives:
  assumes sub: "\<And>i rs q w w' s rest. sub i rs q w = Some w' \<Longrightarrow> records_ok rs \<Longrightarrow> source s = Buffer (tree_encode rs @ rest) \<Longrightarrow>
      bytes_left s = of_nat (length (tree_encode rs)) \<Longrightarrow> length (tree_encode rs) < 2 ^ 32 \<Longrightarrow>
      noinit s (dmessages E i) q w = Some (True, after s (length (tree_encode rs)) rest, w')"
    and size: "pSize iter = field_pSize (iter_field iter) (pData iter)"
    and c: "covered (iter_field iter)" and oneof: "PB_HTYPE (ftype (iter_field iter)) = PB_HTYPE_ONEOF"
    and a: "apply_oneof E defaults sub (iter_field iter) (pData iter) v w = Some w'"
    and ok: "value_ok v" and g: "gives s (payload (wire_of v)) rest"
  shows "decode_field E initialised noinit defaults release_one s wt iter w =
    Some (True, after s (length (payload (wire_of v))) rest, iter, w')"
proof -
  let ?f = "iter_field iter" and ?p = "pData iter"
  have h: "PB_HTYPE (ftype ?f) \<noteq> PB_HTYPE_REQUIRED" "PB_HTYPE (ftype ?f) \<noteq> PB_HTYPE_OPTIONAL"
    "PB_HTYPE (ftype ?f) \<noteq> PB_HTYPE_REPEATED"
    using oneof by (simp_all add: pb_htypes)
  obtain old w1 w2 where A: "load32 (wmem w) (pSize iter) = Some old"
    "(if old = 0 \<or> old = tag ?f then update_mem w (\<lambda>m. store32 m (pSize iter) (tag ?f)) else None) = Some w1"
    "(if PB_ATYPE (ftype ?f) = PB_ATYPE_STATIC \<and> PB_LTYPE (ftype ?f) = PB_LTYPE_SUBMESSAGE
      then do { w \<leftarrow> memset_zero w1 ?p (data_size ?f);
                case ptr ?f of Submessage i \<Rightarrow> defaults (dmessages E i) ?p w | _ \<Rightarrow> None }
      else Some w1) = Some w2"
    "apply_value E sub ?f ?p v w2 = Some w'"
    using a unfolding apply_oneof_def size [symmetric] by (elim bind_SomeE) (rule that)
  then have old: "old = 0 \<or> old = tag ?f" "update_mem w (\<lambda>m. store32 m (pSize iter) (tag ?f)) = Some w1"
    by (simp_all split: if_splits)
  obtain func where func: "PB_DECODERS E initialised noinit (PB_LTYPE (ftype ?f)) = Some func"
    using decoders_defined [OF apply_value_type [OF A(4)]] by blast
  have v: "func s ?f ?p w2 = Some (True, after s (length (payload (wire_of v))) rest, w')"
    by (rule value_gives [where sub = sub, OF _ func A(4) ok g]) (simp add: h sub)
  have release: "pb_release_union_field release_one s iter w = Some (True, s, iter, w)"
    using A(1) old(1) by (simp add: pb_release_union_field_def)
  show ?thesis
  proof (cases "PB_ATYPE (ftype ?f) = PB_ATYPE_STATIC")
    case True
    have "decode_static_field E initialised noinit defaults s wt iter w =
        Some (True, after s (length (payload (wire_of v))) rest, w')"
      unfolding decode_static_field_def Let_def func bind.bind_lunit if_not_P [OF h(1)] if_not_P [OF h(2)] if_not_P [OF h(3)] old(2)
      using A(3) True v by simp
    then show ?thesis using True oneof release by (simp add: decode_field_def)
  next
    case False
    then have p: "PB_ATYPE (ftype ?f) = PB_ATYPE_POINTER" "w2 = w1"
      "PB_LTYPE (ftype ?f) = PB_LTYPE_STRING \<or> PB_LTYPE (ftype ?f) = PB_LTYPE_BYTES"
      using c h A(3) by (auto simp: covered_def)
    have "PB_LTYPE (ftype ?f) \<noteq> PB_LTYPE_SUBMESSAGE" using p(3) by (auto simp: pb_ltypes)
    then have "decode_pointer_field E initialised noinit defaults release_one s wt iter w =
        Some (True, after s (length (payload (wire_of v))) rest, w')"
      using p h oneof old(2) v by (simp add: decode_pointer_field_def decode_pointer_single_def func Let_def)
    then show ?thesis using p(1) False oneof release by (simp add: decode_field_def)
  qed
qed

lemma field_gives:
  assumes sub: "\<And>i rs q w w' s rest. sub i rs q w = Some w' \<Longrightarrow> records_ok rs \<Longrightarrow> source s = Buffer (tree_encode rs @ rest) \<Longrightarrow>
      bytes_left s = of_nat (length (tree_encode rs)) \<Longrightarrow> length (tree_encode rs) < 2 ^ 32 \<Longrightarrow>
      noinit s (dmessages E i) q w = Some (True, after s (length (tree_encode rs)) rest, w')"
    and size: "pSize iter = field_pSize (iter_field iter) (pData iter)"
    and a: "apply_field E (pb_message_set_to_defaults d E) sub (iter_field iter) (pData iter) v w = Some w'"
    and ok: "value_ok v" and g: "gives s (payload (wire_of v)) rest"
  shows "decode_field E (decode_initialised d E noinit) noinit (pb_message_set_to_defaults d E) release_one s wt iter w =
    Some (True, after s (length (payload (wire_of v))) rest, iter, w')"
proof -
  let ?f = "iter_field iter" and ?p = "pData iter"
  have c: "covered ?f" using a by (simp add: apply_field_def split: if_splits)
  consider "PB_HTYPE (ftype ?f) = PB_HTYPE_REPEATED" | "PB_HTYPE (ftype ?f) = PB_HTYPE_ONEOF" | "PB_HTYPE (ftype ?f) = PB_HTYPE_OPTIONAL"
    using c by (auto simp: covered_def)
  then show ?thesis
  proof cases
    case repeated: 1
    then have r: "PB_ATYPE (ftype ?f) = PB_ATYPE_POINTER" "PB_LTYPE (ftype ?f) > PB_LTYPE_LAST_PACKABLE"
      using c by (auto simp: covered_def pb_htypes)
    have "apply_append E (pb_message_set_to_defaults d E) sub ?f ?p v w = Some w'"
      using a c repeated by (simp add: apply_field_def split: if_splits)
    from append_gives [where sub = sub, OF _ size repeated r(2) this ok g]
    have "decode_pointer_field E (decode_initialised d E noinit) noinit (pb_message_set_to_defaults d E) release_one s wt iter w =
        Some (True, after s (length (payload (wire_of v))) rest, w')"
      using sub by blast
    then show ?thesis using r(1) repeated by (simp add: decode_field_def pb_htypes pb_atypes)
  next
    case 2
    have "apply_oneof E (pb_message_set_to_defaults d E) sub ?f ?p v w = Some w'"
      using a c 2 by (auto simp: apply_field_def pb_htypes)
    from oneof_gives [where sub = sub, OF _ size c 2 this ok g] show ?thesis using sub by blast
  next
    case 3
    then have h: "PB_HTYPE (ftype ?f) = PB_HTYPE_OPTIONAL" "PB_HTYPE (ftype ?f) \<noteq> PB_HTYPE_REQUIRED" "PB_HTYPE (ftype ?f) \<noteq> PB_HTYPE_ONEOF"
      and False: "PB_HTYPE (ftype ?f) \<noteq> PB_HTYPE_REPEATED"
      by (simp_all add: pb_htypes)
    obtain w1 where w1: "(if PB_ATYPE (ftype ?f) = PB_ATYPE_STATIC \<and> field_pSize ?f ?p \<noteq> ?p
          then update_mem w (\<lambda>m. store8 m (field_pSize ?f ?p) 1) else Some w) = Some w1"
        "apply_value E sub ?f ?p v w1 = Some w'"
      using a c False h(3) by (auto simp: apply_field_def bind_eq_Some_conv)
    obtain func where func: "PB_DECODERS E (decode_initialised d E noinit) noinit (PB_LTYPE (ftype ?f)) = Some func"
      using decoders_defined [OF apply_value_type [OF w1(2)]] by blast
    have v: "func s ?f ?p w1 = Some (True, after s (length (payload (wire_of v))) rest, w')"
      by (rule value_gives [where sub = sub, OF _ func w1(2) ok g]) (simp add: False sub)
    show ?thesis
    proof (cases "PB_ATYPE (ftype ?f) = PB_ATYPE_STATIC")
      case True
      have "(if pSize iter \<noteq> ?p then update_mem w (\<lambda>m. store8 m (pSize iter) 1) else Some w) = Some w1"
        using w1(1) True size by (simp split: if_splits)
      then have "decode_static_field E (decode_initialised d E noinit) noinit (pb_message_set_to_defaults d E) s wt iter w =
          Some (True, after s (length (payload (wire_of v))) rest, w')"
        unfolding decode_static_field_def Let_def func bind.bind_lunit if_not_P [OF h(2)] if_P [OF h(1)]
        using v by simp
      then show ?thesis using True h by (simp add: decode_field_def)
    next
      case static: False
      then have p: "PB_ATYPE (ftype ?f) = PB_ATYPE_POINTER"
        "PB_LTYPE (ftype ?f) = PB_LTYPE_STRING \<or> PB_LTYPE (ftype ?f) = PB_LTYPE_BYTES" "w1 = w"
        using c w1(1) False by (auto simp: covered_def)
      have "PB_LTYPE (ftype ?f) \<noteq> PB_LTYPE_SUBMESSAGE" using p(2) by (auto simp: pb_ltypes)
      then have "decode_pointer_field E (decode_initialised d E noinit) noinit (pb_message_set_to_defaults d E) release_one s wt iter w =
          Some (True, after s (length (payload (wire_of v))) rest, w')"
        using p(2,3) h False v by (simp add: decode_pointer_field_def decode_pointer_single_def func Let_def)
      then show ?thesis using p(1) static h by (simp add: decode_field_def)
    qed
  qed
qed

section \<open>The loop over the records\<close>

lemma start_next: "start (snd (pb_field_iter_next iter)) = start iter"
  by (auto simp: pb_field_iter_next_def pb_field_iter_begin_def Let_def)

lemma find_extension_loop_eq:
  assumes "\<And>f. f \<in> set fs \<Longrightarrow> PB_LTYPE (ftype f) \<noteq> PB_LTYPE_EXTENSION \<and> tag f \<noteq> wanted" "wanted \<noteq> 0"
  shows "start iter = fs \<Longrightarrow> find_extension_loop n iter b = find_loop n iter wanted b"
proof (induction n arbitrary: iter)
  case (Suc n)
  have "PB_LTYPE (ftype (iter_field iter)) \<noteq> PB_LTYPE_EXTENSION \<and> tag (iter_field iter) \<noteq> wanted"
    using assms Suc.prems by (cases "pos iter < length fs") (auto simp: field_at_def PB_LAST_FIELD_def PB_LTYPE_def pb_ltypes)
  then show ?case using Suc.IH [of "snd (pb_field_iter_next iter)"] Suc.prems by (simp add: start_next Let_def)
qed simp

lemma find_extension_none:
  assumes "table_ok fs" "iter_at fs p i iter" "\<not> (\<exists>f \<in> set fs. field_matches t f)" "t \<noteq> 0"
  shows "\<exists>iter'. find_extension_field iter = Some (False, iter') \<and> iter_at fs p i iter'"
proof -
  have ext: "\<And>f. f \<in> set fs \<Longrightarrow> PB_LTYPE (ftype f) \<noteq> PB_LTYPE_EXTENSION \<and> tag f \<noteq> t"
    using assms(1,3) by (auto simp: table_ok_def field_matches_def)
  have "start iter = fs" using assms(2) by (simp add: iter_at_def)
  then have "find_extension_field iter = pb_field_iter_find iter t"
    using find_extension_loop_eq [of fs t iter, OF ext assms(4)]
    by (simp add: find_extension_field_def pb_field_iter_find_def)
  moreover have "fields_ok fs" using assms(1) by (simp add: table_ok_def)
  ultimately show ?thesis using iter_find_correct [OF _ assms(2), of t] assms(3) by (auto split: if_splits)
qed

lemma find_field:
  assumes ok: "table_ok fs" and j: "j < length fs" "field_matches t (fs ! j)"
  shows "find (\<lambda>(f, a). field_matches t f) (zip fs (field_addresses fs p)) = Some (fs ! j, field_addresses fs p ! j)"
proof -
  have d: "distinct (map tag fs)" using ok by (simp add: table_ok_def)
  have "\<not> field_matches t (fs ! k)" if "k < j" for k
  proof
    assume "field_matches t (fs ! k)"
    with j have "map tag fs ! k = map tag fs ! j" using that by (simp add: field_matches_def)
    with nth_eq_iff_index_eq [OF d, of k j] j(1) that show False by simp
  qed
  with j show ?thesis by (auto simp: find_Some_iff intro!: exI [of _ j])
qed

lemma find_no_field:
  "\<not> (\<exists>f \<in> set fs. field_matches t f) \<Longrightarrow> find (\<lambda>(f, a). field_matches t f) (zip fs as) = None"
  by (auto simp: find_None_iff dest: set_zip_leftD)

text \<open>The state between two records.\<close>

definition between :: "pb_fields \<Rightarrow> addr \<Rightarrow> ('s, 'h) decoding \<Rightarrow> bool" where
  "between fs p st \<longleftrightarrow> fixed_count_field st = None \<and> (\<exists>j. iter_at fs p j (diter st))"

lemma wire_type_small: "wire_type v < 8"
  by (cases v) simp_all

lemma record_gives:
  assumes sub: "\<And>i rs q w w' s rest. sub i rs q w = Some w' \<Longrightarrow> records_ok rs \<Longrightarrow> source s = Buffer (tree_encode rs @ rest) \<Longrightarrow>
      bytes_left s = of_nat (length (tree_encode rs)) \<Longrightarrow> length (tree_encode rs) < 2 ^ 32 \<Longrightarrow>
      noinit s (dmessages E i) q w = Some (True, after s (length (tree_encode rs)) rest, w')"
    and table: "table_ok fs" and st: "between fs p st"
    and a: "apply_record E (pb_message_set_to_defaults d E) sub fs p (t, v) (dworld st) = Some w'"
    and ok: "field_number t" "value_ok v"
    and g: "gives (dstream st) (record_tag t (wire_type (wire_of v)) @ payload (wire_of v)) rest"
  shows "\<exists>st'. decode_next E local (decode_field E (decode_initialised d E noinit) noinit (pb_message_set_to_defaults d E) release_one) st = Some (Continue, st') \<and>
    between fs p st' \<and> dworld st' = w' \<and>
    dstream st' = after (dstream st) (length (record_tag t (wire_type (wire_of v)) @ payload (wire_of v))) rest"
proof -
  let ?tag = "record_tag t (wire_type (wire_of v))" and ?bs = "payload (wire_of v)"
  let ?wt = "of_nat (wire_type (wire_of v)) :: u64" and ?s = "after (dstream st) (length (record_tag t (wire_type (wire_of v)))) (payload (wire_of v) @ rest)"
  have g1: "gives (dstream st) ?tag (?bs @ rest)" and g2: "gives ?s ?bs rest"
    using g gives_append [of "dstream st" ?tag ?bs rest] by simp_all
  note tag = decode_tag_gives [OF g1 ok(1) wire_type_small]
  obtain i where i: "iter_at fs p i (diter st)" and fixed: "fixed_count_field st = None" using st by (auto simp: between_def)
  have fok: "fields_ok fs" using table by (simp add: table_ok_def)
  obtain found iter' j where find: "pb_field_iter_find (diter st) t = Some (found, iter')" "iter_at fs p j iter'"
    "found \<longleftrightarrow> (\<exists>f \<in> set fs. field_matches t f)" "if found then field_matches t (fs ! j) else j = i"
    using iter_find_correct [OF fok i, of t] by blast
  let ?st = "st\<lparr>dstream := ?s, diter := iter'\<rparr>"
  have step: "decode_next E local decode st =
      (if found then decode_known local decode ?wt ?st else decode_unknown E decode t ?wt ?st)" for decode
    unfolding decode_next_def tag by (simp add: find(1))
  show ?thesis
  proof (cases found)
    case True
    then have m: "field_matches t (fs ! j)" "j < length fs" using find(2,4) by (auto simp: iter_at_def)
    have f: "iter_field iter' = fs ! j" "pData iter' = field_addresses fs p ! j" "pSize iter' = field_pSize (iter_field iter') (pData iter')"
      using find(2) by (auto simp: iter_at_def field_at_def)
    have ap: "apply_field E (pb_message_set_to_defaults d E) sub (iter_field iter') (pData iter') v (dworld st) = Some w'"
      using a unfolding apply_record_def by (simp add: find_field [OF table m(2,1)] f(1,2))
    then have fixed_count: "\<not> (PB_HTYPE (ftype (iter_field iter')) = PB_HTYPE_REPEATED \<and> pSize iter' = pData iter')"
      using f(3) by (auto simp: apply_field_def split: if_splits)
    have "decode_field E (decode_initialised d E noinit) noinit (pb_message_set_to_defaults d E) release_one ?s ?wt iter' (dworld st) =
        Some (True, after ?s (length ?bs) rest, iter', w')"
      by (rule field_gives [where sub = sub, OF _ f(3) ap ok(2) g2]) (rule sub)
    then have "decode_known local (decode_field E (decode_initialised d E noinit) noinit (pb_message_set_to_defaults d E) release_one) ?wt ?st =
        Some (Continue, ?st\<lparr>fields_seen := mark_seen iter' (fields_seen st), dstream := after ?s (length ?bs) rest,
          diter := iter', dworld := w'\<rparr>)"
      unfolding decode_known_def by (simp add: if_not_P [OF fixed_count])
    with step True find(2) fixed show ?thesis by (auto simp: between_def)
  next
    case False
    then have none: "\<not> (\<exists>f \<in> set fs. field_matches t f)" using find(3) by simp
    have t: "t \<noteq> 0" "t < - 1"
      using ok(1) by (auto simp: field_number_def word_less_nat_alt unsigned_minus_1_eq_mask mask_eq_exp_minus_1)
    have w: "w' = dworld st" using a by (simp add: apply_record_def find_no_field [OF none])
    have skip: "skip_unknown ?wt x = Some (Continue, x\<lparr>dstream := after ?s (length ?bs) rest\<rparr>)" if "dstream x = ?s" for x
      using skip_field_gives [OF g2 wire_ok_of [OF ok(2)]] that by (simp add: skip_unknown_def)
    obtain iter'' where ext: "find_extension_field iter' = Some (False, iter'')" "iter_at fs p j iter''"
      using find_extension_none [OF table find(2) none t(1)] by blast
    have "\<exists>st'. decode_unknown E decode t ?wt ?st = Some (Continue, st') \<and> dstream st' = after ?s (length ?bs) rest \<and>
        dworld st' = dworld st \<and> between fs p st'" for decode
      using ext find(2) fixed t(2) by (auto simp: decode_unknown_def skip between_def Let_def)
    with step False w show ?thesis by fastforce
  qed
qed

lemma record_tag_nonempty: "record_tag t n \<noteq> []"
  by (subst record_tag_def, subst uleb128_encode.simps) (simp add: Let_def)

lemma loop_gives:
  assumes sub: "\<And>i rs q w w' s rest. sub i rs q w = Some w' \<Longrightarrow> records_ok rs \<Longrightarrow> source s = Buffer (tree_encode rs @ rest) \<Longrightarrow>
      bytes_left s = of_nat (length (tree_encode rs)) \<Longrightarrow> length (tree_encode rs) < 2 ^ 32 \<Longrightarrow>
      noinit s (dmessages E i) q w = Some (True, after s (length (tree_encode rs)) rest, w')"
    and table: "table_ok fs"
  shows "between fs p st \<Longrightarrow> apply_all (apply_record E (pb_message_set_to_defaults d E) sub fs p) rs (dworld st) = Some w' \<Longrightarrow> records_ok rs \<Longrightarrow>
    source (dstream st) = Buffer (tree_encode rs @ rest) \<Longrightarrow> bytes_left (dstream st) = of_nat (length (tree_encode rs)) \<Longrightarrow>
    length (tree_encode rs) < 2 ^ 64 \<Longrightarrow>
    \<exists>st'. decode_loop (decode_next E local (decode_field E (decode_initialised d E noinit) noinit (pb_message_set_to_defaults d E) release_one)) st = Some (True, st') \<and>
      between fs p st' \<and> dworld st' = w' \<and> dstream st' = after (dstream st) (length (tree_encode rs)) rest"
proof (induction rs arbitrary: st)
  case Nil
  then show ?case by (subst decode_loop.simps) (simp add: after_def)
next
  case (Cons r rs)
  obtain t v where r: "r = (t, v)" by force
  let ?r = "record_tag t (wire_type (wire_of v)) @ payload (wire_of v)" and ?rs = "tree_encode rs"
  have enc: "tree_encode (r # rs) = ?r @ ?rs" by (simp add: r)
  have n: "unat (of_nat (length (?r @ ?rs)) :: u64) = length (?r @ ?rs)"
    using Cons.prems(6) unfolding enc by (intro unat_of_nat_small) simp
  obtain w1 where w1: "apply_record E (pb_message_set_to_defaults d E) sub fs p (t, v) (dworld st) = Some w1" "apply_all (apply_record E (pb_message_set_to_defaults d E) sub fs p) rs w1 = Some w'"
    using Cons.prems(2) by (auto simp: r bind_eq_Some_conv)
  have ok: "field_number t" "value_ok v" "records_ok rs" using Cons.prems(3) by (simp_all add: r records_ok_def)
  have g: "gives (dstream st) ?r (?rs @ rest)"
    using Cons.prems(4,5) n unfolding gives_def enc by (simp del: of_nat_add)
  obtain st1 where st1: "decode_next E local (decode_field E (decode_initialised d E noinit) noinit (pb_message_set_to_defaults d E) release_one) st = Some (Continue, st1)"
    "between fs p st1" "dworld st1 = w1" "dstream st1 = after (dstream st) (length ?r) (?rs @ rest)"
    using record_gives [where sub = sub and noinit = noinit and local = local and d = d and ?release_one = release_one, OF sub table Cons.prems(1) w1(1) ok(1,2) g] by blast
  have left: "bytes_left (dstream st1) = of_nat (length ?rs)"
    using Cons.prems(5) by (simp add: st1(4) enc)
  have "source (dstream st1) = Buffer (?rs @ rest)" "length ?rs < 2 ^ 64"
    using Cons.prems(6) by (simp_all add: st1(4) enc)
  then obtain st' where st': "decode_loop (decode_next E local (decode_field E (decode_initialised d E noinit) noinit (pb_message_set_to_defaults d E) release_one)) st1 = Some (True, st')"
    "between fs p st'" "dworld st' = w'" "dstream st' = after (dstream st1) (length ?rs) rest"
    using Cons.IH [OF st1(2)] w1(2) ok(3) left by (auto simp: st1(3))
  have "length (?r @ ?rs) \<noteq> 0" using record_tag_nonempty [of t "wire_type (wire_of v)"] by simp
  then have "bytes_left (dstream st) \<noteq> 0" using n Cons.prems(5) unfolding enc by (metis unat_0)
  then have "decode_loop (decode_next E local (decode_field E (decode_initialised d E noinit) noinit (pb_message_set_to_defaults d E) release_one)) st = Some (True, st')"
    using st1(1) st'(1) by (subst decode_loop.simps) simp
  with st' st1(4) show ?case by (auto simp: enc)
qed

text \<open>No required field: none can be missing.\<close>

lemma seek_last_at:
  assumes "fields_ok fs"
  shows "iter_at fs p i iter \<Longrightarrow> \<exists>iter'. iter_at fs p 0 iter' \<and>
    seek_last iter = (of_nat (length (filter is_required (take (length fs - 1) fs))), ftype (fs ! (length fs - 1)), iter')"
proof (induction iter arbitrary: i rule: seek_last.induct)
  case (1 iter)
  note next_at = iter_next_at [OF assms "1.prems"]
  have i: "i < length fs" "iter_field iter = fs ! i"
    "required_field_index iter = of_nat (length (filter is_required (take i fs)))"
    using "1.prems" by (auto simp: iter_at_def field_at_def)
  show ?case
  proof (cases "fst (pb_field_iter_next iter)")
    case True
    with next_at have "iter_at fs p (Suc i) (snd (pb_field_iter_next iter))" by simp
    from "1.IH" [OF refl prod.collapse True this] show ?thesis
      using True by (subst seek_last.simps) (simp add: split_beta)
  next
    case False
    with next_at i(1) have "i = length fs - 1" "iter_at fs p 0 (snd (pb_field_iter_next iter))" by auto
    with i False show ?thesis by (subst seek_last.simps) (auto simp: split_beta)
  qed
qed

lemma none_required:
  assumes "table_ok fs" "iter_at fs p i iter"
  shows "\<not> required_missing iter seen"
proof -
  have "fields_ok fs" "fs \<noteq> []" and none: "\<And>f. f \<in> set fs \<Longrightarrow> \<not> is_required f"
    using assms(1) by (auto simp: table_ok_def)
  then obtain iter' where "seek_last iter =
      (of_nat (length (filter is_required (take (length fs - 1) fs))), ftype (fs ! (length fs - 1)), iter')"
    using seek_last_at [OF _ assms(2)] by blast
  moreover have "filter is_required (take (length fs - 1) fs) = []" by (auto simp: filter_empty_conv none dest: in_set_takeD)
  moreover have "\<not> is_required (fs ! (length fs - 1))" using \<open>fs \<noteq> []\<close> by (intro none nth_mem) simp
  ultimately show ?thesis by (simp add: required_missing_def is_required_def Let_def PB_MAX_REQUIRED_FIELDS_def)
qed

lemma message_gives:
  "apply_message d E fs p rs w = Some w' \<Longrightarrow> records_ok rs \<Longrightarrow>
    source s = Buffer (tree_encode rs @ rest) \<Longrightarrow> bytes_left s = of_nat (length (tree_encode rs)) \<Longrightarrow>
    length (tree_encode rs) < 2 ^ 64 \<Longrightarrow>
    pb_decode_noinit d E s fs p w = Some (True, after s (length (tree_encode rs)) rest, w')"
proof (induction d arbitrary: s fs p w w' rs rest)
  case (Suc d)
  then have table: "table_ok fs" by (simp split: if_splits)
  let ?sub = "\<lambda>i rs p w. apply_message d E (dmessages E i) p rs w"
  let ?st = "\<lparr>dstream = s, dworld = w, diter = snd (pb_field_iter_begin fs p), fields_seen = [0, 0],
          extension_range_start = 0, fixed_count_field = None\<rparr>"
  have sub: "pb_decode_noinit d E s (dmessages E i) q w = Some (True, after s (length (tree_encode rs)) rest, w')"
    if "?sub i rs q w = Some w'" "records_ok rs" "source s = Buffer (tree_encode rs @ rest)"
      "bytes_left s = of_nat (length (tree_encode rs))" "length (tree_encode rs) < 2 ^ 32" for i rs q w w' s rest
    using that by (intro Suc.IH) auto
  have b: "between fs p ?st" using table iter_begin_at [of fs p] by (auto simp: between_def table_ok_def)
  let ?decode = "decode_field E (decode_initialised d E (pb_decode_noinit d E)) (pb_decode_noinit d E)
      (pb_message_set_to_defaults d E) (pb_release_single_field d E)"
  have "\<exists>st'. decode_loop (decode_next E (fixed_count_local E (Suc d)) ?decode) ?st = Some (True, st') \<and>
      between fs p st' \<and> dworld st' = w' \<and> dstream st' = after (dstream ?st) (length (tree_encode rs)) rest"
  proof (rule loop_gives [where sub = ?sub, OF _ table b])
    show "apply_all (apply_record E (pb_message_set_to_defaults d E) ?sub fs p) rs (dworld ?st) = Some w'"
      using Suc.prems(1) by (simp only: decoding.simps apply_message.simps table if_True)
  qed (use Suc.prems in \<open>simp_all only: decoding.simps sub\<close>)
  then obtain st' where st': "decode_loop (decode_next E (fixed_count_local E (Suc d)) ?decode) ?st = Some (True, st')"
    "between fs p st'" "dworld st' = w'" "dstream st' = after s (length (tree_encode rs)) rest"
    by (auto simp only: decoding.simps)
  obtain i where "iter_at fs p i (diter st')" "fixed_count_field st' = None" using st'(2) by (auto simp: between_def)
  with none_required [OF table this(1)] st' show ?case
    by (simp add: decode_message_def fixed_count_wrong_def)
qed simp

end
