(* ===== verification/PbMessages.thy ===== *)
theory PbMessages
  imports PbEncodeCorrect
begin

text \<open>
  The messages of the crash reporter and of the data transport: the tables that the nanopb generator
  wrote for them (\<open>crashlytics.nanopb.c\<close>, \<open>cct.nanopb.c\<close>), made with the macros of \<open>pb.h\<close> from the layout of
  the structures (\<open>crashlytics.nanopb.h\<close>, \<open>cct.nanopb.h\<close>), and the two-pass encoding with which
  \<open>FIRCLSReportAdapter\<close> and \<open>GDTCCTNanopbHelpers\<close> turn a structure into the bytes they send.
\<close>

section \<open>Structures\<close>

text \<open>A structure in C is laid out member by member, each at the next multiple of its alignment; its
  size is a multiple of the largest of them. A member is known by its name, its size and alignment, and
  the size of its first element or of what it points to.\<close>

record c_member =
  member_name :: string
  member_size :: nat
  member_align :: nat
  element_size :: nat

type_synonym c_struct = "c_member list"

definition align_up :: "nat \<Rightarrow> nat \<Rightarrow> nat" where
  "align_up n a = (n + a - 1) div a * a"

fun layout :: "nat \<Rightarrow> c_struct \<Rightarrow> (c_member \<times> nat) list" where
  "layout n [] = []"
| "layout n (m # ms) = (let k = align_up n (member_align m) in (m, k) # layout (k + member_size m) ms)"

definition find_member :: "c_struct \<Rightarrow> string \<Rightarrow> (c_member \<times> nat) option" where
  "find_member st name = find (\<lambda>(m, k). member_name m = name) (layout 0 st)"

definition offsetof :: "c_struct \<Rightarrow> string \<Rightarrow> nat" where
  "offsetof st name = (case find_member st name of Some (m, k) \<Rightarrow> k | None \<Rightarrow> 0)"

definition pb_membersize :: "c_struct \<Rightarrow> string \<Rightarrow> nat" where
  "pb_membersize st name = (case find_member st name of Some (m, k) \<Rightarrow> member_size m | None \<Rightarrow> 0)"

definition pb_elementsize :: "c_struct \<Rightarrow> string \<Rightarrow> nat" where
  "pb_elementsize st name = (case find_member st name of Some (m, k) \<Rightarrow> element_size m | None \<Rightarrow> 0)"

definition struct_align :: "c_struct \<Rightarrow> nat" where
  "struct_align st = foldr max (map member_align st) 1"

definition struct_size :: "c_struct \<Rightarrow> nat" where
  "struct_size st =
     (case rev (layout 0 st) of [] \<Rightarrow> 0 | (m, k) # _ \<Rightarrow> align_up (k + member_size m) (struct_align st))"

text \<open>The types of members, on a 64-bit system.\<close>

definition scalar_member :: "nat \<Rightarrow> string \<Rightarrow> c_member" where
  "scalar_member n name = \<lparr>member_name = name, member_size = n, member_align = n, element_size = n\<rparr>"

abbreviation bool_member :: "string \<Rightarrow> c_member" where "bool_member \<equiv> scalar_member 1"
abbreviation int32_member :: "string \<Rightarrow> c_member" where "int32_member \<equiv> scalar_member 4"
abbreviation enum_member :: "string \<Rightarrow> c_member" where "enum_member \<equiv> scalar_member 4"
abbreviation int64_member :: "string \<Rightarrow> c_member" where "int64_member \<equiv> scalar_member 8"

definition pointer_member :: "string \<Rightarrow> nat \<Rightarrow> c_member" where
  "pointer_member name n = \<lparr>member_name = name, member_size = 8, member_align = 8, element_size = n\<rparr>"

definition struct_member :: "string \<Rightarrow> c_struct \<Rightarrow> c_member" where
  "struct_member name st = \<lparr>member_name = name, member_size = struct_size st, member_align = struct_align st,
     element_size = struct_size st\<rparr>"

text \<open>\<open>sizeof (pb_bytes_array_t)\<close>: a \<open>pb_size_t\<close> and one byte, padded.\<close>

abbreviation pb_bytes_array_t :: nat where "pb_bytes_array_t \<equiv> 8"

section \<open>The macros for descriptors\<close>

datatype pb_type = BOOL | BYTES | DOUBLE | ENUM | UENUM | FIXED32 | FIXED64 | FLOAT | INT32 | INT64
  | MESSAGE | SFIXED32 | SFIXED64 | SINT32 | SINT64 | STRING | UINT32 | UINT64 | EXTENSION | FIXED_LENGTH_BYTES

datatype pb_rules = REQUIRED | OPTIONAL | SINGULAR | REPEATED

datatype pb_allocation = STATIC | POINTER | CALLBACK

datatype pb_placement = FIRST | OTHER | UNION

fun PB_LTYPE_MAP :: "pb_type \<Rightarrow> u8" where
  "PB_LTYPE_MAP BOOL = PB_LTYPE_BOOL"
| "PB_LTYPE_MAP BYTES = PB_LTYPE_BYTES"
| "PB_LTYPE_MAP DOUBLE = PB_LTYPE_FIXED64"
| "PB_LTYPE_MAP ENUM = PB_LTYPE_VARINT"
| "PB_LTYPE_MAP UENUM = PB_LTYPE_UVARINT"
| "PB_LTYPE_MAP FIXED32 = PB_LTYPE_FIXED32"
| "PB_LTYPE_MAP FIXED64 = PB_LTYPE_FIXED64"
| "PB_LTYPE_MAP FLOAT = PB_LTYPE_FIXED32"
| "PB_LTYPE_MAP INT32 = PB_LTYPE_VARINT"
| "PB_LTYPE_MAP INT64 = PB_LTYPE_VARINT"
| "PB_LTYPE_MAP MESSAGE = PB_LTYPE_SUBMESSAGE"
| "PB_LTYPE_MAP SFIXED32 = PB_LTYPE_FIXED32"
| "PB_LTYPE_MAP SFIXED64 = PB_LTYPE_FIXED64"
| "PB_LTYPE_MAP SINT32 = PB_LTYPE_SVARINT"
| "PB_LTYPE_MAP SINT64 = PB_LTYPE_SVARINT"
| "PB_LTYPE_MAP STRING = PB_LTYPE_STRING"
| "PB_LTYPE_MAP UINT32 = PB_LTYPE_UVARINT"
| "PB_LTYPE_MAP UINT64 = PB_LTYPE_UVARINT"
| "PB_LTYPE_MAP EXTENSION = PB_LTYPE_EXTENSION"
| "PB_LTYPE_MAP FIXED_LENGTH_BYTES = PB_LTYPE_FIXED_LENGTH_BYTES"

text \<open>The three placements; \<open>m2\<close> is the previous member.\<close>

fun PB_DATAOFFSET :: "pb_placement \<Rightarrow> c_struct \<Rightarrow> string \<Rightarrow> string \<Rightarrow> u32" where
  "PB_DATAOFFSET FIRST st m1 m2 = of_nat (offsetof st m1)"
| "PB_DATAOFFSET OTHER st m1 m2 = of_nat (offsetof st m1) - of_nat (offsetof st m2) - of_nat (pb_membersize st m2)"
| "PB_DATAOFFSET UNION st m1 m2 = PB_SIZE_MAX"

definition pb_delta :: "c_struct \<Rightarrow> string \<Rightarrow> string \<Rightarrow> u32" where
  "pb_delta st m1 m2 = of_nat (offsetof st m1) - of_nat (offsetof st m2)"

definition pb_arraysize :: "c_struct \<Rightarrow> string \<Rightarrow> nat" where
  "pb_arraysize st m = pb_membersize st m div pb_elementsize st m"

definition pb_field_entry :: "u32 \<Rightarrow> u8 \<Rightarrow> u32 \<Rightarrow> u32 \<Rightarrow> nat \<Rightarrow> nat \<Rightarrow> pb_ptr \<Rightarrow> pb_field" where
  "pb_field_entry t type fd delta dsize asize p =
     \<lparr>tag = t, ftype = type, data_offset = fd, size_offset = delta, data_size = of_nat dsize,
      array_size = of_nat asize, ptr = p\<rparr>"

text \<open>\<open>PB_REQUIRED_STATIC\<close>, \<open>PB_OPTIONAL_STATIC\<close> and the others: one macro for each rule and allocation.\<close>

fun PB_RULES_ALLOCATION ::
    "pb_rules \<Rightarrow> pb_allocation \<Rightarrow> u32 \<Rightarrow> c_struct \<Rightarrow> string \<Rightarrow> u32 \<Rightarrow> u8 \<Rightarrow> pb_ptr \<Rightarrow> pb_field" where
  "PB_RULES_ALLOCATION REQUIRED STATIC t st m fd ltype p =
     pb_field_entry t (PB_ATYPE_STATIC OR PB_HTYPE_REQUIRED OR ltype) fd 0 (pb_membersize st m) 0 p"
| "PB_RULES_ALLOCATION OPTIONAL STATIC t st m fd ltype p =
     pb_field_entry t (PB_ATYPE_STATIC OR PB_HTYPE_OPTIONAL OR ltype) fd (pb_delta st (''has_'' @ m) m) (pb_membersize st m) 0 p"
| "PB_RULES_ALLOCATION SINGULAR STATIC t st m fd ltype p =
     pb_field_entry t (PB_ATYPE_STATIC OR PB_HTYPE_OPTIONAL OR ltype) fd 0 (pb_membersize st m) 0 p"
| "PB_RULES_ALLOCATION REPEATED STATIC t st m fd ltype p =
     pb_field_entry t (PB_ATYPE_STATIC OR PB_HTYPE_REPEATED OR ltype) fd (pb_delta st (m @ ''_count'') m)
       (pb_elementsize st m) (pb_arraysize st m) p"
| "PB_RULES_ALLOCATION REQUIRED POINTER t st m fd ltype p =
     pb_field_entry t (PB_ATYPE_POINTER OR PB_HTYPE_REQUIRED OR ltype) fd 0 (pb_elementsize st m) 0 p"
| "PB_RULES_ALLOCATION OPTIONAL POINTER t st m fd ltype p =
     pb_field_entry t (PB_ATYPE_POINTER OR PB_HTYPE_OPTIONAL OR ltype) fd 0 (pb_elementsize st m) 0 p"
| "PB_RULES_ALLOCATION SINGULAR POINTER t st m fd ltype p =
     pb_field_entry t (PB_ATYPE_POINTER OR PB_HTYPE_OPTIONAL OR ltype) fd 0 (pb_elementsize st m) 0 p"
| "PB_RULES_ALLOCATION REPEATED POINTER t st m fd ltype p =
     pb_field_entry t (PB_ATYPE_POINTER OR PB_HTYPE_REPEATED OR ltype) fd (pb_delta st (m @ ''_count'') m)
       (pb_elementsize st m) 0 p"
| "PB_RULES_ALLOCATION REQUIRED CALLBACK t st m fd ltype p =
     pb_field_entry t (PB_ATYPE_CALLBACK OR PB_HTYPE_REQUIRED OR ltype) fd 0 (pb_membersize st m) 0 p"
| "PB_RULES_ALLOCATION OPTIONAL CALLBACK t st m fd ltype p =
     pb_field_entry t (PB_ATYPE_CALLBACK OR PB_HTYPE_OPTIONAL OR ltype) fd 0 (pb_membersize st m) 0 p"
| "PB_RULES_ALLOCATION SINGULAR CALLBACK t st m fd ltype p =
     pb_field_entry t (PB_ATYPE_CALLBACK OR PB_HTYPE_OPTIONAL OR ltype) fd 0 (pb_membersize st m) 0 p"
| "PB_RULES_ALLOCATION REPEATED CALLBACK t st m fd ltype p =
     pb_field_entry t (PB_ATYPE_CALLBACK OR PB_HTYPE_REPEATED OR ltype) fd 0 (pb_membersize st m) 0 p"

definition PB_FIELD ::
    "u32 \<Rightarrow> pb_type \<Rightarrow> pb_rules \<Rightarrow> pb_allocation \<Rightarrow> pb_placement \<Rightarrow> c_struct \<Rightarrow> string \<Rightarrow> string \<Rightarrow> pb_ptr \<Rightarrow> pb_field" where
  "PB_FIELD t type rules allocation placement message field prevfield p =
     PB_RULES_ALLOCATION rules allocation t message field (PB_DATAOFFSET placement message field prevfield)
       (PB_LTYPE_MAP type) p"

section \<open>The crash report\<close>

definition google_crashlytics_FilesPayload_File :: c_struct where
  "google_crashlytics_FilesPayload_File =
     [pointer_member ''filename'' pb_bytes_array_t,
      pointer_member ''contents'' pb_bytes_array_t]"

definition google_crashlytics_FilesPayload :: c_struct where
  "google_crashlytics_FilesPayload =
     [int32_member ''files_count'',
      pointer_member ''files'' (struct_size google_crashlytics_FilesPayload_File)]"

definition google_crashlytics_Report :: c_struct where
  "google_crashlytics_Report =
     [pointer_member ''sdk_version'' pb_bytes_array_t,
      pointer_member ''gmp_app_id'' pb_bytes_array_t,
      enum_member ''platform'',
      pointer_member ''installation_uuid'' pb_bytes_array_t,
      pointer_member ''build_version'' pb_bytes_array_t,
      pointer_member ''display_version'' pb_bytes_array_t,
      struct_member ''apple_payload'' google_crashlytics_FilesPayload]"

abbreviation google_crashlytics_Report_id :: nat where "google_crashlytics_Report_id \<equiv> 0"
abbreviation google_crashlytics_FilesPayload_id :: nat where "google_crashlytics_FilesPayload_id \<equiv> 1"
abbreviation google_crashlytics_FilesPayload_File_id :: nat where "google_crashlytics_FilesPayload_File_id \<equiv> 2"

definition google_crashlytics_Report_fields :: pb_fields where
  "google_crashlytics_Report_fields =
     [PB_FIELD 1 BYTES SINGULAR POINTER FIRST google_crashlytics_Report ''sdk_version'' ''sdk_version'' NoPtr,
      PB_FIELD 3 BYTES SINGULAR POINTER OTHER google_crashlytics_Report ''gmp_app_id'' ''sdk_version'' NoPtr,
      PB_FIELD 4 UENUM SINGULAR STATIC OTHER google_crashlytics_Report ''platform'' ''gmp_app_id'' NoPtr,
      PB_FIELD 5 BYTES SINGULAR POINTER OTHER google_crashlytics_Report ''installation_uuid'' ''platform'' NoPtr,
      PB_FIELD 6 BYTES SINGULAR POINTER OTHER google_crashlytics_Report ''build_version'' ''installation_uuid'' NoPtr,
      PB_FIELD 7 BYTES SINGULAR POINTER OTHER google_crashlytics_Report ''display_version'' ''build_version'' NoPtr,
      PB_FIELD 10 MESSAGE SINGULAR STATIC OTHER google_crashlytics_Report
          ''apple_payload'' ''display_version'' (Submessage google_crashlytics_FilesPayload_id)]"

definition google_crashlytics_FilesPayload_fields :: pb_fields where
  "google_crashlytics_FilesPayload_fields =
     [PB_FIELD 1 MESSAGE REPEATED POINTER FIRST google_crashlytics_FilesPayload
          ''files'' ''files'' (Submessage google_crashlytics_FilesPayload_File_id)]"

definition google_crashlytics_FilesPayload_File_fields :: pb_fields where
  "google_crashlytics_FilesPayload_File_fields =
     [PB_FIELD 1 BYTES SINGULAR POINTER FIRST google_crashlytics_FilesPayload_File ''filename'' ''filename'' NoPtr,
      PB_FIELD 2 BYTES SINGULAR POINTER OTHER google_crashlytics_FilesPayload_File ''contents'' ''filename'' NoPtr]"

definition crashlytics_messages :: "nat \<Rightarrow> pb_fields" where
  "crashlytics_messages i =
     (let tables = [google_crashlytics_Report_fields,
        google_crashlytics_FilesPayload_fields,
        google_crashlytics_FilesPayload_File_fields]
      in if i < length tables then tables ! i else [])"

definition crashlytics_structs :: "nat \<Rightarrow> c_struct" where
  "crashlytics_structs i =
     (let structs = [google_crashlytics_Report,
        google_crashlytics_FilesPayload,
        google_crashlytics_FilesPayload_File]
      in if i < length structs then structs ! i else [])"


section \<open>The log request and its response\<close>

definition gdt_cct_IosClientInfo :: c_struct where
  "gdt_cct_IosClientInfo =
     [pointer_member ''os_major_version'' pb_bytes_array_t,
      pointer_member ''os_full_version'' pb_bytes_array_t,
      pointer_member ''application_build'' pb_bytes_array_t,
      pointer_member ''country'' pb_bytes_array_t,
      pointer_member ''model'' pb_bytes_array_t,
      pointer_member ''language_code'' pb_bytes_array_t,
      pointer_member ''application_bundle_id'' pb_bytes_array_t]"

definition gdt_cct_ClientInfo :: c_struct where
  "gdt_cct_ClientInfo =
     [bool_member ''has_client_type'',
      enum_member ''client_type'',
      bool_member ''has_ios_client_info'',
      struct_member ''ios_client_info'' gdt_cct_IosClientInfo]"

definition gdt_cct_NetworkConnectionInfo :: c_struct where
  "gdt_cct_NetworkConnectionInfo =
     [bool_member ''has_network_type'',
      enum_member ''network_type'',
      bool_member ''has_mobile_subtype'',
      enum_member ''mobile_subtype'']"

definition gdt_cct_LogEvent :: c_struct where
  "gdt_cct_LogEvent =
     [bool_member ''has_event_time_ms'',
      int64_member ''event_time_ms'',
      pointer_member ''source_extension'' pb_bytes_array_t,
      bool_member ''has_event_code'',
      int32_member ''event_code'',
      bool_member ''has_timezone_offset_seconds'',
      int64_member ''timezone_offset_seconds'',
      bool_member ''has_event_uptime_ms'',
      int64_member ''event_uptime_ms'',
      bool_member ''has_network_connection_info'',
      struct_member ''network_connection_info'' gdt_cct_NetworkConnectionInfo]"

definition gdt_cct_LogRequest :: c_struct where
  "gdt_cct_LogRequest =
     [bool_member ''has_client_info'',
      struct_member ''client_info'' gdt_cct_ClientInfo,
      bool_member ''has_log_source'',
      int32_member ''log_source'',
      int32_member ''log_event_count'',
      pointer_member ''log_event'' (struct_size gdt_cct_LogEvent),
      bool_member ''has_request_time_ms'',
      int64_member ''request_time_ms'',
      bool_member ''has_request_uptime_ms'',
      int64_member ''request_uptime_ms'',
      bool_member ''has_qos_tier'',
      enum_member ''qos_tier'']"

definition gdt_cct_BatchedLogRequest :: c_struct where
  "gdt_cct_BatchedLogRequest =
     [int32_member ''log_request_count'',
      pointer_member ''log_request'' (struct_size gdt_cct_LogRequest)]"

definition gdt_cct_QosTierConfiguration :: c_struct where
  "gdt_cct_QosTierConfiguration =
     [bool_member ''has_qos_tier'',
      enum_member ''qos_tier'',
      bool_member ''has_log_source'',
      int32_member ''log_source'']"

definition gdt_cct_QosTiersOverride :: c_struct where
  "gdt_cct_QosTiersOverride =
     [int32_member ''qos_tier_configuration_count'',
      pointer_member ''qos_tier_configuration'' (struct_size gdt_cct_QosTierConfiguration),
      bool_member ''has_qos_tier_fingerprint'',
      int64_member ''qos_tier_fingerprint'']"

definition gdt_cct_LogResponse :: c_struct where
  "gdt_cct_LogResponse =
     [bool_member ''has_next_request_wait_millis'',
      int64_member ''next_request_wait_millis'',
      bool_member ''has_qos_tier'',
      struct_member ''qos_tier'' gdt_cct_QosTiersOverride]"

abbreviation gdt_cct_LogEvent_id :: nat where "gdt_cct_LogEvent_id \<equiv> 0"
abbreviation gdt_cct_NetworkConnectionInfo_id :: nat where "gdt_cct_NetworkConnectionInfo_id \<equiv> 1"
abbreviation gdt_cct_IosClientInfo_id :: nat where "gdt_cct_IosClientInfo_id \<equiv> 2"
abbreviation gdt_cct_ClientInfo_id :: nat where "gdt_cct_ClientInfo_id \<equiv> 3"
abbreviation gdt_cct_BatchedLogRequest_id :: nat where "gdt_cct_BatchedLogRequest_id \<equiv> 4"
abbreviation gdt_cct_LogRequest_id :: nat where "gdt_cct_LogRequest_id \<equiv> 5"
abbreviation gdt_cct_QosTierConfiguration_id :: nat where "gdt_cct_QosTierConfiguration_id \<equiv> 6"
abbreviation gdt_cct_QosTiersOverride_id :: nat where "gdt_cct_QosTiersOverride_id \<equiv> 7"
abbreviation gdt_cct_LogResponse_id :: nat where "gdt_cct_LogResponse_id \<equiv> 8"

definition gdt_cct_LogEvent_fields :: pb_fields where
  "gdt_cct_LogEvent_fields =
     [PB_FIELD 1 INT64 OPTIONAL STATIC FIRST gdt_cct_LogEvent ''event_time_ms'' ''event_time_ms'' NoPtr,
      PB_FIELD 6 BYTES OPTIONAL POINTER OTHER gdt_cct_LogEvent ''source_extension'' ''event_time_ms'' NoPtr,
      PB_FIELD 11 INT32 OPTIONAL STATIC OTHER gdt_cct_LogEvent ''event_code'' ''source_extension'' NoPtr,
      PB_FIELD 15 SINT64 OPTIONAL STATIC OTHER gdt_cct_LogEvent ''timezone_offset_seconds'' ''event_code'' NoPtr,
      PB_FIELD 17 INT64 OPTIONAL STATIC OTHER gdt_cct_LogEvent ''event_uptime_ms'' ''timezone_offset_seconds'' NoPtr,
      PB_FIELD 23 MESSAGE OPTIONAL STATIC OTHER gdt_cct_LogEvent
          ''network_connection_info'' ''event_uptime_ms'' (Submessage gdt_cct_NetworkConnectionInfo_id)]"

definition gdt_cct_NetworkConnectionInfo_fields :: pb_fields where
  "gdt_cct_NetworkConnectionInfo_fields =
     [PB_FIELD 1 ENUM OPTIONAL STATIC FIRST gdt_cct_NetworkConnectionInfo
          ''network_type'' ''network_type'' (DefaultValue [0xFF, 0xFF, 0xFF, 0xFF]),
      PB_FIELD 2 UENUM OPTIONAL STATIC OTHER gdt_cct_NetworkConnectionInfo
          ''mobile_subtype'' ''network_type'' (DefaultValue [0, 0, 0, 0])]"

definition gdt_cct_IosClientInfo_fields :: pb_fields where
  "gdt_cct_IosClientInfo_fields =
     [PB_FIELD 3 BYTES OPTIONAL POINTER FIRST gdt_cct_IosClientInfo ''os_major_version'' ''os_major_version'' NoPtr,
      PB_FIELD 4 BYTES OPTIONAL POINTER OTHER gdt_cct_IosClientInfo ''os_full_version'' ''os_major_version'' NoPtr,
      PB_FIELD 5 BYTES OPTIONAL POINTER OTHER gdt_cct_IosClientInfo ''application_build'' ''os_full_version'' NoPtr,
      PB_FIELD 6 BYTES OPTIONAL POINTER OTHER gdt_cct_IosClientInfo ''country'' ''application_build'' NoPtr,
      PB_FIELD 7 BYTES OPTIONAL POINTER OTHER gdt_cct_IosClientInfo ''model'' ''country'' NoPtr,
      PB_FIELD 8 BYTES OPTIONAL POINTER OTHER gdt_cct_IosClientInfo ''language_code'' ''model'' NoPtr,
      PB_FIELD 11 BYTES OPTIONAL POINTER OTHER gdt_cct_IosClientInfo
          ''application_bundle_id'' ''language_code'' NoPtr]"

definition gdt_cct_ClientInfo_fields :: pb_fields where
  "gdt_cct_ClientInfo_fields =
     [PB_FIELD 1 UENUM OPTIONAL STATIC FIRST gdt_cct_ClientInfo ''client_type'' ''client_type'' NoPtr,
      PB_FIELD 4 MESSAGE OPTIONAL STATIC OTHER gdt_cct_ClientInfo
          ''ios_client_info'' ''client_type'' (Submessage gdt_cct_IosClientInfo_id)]"

definition gdt_cct_BatchedLogRequest_fields :: pb_fields where
  "gdt_cct_BatchedLogRequest_fields =
     [PB_FIELD 1 MESSAGE REPEATED POINTER FIRST gdt_cct_BatchedLogRequest
          ''log_request'' ''log_request'' (Submessage gdt_cct_LogRequest_id)]"

definition gdt_cct_LogRequest_fields :: pb_fields where
  "gdt_cct_LogRequest_fields =
     [PB_FIELD 1 MESSAGE OPTIONAL STATIC FIRST gdt_cct_LogRequest
          ''client_info'' ''client_info'' (Submessage gdt_cct_ClientInfo_id),
      PB_FIELD 2 INT32 OPTIONAL STATIC OTHER gdt_cct_LogRequest ''log_source'' ''client_info'' NoPtr,
      PB_FIELD 3 MESSAGE REPEATED POINTER OTHER gdt_cct_LogRequest
          ''log_event'' ''log_source'' (Submessage gdt_cct_LogEvent_id),
      PB_FIELD 4 INT64 OPTIONAL STATIC OTHER gdt_cct_LogRequest ''request_time_ms'' ''log_event'' NoPtr,
      PB_FIELD 8 INT64 OPTIONAL STATIC OTHER gdt_cct_LogRequest ''request_uptime_ms'' ''request_time_ms'' NoPtr,
      PB_FIELD 9 UENUM OPTIONAL STATIC OTHER gdt_cct_LogRequest
          ''qos_tier'' ''request_uptime_ms'' (DefaultValue [0, 0, 0, 0])]"

definition gdt_cct_QosTierConfiguration_fields :: pb_fields where
  "gdt_cct_QosTierConfiguration_fields =
     [PB_FIELD 2 UENUM OPTIONAL STATIC FIRST gdt_cct_QosTierConfiguration ''qos_tier'' ''qos_tier'' NoPtr,
      PB_FIELD 3 INT32 OPTIONAL STATIC OTHER gdt_cct_QosTierConfiguration
          ''log_source'' ''qos_tier'' (DefaultValue [0, 0, 0, 0])]"

definition gdt_cct_QosTiersOverride_fields :: pb_fields where
  "gdt_cct_QosTiersOverride_fields =
     [PB_FIELD 1 MESSAGE REPEATED POINTER FIRST gdt_cct_QosTiersOverride
          ''qos_tier_configuration'' ''qos_tier_configuration'' (Submessage gdt_cct_QosTierConfiguration_id),
      PB_FIELD 2 INT64 OPTIONAL STATIC OTHER gdt_cct_QosTiersOverride
          ''qos_tier_fingerprint'' ''qos_tier_configuration'' NoPtr]"

definition gdt_cct_LogResponse_fields :: pb_fields where
  "gdt_cct_LogResponse_fields =
     [PB_FIELD 1 INT64 OPTIONAL STATIC FIRST gdt_cct_LogResponse
          ''next_request_wait_millis'' ''next_request_wait_millis'' NoPtr,
      PB_FIELD 3 MESSAGE OPTIONAL STATIC OTHER gdt_cct_LogResponse
          ''qos_tier'' ''next_request_wait_millis'' (Submessage gdt_cct_QosTiersOverride_id)]"

definition cct_messages :: "nat \<Rightarrow> pb_fields" where
  "cct_messages i =
     (let tables = [gdt_cct_LogEvent_fields,
        gdt_cct_NetworkConnectionInfo_fields,
        gdt_cct_IosClientInfo_fields,
        gdt_cct_ClientInfo_fields,
        gdt_cct_BatchedLogRequest_fields,
        gdt_cct_LogRequest_fields,
        gdt_cct_QosTierConfiguration_fields,
        gdt_cct_QosTiersOverride_fields,
        gdt_cct_LogResponse_fields]
      in if i < length tables then tables ! i else [])"

definition cct_structs :: "nat \<Rightarrow> c_struct" where
  "cct_structs i =
     (let structs = [gdt_cct_LogEvent,
        gdt_cct_NetworkConnectionInfo,
        gdt_cct_IosClientInfo,
        gdt_cct_ClientInfo,
        gdt_cct_BatchedLogRequest,
        gdt_cct_LogRequest,
        gdt_cct_QosTierConfiguration,
        gdt_cct_QosTiersOverride,
        gdt_cct_LogResponse]
      in if i < length structs then structs ! i else [])"



section \<open>The tables describe the structures\<close>

text \<open>What a message is declared as: its fields, each with its tag, type, rule, allocation and name.
  The generator writes the structure and the table from it.\<close>

datatype field_decl =
  Field (d_tag: u32) (d_type: pb_type) (d_rules: pb_rules) (d_allocation: pb_allocation) (d_name: string)
    (d_ptr: pb_ptr)

fun later_fields :: "c_struct \<Rightarrow> string \<Rightarrow> field_decl list \<Rightarrow> pb_fields" where
  "later_fields st prev [] = []"
| "later_fields st prev (d # ds) =
     PB_FIELD (d_tag d) (d_type d) (d_rules d) (d_allocation d) OTHER st (d_name d) prev (d_ptr d) #
     later_fields st (d_name d) ds"

fun table_of :: "c_struct \<Rightarrow> field_decl list \<Rightarrow> pb_fields" where
  "table_of st [] = []"
| "table_of st (d # ds) =
     PB_FIELD (d_tag d) (d_type d) (d_rules d) (d_allocation d) FIRST st (d_name d) (d_name d) (d_ptr d) #
     later_fields st (d_name d) ds"

text \<open>The member that says whether a field is there, or how often; the field itself if there is none.\<close>

fun size_member :: "field_decl \<Rightarrow> string" where
  "size_member (Field t ty OPTIONAL STATIC name q) = ''has_'' @ name"
| "size_member (Field t ty REPEATED STATIC name q) = name @ ''_count''"
| "size_member (Field t ty REPEATED POINTER name q) = name @ ''_count''"
| "size_member d = d_name d"

definition element_sized :: "field_decl \<Rightarrow> bool" where
  "element_sized d \<longleftrightarrow> d_allocation d = POINTER \<or> d_rules d = REPEATED \<and> d_allocation d = STATIC"

definition auxiliary_member :: "string \<Rightarrow> bool" where
  "auxiliary_member name \<longleftrightarrow> take 4 name = ''has_'' \<or> drop (length name - 6) name = ''_count''"

definition data_members :: "c_struct \<Rightarrow> string list" where
  "data_members st = filter (\<lambda>n. \<not> auxiliary_member n) (map member_name st)"

text \<open>A structure for the declared fields: its members, other than the \<open>has_\<close> and \<open>_count\<close> members, are
  the fields in their order; the \<open>has_\<close> and \<open>_count\<close> members that the macros name are there; a
  pointer has 8 bytes and an array a whole number of elements; and it is smaller than 2 GB.\<close>

definition field_declared :: "c_struct \<Rightarrow> field_decl \<Rightarrow> bool" where
  "field_declared st d \<longleftrightarrow> d_tag d \<noteq> 0 \<and> size_member d \<in> set (map member_name st) \<and>
     (d_allocation d = POINTER \<longrightarrow> pb_membersize st (d_name d) = 8) \<and>
     (d_rules d = REPEATED \<and> d_allocation d = STATIC \<longrightarrow>
        pb_elementsize st (d_name d) dvd pb_membersize st (d_name d)) \<and>
     pb_elementsize st (d_name d) < 2 ^ 31"

definition declares :: "c_struct \<Rightarrow> field_decl list \<Rightarrow> bool" where
  "declares st ds \<longleftrightarrow> map d_name ds = data_members st \<and> distinct (map member_name st) \<and>
     list_all (\<lambda>m. 0 < member_align m) st \<and> struct_size st < 2 ^ 31 \<and> list_all (field_declared st) ds"

subsection \<open>Where members are\<close>

lemma align_up_le: "0 < a \<Longrightarrow> n \<le> align_up n a"
proof -
  assume a: "0 < a"
  have "(n + a - 1) div a * a + (n + a - 1) mod a = n + a - 1" by (rule div_mult_mod_eq)
  moreover have "(n + a - 1) mod a < a" using a by (rule mod_less_divisor)
  ultimately show ?thesis using a unfolding align_up_def by linarith
qed

lemma layout_members: "map fst (layout n st) = st"
  by (induction st arbitrary: n) (simp_all add: Let_def)

lemma layout_from:
  "list_all (\<lambda>m. 0 < member_align m) st \<Longrightarrow> (m, k) \<in> set (layout n st) \<Longrightarrow> n \<le> k"
proof (induction st arbitrary: n)
  case (Cons a st)
  let ?k = "align_up n (member_align a)"
  have "n \<le> ?k" using Cons.prems(1) align_up_le by simp
  moreover have "(m, k) \<in> set (layout (?k + member_size a) st) \<Longrightarrow> ?k + member_size a \<le> k"
    using Cons by simp
  ultimately show ?case using Cons.prems(2) by (auto simp: Let_def)
qed simp

definition before :: "c_member \<times> nat \<Rightarrow> c_member \<times> nat \<Rightarrow> bool" where
  "before x y \<longleftrightarrow> snd x + member_size (fst x) \<le> snd y"

lemma layout_sorted:
  "list_all (\<lambda>m. 0 < member_align m) st \<Longrightarrow> sorted_wrt before (layout n st)"
proof (induction st arbitrary: n)
  case (Cons a st)
  then show ?case
    using layout_from [of st _ _ "align_up n (member_align a) + member_size a"]
    by (auto simp: Let_def before_def)
qed simp

lemma layout_in_struct:
  assumes al: "list_all (\<lambda>m. 0 < member_align m) st" and x: "(m, k) \<in> set (layout 0 st)"
  shows "k + member_size m \<le> struct_size st"
proof -
  have a: "1 \<le> struct_align st"
    unfolding struct_align_def by (induction st) auto
  obtain m' k' r where l: "rev (layout 0 st) = (m', k') # r"
    using x by (cases "rev (layout 0 st)") auto
  then have lay: "layout 0 st = rev r @ [(m', k')]" by (simp add: rev_eq_Cons_iff)
  have "k + member_size m \<le> k' + member_size m'"
    using layout_sorted [OF al, of 0] x unfolding lay by (auto simp: sorted_wrt_append before_def)
  also have "\<dots> \<le> struct_size st"
    using a align_up_le [of "struct_align st" "k' + member_size m'"] by (simp add: struct_size_def l)
  finally show ?thesis .
qed

lemma find_member_layout:
  assumes "distinct (map member_name st)" "x \<in> set (layout 0 st)"
  shows "find_member st (member_name (fst x)) = Some x"
proof -
  have d: "distinct (map (member_name \<circ> fst) (layout 0 st))"
    using assms(1) layout_members [of 0 st] by (metis map_map)
  then have "find (\<lambda>y. member_name (fst y) = member_name (fst x)) l = Some x"
    if "x \<in> set l" "distinct (map (member_name \<circ> fst) l)" for l
    using that by (induction l) (auto simp: image_iff)
  from this [OF assms(2) d] show ?thesis
    by (simp add: find_member_def case_prod_beta' comp_def)
qed

text \<open>The members named in the order of the structure lie one after the other.\<close>

lemma members_ordered:
  assumes "distinct (map member_name st)" "list_all (\<lambda>m. 0 < member_align m) st"
  shows "sorted_wrt (\<lambda>a b. offsetof st a + pb_membersize st a \<le> offsetof st b) (map member_name st)"
proof -
  have names: "map member_name st = map (member_name \<circ> fst) (layout 0 st)"
    using layout_members [of 0 st] by (metis map_map)
  have at: "offsetof st (member_name (fst x)) = snd x"
    "pb_membersize st (member_name (fst x)) = member_size (fst x)" if "x \<in> set (layout 0 st)" for x
    using find_member_layout [OF assms(1) that] by (simp_all add: offsetof_def pb_membersize_def case_prod_beta')
  show ?thesis
    unfolding names sorted_wrt_map
    by (rule sorted_wrt_mono_rel [OF _ layout_sorted [OF assms(2), of 0]]) (simp add: at before_def)
qed

lemma member_in_struct:
  assumes "distinct (map member_name st)" "list_all (\<lambda>m. 0 < member_align m) st"
    and "name \<in> set (map member_name st)"
  shows "offsetof st name + pb_membersize st name \<le> struct_size st"
proof -
  have "name \<in> set (map (member_name \<circ> fst) (layout 0 st))"
    using assms(3) layout_members [of 0 st] by (metis map_map)
  then obtain x where x: "x \<in> set (layout 0 st)" "name = member_name (fst x)" by auto
  then show ?thesis
    using find_member_layout [OF assms(1) x(1)] layout_in_struct [OF assms(2), of "fst x" "snd x"]
    by (simp add: offsetof_def pb_membersize_def case_prod_beta')
qed

subsection \<open>The messages of the crash reporter and of the transport\<close>

definition google_crashlytics_Report_decl :: "field_decl list" where
  "google_crashlytics_Report_decl =
     [Field 1 BYTES SINGULAR POINTER ''sdk_version'' NoPtr,
      Field 3 BYTES SINGULAR POINTER ''gmp_app_id'' NoPtr,
      Field 4 UENUM SINGULAR STATIC ''platform'' NoPtr,
      Field 5 BYTES SINGULAR POINTER ''installation_uuid'' NoPtr,
      Field 6 BYTES SINGULAR POINTER ''build_version'' NoPtr,
      Field 7 BYTES SINGULAR POINTER ''display_version'' NoPtr,
      Field 10 MESSAGE SINGULAR STATIC ''apple_payload'' (Submessage google_crashlytics_FilesPayload_id)]"

definition google_crashlytics_FilesPayload_decl :: "field_decl list" where
  "google_crashlytics_FilesPayload_decl =
     [Field 1 MESSAGE REPEATED POINTER ''files'' (Submessage google_crashlytics_FilesPayload_File_id)]"

definition google_crashlytics_FilesPayload_File_decl :: "field_decl list" where
  "google_crashlytics_FilesPayload_File_decl =
     [Field 1 BYTES SINGULAR POINTER ''filename'' NoPtr,
      Field 2 BYTES SINGULAR POINTER ''contents'' NoPtr]"

definition gdt_cct_LogEvent_decl :: "field_decl list" where
  "gdt_cct_LogEvent_decl =
     [Field 1 INT64 OPTIONAL STATIC ''event_time_ms'' NoPtr,
      Field 6 BYTES OPTIONAL POINTER ''source_extension'' NoPtr,
      Field 11 INT32 OPTIONAL STATIC ''event_code'' NoPtr,
      Field 15 SINT64 OPTIONAL STATIC ''timezone_offset_seconds'' NoPtr,
      Field 17 INT64 OPTIONAL STATIC ''event_uptime_ms'' NoPtr,
      Field 23 MESSAGE OPTIONAL STATIC ''network_connection_info'' (Submessage gdt_cct_NetworkConnectionInfo_id)]"

definition gdt_cct_NetworkConnectionInfo_decl :: "field_decl list" where
  "gdt_cct_NetworkConnectionInfo_decl =
     [Field 1 ENUM OPTIONAL STATIC ''network_type'' (DefaultValue [0xFF, 0xFF, 0xFF, 0xFF]),
      Field 2 UENUM OPTIONAL STATIC ''mobile_subtype'' (DefaultValue [0, 0, 0, 0])]"

definition gdt_cct_IosClientInfo_decl :: "field_decl list" where
  "gdt_cct_IosClientInfo_decl =
     [Field 3 BYTES OPTIONAL POINTER ''os_major_version'' NoPtr,
      Field 4 BYTES OPTIONAL POINTER ''os_full_version'' NoPtr,
      Field 5 BYTES OPTIONAL POINTER ''application_build'' NoPtr,
      Field 6 BYTES OPTIONAL POINTER ''country'' NoPtr,
      Field 7 BYTES OPTIONAL POINTER ''model'' NoPtr,
      Field 8 BYTES OPTIONAL POINTER ''language_code'' NoPtr,
      Field 11 BYTES OPTIONAL POINTER ''application_bundle_id'' NoPtr]"

definition gdt_cct_ClientInfo_decl :: "field_decl list" where
  "gdt_cct_ClientInfo_decl =
     [Field 1 UENUM OPTIONAL STATIC ''client_type'' NoPtr,
      Field 4 MESSAGE OPTIONAL STATIC ''ios_client_info'' (Submessage gdt_cct_IosClientInfo_id)]"

definition gdt_cct_BatchedLogRequest_decl :: "field_decl list" where
  "gdt_cct_BatchedLogRequest_decl =
     [Field 1 MESSAGE REPEATED POINTER ''log_request'' (Submessage gdt_cct_LogRequest_id)]"

definition gdt_cct_LogRequest_decl :: "field_decl list" where
  "gdt_cct_LogRequest_decl =
     [Field 1 MESSAGE OPTIONAL STATIC ''client_info'' (Submessage gdt_cct_ClientInfo_id),
      Field 2 INT32 OPTIONAL STATIC ''log_source'' NoPtr,
      Field 3 MESSAGE REPEATED POINTER ''log_event'' (Submessage gdt_cct_LogEvent_id),
      Field 4 INT64 OPTIONAL STATIC ''request_time_ms'' NoPtr,
      Field 8 INT64 OPTIONAL STATIC ''request_uptime_ms'' NoPtr,
      Field 9 UENUM OPTIONAL STATIC ''qos_tier'' (DefaultValue [0, 0, 0, 0])]"

definition gdt_cct_QosTierConfiguration_decl :: "field_decl list" where
  "gdt_cct_QosTierConfiguration_decl =
     [Field 2 UENUM OPTIONAL STATIC ''qos_tier'' NoPtr,
      Field 3 INT32 OPTIONAL STATIC ''log_source'' (DefaultValue [0, 0, 0, 0])]"

definition gdt_cct_QosTiersOverride_decl :: "field_decl list" where
  "gdt_cct_QosTiersOverride_decl =
     [Field 1 MESSAGE REPEATED POINTER ''qos_tier_configuration'' (Submessage gdt_cct_QosTierConfiguration_id),
      Field 2 INT64 OPTIONAL STATIC ''qos_tier_fingerprint'' NoPtr]"

definition gdt_cct_LogResponse_decl :: "field_decl list" where
  "gdt_cct_LogResponse_decl =
     [Field 1 INT64 OPTIONAL STATIC ''next_request_wait_millis'' NoPtr,
      Field 3 MESSAGE OPTIONAL STATIC ''qos_tier'' (Submessage gdt_cct_QosTiersOverride_id)]"

definition generated_tables ::
    "((nat \<Rightarrow> c_struct) \<times> pb_fields \<times> c_struct \<times> field_decl list) list" where
  "generated_tables =
     [(crashlytics_structs, google_crashlytics_Report_fields, google_crashlytics_Report, google_crashlytics_Report_decl),
      (crashlytics_structs, google_crashlytics_FilesPayload_fields, google_crashlytics_FilesPayload, google_crashlytics_FilesPayload_decl),
      (crashlytics_structs, google_crashlytics_FilesPayload_File_fields, google_crashlytics_FilesPayload_File, google_crashlytics_FilesPayload_File_decl),
      (cct_structs, gdt_cct_LogEvent_fields, gdt_cct_LogEvent, gdt_cct_LogEvent_decl),
      (cct_structs, gdt_cct_NetworkConnectionInfo_fields, gdt_cct_NetworkConnectionInfo, gdt_cct_NetworkConnectionInfo_decl),
      (cct_structs, gdt_cct_IosClientInfo_fields, gdt_cct_IosClientInfo, gdt_cct_IosClientInfo_decl),
      (cct_structs, gdt_cct_ClientInfo_fields, gdt_cct_ClientInfo, gdt_cct_ClientInfo_decl),
      (cct_structs, gdt_cct_BatchedLogRequest_fields, gdt_cct_BatchedLogRequest, gdt_cct_BatchedLogRequest_decl),
      (cct_structs, gdt_cct_LogRequest_fields, gdt_cct_LogRequest, gdt_cct_LogRequest_decl),
      (cct_structs, gdt_cct_QosTierConfiguration_fields, gdt_cct_QosTierConfiguration, gdt_cct_QosTierConfiguration_decl),
      (cct_structs, gdt_cct_QosTiersOverride_fields, gdt_cct_QosTiersOverride, gdt_cct_QosTiersOverride_decl),
      (cct_structs, gdt_cct_LogResponse_fields, gdt_cct_LogResponse, gdt_cct_LogResponse_decl)]"

subsection \<open>The entry that the macros make for a field\<close>

definition field_entry :: "pb_placement \<Rightarrow> c_struct \<Rightarrow> string \<Rightarrow> field_decl \<Rightarrow> pb_field" where
  "field_entry placement st prev d =
     PB_FIELD (d_tag d) (d_type d) (d_rules d) (d_allocation d) placement st (d_name d) prev (d_ptr d)"

lemma ltype_map_bits: "PB_LTYPE_MAP ty AND 0xC0 = 0" "PB_LTYPE_MAP ty AND 0x30 = 0"
  by (cases ty; simp add: pb_ltypes)+

lemmas type_bits = PB_ATYPE_def PB_HTYPE_def bit.conj_disj_distrib2 ltype_map_bits

lemma field_entry_simps:
  "tag (field_entry pl st prev d) = d_tag d"
  "data_offset (field_entry pl st prev d) = PB_DATAOFFSET pl st (d_name d) prev"
  "size_offset (field_entry pl st prev d) = pb_delta st (size_member d) (d_name d)"
  "data_size (field_entry pl st prev d) =
     of_nat (if element_sized d then pb_elementsize st (d_name d) else pb_membersize st (d_name d))"
  "ptr (field_entry pl st prev d) = d_ptr d"
  by (cases d; cases "d_rules d"; cases "d_allocation d";
      simp add: field_entry_def PB_FIELD_def pb_field_entry_def pb_delta_def element_sized_def)+

lemma field_entry_not_oneof: "PB_HTYPE (ftype (field_entry pl st prev d)) \<noteq> PB_HTYPE_ONEOF"
  by (cases "d_rules d"; cases "d_allocation d")
    (simp_all add: field_entry_def PB_FIELD_def pb_field_entry_def type_bits pb_htypes pb_atypes)

lemma field_entry_size:
  assumes "field_declared st d" "pb_membersize st (d_name d) < 2 ^ 31"
  shows "prev_field_size (field_entry pl st prev d) = of_nat (pb_membersize st (d_name d))"
proof -
  let ?m = "pb_membersize st (d_name d)" and ?e = "pb_elementsize st (d_name d)"
  have m: "(ucast (of_nat ?m :: u32) :: u64) = of_nat ?m" using assms(2) by (intro ucast_of_nat_small) simp
  have e: "(ucast (of_nat ?e :: u32) :: u64) = of_nat ?e"
    using assms(1) by (intro ucast_of_nat_small) (simp add: field_declared_def)
  have "?m div ?e < 2 ^ 31" using div_le_dividend assms(2) by (rule le_less_trans)
  then have q: "(ucast (of_nat (?m div ?e) :: u32) :: u64) = of_nat (?m div ?e)"
    using assms(2) by (intro ucast_of_nat_small) simp
  have ptr: "?m = 8" if "d_allocation d = POINTER" using assms(1) that by (simp add: field_declared_def)
  have arr: "of_nat ?e * (of_nat (?m div ?e) :: u64) = of_nat ?m"
    if "d_rules d = REPEATED" "d_allocation d = STATIC"
    using assms(1) that by (simp add: field_declared_def flip: of_nat_mult)
  show ?thesis
    by (cases "d_rules d"; cases "d_allocation d")
      (simp_all add: field_entry_def PB_FIELD_def pb_field_entry_def prev_field_size_def type_bits pb_htypes
        pb_atypes m e q ptr arr pb_arraysize_def)
qed

text \<open>A signed 32-bit difference of offsets, added to a pointer.\<close>

lemma scast_difference:
  assumes "x < 2 ^ 31" "y < 2 ^ 31"
  shows "(scast (of_nat x - of_nat y :: u32) :: u64) = of_nat x - of_nat y"
proof -
  have "(of_nat x - of_nat y :: u32) = of_int (int x - int y)" by simp
  moreover have "sint (of_int (int x - int y) :: u32) = int x - int y"
    unfolding sint_sbintrunc' using assms by (intro signed_take_bit_int_eq_self) simp_all
  ultimately show ?thesis by (simp add: scast_eq)
qed

lemma field_entry_pSize:
  assumes "offsetof st (size_member d) < 2 ^ 31" "offsetof st (d_name d) < 2 ^ 31"
  shows "field_pSize (field_entry pl st prev d) (p + of_nat (offsetof st (d_name d))) =
     p + of_nat (offsetof st (size_member d))"
  using assms by (simp add: field_pSize_def field_entry_simps pb_delta_def scast_difference)

subsection \<open>The table leads to the members\<close>

lemma later_fields_nth:
  "i < length ds \<Longrightarrow> later_fields st prev ds ! i =
     field_entry OTHER st (if i = 0 then prev else d_name (ds ! (i - 1))) (ds ! i)"
  by (induction ds arbitrary: prev i) (auto simp: field_entry_def nth_Cons split: nat.split)

lemma length_later_fields [simp]: "length (later_fields st prev ds) = length ds"
  by (induction ds arbitrary: prev) simp_all

lemma table_of_nth:
  "i < length ds \<Longrightarrow> table_of st ds ! i =
     (if i = 0 then field_entry FIRST st (d_name (ds ! 0)) (ds ! 0)
      else field_entry OTHER st (d_name (ds ! (i - 1))) (ds ! i))"
  by (cases ds; cases i) (auto simp: later_fields_nth field_entry_def)

lemma length_table_of [simp]: "length (table_of st ds) = length ds"
  by (cases ds) simp_all

lemma table_of_entry:
  "i < length ds \<Longrightarrow> \<exists>pl prev. table_of st ds ! i = field_entry pl st prev (ds ! i)"
  by (auto simp: table_of_nth)

lemma union_sizes_agree_no_oneof:
  "(\<forall>f \<in> set fs. PB_HTYPE (ftype f) \<noteq> PB_HTYPE_ONEOF) \<Longrightarrow> union_sizes_agree fs"
  by (induction fs rule: union_sizes_agree.induct) (auto simp: same_union_def)

lemma table_of_ok: "list_all (field_declared st) ds \<Longrightarrow> fields_ok (table_of st ds)"
proof -
  assume a: "list_all (field_declared st) ds"
  have entry: "\<exists>pl prev d. f = field_entry pl st prev d \<and> d \<in> set ds" if "f \<in> set (table_of st ds)" for f
    using that table_of_entry [of _ ds st] by (auto simp: in_set_conv_nth) (metis nth_mem)+
  then have "\<forall>f \<in> set (table_of st ds). PB_HTYPE (ftype f) \<noteq> PB_HTYPE_ONEOF"
    using field_entry_not_oneof by fastforce
  moreover have "\<forall>f \<in> set (table_of st ds). tag f \<noteq> 0"
    using a entry by (fastforce simp: field_entry_simps list_all_iff field_declared_def)
  ultimately show ?thesis by (simp add: fields_ok_def union_sizes_agree_no_oneof)
qed

lemma declared_names:
  assumes "declares st ds" "i < length ds"
  shows "d_name (ds ! i) \<in> set (map member_name st)" "size_member (ds ! i) \<in> set (map member_name st)"
    "field_declared st (ds ! i)"
proof -
  have "d_name (ds ! i) \<in> set (data_members st)"
    using assms by (metis declares_def length_map nth_map nth_mem)
  then show "d_name (ds ! i) \<in> set (map member_name st)" by (auto simp: data_members_def)
  show "field_declared st (ds ! i)" using assms by (simp add: declares_def list_all_length)
  then show "size_member (ds ! i) \<in> set (map member_name st)" by (simp add: field_declared_def)
qed

lemma declared_offsets:
  assumes "declares st ds" "i < length ds"
  shows "offsetof st (d_name (ds ! i)) + pb_membersize st (d_name (ds ! i)) < 2 ^ 31"
    "offsetof st (size_member (ds ! i)) < 2 ^ 31"
    "Suc i < length ds \<Longrightarrow> offsetof st (d_name (ds ! i)) + pb_membersize st (d_name (ds ! i)) \<le>
       offsetof st (d_name (ds ! Suc i))"
proof -
  have st: "distinct (map member_name st)" "list_all (\<lambda>m. 0 < member_align m) st" "struct_size st < 2 ^ 31"
    "map d_name ds = data_members st"
    using assms(1) by (simp_all add: declares_def)
  show "offsetof st (d_name (ds ! i)) + pb_membersize st (d_name (ds ! i)) < 2 ^ 31"
    "offsetof st (size_member (ds ! i)) < 2 ^ 31"
    using member_in_struct [OF st(1,2) declared_names(1) [OF assms]]
      member_in_struct [OF st(1,2) declared_names(2) [OF assms]] st(3) by simp_all
  have "sorted_wrt (\<lambda>a b. offsetof st a + pb_membersize st a \<le> offsetof st b) (map d_name ds)"
    unfolding st(4) data_members_def by (rule sorted_wrt_filter [OF members_ordered [OF st(1,2)]])
  then show "offsetof st (d_name (ds ! i)) + pb_membersize st (d_name (ds ! i)) \<le>
       offsetof st (d_name (ds ! Suc i))" if "Suc i < length ds"
    using that sorted_wrt_nth_less [of _ "map d_name ds" i "Suc i"] by simp
qed

lemma table_addresses:
  assumes "declares st ds" "i < length ds"
  shows "field_addresses (table_of st ds) p ! i = p + of_nat (offsetof st (d_name (ds ! i)))"
  using assms(2)
proof (induction i)
  case 0
  then obtain d ds' where ds: "ds = d # ds'" by (cases ds) auto
  have "(ucast (of_nat (offsetof st (d_name d)) :: u32) :: u64) = of_nat (offsetof st (d_name d))"
    using declared_offsets(1) [OF assms(1), of 0] ds by (intro ucast_of_nat_small) simp
  then show ?case by (simp add: ds Let_def flip: field_entry_def) (simp add: field_entry_simps)
next
  case (Suc i)
  let ?a = "offsetof st (d_name (ds ! i))" and ?m = "pb_membersize st (d_name (ds ! i))"
    and ?b = "offsetof st (d_name (ds ! Suc i))"
  note off = declared_offsets(1) [OF assms(1), of i] declared_offsets(1) [OF assms(1), of "Suc i"]
    declared_offsets(3) [OF assms(1), of i]
  obtain pl prev where f: "table_of st ds ! i = field_entry pl st prev (ds ! i)"
    using table_of_entry [of i ds st] Suc.prems by auto
  have g: "table_of st ds ! Suc i = field_entry OTHER st (d_name (ds ! i)) (ds ! Suc i)"
    using Suc.prems by (simp add: table_of_nth)
  have "(of_nat ?b - of_nat ?a - of_nat ?m :: u32) = of_nat (?b - (?a + ?m))"
    using off Suc.prems by (simp add: of_nat_diff diff_diff_eq)
  moreover have "(ucast (of_nat (?b - (?a + ?m)) :: u32) :: u64) = of_nat (?b - (?a + ?m))"
    using off Suc.prems by (intro ucast_of_nat_small) simp
  ultimately have d: "(ucast (data_offset (table_of st ds ! Suc i)) :: u64) = of_nat ?b - of_nat ?a - of_nat ?m"
    using off Suc.prems by (simp add: g field_entry_simps of_nat_diff diff_diff_eq)
  have s: "prev_field_size (table_of st ds ! i) = of_nat ?m"
    unfolding f using declared_names(3) [OF assms(1), of i] off Suc.prems by (intro field_entry_size) simp_all
  have "\<not> same_union (table_of st ds ! i) (table_of st ds ! Suc i)"
    by (simp add: same_union_def f field_entry_not_oneof)
  then show ?case
    using Suc field_addresses_step [of i "table_of st ds" p] by (simp add: next_address_def s d)
qed

text \<open>The iterator after \<open>k\<close> fields.\<close>

definition fields_passed :: "pb_fields \<Rightarrow> addr \<Rightarrow> nat \<Rightarrow> pb_field_iter" where
  "fields_passed fs p k =
     ((\<lambda>iter. snd (pb_field_iter_next iter)) ^^ k) (snd (pb_field_iter_begin fs p))"

lemma fields_passed_at:
  "fields_ok fs \<Longrightarrow> k < length fs \<Longrightarrow> iter_at fs p k (fields_passed fs p k)"
proof (induction k)
  case 0
  then show ?case using iter_begin_at [of fs p] by (auto simp: fields_passed_def)
next
  case (Suc k)
  then show ?case
    using iter_next_at(2) [of fs p k "fields_passed fs p k"] by (simp add: fields_passed_def)
qed

lemma table_leads_to_members:
  assumes "declares st ds" "k < length ds"
  shows "let iter = fields_passed (table_of st ds) p k; d = ds ! k in
    pData iter = p + of_nat (offsetof st (d_name d)) \<and>
    pSize iter = p + of_nat (offsetof st (size_member d)) \<and>
    tag (iter_field iter) = d_tag d \<and> ptr (iter_field iter) = d_ptr d \<and>
    unat (data_size (iter_field iter)) =
      (if element_sized d then pb_elementsize st (d_name d) else pb_membersize st (d_name d)) \<and>
    (fst (pb_field_iter_next iter) \<longleftrightarrow> Suc k < length ds)"
proof -
  let ?fs = "table_of st ds" and ?it = "fields_passed (table_of st ds) p k"
  have ok: "fields_ok ?fs" using assms(1) by (simp add: declares_def table_of_ok)
  have at: "iter_at ?fs p k ?it" using ok assms(2) by (intro fields_passed_at) simp_all
  obtain pl prev where f: "?fs ! k = field_entry pl st prev (ds ! k)"
    using table_of_entry [OF assms(2)] by blast
  have it: "iter_field ?it = ?fs ! k" "pData ?it = p + of_nat (offsetof st (d_name (ds ! k)))"
    "pSize ?it = field_pSize (?fs ! k) (p + of_nat (offsetof st (d_name (ds ! k))))"
    using at table_addresses [OF assms, of p] assms(2) by (auto simp: iter_at_def field_at_def)
  have e: "pb_elementsize st (d_name (ds ! k)) < 2 ^ 31"
    using declared_names(3) [OF assms] by (simp add: field_declared_def)
  have d: "unat (data_size (?fs ! k)) =
      (if element_sized (ds ! k) then pb_elementsize st (d_name (ds ! k)) else pb_membersize st (d_name (ds ! k)))"
    unfolding f field_entry_simps using e declared_offsets(1) [OF assms] by (intro unat_of_nat_small) simp
  have s: "pSize ?it = p + of_nat (offsetof st (size_member (ds ! k)))"
    unfolding it(3) f using declared_offsets [OF assms] by (intro field_entry_pSize) simp_all
  show ?thesis
    using iter_next_at(1) [OF ok at] assms(2) it(2) s d unfolding Let_def it(1)
    by (simp add: f field_entry_simps)
qed

text \<open>The size in each table's entry fits the field's type, and its submessage.\<close>

definition size_fits :: "(nat \<Rightarrow> c_struct) \<Rightarrow> pb_field \<Rightarrow> bool" where
  "size_fits structs f =
     (let l = PB_LTYPE (ftype f); n = unat (data_size f) in
      if l = PB_LTYPE_BOOL then n = 1
      else if l = PB_LTYPE_VARINT \<or> l = PB_LTYPE_UVARINT \<or> l = PB_LTYPE_SVARINT then n \<in> {1, 2, 4, 8}
      else if l = PB_LTYPE_FIXED32 then n = 4
      else if l = PB_LTYPE_FIXED64 then n = 8
      else if l = PB_LTYPE_SUBMESSAGE
      then (case ptr f of Submessage i \<Rightarrow> n = struct_size (structs i) | _ \<Rightarrow> False)
      else l \<in> {PB_LTYPE_BYTES, PB_LTYPE_STRING, PB_LTYPE_FIXED_LENGTH_BYTES})"

definition table_generated ::
    "(nat \<Rightarrow> c_struct) \<times> pb_fields \<times> c_struct \<times> field_decl list \<Rightarrow> bool" where
  "table_generated = (\<lambda>(structs, fs, st, ds).
     fs = table_of st ds \<and> declares st ds \<and> list_all (size_fits structs) fs)"

lemmas table_defs = google_crashlytics_Report_fields_def google_crashlytics_FilesPayload_fields_def
    google_crashlytics_FilesPayload_File_fields_def gdt_cct_LogEvent_fields_def
    gdt_cct_NetworkConnectionInfo_fields_def gdt_cct_IosClientInfo_fields_def
    gdt_cct_ClientInfo_fields_def gdt_cct_BatchedLogRequest_fields_def
    gdt_cct_LogRequest_fields_def gdt_cct_QosTierConfiguration_fields_def
    gdt_cct_QosTiersOverride_fields_def gdt_cct_LogResponse_fields_def

lemmas decl_defs = google_crashlytics_Report_decl_def google_crashlytics_FilesPayload_decl_def
    google_crashlytics_FilesPayload_File_decl_def gdt_cct_LogEvent_decl_def
    gdt_cct_NetworkConnectionInfo_decl_def gdt_cct_IosClientInfo_decl_def
    gdt_cct_ClientInfo_decl_def gdt_cct_BatchedLogRequest_decl_def gdt_cct_LogRequest_decl_def
    gdt_cct_QosTierConfiguration_decl_def gdt_cct_QosTiersOverride_decl_def
    gdt_cct_LogResponse_decl_def

lemma tables_made:
  "google_crashlytics_Report_fields = table_of google_crashlytics_Report google_crashlytics_Report_decl"
  "google_crashlytics_FilesPayload_fields = table_of google_crashlytics_FilesPayload google_crashlytics_FilesPayload_decl"
  "google_crashlytics_FilesPayload_File_fields = table_of google_crashlytics_FilesPayload_File google_crashlytics_FilesPayload_File_decl"
  "gdt_cct_LogEvent_fields = table_of gdt_cct_LogEvent gdt_cct_LogEvent_decl"
  "gdt_cct_NetworkConnectionInfo_fields = table_of gdt_cct_NetworkConnectionInfo gdt_cct_NetworkConnectionInfo_decl"
  "gdt_cct_IosClientInfo_fields = table_of gdt_cct_IosClientInfo gdt_cct_IosClientInfo_decl"
  "gdt_cct_ClientInfo_fields = table_of gdt_cct_ClientInfo gdt_cct_ClientInfo_decl"
  "gdt_cct_BatchedLogRequest_fields = table_of gdt_cct_BatchedLogRequest gdt_cct_BatchedLogRequest_decl"
  "gdt_cct_LogRequest_fields = table_of gdt_cct_LogRequest gdt_cct_LogRequest_decl"
  "gdt_cct_QosTierConfiguration_fields = table_of gdt_cct_QosTierConfiguration gdt_cct_QosTierConfiguration_decl"
  "gdt_cct_QosTiersOverride_fields = table_of gdt_cct_QosTiersOverride gdt_cct_QosTiersOverride_decl"
  "gdt_cct_LogResponse_fields = table_of gdt_cct_LogResponse gdt_cct_LogResponse_decl"
  by (simp_all only: table_defs decl_defs table_of.simps later_fields.simps field_decl.sel)

text \<open>Bounds small enough to be evaluated.\<close>

lemma declares_small:
  assumes "map d_name ds = data_members st" "distinct (map member_name st)"
    and "list_all (\<lambda>m. 0 < member_align m) st" "struct_size st < 500"
    and "list_all (\<lambda>d. d_tag d \<noteq> 0 \<and> size_member d \<in> set (map member_name st) \<and>
       (d_allocation d = POINTER \<longrightarrow> pb_membersize st (d_name d) = 8) \<and>
       (d_rules d = REPEATED \<and> d_allocation d = STATIC \<longrightarrow>
          pb_elementsize st (d_name d) dvd pb_membersize st (d_name d)) \<and>
       pb_elementsize st (d_name d) < 500) ds"
  shows "declares st ds"
  using assms by (auto simp: declares_def field_declared_def list_all_iff)

lemma structs_declared:
  "declares google_crashlytics_Report google_crashlytics_Report_decl"
  "declares google_crashlytics_FilesPayload google_crashlytics_FilesPayload_decl"
  "declares google_crashlytics_FilesPayload_File google_crashlytics_FilesPayload_File_decl"
  "declares gdt_cct_LogEvent gdt_cct_LogEvent_decl"
  "declares gdt_cct_NetworkConnectionInfo gdt_cct_NetworkConnectionInfo_decl"
  "declares gdt_cct_IosClientInfo gdt_cct_IosClientInfo_decl"
  "declares gdt_cct_ClientInfo gdt_cct_ClientInfo_decl"
  "declares gdt_cct_BatchedLogRequest gdt_cct_BatchedLogRequest_decl"
  "declares gdt_cct_LogRequest gdt_cct_LogRequest_decl"
  "declares gdt_cct_QosTierConfiguration gdt_cct_QosTierConfiguration_decl"
  "declares gdt_cct_QosTiersOverride gdt_cct_QosTiersOverride_decl"
  "declares gdt_cct_LogResponse gdt_cct_LogResponse_decl"
  by (rule declares_small; code_simp)+

lemma table_sizes_fit:
  "list_all (size_fits crashlytics_structs) google_crashlytics_Report_fields"
  "list_all (size_fits crashlytics_structs) google_crashlytics_FilesPayload_fields"
  "list_all (size_fits crashlytics_structs) google_crashlytics_FilesPayload_File_fields"
  "list_all (size_fits cct_structs) gdt_cct_LogEvent_fields"
  "list_all (size_fits cct_structs) gdt_cct_NetworkConnectionInfo_fields"
  "list_all (size_fits cct_structs) gdt_cct_IosClientInfo_fields"
  "list_all (size_fits cct_structs) gdt_cct_ClientInfo_fields"
  "list_all (size_fits cct_structs) gdt_cct_BatchedLogRequest_fields"
  "list_all (size_fits cct_structs) gdt_cct_LogRequest_fields"
  "list_all (size_fits cct_structs) gdt_cct_QosTierConfiguration_fields"
  "list_all (size_fits cct_structs) gdt_cct_QosTiersOverride_fields"
  "list_all (size_fits cct_structs) gdt_cct_LogResponse_fields"
  by code_simp+

lemma all_tables_generated: "list_all table_generated generated_tables"
  unfolding generated_tables_def table_generated_def
  by (simp only: list.pred_inject prod.case tables_made [symmetric] structs_declared table_sizes_fit simp_thms)

lemma generated_fields_ok: "list_all (\<lambda>(structs, fs, st, ds). fields_ok fs) generated_tables"
  using all_tables_generated
  by (auto simp: list_all_iff table_generated_def declares_def intro!: table_of_ok)

lemma messages_fields_ok: "fields_ok (crashlytics_messages i)" "fields_ok (cct_messages i)"
proof -
  have nil: "fields_ok []" by (simp add: fields_ok_def)
  note all = generated_fields_ok [unfolded generated_tables_def, simplified]
  have nth: "fields_ok (if i < length fs then fs ! i else [])" if "\<And>f. f \<in> set fs \<Longrightarrow> fields_ok f" for fs
    using nil that by simp
  show "fields_ok (crashlytics_messages i)"
    unfolding crashlytics_messages_def Let_def using all by (intro nth) auto
  show "fields_ok (cct_messages i)"
    unfolding cct_messages_def Let_def using all by (intro nth) auto
qed

section \<open>Encoding into a buffer\<close>

text \<open>\<open>transportBytes\<close> of the report adapter and \<open>GDTCCTEncodeBatchedLogRequest\<close>: the message is encoded
  into a stream that counts, then into a buffer of zeros of the size it counted. Errors are logged and
  otherwise ignored. The result is the buffer and the log.\<close>

definition PB_GET_ERROR :: "'s pb_ostream \<Rightarrow> string" where
  "PB_GET_ERROR stream = (case errmsg stream of Some e \<Rightarrow> e | None \<Rightarrow> ''(none)'')"

definition transportBytes ::
    "nat \<Rightarrow> out_buffer pb_env \<Rightarrow> out_buffer \<Rightarrow> pb_fields \<Rightarrow> addr \<Rightarrow> (u8 list \<times> string list) option" where
  "transportBytes d E unused fs src =
     do {
       (ok, sizestream) \<leftarrow> pb_encode d E (PB_OSTREAM_SIZING unused) fs src;
       let log = (if ok then [] else [''Error in nanopb encoding for size: '' @ PB_GET_ERROR sizestream]);
       let bufferSize = bytes_written sizestream;
       (ok, ostream) \<leftarrow> pb_encode d E
         (pb_ostream_from_buffer (replicate (unat bufferSize) 0) bufferSize) fs src;
       let log = (if ok then log else log @ [''Error in nanopb encoding for bytes: '' @ PB_GET_ERROR ostream]);
       Some (out_bytes (stream_state ostream), log) }"

lemma buffer_writer:
  assumes "length buf < 2 ^ 63"
  shows "writer buf_write out_room (pb_ostream_from_buffer buf (of_nat (length buf)))"
    "fits (pb_ostream_from_buffer buf (of_nat (length buf))) bs \<longleftrightarrow> length bs \<le> length buf"
    "content (stream_state (pb_ostream_from_buffer buf n)) = content \<lparr>out_bytes = buf, out_pos = 0\<rparr>"
  using assms unat_of_nat_small [of "length buf", where 'a = 64]
  by (simp_all add: writer_def fits_def pb_ostream_from_buffer_def out_room_def word_less_nat_alt)

text \<open>The encoder on a buffer of known length.\<close>

lemma emit_to_buffer:
  assumes emit: "buffer.emit w bs" and l: "length buf < 2 ^ 63"
  defines "stream \<equiv> pb_ostream_from_buffer buf (of_nat (length buf))"
  shows "length bs \<le> length buf \<Longrightarrow> \<exists>out. w stream = Some (True, out) \<and> bytes_written out = of_nat (length bs) \<and>
      out_content (stream_state out) = bs \<and> out_room (stream_state out) = length buf - length bs"
    and "length buf < length bs \<Longrightarrow> length bs < 2 ^ 63 \<Longrightarrow> \<exists>out ys zs. w stream = Some (False, out) \<and>
      bs = ys @ zs \<and> out_content (stream_state out) = ys"
proof -
  have start: "writer buf_write out_room stream" "fits stream bs \<longleftrightarrow> length bs \<le> length buf"
    "out_content (stream_state stream) = []" "out_room (stream_state stream) = length buf" "bytes_written stream = 0"
    using buffer_writer [OF l] by (simp_all add: stream_def)
      (simp_all add: pb_ostream_from_buffer_def out_content_def out_room_def)
  show "\<exists>out. w stream = Some (True, out) \<and> bytes_written out = of_nat (length bs) \<and>
      out_content (stream_state out) = bs \<and> out_room (stream_state out) = length buf - length bs"
    if f: "length bs \<le> length buf"
  proof -
    have "length bs < 2 ^ 63" using f l by simp
    moreover have "able buf_write out_room stream bs" using start f by (intro writer_able) auto
    ultimately obtain t where "w stream = Some (True, (counted stream bs)\<lparr>stream_state := t\<rparr>)"
      "out_content t = bs" "out_room t = length buf - length bs"
      using emit start unfolding emits_def by fastforce
    then show ?thesis using start(5) by (intro exI conjI) auto
  qed
  show "\<exists>out ys zs. w stream = Some (False, out) \<and> bs = ys @ zs \<and> out_content (stream_state out) = ys"
    if "length buf < length bs" "length bs < 2 ^ 63"
    using emit start that unfolding emits_def by fastforce
qed

lemma full_content: "out_content b = bs \<Longrightarrow> out_room b = 0 \<Longrightarrow> out_bytes b = bs"
  by (simp add: out_content_def out_room_def)

text \<open>Both passes succeed, nothing is logged, and the bytes are the encoding of the records of the
  structure, all of it.\<close>

text \<open>C2: Encoding a structure in two passes, as the crash reporter and the transport do, logs no
  error and gives exactly the wire format of the records of the structure.\<close>

theorem transport_bytes_correct:
  assumes "\<And>i. fields_ok (messages E i)" "fields_ok fs"
    and "message_records d E fs p = Some rs" "length (wire_encode rs) < 2 ^ 63"
  shows "transportBytes d E unused fs p = Some (wire_encode rs, [])"
proof -
  let ?bs = "wire_encode rs" and ?size = "of_nat (length (wire_encode rs)) :: u64"
  have emit: "buffer.emit (\<lambda>s. pb_encode d E s fs p) ?bs"
    by (rule buffer.emit_message [OF assms(1-3)])
  have u: "unat ?size = length ?bs" using assms(4) by (simp add: unat_of_nat_small)
  have size: "pb_encode d E (PB_OSTREAM_SIZING unused) fs p = Some (True, counted (PB_OSTREAM_SIZING unused) ?bs)"
    using emit assms(4) by (simp add: emits_def buffer.sizing_zero)
  have "\<exists>out. pb_encode d E (pb_ostream_from_buffer (replicate (length ?bs) 0) ?size) fs p = Some (True, out) \<and>
      out_bytes (stream_state out) = ?bs"
    using emit_to_buffer(1) [OF emit, of "replicate (length ?bs) 0"] assms(4) full_content by fastforce
  then show ?thesis
    unfolding transportBytes_def size bind.bind_lunit case_prod_conv counted_sel buffer.sizing_zero add_0 Let_def u
    by auto
qed

text \<open>A report as the app builds one, in memory at 0x1000: a version, the platform iOS, and one file with
  its contents; the other strings are NULL.\<close>

definition sample_report :: "u8 list" where
  "sample_report =
     le_bytes 8 0x1040 @ le_bytes 8 0 @ le_bytes 4 1 @ le_bytes 4 0 @ le_bytes 8 0 @ le_bytes 8 0 @ le_bytes 8 0 @
     le_bytes 4 1 @ le_bytes 4 0 @ le_bytes 8 0x1048 @
     le_bytes 4 3 @ [0x31, 0x2E, 0x30, 0] @
     le_bytes 8 0x1058 @ le_bytes 8 0x1060 @
     le_bytes 4 1 @ [0x61, 0, 0, 0] @
     le_bytes 4 2 @ [7, 8]"

definition sample_env :: "out_buffer pb_env" where
  "sample_env =
     \<lparr>env_mem = mem_of 0x1000 sample_report, messages = crashlytics_messages,
      user_encode = (\<lambda>_ _ _ _. None), extension_encode = (\<lambda>_ _ _. None), extension_fields = (\<lambda>_. PB_LAST_FIELD)\<rparr>"

lemma sample_records:
  "message_records 3 sample_env google_crashlytics_Report_fields 0x1000 =
     Some [(1, Length [0x31, 0x2E, 0x30]), (4, Varint 1),
           (10, Length [0x0A, 0x07, 0x0A, 0x01, 0x61, 0x12, 0x02, 0x07, 0x08])]"
  by code_simp

lemma sample_fields_ok: "fields_ok (messages sample_env i)" "fields_ok google_crashlytics_Report_fields"
  using messages_fields_ok(1) [of i] messages_fields_ok(1) [of 0]
  by (simp_all add: sample_env_def crashlytics_messages_def)

lemma sample_message_bytes:
  "wire_encode [(1, Length [0x31, 0x2E, 0x30]), (4, Varint 1),
     (10, Length [0x0A, 0x07, 0x0A, 0x01, 0x61, 0x12, 0x02, 0x07, 0x08])] =
   [0x0A, 0x03, 0x31, 0x2E, 0x30, 0x20, 0x01, 0x52, 0x09, 0x0A, 0x07, 0x0A, 0x01, 0x61, 0x12, 0x02, 0x07, 0x08]"
  by (simp add: encode_record_def record_tag_def uleb128_encode.simps)

theorem transport_bytes_correct_witness:
  "transportBytes 3 sample_env \<lparr>out_bytes = [], out_pos = 0\<rparr> google_crashlytics_Report_fields 0x1000 =
     Some ([0x0A, 0x03, 0x31, 0x2E, 0x30, 0x20, 0x01, 0x52, 0x09,
            0x0A, 0x07, 0x0A, 0x01, 0x61, 0x12, 0x02, 0x07, 0x08], [])"
  using transport_bytes_correct [OF sample_fields_ok sample_records, of "\<lparr>out_bytes = [], out_pos = 0\<rparr>"] unfolding sample_message_bytes by simp

text \<open>A buffer that is too short gets a prefix of the message: the encoder returns false and has not
  written past the end of the buffer (that would be a fault).\<close>

text \<open>C19: A message that is longer than the buffer is refused: the encoder returns false, has written
  a prefix of the message, and never past the end of the buffer.\<close>

theorem encode_short_buffer:
  assumes "\<And>i. fields_ok (messages E i)" "fields_ok fs" "message_records d E fs p = Some rs"
    and "length buf < length (wire_encode rs)" "length (wire_encode rs) < 2 ^ 63"
  shows "\<exists>out. pb_encode d E (pb_ostream_from_buffer buf (of_nat (length buf))) fs p = Some (False, out) \<and>
    (\<exists>rest. out_content (stream_state out) @ rest = wire_encode rs)"
proof -
  have "buffer.emit (\<lambda>s. pb_encode d E s fs p) (wire_encode rs)"
    by (rule buffer.emit_message [OF assms(1-3)])
  from emit_to_buffer(2) [OF this _ assms(4,5)] assms(4,5) show ?thesis by auto
qed

theorem encode_short_buffer_witness:
  "\<exists>out. pb_encode 3 sample_env (pb_ostream_from_buffer [0, 0, 0] 3) google_crashlytics_Report_fields 0x1000 = Some (False, out) \<and>
    (\<exists>rest. out_content (stream_state out) @ rest = [0x0A, 0x03, 0x31, 0x2E, 0x30, 0x20, 0x01, 0x52, 0x09,
            0x0A, 0x07, 0x0A, 0x01, 0x61, 0x12, 0x02, 0x07, 0x08])"
  using encode_short_buffer [OF sample_fields_ok sample_records, of "[0, 0, 0]"] unfolding sample_message_bytes by simp

text \<open>The size computed without writing is the length of the message; with the length in front, the
  message is what \<open>pb_encode_delimited\<close> writes.\<close>

text \<open>C20: The size computed without writing is the length of the message that is written, and the
  delimited form is that length followed by the message.\<close>

theorem encoded_size_and_delimited:
  assumes "\<And>i. fields_ok (messages E i)" "fields_ok fs" "message_records d E fs p = Some rs"
    and "length (uleb128_encode (length (wire_encode rs)) @ wire_encode rs) \<le> length buf" "length buf < 2 ^ 63"
  shows "pb_get_encoded_size d E unused fs p = Some (Some (of_nat (length (wire_encode rs)))) \<and>
    (\<exists>out. pb_encode_delimited d E (pb_ostream_from_buffer buf (of_nat (length buf))) fs p = Some (True, out) \<and>
      out_content (stream_state out) = uleb128_encode (length (wire_encode rs)) @ wire_encode rs)"
proof
  have emit: "buffer.emit (\<lambda>s. pb_encode d E s fs p) (wire_encode rs)"
    by (rule buffer.emit_message [OF assms(1-3)])
  have "length (wire_encode rs) < 2 ^ 63" using assms(4,5) by simp
  with emit show "pb_get_encoded_size d E unused fs p = Some (Some (of_nat (length (wire_encode rs))))"
    by (simp add: pb_get_encoded_size_def emits_def buffer.sizing_zero)
  show "\<exists>out. pb_encode_delimited d E (pb_ostream_from_buffer buf (of_nat (length buf))) fs p = Some (True, out) \<and>
      out_content (stream_state out) = uleb128_encode (length (wire_encode rs)) @ wire_encode rs"
    using emit_to_buffer(1) [OF buffer.emit_submessage [of "pb_encode d E" fs p, OF emit] assms(5,4)]
    unfolding pb_encode_delimited_def by blast
qed

theorem encoded_size_and_delimited_witness:
  "pb_get_encoded_size 3 sample_env \<lparr>out_bytes = [], out_pos = 0\<rparr> google_crashlytics_Report_fields 0x1000 = Some (Some 18) \<and>
    (\<exists>out. pb_encode_delimited 3 sample_env (pb_ostream_from_buffer (replicate 20 0) 20) google_crashlytics_Report_fields 0x1000 =
        Some (True, out) \<and>
      out_content (stream_state out) = [18, 0x0A, 0x03, 0x31, 0x2E, 0x30, 0x20, 0x01, 0x52, 0x09,
            0x0A, 0x07, 0x0A, 0x01, 0x61, 0x12, 0x02, 0x07, 0x08])"
  using encoded_size_and_delimited [OF sample_fields_ok sample_records, of "replicate 20 0" "\<lparr>out_bytes = [], out_pos = 0\<rparr>"] unfolding sample_message_bytes
  by (simp add: uleb128_encode.simps)

text \<open>C23: For any structure that has its declared fields in order, the macros of pb.h make a table
  that leads the iterator to each member in turn, to its has_ or _count member exactly where the
  rule asks for one, and to its tag and size; and the generated tables of the crash reporter and
  the transport are what the macros make from their declared fields.\<close>

theorem tables_describe_structs:
  assumes "declares st ds" "k < length ds"
  shows "list_all table_generated generated_tables \<and>
    (let iter = fields_passed (table_of st ds) p k; d = ds ! k in
       pData iter = p + of_nat (offsetof st (d_name d)) \<and>
       pSize iter = p + of_nat (offsetof st (size_member d)) \<and>
       tag (iter_field iter) = d_tag d \<and> ptr (iter_field iter) = d_ptr d \<and>
       unat (data_size (iter_field iter)) =
         (if element_sized d then pb_elementsize st (d_name d) else pb_membersize st (d_name d)) \<and>
       (fst (pb_field_iter_next iter) \<longleftrightarrow> Suc k < length ds))"
  using all_tables_generated table_leads_to_members [OF assms, of p] by (rule conjI)

theorem tables_describe_structs_witness:
  "let iter = fields_passed gdt_cct_LogEvent_fields 0x1000 2 in
     pData iter = 0x101C \<and> pSize iter = 0x1018 \<and> tag (iter_field iter) = 11 \<and>
     unat (data_size (iter_field iter)) = 4 \<and> fst (pb_field_iter_next iter)"
proof -
  have t: "gdt_cct_LogEvent_fields = table_of gdt_cct_LogEvent gdt_cct_LogEvent_decl"
    and d: "declares gdt_cct_LogEvent gdt_cct_LogEvent_decl"
    using all_tables_generated by (simp_all add: generated_tables_def table_generated_def)
  have v: "2 < length gdt_cct_LogEvent_decl" "Suc 2 < length gdt_cct_LogEvent_decl"
    "offsetof gdt_cct_LogEvent ''event_code'' = 28" "offsetof gdt_cct_LogEvent ''has_event_code'' = 24"
    "pb_membersize gdt_cct_LogEvent ''event_code'' = 4"
    by code_simp+
  have e: "gdt_cct_LogEvent_decl ! 2 = Field 11 INT32 OPTIONAL STATIC ''event_code'' NoPtr"
    by (simp add: gdt_cct_LogEvent_decl_def)
  show ?thesis
    using tables_describe_structs [OF d v(1), of "0x1000", THEN conjunct2] v
    unfolding t [symmetric] by (simp add: e Let_def element_sized_def)
qed

section \<open>A message that is lost\<close>

text \<open>A proto3 message is left out when all its bytes are zero. For a pointer the code compares as many
  bytes as what it points to has, so of a \<open>char *\<close> it looks at the lowest byte only: a submessage that
  holds nothing but a string whose address is a multiple of 256 is not written.\<close>

definition Named :: c_struct where
  "Named = [pointer_member ''name'' 1]"

definition Named_fields :: pb_fields where
  "Named_fields = [PB_FIELD 1 STRING SINGULAR POINTER FIRST Named ''name'' ''name'' NoPtr]"

definition Holder_fields :: pb_fields where
  "Holder_fields = [PB_FIELD 1 MESSAGE SINGULAR STATIC FIRST [struct_member ''named'' Named] ''named'' ''named'' (Submessage 0)]"

definition lost_env :: "u64 \<Rightarrow> unit pb_env" where
  "lost_env name =
     \<lparr>env_mem = (\<lambda>a. if a - 0x1000 < 8 then mem_of 0x1000 (le_bytes 8 (unat name)) a else mem_of name [0x68, 0x69, 0] a),
      messages = (\<lambda>i. if i = 0 then Named_fields else []),
      user_encode = (\<lambda>_ _ _ _. None), extension_encode = (\<lambda>_ _ _. None), extension_fields = (\<lambda>_. PB_LAST_FIELD)\<rparr>"

lemma string_by_address_lost:
  "load64 (env_mem (lost_env 0x1100)) 0x1000 = Some 0x1100"
  "pb_get_encoded_size 3 (lost_env 0x1100) () Holder_fields 0x1000 = Some (Some 0)"
  "list_all (\<lambda>f. pb_check_proto3_default_value 3 (lost_env 0x1108) f 0x1000 = Some False) Holder_fields"
  by (code_simp)+

end
