(* ===== verification/PbRoundtrip.thy ===== *)
theory PbRoundtrip
  imports PbDecodeCorrect PbMessages
begin

text \<open>
  What nanopb's decoder makes of a message: numbers in every case, the round trip with the encoder, and a
  message as a whole, with the response of the log server (\<open>GDTCCTDecodeLogResponse\<close> of
  \<open>GDTCCTNanopbHelpers.m\<close>) as the example the app decodes.
\<close>

section \<open>Every branch of the reader of numbers\<close>

text \<open>A number of at most \<open>n\<close> digits to the base 128, and how many bytes were looked at.\<close>

fun varint_of :: "nat \<Rightarrow> u8 list \<Rightarrow> (string + nat) \<times> nat" where
  "varint_of 0 bs = (Inl ''varint overflow'', 0)"
| "varint_of (Suc n) [] = (Inl ''end-of-stream'', 0)"
| "varint_of (Suc n) (b # bs) =
     (if unat b < 128 then (Inr (unat b), 1)
      else case varint_of n bs of
        (Inl e, k) \<Rightarrow> (Inl e, Suc k)
      | (Inr v, k) \<Rightarrow> (Inr (unat b mod 128 + 128 * v), Suc k))"

definition varint_outcome :: "'s pb_istream \<Rightarrow> u8 list \<Rightarrow> (string + nat) \<times> nat \<Rightarrow> (u64, 's) reading" where
  "varint_outcome s bs r =
     (case r of
        (Inl e, k) \<Rightarrow> Some (None, stream_error (after s k (drop k bs)) e)
      | (Inr v, k) \<Rightarrow> Some (Some (of_nat v), after s k (drop k bs)))"

lemma after_none: "source s = Buffer bs \<Longrightarrow> after s 0 bs = s"
  by (simp add: after_def)

lemma varint64_loop_outcome:
  assumes "source s = Buffer bs" "unat (bytes_left s) \<le> length bs" "k < 2 ^ (7 * i)" "i + n = 10"
  shows "varint64_loop s (of_nat k) (of_nat (7 * i)) =
    varint_outcome s bs (apfst (map_sum id (\<lambda>v. k + v * 2 ^ (7 * i))) (varint_of n (take (unat (bytes_left s)) bs)))"
  using assms
proof (induction n arbitrary: s bs k i)
  case 0
  then have "i = 10" by simp
  then show ?case using "0.prems"(1)
    by (subst varint64_loop.simps) (simp add: varint_outcome_def after_none word_le_nat_alt)
next
  case (Suc n)
  have i: "7 * i < 64" using Suc.prems(4) by simp
  have s7a: "unat (of_nat (7 * i) :: u8) = 7 * i" by (rule byte_of_nat) (use i in simp)
  have "\<not> (of_nat (7 * i) :: u8) \<ge> 64" unfolding word_le_nat_alt s7a using i by simp
  note s7 = s7a this
  show ?case
  proof (cases "bytes_left s = 0")
    case True
    then have "pb_readbyte s = Some (None, stream_error s ''end-of-stream'')" by (simp add: pb_readbyte_def)
    then show ?thesis using True Suc.prems(1) s7
      by (subst varint64_loop.simps) (simp add: varint_outcome_def after_none)
  next
    case False
    then have left: "0 < unat (bytes_left s)" by (simp add: unat_gt_0)
    with Suc.prems(2) obtain b rest where bs: "bs = b # rest" by (cases bs) auto
    have g: "gives s [b] rest" using Suc.prems(1) left by (simp add: gives_def bs)
    note rd = readbyte_gives [OF g]
    have digit: "(of_nat k OR push_bit (7 * i) (ucast (b AND 0x7F)) :: u64) = of_nat (k + unat b mod 128 * 2 ^ (7 * i))"
      by (rule varint_digit [OF Suc.prems(3) refl])
    obtain m where m: "unat (bytes_left s) = Suc m" using left by (cases "unat (bytes_left s)") auto
    show ?thesis
    proof (cases "unat b < 128")
      case True
      then have "b AND 0x80 = 0" using and_80 [of b] by (simp add: and.commute)
      with rd True s7 digit show ?thesis
        by (subst varint64_loop.simps) (simp add: varint_outcome_def bs m Let_def)
    next
      case False
      then have top: "b AND 0x80 \<noteq> 0" using and_80 [of b] by (simp add: and.commute)
      let ?s = "after s 1 rest" and ?k = "k + unat b mod 128 * 2 ^ (7 * i)"
      have l: "unat (bytes_left ?s) = m" using left_after [of 1 s rest] m left by simp
      have k: "?k < 2 ^ (7 * Suc i)"
      proof -
        have "unat b mod 128 * 2 ^ (7 * i) \<le> 127 * 2 ^ (7 * i)" by (rule mult_le_mono1) simp
        moreover have "2 ^ (7 * Suc i) = 128 * (2::nat) ^ (7 * i)" by (simp add: power_add)
        ultimately show ?thesis using Suc.prems(3) by linarith
      qed
      have "unat (bytes_left ?s) \<le> length rest" "Suc i + n = 10" using l m Suc.prems(2,4) by (simp_all add: bs)
      then have IH: "varint64_loop ?s (of_nat ?k) (of_nat (7 * Suc i)) =
          varint_outcome ?s rest (apfst (map_sum id (\<lambda>v. ?k + v * 2 ^ (7 * Suc i))) (varint_of n (take m rest)))"
        using Suc.IH [OF _ _ k, of ?s rest] unfolding l by (simp only: after_sel)
      have next7: "of_nat (7 * i) + 7 = (of_nat (7 * Suc i) :: u8)" by simp
      have "varint64_loop s (of_nat k) (of_nat (7 * i)) = varint64_loop ?s (of_nat ?k) (of_nat (7 * Suc i))"
        by (subst varint64_loop.simps)
          (simp only: s7 rd digit top next7 option.case prod.case if_False if_True Let_def simp_thms)
      also have "\<dots> = varint_outcome s bs (apfst (map_sum id (\<lambda>v. k + v * 2 ^ (7 * i))) (varint_of (Suc n) (take (unat (bytes_left s)) bs)))"
        using False unfolding IH m bs
        by (auto simp: varint_outcome_def algebra_simps power_add split: prod.splits sum.splits)
      finally show ?thesis .
    qed
  qed
qed

text \<open>C22: pb_decode_varint is the reading of a number of at most ten digits to the base 128: it gives
  the number modulo 2^64, or refuses a number that is longer or cut off, and has taken exactly
  the bytes it looked at.\<close>

theorem decode_varint_every_branch:
  assumes "source s = Buffer bs" "unat (bytes_left s) \<le> length bs"
  shows "pb_decode_varint s = varint_outcome s bs (varint_of 10 (take (unat (bytes_left s)) bs))"
proof -
  have "apfst (map_sum id (\<lambda>v. v)) r = r" for r :: "(string + nat) \<times> nat"
    by (cases r; cases "fst r") auto
  with varint64_loop_outcome [OF assms, of 0 0 10] show ?thesis by (simp add: pb_decode_varint_def)
qed

lemma bit_shifted_back:
  fixes v :: u64
  shows "bit (drop_bit k (push_bit k v)) n \<longleftrightarrow> n + k < 64 \<and> bit v n"
    "bit (NOT (drop_bit k (NOT (push_bit k v)))) n \<longleftrightarrow> n < 64 \<and> (n + k < 64 \<longrightarrow> bit v n)"
  by (auto simp: bit_simps add.commute dest: bit_imp_le_length)

lemma low_bit_shifted:
  "0 < k \<Longrightarrow> push_bit k (v :: u64) AND 1 = 0" "0 < k \<Longrightarrow> NOT (push_bit k (v :: u64)) AND 1 = 1"
  by (auto intro!: bit_word_eqI simp: bit_simps)

lemma unzigzag_zigzag: "unzigzag (zigzag v) = v"
proof -
  have sign: "v <s 0 \<longleftrightarrow> bit v 63" using bit_last_iff [of v] by (simp add: word_sless_alt)
  have last_bit: "n < LENGTH(64) \<Longrightarrow> n + 1 < 64 \<or> n = 63" for n by auto
  have neg: "NOT (drop_bit 1 (NOT (push_bit 1 v))) = v" if "bit v 63"
    by (rule bit_word_eqI, subst bit_shifted_back) (use that last_bit in force)
  have pos: "drop_bit 1 (push_bit 1 v) = v" if "\<not> bit v 63"
    by (rule bit_word_eqI, subst bit_shifted_back) (use that last_bit in force)
  have low: "push_bit 1 v AND 1 = 0" "NOT (push_bit 1 v) AND 1 = 1"
    by (rule low_bit_shifted, simp)+
  show ?thesis
    unfolding zigzag_def unzigzag_def using neg pos low by (cases "v <s 0") (simp_all only: sign if_True if_False low simp_thms, simp_all)
qed

lemma emitted_read:
  assumes emit: "buffer.emit w bs" and l: "length bs \<le> length buf" "length buf < 2 ^ 63"
  shows "\<exists>out. w (pb_ostream_from_buffer buf (of_nat (length buf))) = Some (True, out) \<and>
    out_content (stream_state out) = bs \<and>
    gives (pb_istream_from_buffer (out_content (stream_state out) @ rest) (bytes_written out)) bs rest \<and>
    after (pb_istream_from_buffer (out_content (stream_state out) @ rest) (bytes_written out)) (length bs) rest =
      pb_istream_from_buffer rest 0"
proof -
  have "unat (of_nat (length bs) :: u64) = length bs" using l by (intro unat_of_nat_small) simp
  with emit_to_buffer(1) [OF emit l(2,1)] show ?thesis
    by (fastforce simp: gives_def pb_istream_from_buffer_def after_def)
qed

lemma decode_svarint_of:
  "pb_decode_varint s = Some (Some (zigzag v), s') \<Longrightarrow> pb_decode_svarint s = Some (Some v, s')"
  using unzigzag_zigzag [of v] unfolding pb_decode_svarint_def unzigzag_def by (simp add: read_then_def)

lemma varint_roundtrip_gives:
  assumes "10 \<le> length buf" "length buf < 2 ^ 63"
  obtains out where "pb_encode_varint (pb_ostream_from_buffer buf (of_nat (length buf))) v = Some (True, out)"
    "pb_decode_varint (pb_istream_from_buffer (out_content (stream_state out) @ rest) (bytes_written out) :: 's pb_istream) =
      Some (Some v, pb_istream_from_buffer rest 0)"
proof -
  have "length (uleb128_encode (unat v)) \<le> length buf"
    using length_varint_bytes [of v] assms(1) by (simp add: varint_bytes_uleb)
  from emitted_read [OF buffer.emit_varint this assms(2), of rest]
  obtain out where "pb_encode_varint (pb_ostream_from_buffer buf (of_nat (length buf))) v = Some (True, out)"
    and g: "gives (pb_istream_from_buffer (out_content (stream_state out) @ rest) (bytes_written out) :: 's pb_istream)
      (uleb128_encode (unat v)) rest"
    and a: "after (pb_istream_from_buffer (out_content (stream_state out) @ rest) (bytes_written out) :: 's pb_istream)
      (length (uleb128_encode (unat v))) rest = pb_istream_from_buffer rest 0"
    by blast
  then show ?thesis using that decode_varint_gives [OF g, unfolded a] by blast
qed

text \<open>C21: A number written by pb_encode_varint or pb_encode_svarint into a buffer with room for ten
  bytes is read back by pb_decode_varint or pb_decode_svarint, which leaves what follows it.\<close>

theorem varint_roundtrip:
  assumes "10 \<le> length buf" "length buf < 2 ^ 63"
  shows "(\<exists>out. pb_encode_varint (pb_ostream_from_buffer buf (of_nat (length buf))) v = Some (True, out) \<and>
      pb_decode_varint (pb_istream_from_buffer (out_content (stream_state out) @ rest) (bytes_written out) :: 's pb_istream) =
        Some (Some v, pb_istream_from_buffer rest 0)) \<and>
    (\<exists>out. pb_encode_svarint (pb_ostream_from_buffer buf (of_nat (length buf))) v = Some (True, out) \<and>
      pb_decode_svarint (pb_istream_from_buffer (out_content (stream_state out) @ rest) (bytes_written out) :: 's pb_istream) =
        Some (Some v, pb_istream_from_buffer rest 0))"
  by (rule conjI; rule varint_roundtrip_gives [OF assms, where ?'s = 's])
    (auto simp: pb_encode_svarint_def intro: decode_svarint_of)

theorem varint_roundtrip_witness:
  "(\<exists>out. pb_encode_varint (pb_ostream_from_buffer (replicate 10 0) 10) 300 = Some (True, out) \<and>
      pb_decode_varint (pb_istream_from_buffer (out_content (stream_state out) @ [7]) (bytes_written out) :: unit pb_istream) =
        Some (Some 300, pb_istream_from_buffer [7] 0)) \<and>
    (\<exists>out. pb_encode_svarint (pb_ostream_from_buffer (replicate 10 0) 10) 300 = Some (True, out) \<and>
      pb_decode_svarint (pb_istream_from_buffer (out_content (stream_state out) @ [7]) (bytes_written out) :: unit pb_istream) =
        Some (Some 300, pb_istream_from_buffer [7] 0))"
  using varint_roundtrip [of "replicate 10 0" 300 "[7]"] by simp

theorem decode_varint_every_branch_witness:
  "pb_decode_varint (pb_istream_from_buffer [0xAC, 2, 9] 3 :: unit pb_istream) =
     Some (Some 300, pb_istream_from_buffer [9] 1) \<and>
   pb_decode_varint (pb_istream_from_buffer [0xAC, 2, 9] 1 :: unit pb_istream) =
     Some (None, (pb_istream_from_buffer [2, 9] 0)\<lparr>ierrmsg := Some ''end-of-stream''\<rparr>)"
proof -
  have v: "varint_of 10 [0xAC, 2, 9] = (Inr 300, 2)" "varint_of 10 [0xAC] = (Inl ''end-of-stream'', 1)"
    by code_simp+
  show ?thesis
    using decode_varint_every_branch [of "pb_istream_from_buffer [0xAC, 2, 9] 3 :: unit pb_istream" "[0xAC, 2, 9]"]
      decode_varint_every_branch [of "pb_istream_from_buffer [0xAC, 2, 9] 1 :: unit pb_istream" "[0xAC, 2, 9]"] v
    by (simp add: pb_istream_from_buffer_def varint_outcome_def after_def stream_error_def)
qed

section \<open>A message\<close>

text \<open>C3: Decoding the wire format of a list of records takes exactly its bytes and does to memory
  what the records say, one after the other: values stored in their members, storage for
  pointers, entries appended, submessages in their place, fields the table does not have
  skipped.\<close>

theorem decode_applies_records:
  assumes "apply_message d E fs p rs w = Some w'" "records_ok rs" "length (tree_encode rs) < 2 ^ 64"
  shows "pb_decode_noinit d E (pb_istream_from_buffer (tree_encode rs) (of_nat (length (tree_encode rs)))) fs p w =
    Some (True, pb_istream_from_buffer [] 0, w')"
  using message_gives [OF assms(1,2), where rest = "[]"] assms(3)
  by (simp add: pb_istream_from_buffer_def after_def)

text \<open>What the encoder writes for a structure is decoded into the records that the structure has.\<close>

text \<open>C4: What the encoder writes for a structure is decoded, into another structure, as the records
  that the structure has.\<close>

theorem encoded_is_decoded:
  assumes "\<And>i. fields_ok (messages E i)" "fields_ok fs" "message_records d E fs p = Some (map (map_prod id wire_of) rs)"
    and "length (tree_encode rs) \<le> length buf" "length buf < 2 ^ 63"
    and "records_ok rs" "apply_message d' E' fs' p' rs w = Some w'"
  shows "\<exists>out. pb_encode d E (pb_ostream_from_buffer buf (of_nat (length buf))) fs p = Some (True, out) \<and>
    pb_decode_noinit d' E' (pb_istream_from_buffer (out_content (stream_state out)) (bytes_written out)) fs' p' w =
      Some (True, pb_istream_from_buffer [] 0, w')"
proof -
  have "buffer.emit (\<lambda>s. pb_encode d E s fs p) (tree_encode rs)"
    unfolding tree_encode_def by (rule buffer.emit_message [OF assms(1-3)])
  from emit_to_buffer(1) [OF this assms(5,4)] obtain out where out:
    "pb_encode d E (pb_ostream_from_buffer buf (of_nat (length buf))) fs p = Some (True, out)"
    "bytes_written out = of_nat (length (tree_encode rs))" "out_content (stream_state out) = tree_encode rs"
    by blast
  have "pb_decode_noinit d' E' (pb_istream_from_buffer (tree_encode rs) (of_nat (length (tree_encode rs)))) fs' p' w =
      Some (True, pb_istream_from_buffer [] 0, w')"
    using message_gives [OF assms(7,6), where rest = "[]"] assms(4,5)
    by (simp add: pb_istream_from_buffer_def after_def)
  with out show ?thesis by auto
qed

text \<open>An environment with an allocator that hands out one block after the other, and zeros in memory at 0x2000,
  with the blocks from 0x2040 on.\<close>

definition plain_env :: "(nat \<Rightarrow> pb_fields) \<Rightarrow> ('s, addr) pb_denv" where
  "plain_env tables =
     \<lparr>dmessages = tables, user_decode = (\<lambda>_ _ _ _ _. None), extension_decode = (\<lambda>_ _ _ _ _ _. None),
      dextension_fields = (\<lambda>_. PB_LAST_FIELD),
      pb_realloc = (\<lambda>w p n. if p = 0 then Some (heap w, w\<lparr>heap := heap w + n\<rparr>) else None),
      pb_free = (\<lambda>w p. Some w), fixed_count_local = (\<lambda>_. 0)\<rparr>"

definition empty_world :: "addr world" where
  "empty_world = \<lparr>wmem = (\<lambda>a. if a - 0x2000 < 128 then Some 0 else None), heap = 0x2040\<rparr>"

text \<open>The tables written out, for evaluation.\<close>

definition report_table :: "nat \<Rightarrow> pb_fields" where
  "report_table i =
     (let field = \<lambda>t type fd n p. \<lparr>tag = t, ftype = type, data_offset = fd, size_offset = 0, data_size = n, array_size = 0, ptr = p\<rparr>
      in if i = 0 then
           [field 1 0x96 0 8 NoPtr, field 3 0x96 0 8 NoPtr, field 4 0x12 0 4 NoPtr, field 5 0x96 4 8 NoPtr,
            field 6 0x96 0 8 NoPtr, field 7 0x96 0 8 NoPtr, field 10 0x18 0 16 (Submessage 1)]
         else if i = 1 then [(field 1 0xA8 8 16 (Submessage 2))\<lparr>size_offset := - 8\<rparr>]
         else if i = 2 then [field 1 0x96 0 8 NoPtr, field 2 0x96 0 8 NoPtr]
         else [])"

lemma report_tables: "crashlytics_messages = report_table" "google_crashlytics_Report_fields = report_table 0"
proof -
  have tables: "google_crashlytics_Report_fields = report_table 0" "google_crashlytics_FilesPayload_fields = report_table 1"
    "google_crashlytics_FilesPayload_File_fields = report_table 2"
    by code_simp+
  then show "crashlytics_messages = report_table"
    by (auto simp: crashlytics_messages_def fun_eq_iff less_Suc_eq numeral_eq_Suc report_table_def)
  show "google_crashlytics_Report_fields = report_table 0" by (rule tables)
qed

text \<open>A report with a version and the platform iOS, at 0x1000.\<close>

definition report_env :: "out_buffer pb_env" where
  "report_env = sample_env\<lparr>env_mem := (\<lambda>a.
     if a - 0x1000 < 0x48
     then Some (case map_of [(0x1000, 0x40), (0x1001, 0x10), (0x1010, 1), (0x1040, 3), (0x1044, 0x31), (0x1045, 0x2E), (0x1046, 0x30)] a of
       Some b \<Rightarrow> b | None \<Rightarrow> 0)
     else None)\<rparr>"

definition report_records :: "(u32 \<times> value_tree) list" where
  "report_records = [(1, BytesValue [0x31, 0x2E, 0x30]), (4, VarintValue 1)]"

lemma report_read:
  "message_records 3 report_env google_crashlytics_Report_fields 0x1000 = Some (map (map_prod id wire_of) report_records)"
  by code_simp

lemma report_ok: "records_ok report_records" "tree_encode report_records = [0x0A, 3, 0x31, 0x2E, 0x30, 0x20, 1]"
  by (simp_all add: report_records_def records_ok_def field_number_def record_tag_def uleb128_encode.simps)

lemma report_applied:
  "case apply_message 2 (plain_env report_table :: (unit, addr) pb_denv) (report_table 0) 0x2000 report_records empty_world of
      None \<Rightarrow> False
    | Some w \<Rightarrow> load64 (wmem w) 0x2000 = Some 0x2040 \<and> load_bytes (wmem w) 0x2040 7 = Some [3, 0, 0, 0, 0x31, 0x2E, 0x30] \<and>
        load32 (wmem w) 0x2010 = Some 1"
  by code_simp

theorem encoded_is_decoded_witness:
  "\<exists>out w. pb_encode 3 report_env (pb_ostream_from_buffer (replicate 7 0) 7) google_crashlytics_Report_fields 0x1000 = Some (True, out) \<and>
    pb_decode_noinit 2 (plain_env crashlytics_messages :: (unit, addr) pb_denv)
      (pb_istream_from_buffer (out_content (stream_state out)) (bytes_written out))
      google_crashlytics_Report_fields 0x2000 empty_world = Some (True, pb_istream_from_buffer [] 0, w) \<and>
    load64 (wmem w) 0x2000 = Some 0x2040 \<and> load_bytes (wmem w) 0x2040 7 = Some [3, 0, 0, 0, 0x31, 0x2E, 0x30] \<and>
    load32 (wmem w) 0x2010 = Some 1"
proof -
  obtain w where w: "apply_message 2 (plain_env crashlytics_messages :: (unit, addr) pb_denv)
      google_crashlytics_Report_fields 0x2000 report_records empty_world = Some w"
    "load64 (wmem w) 0x2000 = Some 0x2040" "load_bytes (wmem w) 0x2040 7 = Some [3, 0, 0, 0, 0x31, 0x2E, 0x30]"
    "load32 (wmem w) 0x2010 = Some 1"
    using report_applied unfolding report_tables by (auto split: option.splits)
  have ok: "fields_ok (messages report_env i)" for i using sample_fields_ok(1) [of i] by (simp add: report_env_def)
  show ?thesis
    using encoded_is_decoded [OF ok sample_fields_ok(2) report_read _ _ report_ok(1) w(1), of "replicate 7 0"] w(2-4)
    by (auto simp: report_ok(2))
qed

section \<open>The response of the log server\<close>

text \<open>\<open>gdt_cct_LogResponse_init_default\<close>: every member is zero.\<close>

definition response_init_default :: "addr \<Rightarrow> 'h world \<Rightarrow> 'h world option" where
  "response_init_default response w =
     update_mem w (\<lambda>m. store_bytes m response (replicate (struct_size gdt_cct_LogResponse) 0))"

text \<open>The error, if there is one, is the text that \<open>PB_GET_ERROR\<close> gives.\<close>

definition GDTCCTDecodeLogResponse ::
    "nat \<Rightarrow> ('s, 'h) pb_denv \<Rightarrow> addr \<Rightarrow> u8 list \<Rightarrow> 'h world \<Rightarrow> (string option \<times> 'h world) option" where
  "GDTCCTDecodeLogResponse d E response data w =
     do {
       w \<leftarrow> response_init_default response w;
       (ok, istream, w) \<leftarrow> pb_decode d E (pb_istream_from_buffer data (of_nat (length data))) gdt_cct_LogResponse_fields response w;
       if \<not> ok then do {
         w \<leftarrow> response_init_default response w;
         Some (Some (case ierrmsg istream of Some e \<Rightarrow> e | None \<Rightarrow> ''(none)''), w) }
       else Some (None, w) }"

theorem log_response_decoded:
  assumes "response_init_default response w = Some w1"
    and "pb_message_set_to_defaults d E gdt_cct_LogResponse_fields response w1 = Some w2"
    and "apply_message d E gdt_cct_LogResponse_fields response rs w2 = Some w'"
    and "records_ok rs" "length (tree_encode rs) < 2 ^ 64"
  shows "GDTCCTDecodeLogResponse d E response (tree_encode rs) w = Some (None, w')"
proof -
  have "pb_decode_noinit d E (pb_istream_from_buffer (tree_encode rs) (of_nat (length (tree_encode rs)))) gdt_cct_LogResponse_fields response w2 =
      Some (True, after (pb_istream_from_buffer (tree_encode rs) (of_nat (length (tree_encode rs)))) (length (tree_encode rs)) [], w')"
    by (rule message_gives [OF assms(3,4)]) (use assms(5) in \<open>simp_all add: pb_istream_from_buffer_def\<close>)
  with assms(1,2) show ?thesis
    by (simp add: GDTCCTDecodeLogResponse_def pb_decode_def decode_initialised_def)
qed

definition response_table :: "nat \<Rightarrow> pb_fields" where
  "response_table i =
     (if i = 6 then
        [\<lparr>tag = 2, ftype = 18, data_offset = 4, size_offset = - 4, data_size = 4, array_size = 0, ptr = NoPtr\<rparr>,
         \<lparr>tag = 3, ftype = 17, data_offset = 4, size_offset = - 4, data_size = 4, array_size = 0,
           ptr = DefaultValue [0, 0, 0, 0]\<rparr>]
      else if i = 7 then
        [\<lparr>tag = 1, ftype = 168, data_offset = 8, size_offset = - 8, data_size = 16, array_size = 0, ptr = Submessage 6\<rparr>,
         \<lparr>tag = 2, ftype = 17, data_offset = 8, size_offset = - 8, data_size = 8, array_size = 0, ptr = NoPtr\<rparr>]
      else if i = 8 then
        [\<lparr>tag = 1, ftype = 17, data_offset = 8, size_offset = - 8, data_size = 8, array_size = 0, ptr = NoPtr\<rparr>,
         \<lparr>tag = 3, ftype = 24, data_offset = 8, size_offset = - 8, data_size = 32, array_size = 0, ptr = Submessage 7\<rparr>]
      else cct_messages i)"

lemma response_tables: "cct_messages = response_table" "gdt_cct_LogResponse_fields = response_table 8"
proof -
  show t8: "gdt_cct_LogResponse_fields = response_table 8" by code_simp
  have "gdt_cct_QosTierConfiguration_fields = response_table 6" by code_simp
  moreover have "gdt_cct_QosTiersOverride_fields = response_table 7" by code_simp
  ultimately have "cct_messages 6 = response_table 6" "cct_messages 7 = response_table 7" "cct_messages 8 = response_table 8"
    using t8 by (simp_all add: cct_messages_def)
  then show "cct_messages = response_table" by (auto simp: response_table_def fun_eq_iff)
qed

definition response_records :: "(u32 \<times> value_tree) list" where
  "response_records =
     [(1, VarintValue 5000), (9, BytesValue [1, 2]),
      (3, MessageValue [(1, MessageValue [(2, VarintValue 1), (3, VarintValue 60)]), (2, VarintValue 77)])]"

lemma response_ok: "records_ok response_records"
  "tree_encode response_records = [8, 0x88, 0x27, 0x4A, 2, 1, 2, 0x1A, 8, 0x0A, 4, 0x10, 1, 0x18, 0x3C, 0x10, 0x4D]"
  by (simp_all add: response_records_def records_ok_def field_number_def record_tag_def encode_record_def uleb128_encode.simps)

lemma response_applied:
  "case apply_message 3 (plain_env response_table :: (unit, addr) pb_denv) (response_table 8) 0x2000 response_records empty_world of
      None \<Rightarrow> False
    | Some w \<Rightarrow> load64 (wmem w) 0x2008 = Some 5000 \<and> load64 (wmem w) 0x2030 = Some 77 \<and>
        load64 (wmem w) 0x2020 = Some 0x2040 \<and> load32 (wmem w) 0x204C = Some 60"
  by code_simp


lemma store_same: "(\<forall>i < length bs. m (a + of_nat i) = Some (bs ! i)) \<Longrightarrow> store_bytes m a bs = Some m"
proof (induction bs arbitrary: a)
  case (Cons b bs)
  from Cons.prems have m: "m a = Some b" by auto
  have "store_bytes m (a + 1) bs = Some m"
  proof (rule Cons.IH, safe)
    fix i assume "i < length bs"
    with Cons.prems [rule_format, of "Suc i"] show "m (a + 1 + of_nat i) = Some (bs ! i)" by (simp add: add.assoc)
  qed
  with m show ?case by (simp add: fun_upd_idem)
qed simp

lemma empty_initialised: "response_init_default 0x2000 empty_world = Some empty_world"
proof -
  have "struct_size gdt_cct_LogResponse = 56" by code_simp
  moreover have "store_bytes (wmem empty_world) 0x2000 (replicate 56 0) = Some (wmem empty_world)"
  proof (rule store_same, intro allI impI)
    fix i :: nat assume "i < length (replicate 56 (0 :: u8))"
    then have "i < 56" by simp
    then have "(of_nat i :: addr) < 128" "unat (of_nat i :: addr) = i" by (simp_all add: word_less_nat_alt unat_of_nat_small)
    with \<open>i < 56\<close> show "wmem empty_world (0x2000 + of_nat i) = Some (replicate 56 0 ! i)"
      by (simp add: empty_world_def)
  qed
  ultimately show ?thesis by (simp add: response_init_default_def update_mem_def)
qed

lemma waiting_applied:
  "case (do { w \<leftarrow> pb_message_set_to_defaults 3 (plain_env response_table :: (unit, addr) pb_denv) (response_table 8) 0x2000 empty_world;
     apply_message 3 (plain_env response_table :: (unit, addr) pb_denv) (response_table 8) 0x2000 (take 2 response_records) w }) of
      None \<Rightarrow> False
    | Some w \<Rightarrow> load64 (wmem w) 0x2008 = Some 5000"
  by code_simp

theorem log_response_decoded_witness:
  "\<exists>w. GDTCCTDecodeLogResponse 3 (plain_env cct_messages :: (unit, addr) pb_denv) 0x2000 [8, 0x88, 0x27, 0x4A, 2, 1, 2] empty_world =
      Some (None, w) \<and> load64 (wmem w) 0x2008 = Some 5000"
proof -
  let ?E = "plain_env cct_messages :: (unit, addr) pb_denv"
  obtain w2 w where w: "pb_message_set_to_defaults 3 ?E gdt_cct_LogResponse_fields 0x2000 empty_world = Some w2"
    "apply_message 3 ?E gdt_cct_LogResponse_fields 0x2000 (take 2 response_records) w2 = Some w" "load64 (wmem w) 0x2008 = Some 5000"
    using waiting_applied unfolding response_tables by (auto simp: bind_eq_Some_conv split: option.splits)
  have ok: "records_ok (take 2 response_records)" "tree_encode (take 2 response_records) = [8, 0x88, 0x27, 0x4A, 2, 1, 2]"
    by (simp_all add: response_records_def records_ok_def field_number_def record_tag_def uleb128_encode.simps)
  show ?thesis
    using log_response_decoded [OF empty_initialised w(1,2) ok(1)] w(3) ok(2) by auto
qed

theorem decode_applies_records_witness:
  "\<exists>w. pb_decode_noinit 3 (plain_env cct_messages :: (unit, addr) pb_denv)
      (pb_istream_from_buffer [8, 0x88, 0x27, 0x4A, 2, 1, 2, 0x1A, 8, 0x0A, 4, 0x10, 1, 0x18, 0x3C, 0x10, 0x4D] 17)
      gdt_cct_LogResponse_fields 0x2000 empty_world = Some (True, pb_istream_from_buffer [] 0, w) \<and>
    load64 (wmem w) 0x2008 = Some 5000 \<and> load64 (wmem w) 0x2030 = Some 77 \<and>
    load64 (wmem w) 0x2020 = Some 0x2040 \<and> load32 (wmem w) 0x204C = Some 60"
proof -
  let ?E = "plain_env cct_messages :: (unit, addr) pb_denv"
  obtain w where w: "apply_message 3 ?E gdt_cct_LogResponse_fields 0x2000 response_records empty_world = Some w"
    "load64 (wmem w) 0x2008 = Some 5000" "load64 (wmem w) 0x2030 = Some 77"
    "load64 (wmem w) 0x2020 = Some 0x2040" "load32 (wmem w) 0x204C = Some 60"
    using response_applied unfolding response_tables by (auto split: option.splits)
  show ?thesis using decode_applies_records [OF w(1) response_ok(1)] w(2-) by (simp add: response_ok(2))
qed

end
