(* ===== verification/FirestoreNanopb.thy ===== *)
theory FirestoreNanopb
  imports PbRoundtrip
begin

text \<open>
  How Firestore uses nanopb: the tables of a document and its values (\<open>document.nanopb.cc\<close>,
  \<open>timestamp.nanopb.cc\<close>, \<open>latlng.nanopb.cc\<close>), where a value is a union of which some members are in the
  structure and some behind pointers; and the reader and writers around \<open>pb_decode\<close> and \<open>pb_encode\<close>
  (\<open>Firestore/core/src/nanopb/reader.cc\<close>, \<open>writer.cc\<close>).
\<close>

section \<open>Values of Firestore\<close>

text \<open>An anonymous union is at one offset for all its members, aligned and padded for the largest. The structure
  as one of its members sees it has that member in the place of the union.\<close>

definition union_align :: "c_struct \<Rightarrow> nat" where
  "union_align ms = foldr max (map member_align ms) 1"

definition union_member :: "string \<Rightarrow> c_struct \<Rightarrow> c_member" where
  "union_member name ms =
     (let n = align_up (foldr max (map member_size ms) 0) (union_align ms)
      in \<lparr>member_name = name, member_size = n, member_align = union_align ms, element_size = n\<rparr>)"

definition union_variant :: "c_struct \<Rightarrow> c_struct \<Rightarrow> string \<Rightarrow> c_struct" where
  "union_variant front ms name =
     front @ map (\<lambda>m. m\<lparr>member_align := union_align ms\<rparr>) (filter (\<lambda>m. member_name m = name) ms)"

text \<open>\<open>PB_ANONYMOUS_ONEOF_STATIC\<close> and \<open>PB_ANONYMOUS_ONEOF_POINTER\<close>; there is none for callbacks.\<close>

definition PB_ANONYMOUS_ONEOF_FIELD ::
    "string \<Rightarrow> u32 \<Rightarrow> pb_type \<Rightarrow> pb_allocation \<Rightarrow> pb_placement \<Rightarrow> c_struct \<Rightarrow> c_struct \<Rightarrow> string \<Rightarrow> string \<Rightarrow> pb_ptr \<Rightarrow> pb_field" where
  "PB_ANONYMOUS_ONEOF_FIELD u t type allocation placement front ms m prevfield p =
     (let st = union_variant front ms m; fd = PB_DATAOFFSET placement st m prevfield; delta = pb_delta st (''which_'' @ u) m
      in if allocation = STATIC
         then pb_field_entry t (PB_ATYPE_STATIC OR PB_HTYPE_ONEOF OR PB_LTYPE_MAP type) fd delta (pb_membersize st m) 0 p
         else pb_field_entry t (PB_ATYPE_POINTER OR PB_HTYPE_ONEOF OR PB_LTYPE_MAP type) fd delta (pb_elementsize st m) 0 p)"

definition google_protobuf_Timestamp :: c_struct where
  "google_protobuf_Timestamp = [int64_member ''seconds'', int32_member ''nanos'']"

definition google_type_LatLng :: c_struct where
  "google_type_LatLng = [scalar_member 8 ''latitude'', scalar_member 8 ''longitude'']"

text \<open>The size of what a pointer points to does not matter for the layout; a value holds arrays of values.\<close>

definition google_firestore_v1_ArrayValue :: "nat \<Rightarrow> c_struct" where
  "google_firestore_v1_ArrayValue value_size = [int32_member ''values_count'', pointer_member ''values'' value_size]"

definition google_firestore_v1_MapValue :: "nat \<Rightarrow> c_struct" where
  "google_firestore_v1_MapValue entry_size = [int32_member ''fields_count'', pointer_member ''fields'' entry_size]"

definition google_firestore_v1_Value_which :: c_struct where
  "google_firestore_v1_Value_which = [int32_member ''which_value_type'']"

definition google_firestore_v1_Value_union :: c_struct where
  "google_firestore_v1_Value_union =
     [bool_member ''boolean_value'',
      int64_member ''integer_value'',
      scalar_member 8 ''double_value'',
      pointer_member ''reference_value'' pb_bytes_array_t,
      struct_member ''map_value'' (google_firestore_v1_MapValue 0),
      struct_member ''geo_point_value'' google_type_LatLng,
      struct_member ''array_value'' (google_firestore_v1_ArrayValue 0),
      struct_member ''timestamp_value'' google_protobuf_Timestamp,
      enum_member ''null_value'',
      pointer_member ''string_value'' pb_bytes_array_t,
      pointer_member ''bytes_value'' pb_bytes_array_t]"

definition google_firestore_v1_Value :: c_struct where
  "google_firestore_v1_Value = google_firestore_v1_Value_which @ [union_member ''value_type'' google_firestore_v1_Value_union]"

definition google_firestore_v1_MapValue_FieldsEntry :: c_struct where
  "google_firestore_v1_MapValue_FieldsEntry =
     [pointer_member ''key'' pb_bytes_array_t, struct_member ''value'' google_firestore_v1_Value]"

definition google_firestore_v1_Document_FieldsEntry :: c_struct where
  "google_firestore_v1_Document_FieldsEntry =
     [pointer_member ''key'' pb_bytes_array_t, struct_member ''value'' google_firestore_v1_Value]"

definition google_firestore_v1_Document :: c_struct where
  "google_firestore_v1_Document =
     [pointer_member ''name'' pb_bytes_array_t,
      int32_member ''fields_count'',
      pointer_member ''fields'' (struct_size google_firestore_v1_Document_FieldsEntry),
      struct_member ''create_time'' google_protobuf_Timestamp,
      bool_member ''has_update_time'',
      struct_member ''update_time'' google_protobuf_Timestamp]"

abbreviation (input) google_firestore_v1_Document_id :: nat where "google_firestore_v1_Document_id \<equiv> 0"
abbreviation (input) google_firestore_v1_Document_FieldsEntry_id :: nat where "google_firestore_v1_Document_FieldsEntry_id \<equiv> 1"
abbreviation (input) google_firestore_v1_Value_id :: nat where "google_firestore_v1_Value_id \<equiv> 2"
abbreviation (input) google_firestore_v1_ArrayValue_id :: nat where "google_firestore_v1_ArrayValue_id \<equiv> 3"
abbreviation (input) google_firestore_v1_MapValue_id :: nat where "google_firestore_v1_MapValue_id \<equiv> 4"
abbreviation (input) google_firestore_v1_MapValue_FieldsEntry_id :: nat where "google_firestore_v1_MapValue_FieldsEntry_id \<equiv> 5"
abbreviation (input) google_protobuf_Timestamp_id :: nat where "google_protobuf_Timestamp_id \<equiv> 6"
abbreviation (input) google_type_LatLng_id :: nat where "google_type_LatLng_id \<equiv> 7"

definition google_firestore_v1_Document_fields :: pb_fields where
  "google_firestore_v1_Document_fields =
     [PB_FIELD 1 BYTES SINGULAR POINTER FIRST google_firestore_v1_Document ''name'' ''name'' NoPtr,
      PB_FIELD 2 MESSAGE REPEATED POINTER OTHER google_firestore_v1_Document
        ''fields'' ''name'' (Submessage google_firestore_v1_Document_FieldsEntry_id),
      PB_FIELD 3 MESSAGE SINGULAR STATIC OTHER google_firestore_v1_Document
        ''create_time'' ''fields'' (Submessage google_protobuf_Timestamp_id),
      PB_FIELD 4 MESSAGE OPTIONAL STATIC OTHER google_firestore_v1_Document
        ''update_time'' ''create_time'' (Submessage google_protobuf_Timestamp_id)]"

definition google_firestore_v1_Document_FieldsEntry_fields :: pb_fields where
  "google_firestore_v1_Document_FieldsEntry_fields =
     [PB_FIELD 1 BYTES SINGULAR POINTER FIRST google_firestore_v1_Document_FieldsEntry ''key'' ''key'' NoPtr,
      PB_FIELD 2 MESSAGE SINGULAR STATIC OTHER google_firestore_v1_Document_FieldsEntry
        ''value'' ''key'' (Submessage google_firestore_v1_Value_id)]"

definition google_firestore_v1_Value_fields :: pb_fields where
  "google_firestore_v1_Value_fields =
     (let field = \<lambda>t type allocation placement m p.
            PB_ANONYMOUS_ONEOF_FIELD ''value_type'' t type allocation placement
              google_firestore_v1_Value_which google_firestore_v1_Value_union m m p
      in [field 1 BOOL STATIC FIRST ''boolean_value'' NoPtr,
          field 2 INT64 STATIC UNION ''integer_value'' NoPtr,
          field 3 DOUBLE STATIC UNION ''double_value'' NoPtr,
          field 5 BYTES POINTER UNION ''reference_value'' NoPtr,
          field 6 MESSAGE STATIC UNION ''map_value'' (Submessage google_firestore_v1_MapValue_id),
          field 8 MESSAGE STATIC UNION ''geo_point_value'' (Submessage google_type_LatLng_id),
          field 9 MESSAGE STATIC UNION ''array_value'' (Submessage google_firestore_v1_ArrayValue_id),
          field 10 MESSAGE STATIC UNION ''timestamp_value'' (Submessage google_protobuf_Timestamp_id),
          field 11 ENUM STATIC UNION ''null_value'' NoPtr,
          field 17 BYTES POINTER UNION ''string_value'' NoPtr,
          field 18 BYTES POINTER UNION ''bytes_value'' NoPtr])"

definition google_firestore_v1_ArrayValue_fields :: pb_fields where
  "google_firestore_v1_ArrayValue_fields =
     (let st = google_firestore_v1_ArrayValue (struct_size google_firestore_v1_Value)
      in [PB_FIELD 1 MESSAGE REPEATED POINTER FIRST st ''values'' ''values'' (Submessage google_firestore_v1_Value_id)])"

definition google_firestore_v1_MapValue_fields :: pb_fields where
  "google_firestore_v1_MapValue_fields =
     (let st = google_firestore_v1_MapValue (struct_size google_firestore_v1_MapValue_FieldsEntry)
      in [PB_FIELD 1 MESSAGE REPEATED POINTER FIRST st ''fields'' ''fields'' (Submessage google_firestore_v1_MapValue_FieldsEntry_id)])"

definition google_firestore_v1_MapValue_FieldsEntry_fields :: pb_fields where
  "google_firestore_v1_MapValue_FieldsEntry_fields =
     [PB_FIELD 1 BYTES SINGULAR POINTER FIRST google_firestore_v1_MapValue_FieldsEntry ''key'' ''key'' NoPtr,
      PB_FIELD 2 MESSAGE SINGULAR STATIC OTHER google_firestore_v1_MapValue_FieldsEntry
        ''value'' ''key'' (Submessage google_firestore_v1_Value_id)]"

definition google_protobuf_Timestamp_fields :: pb_fields where
  "google_protobuf_Timestamp_fields =
     [PB_FIELD 1 INT64 SINGULAR STATIC FIRST google_protobuf_Timestamp ''seconds'' ''seconds'' NoPtr,
      PB_FIELD 2 INT32 SINGULAR STATIC OTHER google_protobuf_Timestamp ''nanos'' ''seconds'' NoPtr]"

definition google_type_LatLng_fields :: pb_fields where
  "google_type_LatLng_fields =
     [PB_FIELD 1 DOUBLE SINGULAR STATIC FIRST google_type_LatLng ''latitude'' ''latitude'' NoPtr,
      PB_FIELD 2 DOUBLE SINGULAR STATIC OTHER google_type_LatLng ''longitude'' ''latitude'' NoPtr]"

definition firestore_messages :: "nat \<Rightarrow> pb_fields" where
  "firestore_messages i =
     (let tables = [google_firestore_v1_Document_fields,
        google_firestore_v1_Document_FieldsEntry_fields,
        google_firestore_v1_Value_fields,
        google_firestore_v1_ArrayValue_fields,
        google_firestore_v1_MapValue_fields,
        google_firestore_v1_MapValue_FieldsEntry_fields,
        google_protobuf_Timestamp_fields,
        google_type_LatLng_fields]
      in if i < length tables then tables ! i else [])"

lemma later_addresses_shift: "later_addresses prev (p + d) fs = map ((+) p) (later_addresses prev d fs)"
  by (induction fs arbitrary: prev d) (simp_all add: next_address_def Let_def add.assoc)

lemma field_addresses_shift: "field_addresses fs p = map ((+) p) (field_addresses fs 0)"
  using later_addresses_shift by (cases fs) (auto simp: Let_def)

text \<open>Every member of the value is at the union, with the which-field in front of it.\<close>

lemma value_members:
  "list_all2 (\<lambda>f a. a = p + 8 \<and> field_pSize f a = p)
     google_firestore_v1_Value_fields (field_addresses google_firestore_v1_Value_fields p)"
proof -
  have "list_all (\<lambda>a. a = 8) (field_addresses google_firestore_v1_Value_fields 0)"
    "list_all (\<lambda>f. field_pSize f 8 = 0) google_firestore_v1_Value_fields"
    by code_simp+
  then show ?thesis
    by (subst field_addresses_shift) (auto simp: list_all2_conv_all_nth list_all_length field_pSize_def add.assoc)
qed

section \<open>The reader\<close>

text \<open>\<open>StringReader\<close>: the status, \<open>None\<close> while it is OK, and the stream.\<close>

record 's string_reader =
  reader_status :: "string option"
  reader_stream :: "'s pb_istream"

definition StringReader :: "u8 list \<Rightarrow> 's string_reader" where
  "StringReader bytes =
     \<lparr>reader_status = None, reader_stream = pb_istream_from_buffer bytes (of_nat (length bytes))\<rparr>"

definition Fail :: "string \<Rightarrow> 's string_reader \<Rightarrow> 's string_reader" where
  "Fail description r =
     (if reader_status r = None then r\<lparr>reader_status := Some description\<rparr> else r)"

definition Read :: "nat \<Rightarrow> ('s, 'h) pb_denv \<Rightarrow> pb_fields \<Rightarrow> addr \<Rightarrow> 's string_reader \<Rightarrow> 'h world \<Rightarrow>
    ('s string_reader \<times> 'h world) option" where
  "Read d E fs dest r w =
     (if reader_status r \<noteq> None then Some (r, w)
      else do {
        (ok, stream, w) \<leftarrow> pb_decode d E (reader_stream r) fs dest w;
        let r = r\<lparr>reader_stream := stream\<rparr>;
        Some (if ok then r else Fail (case ierrmsg stream of Some e \<Rightarrow> e | None \<Rightarrow> ''(none)'') r, w) })"

section \<open>The writers\<close>

text \<open>\<open>ByteStringWriter\<close>: \<open>wbuffer\<close> is the size it records and the bytes allocated, \<open>wcapacity\<close> their number.
  \<open>grow\<close> stands for \<open>calloc\<close> and \<open>realloc\<close>; when there is no memory they give a null pointer, which the code
  then dereferences.\<close>

record byte_string_writer =
  wbuffer :: "(u32 \<times> u8 list) option"
  wcapacity :: u64

definition writer_size :: "byte_string_writer \<Rightarrow> u64" where
  "writer_size w = (case wbuffer w of Some (n, bs) \<Rightarrow> ucast n | None \<Rightarrow> 0)"

definition CheckedSize :: "u64 \<Rightarrow> u32 option" where
  "CheckedSize n = (if n \<le> ucast PB_SIZE_MAX then Some (ucast n) else None)"

definition Reserve :: "(u8 list option \<Rightarrow> u64 \<Rightarrow> u8 list option) \<Rightarrow> u64 \<Rightarrow> byte_string_writer \<Rightarrow> byte_string_writer option" where
  "Reserve grow min_capacity w =
     (let min_capacity = max min_capacity 4 in
      if min_capacity \<le> wcapacity w then Some w
      else let desired = max (wcapacity w * 2) min_capacity in
        do { bs \<leftarrow> grow (map_option snd (wbuffer w)) desired;
             let n = (case wbuffer w of Some (n, _) \<Rightarrow> n | None \<Rightarrow> 0);
             Some (w\<lparr>wbuffer := Some (n, bs), wcapacity := desired\<rparr>) })"

text \<open>\<open>HARD_ASSERT\<close> ends the program, as does a write past the end of the buffer: \<open>None\<close>.\<close>

definition Append :: "(u8 list option \<Rightarrow> u64 \<Rightarrow> u8 list option) \<Rightarrow> u8 list \<Rightarrow> byte_string_writer \<Rightarrow> byte_string_writer option" where
  "Append grow data w =
     (if data = [] then Some w
      else do {
        pb_size \<leftarrow> CheckedSize (of_nat (length data));
        let current_size = writer_size w;
        let min_capacity = current_size + ucast pb_size;
        w \<leftarrow> (if min_capacity \<ge> current_size then Reserve grow min_capacity w else None);
        (n, bs) \<leftarrow> wbuffer w;
        if unat n + length data \<le> length bs
        then Some (w\<lparr>wbuffer := Some (n + pb_size, take (unat n) bs @ data @ drop (unat n + length data) bs)\<rparr>)
        else None })"

definition SetSize :: "u64 \<Rightarrow> byte_string_writer \<Rightarrow> byte_string_writer option" where
  "SetSize n w =
     do { (_, bs) \<leftarrow> wbuffer w;
          if n \<le> wcapacity w then do { k \<leftarrow> CheckedSize n; Some (w\<lparr>wbuffer := Some (k, bs)\<rparr>) } else None }"

definition Release :: "byte_string_writer \<Rightarrow> u8 list \<times> byte_string_writer" where
  "Release w =
     (case wbuffer w of Some (n, bs) \<Rightarrow> take (unat n) bs | None \<Rightarrow> [], w\<lparr>wbuffer := None, wcapacity := 0\<rparr>)"

definition AppendToBytesArray ::
    "(u8 list option \<Rightarrow> u64 \<Rightarrow> u8 list option) \<Rightarrow> byte_string_writer \<Rightarrow> u8 list \<Rightarrow> (bool \<times> byte_string_writer) option" where
  "AppendToBytesArray grow w data = map_option (Pair True) (Append grow data w)"

definition ByteStringWriter :: "(u8 list option \<Rightarrow> u64 \<Rightarrow> u8 list option) \<Rightarrow> byte_string_writer pb_ostream" where
  "ByteStringWriter grow =
     \<lparr>callback = Some (AppendToBytesArray grow), stream_state = \<lparr>wbuffer = None, wcapacity = 0\<rparr>,
      max_size = - 1, bytes_written = 0, errmsg = None\<rparr>"

definition AppendToString :: "u8 list \<Rightarrow> u8 list \<Rightarrow> (bool \<times> u8 list) option" where
  "AppendToString str buf = Some (True, str @ buf)"

definition StringWriter :: "u8 list pb_ostream" where
  "StringWriter =
     \<lparr>callback = Some AppendToString, stream_state = [], max_size = - 1, bytes_written = 0, errmsg = None\<rparr>"

text \<open>\<open>HARD_FAIL\<close> ends the program.\<close>

definition Write :: "nat \<Rightarrow> 's pb_env \<Rightarrow> pb_fields \<Rightarrow> addr \<Rightarrow> 's pb_ostream \<Rightarrow> 's pb_ostream option" where
  "Write d E fs src stream =
     do { (ok, stream) \<leftarrow> pb_encode d E stream fs src; if ok then Some stream else None }"

subsection \<open>The writers take what the encoder gives them\<close>

text \<open>The buffer is as large as the capacity says and holds what has been written.\<close>

definition writer_ok :: "byte_string_writer \<Rightarrow> bool" where
  "writer_ok w \<longleftrightarrow> unat (wcapacity w) \<le> 2 ^ 33 \<and>
     (case wbuffer w of None \<Rightarrow> wcapacity w = 0 | Some (n, bs) \<Rightarrow> length bs = unat (wcapacity w) \<and> unat n \<le> length bs)"

text \<open>\<open>calloc\<close> and \<open>realloc\<close> where there are up to 8 GB of memory: as many bytes as asked for, the old ones
  first.\<close>

definition grows :: "(u8 list option \<Rightarrow> u64 \<Rightarrow> u8 list option) \<Rightarrow> bool" where
  "grows grow \<longleftrightarrow>
     (\<forall>old n. (case old of Some bs \<Rightarrow> length bs | None \<Rightarrow> 0) \<le> unat n \<and> unat n \<le> 2 ^ 33 \<longrightarrow>
        (\<exists>bs. grow old n = Some bs \<and> length bs = unat n \<and> (\<forall>b. old = Some b \<longrightarrow> take (length b) bs = b)))"

definition writer_content :: "byte_string_writer \<Rightarrow> u8 list" where
  "writer_content w = fst (Release w)"

definition writer_room :: "(u8 list option \<Rightarrow> u64 \<Rightarrow> u8 list option) \<Rightarrow> byte_string_writer \<Rightarrow> nat" where
  "writer_room grow w = (if writer_ok w \<and> grows grow then 2 ^ 32 - 1 - unat (writer_size w) else 0)"


lemma reserve_grows:
  assumes ok: "writer_ok w" and g: "grows grow" and n: "unat n < 2 ^ 32"
  shows "\<exists>w'. Reserve grow n w = Some w' \<and> writer_ok w' \<and> unat n \<le> unat (wcapacity w') \<and> wbuffer w' \<noteq> None \<and>
    writer_size w' = writer_size w \<and> writer_content w' = writer_content w"
proof -
  let ?m = "max n 4"
  have m: "unat ?m < 2 ^ 32" "unat n \<le> unat ?m" using n by (auto simp: max_def word_le_nat_alt)
  show ?thesis
  proof (cases "?m \<le> wcapacity w")
    case True
    then have "wcapacity w \<noteq> 0" by (auto simp: max_def word_le_nat_alt split: if_splits)
    moreover have "unat n \<le> unat (wcapacity w)" using True m(2) by (simp add: word_le_nat_alt)
    ultimately show ?thesis using True ok by (auto simp: Reserve_def Let_def writer_ok_def split: option.splits)
  next
    case False
    let ?d = "max (wcapacity w * 2) ?m"
    have c: "unat (wcapacity w) < unat ?m" using False by (simp add: word_le_nat_alt)
    have u2: "unat (wcapacity w * 2) = unat (wcapacity w) * 2"
      using c m by (subst unat_word_ariths) simp
    have d: "unat ?d \<le> 2 ^ 33" "unat (wcapacity w) \<le> unat ?d" "unat n \<le> unat ?d"
      using c m u2 by (auto simp: max_def word_le_nat_alt)
    have "(case map_option snd (wbuffer w) of Some bs \<Rightarrow> length bs | None \<Rightarrow> 0) \<le> unat ?d"
      using ok d(2) by (auto simp: writer_ok_def split: option.splits)
    then obtain bs where bs: "grow (map_option snd (wbuffer w)) ?d = Some bs" "length bs = unat ?d"
      "\<forall>b. map_option snd (wbuffer w) = Some b \<longrightarrow> take (length b) bs = b"
      using g d(1) unfolding grows_def by blast
    let ?n = "case wbuffer w of Some (n, _) \<Rightarrow> n | None \<Rightarrow> 0"
    let ?w = "w\<lparr>wbuffer := Some (?n, bs), wcapacity := ?d\<rparr>"
    have "Reserve grow n w = Some ?w"
      unfolding Reserve_def Let_def if_not_P [OF False] bs(1) by simp
    moreover have "writer_ok ?w" using ok bs(2) d by (auto simp: writer_ok_def split: option.splits)
    moreover have "writer_size ?w = writer_size w" by (auto simp: writer_size_def split: option.splits)
    moreover have "writer_content ?w = writer_content w"
    proof (cases "wbuffer w")
      case (Some x)
      then obtain k old where x: "wbuffer w = Some (k, old)" by (cases x) auto
      then have "take (length old) bs = old" "unat k \<le> length old" using bs(3) ok by (auto simp: writer_ok_def)
      then have "take (unat k) bs = take (unat k) old" by (metis min_absorb1 take_take)
      with x show ?thesis by (simp add: writer_content_def Release_def)
    qed (simp add: writer_content_def Release_def)
    ultimately show ?thesis using d(3) by auto
  qed
qed

lemma size_unat: "unat (writer_size w) = (case wbuffer w of Some (n, bs) \<Rightarrow> unat n | None \<Rightarrow> 0)"
  by (auto simp: writer_size_def unat_ucast_u32 split: option.splits)

lemma append_takes:
  assumes ok: "writer_ok w" and g: "grows grow" and l: "bs \<noteq> []" "unat (writer_size w) + length bs < 2 ^ 32"
  shows "\<exists>w'. Append grow bs w = Some w' \<and> writer_ok w' \<and> writer_content w' = writer_content w @ bs \<and>
    unat (writer_size w') = unat (writer_size w) + length bs"
proof -
  let ?k = "of_nat (length bs) :: u64"
  have k: "unat ?k = length bs" using l(2) by (intro unat_of_nat_small) simp
  have k32: "unat (of_nat (length bs) :: u32) = length bs" using l(2) by (intro unat_of_nat_small) simp
  have checked: "CheckedSize ?k = Some (of_nat (length bs))"
  proof -
    have "?k \<le> ucast PB_SIZE_MAX" using l(2) by (simp add: word_le_nat_alt k PB_SIZE_MAX_def)
    then show ?thesis by (simp add: CheckedSize_def ucast_eq_of_nat [OF k])
  qed
  have u: "(ucast (of_nat (length bs) :: u32) :: u64) = ?k" using l(2) by (intro ucast_of_nat_small) simp
  let ?m = "writer_size w + ?k"
  have m: "unat ?m = unat (writer_size w) + length bs"
    using l(2) by (intro unat_add_of_nat_small) simp
  then have m': "?m \<ge> writer_size w" "unat ?m < 2 ^ 32" using l(2) by (simp_all add: word_le_nat_alt)
  obtain w1 where w1: "Reserve grow ?m w = Some w1" "writer_ok w1" "unat ?m \<le> unat (wcapacity w1)" "wbuffer w1 \<noteq> None"
    "writer_size w1 = writer_size w" "writer_content w1 = writer_content w"
    using reserve_grows [OF ok g m'(2)] by blast
  then obtain n old where b: "wbuffer w1 = Some (n, old)" by auto
  have n: "unat n = unat (writer_size w)" using w1(5) b size_unat [of w1] by simp
  have fit: "unat n + length bs \<le> length old" using w1(2,3) b m n by (simp add: writer_ok_def)
  have sum: "unat (n + of_nat (length bs)) = unat n + length bs"
    using l(2) n by (intro unat_add_of_nat_small) simp
  let ?w = "w1\<lparr>wbuffer := Some (n + of_nat (length bs), take (unat n) old @ bs @ drop (unat n + length bs) old)\<rparr>"
  have "Append grow bs w = Some ?w"
    using l(1) checked m'(1) w1(1) b fit by (simp add: Append_def Let_def u)
  moreover have "writer_ok ?w" using w1(2) b fit sum by (simp add: writer_ok_def)
  moreover have "writer_content ?w = writer_content w @ bs"
    unfolding w1(6) [symmetric] using b fit sum by (simp add: writer_content_def Release_def)
  moreover have "unat (writer_size ?w) = unat (writer_size w) + length bs" using n sum by (simp add: size_unat)
  ultimately show ?thesis by blast
qed

interpretation byte_string: byte_sink "AppendToBytesArray grow" writer_content "writer_room grow" for grow
proof
  fix bs :: "u8 list" and w
  assume l: "bs \<noteq> []" "length bs \<le> writer_room grow w"
  then have ok: "writer_ok w" "grows grow" "unat (writer_size w) + length bs < 2 ^ 32"
    by (cases bs; auto simp: writer_room_def split: if_splits)+
  from append_takes [OF ok(1,2) l(1) ok(3)]
  show "\<exists>w'. AppendToBytesArray grow w bs = Some (True, w') \<and> writer_content w' = writer_content w @ bs \<and>
      writer_room grow w' = writer_room grow w - length bs"
    using ok by (auto simp: AppendToBytesArray_def writer_room_def)
qed

definition string_room :: "u8 list \<Rightarrow> nat" where
  "string_room str = 2 ^ 63 - length str"

interpretation plain_string: byte_sink AppendToString id string_room
  by unfold_locales (simp add: AppendToString_def string_room_def)

lemma unlimited_able:
  "max_size s = - 1 \<Longrightarrow> bytes_written s = 0 \<Longrightarrow> callback s = Some put \<Longrightarrow> errmsg s = None \<Longrightarrow>
   length bs \<le> room (stream_state s) \<Longrightarrow> length bs < 2 ^ 63 \<Longrightarrow> able put room s bs"
  by (simp add: able_def fits_def unsigned_minus_1_eq_mask mask_eq_exp_minus_1)

lemma byte_string_written:
  assumes "\<And>i. fields_ok (messages E i)" "fields_ok fs" "message_records d E fs p = Some rs"
    and l: "length (wire_encode rs) < 2 ^ 32" and g: "grows grow"
  shows "\<exists>stream. Write d E fs p (ByteStringWriter grow) = Some stream \<and>
    fst (Release (stream_state stream)) = wire_encode rs"
proof -
  have emit: "byte_string.emit grow (\<lambda>s. pb_encode d E s fs p) (wire_encode rs)"
    by (rule byte_string.emit_message [OF assms(1-3)])
  have "able (AppendToBytesArray grow) (writer_room grow) (ByteStringWriter grow) (wire_encode rs)"
    by (rule unlimited_able) (use l g in \<open>simp_all add: ByteStringWriter_def writer_room_def writer_ok_def writer_size_def\<close>)
  then obtain t where "pb_encode d E (ByteStringWriter grow) fs p =
      Some (True, (counted (ByteStringWriter grow) (wire_encode rs))\<lparr>stream_state := t\<rparr>)"
    "writer_content t = writer_content (stream_state (ByteStringWriter grow)) @ wire_encode rs"
    using emit l unfolding emits_def by fastforce
  then show ?thesis by (simp add: Write_def writer_content_def ByteStringWriter_def Release_def)
qed

lemma plain_string_written:
  assumes "\<And>i. fields_ok (messages E i)" "fields_ok fs" "message_records d E fs p = Some rs"
    and l: "length (wire_encode rs) < 2 ^ 63"
  shows "\<exists>stream. Write d E fs p StringWriter = Some stream \<and> stream_state stream = wire_encode rs"
proof -
  have emit: "plain_string.emit (\<lambda>s. pb_encode d E s fs p) (wire_encode rs)"
    by (rule plain_string.emit_message [OF assms(1-3)])
  have "able AppendToString string_room StringWriter (wire_encode rs)"
    by (rule unlimited_able) (use l in \<open>simp_all add: StringWriter_def string_room_def\<close>)
  then obtain t where "pb_encode d E StringWriter fs p = Some (True, (counted StringWriter (wire_encode rs))\<lparr>stream_state := t\<rparr>)"
    "t = stream_state StringWriter @ wire_encode rs"
    using emit l unfolding emits_def by fastforce
  then show ?thesis by (simp add: Write_def StringWriter_def)
qed

text \<open>C5: A message that Firestore writes into its growing buffer is written and read back: where
  calloc and realloc give the memory asked for, the bytes released by the writer are exactly the
  wire format of the records of the structure, the reader stays OK, and the structure read has
  its defaults and then the records of the one written.\<close>

theorem firestore_write_read:
  assumes "\<And>i. fields_ok (messages E i)" "fields_ok fs" "message_records d E fs p = Some (map (map_prod id wire_of) rs)"
    and "length (tree_encode rs) < 2 ^ 32" "grows grow" "records_ok rs"
    and "pb_message_set_to_defaults d' E' fs' p' w = Some w1" "apply_message d' E' fs' p' rs w1 = Some w'"
  shows "\<exists>stream. Write d E fs p (ByteStringWriter grow) = Some stream \<and>
    fst (Release (stream_state stream)) = wire_encode (map (map_prod id wire_of) rs) \<and>
    Read d' E' fs' p' (StringReader (fst (Release (stream_state stream)))) w =
      Some (\<lparr>reader_status = None, reader_stream = pb_istream_from_buffer [] 0\<rparr>, w')"
proof -
  let ?bs = "tree_encode rs"
  have l: "length ?bs < 2 ^ 64" using assms(4) by simp
  have "pb_decode_noinit d' E' (pb_istream_from_buffer ?bs (of_nat (length ?bs))) fs' p' w1 =
      Some (True, after (pb_istream_from_buffer ?bs (of_nat (length ?bs))) (length ?bs) [], w')"
    by (rule message_gives [OF assms(8,6)]) (use l in \<open>simp_all add: pb_istream_from_buffer_def\<close>)
  then have "Read d' E' fs' p' (StringReader ?bs) w =
      Some (\<lparr>reader_status = None, reader_stream = pb_istream_from_buffer [] 0\<rparr>, w')"
    using assms(7) by (simp add: Read_def StringReader_def pb_decode_def decode_initialised_def pb_istream_from_buffer_def after_def)
  moreover have "\<exists>stream. Write d E fs p (ByteStringWriter grow) = Some stream \<and> fst (Release (stream_state stream)) = ?bs"
    using byte_string_written [OF assms(1-3) _ assms(5)] assms(4) by (simp add: tree_encode_def)
  ultimately show ?thesis by (auto simp: tree_encode_def)
qed

text \<open>An integer, written and read.\<close>

definition value_table :: pb_fields where
  "value_table =
     (let field = \<lambda>t type fd n p. \<lparr>tag = t, ftype = type, data_offset = fd, size_offset = - 8, data_size = n, array_size = 0, ptr = p\<rparr>
      in [field 1 0x30 8 1 NoPtr, field 2 0x31 (- 1) 8 NoPtr, field 3 0x35 (- 1) 8 NoPtr, field 5 0xB6 (- 1) 8 NoPtr,
          field 6 0x38 (- 1) 16 (Submessage 4), field 8 0x38 (- 1) 16 (Submessage 7), field 9 0x38 (- 1) 16 (Submessage 3),
          field 10 0x38 (- 1) 16 (Submessage 6), field 11 0x31 (- 1) 4 NoPtr, field 17 0xB6 (- 1) 8 NoPtr, field 18 0xB6 (- 1) 8 NoPtr])"

lemma value_table: "google_firestore_v1_Value_fields = value_table"
  by code_simp

definition value_env :: "'s pb_env" where
  "value_env =
     \<lparr>env_mem = (\<lambda>a. if a - 0x1000 < 24 then Some (if a = 0x1000 then 2 else if a = 0x1008 then 77 else 0) else None),
      messages = (\<lambda>_. []), user_encode = (\<lambda>_ _ _ _. None), extension_encode = (\<lambda>_ _ _. None),
      extension_fields = (\<lambda>_. PB_LAST_FIELD)\<rparr>"

lemma value_read: "message_records 2 (value_env :: byte_string_writer pb_env) value_table 0x1000 = Some [(2, Varint 77)]"
  by code_simp

lemma value_applied:
  "case (do { w \<leftarrow> pb_message_set_to_defaults 2 (plain_env (\<lambda>_. []) :: (unit, addr) pb_denv) value_table 0x2000 empty_world;
              apply_message 2 (plain_env (\<lambda>_. []) :: (unit, addr) pb_denv) value_table 0x2000 [(2, VarintValue 77)] w }) of
     None \<Rightarrow> False | Some w \<Rightarrow> load32 (wmem w) 0x2000 = Some 2 \<and> load64 (wmem w) 0x2008 = Some 77"
  by code_simp

definition plain_grow :: "u8 list option \<Rightarrow> u64 \<Rightarrow> u8 list option" where
  "plain_grow old n = Some (let bs = (case old of None \<Rightarrow> [] | Some b \<Rightarrow> b) in bs @ replicate (unat n - length bs) 0)"

lemma plain_grows: "grows plain_grow"
  by (auto simp: grows_def plain_grow_def split: option.splits)

theorem firestore_write_read_witness:
  "\<exists>stream w. Write 2 value_env google_firestore_v1_Value_fields 0x1000 (ByteStringWriter plain_grow) = Some stream \<and>
    fst (Release (stream_state stream)) = [0x10, 77] \<and>
    Read 2 (plain_env (\<lambda>_. []) :: (unit, addr) pb_denv) google_firestore_v1_Value_fields 0x2000
      (StringReader (fst (Release (stream_state stream)))) empty_world =
      Some (\<lparr>reader_status = None, reader_stream = pb_istream_from_buffer [] 0\<rparr>, w) \<and>
    load32 (wmem w) 0x2000 = Some 2 \<and> load64 (wmem w) 0x2008 = Some 77"
proof -
  obtain w1 w where w: "pb_message_set_to_defaults 2 (plain_env (\<lambda>_. []) :: (unit, addr) pb_denv) value_table 0x2000 empty_world = Some w1"
    "apply_message 2 (plain_env (\<lambda>_. []) :: (unit, addr) pb_denv) value_table 0x2000 [(2, VarintValue 77)] w1 = Some w"
    "load32 (wmem w) 0x2000 = Some 2" "load64 (wmem w) 0x2008 = Some 77"
    using value_applied by (auto simp: bind_eq_Some_conv split: option.splits)
  have ok: "fields_ok (messages value_env i)" "fields_ok value_table" for i
  proof -
    show "fields_ok (messages value_env i)" by (simp add: value_env_def fields_ok_def)
    show "fields_ok value_table" by code_simp
  qed
  have rs: "records_ok [(2, VarintValue 77)]" "length (tree_encode [(2, VarintValue 77)]) < 2 ^ 32"
    by (simp_all add: records_ok_def field_number_def record_tag_def uleb128_encode.simps)
  have "message_records 2 (value_env :: byte_string_writer pb_env) value_table 0x1000 =
      Some (map (map_prod id wire_of) [(2, VarintValue 77)])"
    using value_read by simp
  from firestore_write_read [OF ok this rs(2) plain_grows rs(1) w(1,2)]
  obtain stream where "Write 2 value_env value_table 0x1000 (ByteStringWriter plain_grow) = Some stream"
    "fst (Release (stream_state stream)) = wire_encode (map (map_prod id wire_of) [(2, VarintValue 77)])"
    "Read 2 (plain_env (\<lambda>_. []) :: (unit, addr) pb_denv) value_table 0x2000
      (StringReader (fst (Release (stream_state stream)))) empty_world =
      Some (\<lparr>reader_status = None, reader_stream = pb_istream_from_buffer [] 0\<rparr>, w)" by blast
  moreover have "wire_encode (map (map_prod id wire_of) [(2, VarintValue 77)]) = [0x10, 77]"
    by (simp add: encode_record_def record_tag_def uleb128_encode.simps)
  ultimately show ?thesis unfolding value_table using w(3,4) by metis
qed

section \<open>A pointer that is a number\<close>

text \<open>The field that the search ends at.\<close>

lemma value_table_ok: "table_ok google_firestore_v1_Value_fields"
  by code_simp

lemma value_find:
  assumes "iter_at google_firestore_v1_Value_fields p i iter" "k < 11" "tag (value_table ! k) = t"
  shows "\<exists>iter' j. pb_field_iter_find iter t = Some (True, iter') \<and> iter_at google_firestore_v1_Value_fields p j iter' \<and>
    iter_field iter' = value_table ! k \<and> pData iter' = p + 8 \<and> pSize iter' = p"
proof -
  have n: "length value_table = 11" "list_all (\<lambda>f. PB_LTYPE (ftype f) \<noteq> PB_LTYPE_EXTENSION) value_table" "distinct (map tag value_table)"
    by code_simp+
  then have m: "field_matches t (value_table ! k)" "value_table ! k \<in> set google_firestore_v1_Value_fields"
    using assms(2,3) by (auto simp: field_matches_def list_all_length value_table)
  have "fields_ok google_firestore_v1_Value_fields" using value_table_ok by (simp add: table_ok_def)
  then obtain iter' j where f: "pb_field_iter_find iter t = Some (True, iter')" "iter_at google_firestore_v1_Value_fields p j iter'"
    "field_matches t (google_firestore_v1_Value_fields ! j)"
    using iter_find_correct [OF _ assms(1), of t] m by (metis (full_types))
  have j: "j < 11" using f(2) n(1) by (simp add: iter_at_def value_table)
  then have "map tag value_table ! j = map tag value_table ! k"
    using f(3) assms(2,3) n(1) by (simp add: field_matches_def value_table)
  then have "j = k" using nth_eq_iff_index_eq [OF n(3), of j k] j assms(2) n(1) by simp
  moreover have "field_addresses google_firestore_v1_Value_fields p ! j = p + 8" "field_pSize (google_firestore_v1_Value_fields ! j) (p + 8) = p"
    using list_all2_nthD [OF value_members [of p], of j] j n(1) by (auto simp: value_table)
  ultimately show ?thesis using f(1,2) by (auto simp: iter_at_def field_at_def value_table)
qed

text \<open>Bytes after an integer: what the integer left in the union is taken for the block to be enlarged.\<close>

lemma union_confused_step:
  assumes st: "between google_firestore_v1_Value_fields p st"
    and which: "load32 (wmem (dworld st)) p = Some 2"
    and stored: "update_mem (dworld st) (\<lambda>m. store32 m p 17) = Some w2" "load64 (wmem w2) (p + 8) = Some v"
    and fault: "pb_realloc E w2 v (of_nat (length bs + 4)) = None"
    and l: "length bs < 2 ^ 32" and g: "gives (dstream st) (record_tag 17 2 @ uleb128_encode (length bs) @ bs) rest"
  shows "decode_next E local (decode_field E initialised noinit defaults (pb_release_single_field (Suc d) E)) st = None"
proof -
  let ?s = "after (dstream st) (length (record_tag 17 2)) (uleb128_encode (length bs) @ bs @ rest)"
  have g1: "gives (dstream st) (record_tag 17 2) (uleb128_encode (length bs) @ bs @ rest)"
    and g2: "gives ?s (uleb128_encode (length bs)) (bs @ rest)"
    using g gives_append [of "dstream st" "record_tag 17 2" "uleb128_encode (length bs) @ bs" rest]
      gives_append [of ?s "uleb128_encode (length bs)" bs rest] by simp_all
  have tag: "pb_decode_tag (dstream st) = Some (Some (17, of_nat 2), False, ?s)"
    by (rule decode_tag_gives [OF g1]) (simp_all add: field_number_def)
  have t: "value_table ! 9 = \<lparr>tag = 17, ftype = 0xB6, data_offset = - 1, size_offset = - 8, data_size = 8, array_size = 0, ptr = NoPtr\<rparr>"
    "value_table ! 1 = \<lparr>tag = 2, ftype = 0x31, data_offset = - 1, size_offset = - 8, data_size = 8, array_size = 0, ptr = NoPtr\<rparr>"
    by (simp_all add: value_table_def)
  obtain i where i: "iter_at google_firestore_v1_Value_fields p i (diter st)" using st by (auto simp: between_def)
  obtain iter j where f: "pb_field_iter_find (diter st) 17 = Some (True, iter)" "iter_at google_firestore_v1_Value_fields p j iter"
    "iter_field iter = value_table ! 9" "pData iter = p + 8" "pSize iter = p"
    using value_find [OF i, of 9 17] t by auto
  obtain old k where o: "pb_field_iter_find iter 2 = Some (True, old)" "iter_at google_firestore_v1_Value_fields p k old"
    "iter_field old = value_table ! 1" "pData old = p + 8" "pSize old = p"
    using value_find [OF f(2), of 1 2] t by auto
  obtain iter' j' where f': "pb_field_iter_find old 17 = Some (True, iter')" "iter_field iter' = value_table ! 9" "pData iter' = p + 8" "pSize iter' = p"
    using value_find [OF o(2), of 9 17] t by auto
  have types: "PB_HTYPE 0x31 = PB_HTYPE_ONEOF" "PB_ATYPE 0x31 = PB_ATYPE_STATIC" "PB_LTYPE 0x31 = PB_LTYPE_VARINT"
    "PB_HTYPE 0xB6 = PB_HTYPE_ONEOF" "PB_ATYPE 0xB6 = PB_ATYPE_POINTER" "PB_LTYPE 0xB6 = PB_LTYPE_BYTES"
    by code_simp+
  have release: "pb_release_single_field (Suc d) E old (dworld st) = Some (dworld st)"
    using types o(3,5) t which
    by (simp add: release_single_def release_inside_def release_pointer_def pb_ltypes pb_atypes)
  have union: "pb_release_union_field (pb_release_single_field (Suc d) E) s iter (dworld st) = Some (True, s, iter', dworld st)" for s :: "'a pb_istream"
    using which f o f' t release by (simp add: pb_release_union_field_def del: pb_release_single_field.simps)
  have alloc: "allocate_field E s w2 (p + 8) (of_nat (length bs + 4)) 1 = None" for s :: "'a pb_istream"
  proof -
    have "unat (of_nat (length bs + 4) :: u64) = length bs + 4" using l by (intro unat_of_nat_small) simp
    then have "(of_nat (length bs + 4) :: u64) \<noteq> 0" by (metis unat_0 add_is_0 zero_neq_numeral)
    moreover have "\<not> (- 1 :: u64) div 1 < of_nat (length bs + 4)" by (simp add: word_order.extremum_strict)
    ultimately show ?thesis using stored(2) fault by (simp add: allocate_field_def)
  qed
  have bytes: "pb_dec_bytes E ?s (value_table ! 9) (p + 8) w2 = None"
  proof -
    have alloc_size: "PB_BYTES_ARRAY_T_ALLOCSIZE (of_nat (length bs)) = of_nat (length bs + 4)"
      by (simp add: PB_BYTES_ARRAY_T_ALLOCSIZE_def)
    have n: "(ucast (of_nat (length bs) :: u32) :: u64) = of_nat (length bs)" using l by (intro ucast_of_nat_small) simp
    have u: "unat (of_nat (length bs + 4) :: u64) = length bs + 4" "unat (of_nat (length bs) :: u64) = length bs"
      by (rule unat_of_nat_small; use l in simp)+
    have checks: "\<not> (of_nat (length bs) :: u32) > PB_SIZE_MAX" "\<not> (of_nat (length bs) :: u64) > of_nat (length bs + 4)"
      using unat_less [of "of_nat (length bs) :: u32"] by (simp_all only: PB_SIZE_MAX_def word_less_nat_alt u) simp_all
    have pointer: "PB_ATYPE (ftype (value_table ! 9)) = PB_ATYPE_POINTER" using t types by simp
    show ?thesis
      unfolding pb_dec_bytes_def decode_thenI [OF decode_varint32_gives [OF g2 l]] Let_def n alloc_size
        if_not_P [OF checks(1)] if_not_P [OF checks(2)] if_P [OF pointer]
      by (simp add: alloc dec_then_def del: of_nat_add)
  qed
  have "decode_field E initialised noinit defaults (pb_release_single_field (Suc d) E) ?s wt iter (dworld st) = None" for wt
    using f t types f' stored(1) bytes union [of ?s]
    by (simp add: decode_field_def decode_pointer_field_def decode_pointer_single_def PB_DECODERS_def pb_ltypes pb_atypes pb_htypes
        del: pb_release_single_field.simps)
  then show ?thesis
    using f t types by (simp add: decode_next_def tag decode_known_def pb_htypes)
qed

text \<open>C32: In a Firestore value that has an integer followed by a string, the integer is passed to
  realloc as the block to enlarge: where realloc faults on that pointer, decoding does not
  return.\<close>

theorem value_union_confused:
  fixes E :: "('s, 'h) pb_denv"
  assumes integer: "apply_message (Suc (Suc d)) E google_firestore_v1_Value_fields p [(2, VarintValue v)] w = Some w1"
    and which: "load32 (wmem w1) p = Some 2"
    and stored: "update_mem w1 (\<lambda>m. store32 m p 17) = Some w2" "load64 (wmem w2) (p + 8) = Some v"
    and fault: "pb_realloc E w2 v (of_nat (length bs + 4)) = None" and l: "length bs < 2 ^ 32"
  defines "data \<equiv> tree_encode [(2, VarintValue v), (17, BytesValue bs)]"
  shows "pb_decode_noinit (Suc (Suc d)) E (pb_istream_from_buffer data (of_nat (length data)))
    google_firestore_v1_Value_fields p w = None"
proof -
  let ?fs = google_firestore_v1_Value_fields and ?sub = "\<lambda>i rs p w. apply_message (Suc d) E (dmessages E i) p rs w"
  let ?s = "pb_istream_from_buffer data (of_nat (length data)) :: 's pb_istream"
  let ?st = "\<lparr>dstream = ?s, dworld = w, diter = snd (pb_field_iter_begin ?fs p), fields_seen = [0, 0],
          extension_range_start = 0, fixed_count_field = None\<rparr>"
  let ?decode = "decode_field E (decode_initialised (Suc d) E (pb_decode_noinit (Suc d) E)) (pb_decode_noinit (Suc d) E)
      (pb_message_set_to_defaults (Suc d) E) (pb_release_single_field (Suc d) E)"
  let ?xs = "record_tag 2 0 @ uleb128_encode (unat v)" and ?ys = "record_tag 17 2 @ uleb128_encode (length bs) @ bs"
  have data: "data = ?xs @ ?ys" by (simp add: data_def)
  have "length (uleb128_encode (unat v)) \<le> 10" using length_varint_bytes [of v] by (simp add: varint_bytes_uleb)
  moreover have "length (uleb128_encode (length bs)) \<le> 10"
    using length_varint_bytes [of "of_nat (length bs)"] l by (simp add: varint_bytes_uleb unat_of_nat_small)
  moreover have "length (record_tag 2 0) \<le> 2" "length (record_tag 17 2) \<le> 2" by (simp_all add: record_tag_def uleb128_encode.simps)
  ultimately have n: "length data < 2 ^ 64" using l by (simp add: data)
  then have u: "unat (of_nat (length data) :: u64) = length data" by (intro unat_of_nat_small) simp
  have g: "gives ?s ?xs ?ys" "gives (after ?s (length ?xs) ?ys) ?ys []"
    using u gives_append [of ?s ?xs ?ys "[]"] by (simp_all add: gives_def pb_istream_from_buffer_def data)
  have b: "between ?fs p ?st" using value_table_ok iter_begin_at [of ?fs p] by (auto simp: between_def table_ok_def)
  have a: "apply_record E (pb_message_set_to_defaults (Suc d) E) ?sub ?fs p (2, VarintValue v) (dworld ?st) = Some w1"
    using integer unfolding apply_message.simps(2) [of "Suc d"] if_P [OF value_table_ok] apply_all.simps
    by (simp del: apply_message.simps)
  have sub: "pb_decode_noinit (Suc d) E s (dmessages E i) q w = Some (True, after s (length (tree_encode rs)) rest, w')"
    if "?sub i rs q w = Some w'" "records_ok rs" "source s = Buffer (tree_encode rs @ rest)"
      "bytes_left s = of_nat (length (tree_encode rs))" "length (tree_encode rs) < 2 ^ 32" for i rs q w w' s rest
    using that by (intro message_gives) auto
  have "\<exists>st'. decode_next E (fixed_count_local E (Suc (Suc d))) ?decode ?st = Some (Continue, st') \<and> between ?fs p st' \<and>
      dworld st' = w1 \<and> dstream st' = after (dstream ?st) (length (record_tag 2 (wire_type (wire_of (VarintValue v))) @ payload (wire_of (VarintValue v)))) ?ys"
    by (rule record_gives [where sub = ?sub, OF _ value_table_ok b a])
      (use sub g(1) in \<open>simp_all add: field_number_def\<close>)
  then obtain st1 where st1: "decode_next E (fixed_count_local E (Suc (Suc d))) ?decode ?st = Some (Continue, st1)"
    "between ?fs p st1" "dworld st1 = w1" "dstream st1 = after ?s (length ?xs) ?ys" by auto
  have "decode_next E (fixed_count_local E (Suc (Suc d))) ?decode st1 = None"
    by (rule union_confused_step [OF st1(2)]) (use which stored fault l g(2) st1(3,4) in simp_all)
  moreover have "bytes_left (dstream ?st) \<noteq> 0"
    using u record_tag_nonempty [of 2 0] by (auto simp: pb_istream_from_buffer_def data simp flip: unat_eq_zero)
  moreover have "bytes_left (dstream st1) \<noteq> 0"
    using g(2) record_tag_nonempty [of 17 2] unfolding st1(4) gives_def by auto
  ultimately have "decode_loop (decode_next E (fixed_count_local E (Suc (Suc d))) ?decode) ?st = None"
    using st1(1) by (subst decode_loop.simps, subst decode_loop.simps) simp
  then show ?thesis by (simp add: decode_message_def del: pb_release_single_field.simps)
qed

text \<open>An allocator that faults when it is asked to move a block it has not handed out.\<close>

definition strict_env :: "(unit, addr) pb_denv" where
  "strict_env = (plain_env (\<lambda>_. []))\<lparr>pb_realloc :=
     (\<lambda>w p n. if p = 0x3000 then None else Some (heap w, w\<lparr>heap := heap w + n\<rparr>))\<rparr>"

lemma number_stored:
  "case (do { w1 \<leftarrow> apply_message 2 strict_env value_table 0x2000 [(2, VarintValue 0x3000)] empty_world;
              w2 \<leftarrow> update_mem w1 (\<lambda>m. store32 m 0x2000 17); Some (w1, w2) }) of
     None \<Rightarrow> False | Some (w1, w2) \<Rightarrow> load32 (wmem w1) 0x2000 = Some 2 \<and> load64 (wmem w2) 0x2008 = Some 0x3000"
  by code_simp

theorem value_union_confused_witness:
  "pb_decode_noinit 2 strict_env (pb_istream_from_buffer [0x10, 0x80, 0x60, 0x8A, 0x01, 0x01, 0x61] 7)
     google_firestore_v1_Value_fields 0x2000 empty_world = None"
proof -
  obtain w1 w2 where w: "apply_message 2 strict_env google_firestore_v1_Value_fields 0x2000 [(2, VarintValue 0x3000)] empty_world = Some w1"
    "update_mem w1 (\<lambda>m. store32 m 0x2000 17) = Some w2"
    "load32 (wmem w1) 0x2000 = Some 2" "load64 (wmem w2) 0x2008 = Some 0x3000"
    using number_stored unfolding value_table by (auto simp: bind_eq_Some_conv split: option.splits)
  have data: "tree_encode [(2, VarintValue 0x3000), (17, BytesValue [0x61])] =
      [0x10, 0x80, 0x60, 0x8A, 0x01, 0x01, 0x61]"
    by (simp add: record_tag_def uleb128_encode.simps)
  have fault: "pb_realloc strict_env w2 0x3000 n = None" for n by (simp add: strict_env_def)
  have w4: "load64 (wmem w2) (0x2000 + 8) = Some 0x3000" using w(4) by simp
  have two: "Suc (Suc 0) = 2" and l: "length [0x61 :: u8] < 2 ^ 32" by simp_all
  show ?thesis
    using value_union_confused [where d = 0, unfolded two, OF w(1,3,2) w4 fault l] unfolding data by simp
qed

end
