(* ===== verification/FBase64.thy ===== *)
theory FBase64
  imports Prelude
begin

text \<open>
  The base64 codec of the web socket, \<open>third_party/SocketRocket/fbase64.c\<close> of FirebaseDatabase, and its
  caller \<open>base64EncodedStringFromData\<close> (\<open>NSData+SRB64Additions.m\<close>).

  Source and target are lists of bytes: reading or writing outside them is \<open>None\<close>, as is a call of
  \<open>isspace\<close> on a value C leaves undefined. A null \<open>target\<close> is \<open>None\<close> in its place, a return of -1 the
  number -1. The reference is \<open>b64_encode\<close>, which does arithmetic on the 24-bit number of a group;
  the lemmas show that the encoder computes it and that the decoder accepts its values, with white
  space anywhere, and nothing else.
\<close>

section \<open>The model\<close>

definition ascii :: "string \<Rightarrow> u8 list" where
  "ascii = map of_char"

text \<open>The array, with the terminator of the string literal.\<close>

definition Base64 :: "u8 list" where
  "Base64 = ascii ''ABCDEFGHIJKLMNOPQRSTUVWXYZabcdefghijklmnopqrstuvwxyz0123456789+/'' @ [0]"

definition Pad64 :: u8 where
  "Pad64 = of_char CHR ''=''"

definition fetch :: "u8 list \<Rightarrow> nat \<Rightarrow> u8 option" where
  "fetch bs i = (if i < length bs then Some (bs ! i) else None)"

definition put :: "u8 list \<Rightarrow> nat \<Rightarrow> u8 \<Rightarrow> u8 list option" where
  "put bs i b = (if i < length bs then Some (bs[i := b]) else None)"

fun read_next :: "u8 list \<Rightarrow> (u8 \<times> u8 list) option" where
  "read_next [] = None"
| "read_next (b # bs) = Some (b, bs)"

text \<open>\<open>target[i] = Base64[output]\<close>\<close>

definition put_digit :: "u8 list \<Rightarrow> u64 \<Rightarrow> u8 \<Rightarrow> u8 list option" where
  "put_digit target i out = do { c \<leftarrow> fetch Base64 (unat out); put target (unat i) c }"

text \<open>\<open>isspace\<close> of the C locale, on a \<open>char\<close>, which is signed: below \<open>EOF\<close> it is undefined.\<close>

definition isspace :: "u8 \<Rightarrow> bool option" where
  "isspace ch = (if sint ch < - 1 then None else Some (ch = 32 \<or> (9 \<le> ch \<and> ch \<le> 13)))"

fun strchr :: "u8 list \<Rightarrow> u8 \<Rightarrow> nat option" where
  "strchr [] c = None"
| "strchr (b # bs) c = (if b = c then Some 0 else map_option Suc (strchr bs c))"

subsection \<open>Encoding\<close>

text \<open>The first three output digits, the same for a full group and the last one.\<close>

definition output0 :: "u8 \<Rightarrow> u8" where
  "output0 input0 = drop_bit 2 input0"

definition output1 :: "u8 \<Rightarrow> u8 \<Rightarrow> u8" where
  "output1 input0 input1 = push_bit 4 (input0 AND 0x03) + drop_bit 4 input1"

definition output2 :: "u8 \<Rightarrow> u8 \<Rightarrow> u8" where
  "output2 input1 input2 = push_bit 2 (input1 AND 0x0F) + drop_bit 6 input2"

definition output3 :: "u8 \<Rightarrow> u8" where
  "output3 input2 = input2 AND 0x3F"

text \<open>The \<open>while\<close> loop: the target, and unless the function returns -1 the rest of the source, its length
  and \<open>datalength\<close>.\<close>

function ntop_loop :: "u8 list \<Rightarrow> u64 \<Rightarrow> u8 list \<Rightarrow> u64 \<Rightarrow> u64 \<Rightarrow> (u8 list \<times> (u8 list \<times> u64 \<times> u64) option) option" where
  "ntop_loop src srclength target targsize datalength =
     (if 2 < srclength then do {
        (input0, src) \<leftarrow> read_next src;
        (input1, src) \<leftarrow> read_next src;
        (input2, src) \<leftarrow> read_next src;
        if datalength + 4 > targsize then Some (target, None)
        else do {
          target \<leftarrow> put_digit target datalength (output0 input0);
          target \<leftarrow> put_digit target (datalength + 1) (output1 input0 input1);
          target \<leftarrow> put_digit target (datalength + 2) (output2 input1 input2);
          target \<leftarrow> put_digit target (datalength + 3) (output3 input2);
          ntop_loop src (srclength - 3) target targsize (datalength + 4) } }
      else Some (target, Some (src, srclength, datalength)))"
  by pat_completeness auto

termination
  by (relation "measure (\<lambda>(src, srclength, _). unat srclength)") (auto simp: word_less_nat_alt unat_sub word_le_nat_alt)

declare ntop_loop.simps [simp del]

text \<open>\<open>for (i = 0; i < srclength; i++) input[i] = *src++;\<close>\<close>

fun get_rest :: "nat \<Rightarrow> nat \<Rightarrow> u8 list \<Rightarrow> u8 list \<Rightarrow> u8 list option" where
  "get_rest 0 i src inputs = Some inputs"
| "get_rest (Suc n) i src inputs =
     do { (b, src) \<leftarrow> read_next src; inputs \<leftarrow> put inputs i b; get_rest n (Suc i) src inputs }"

definition ntop_rest :: "u8 list \<Rightarrow> u64 \<Rightarrow> u8 list \<Rightarrow> u64 \<Rightarrow> u64 \<Rightarrow> (u8 list \<times> u64 option) option" where
  "ntop_rest src srclength target targsize datalength =
     do {
       inputs \<leftarrow> get_rest (unat srclength) 0 src [0, 0, 0];
       let input0 = inputs ! 0;
       let input1 = inputs ! 1;
       let input2 = inputs ! 2;
       if datalength + 4 > targsize then Some (target, None)
       else do {
         target \<leftarrow> put_digit target datalength (output0 input0);
         target \<leftarrow> put_digit target (datalength + 1) (output1 input0 input1);
         target \<leftarrow> (if srclength = 1 then put target (unat (datalength + 2)) Pad64
                   else put_digit target (datalength + 2) (output2 input1 input2));
         target \<leftarrow> put target (unat (datalength + 3)) Pad64;
         Some (target, Some (datalength + 4)) } }"

definition f_b64_ntop :: "u8 list \<Rightarrow> u64 \<Rightarrow> u8 list \<Rightarrow> u64 \<Rightarrow> (u8 list \<times> int) option" where
  "f_b64_ntop src srclength target targsize =
     do {
       (target, result) \<leftarrow> ntop_loop src srclength target targsize 0;
       case result of
         None \<Rightarrow> Some (target, - 1)
       | Some (src, srclength, datalength) \<Rightarrow> do {
           (target, result) \<leftarrow> (if srclength \<noteq> 0 then ntop_rest src srclength target targsize datalength
                             else Some (target, Some datalength));
           case result of
             None \<Rightarrow> Some (target, - 1)
           | Some datalength \<Rightarrow>
               if datalength \<ge> targsize then Some (target, - 1)
               else do {
                 target \<leftarrow> put target (unat datalength) 0;
                 Some (target, sint (ucast datalength :: u32)) } } }"

text \<open>The caller: \<open>malloc\<close> is a parameter, which gives a buffer or nothing. The result is the text, \<open>None\<close>
  for \<open>nil\<close>.\<close>

definition base64EncodedStringFromData :: "(u64 \<Rightarrow> u8 list option) \<Rightarrow> u8 list \<Rightarrow> u8 list option option" where
  "base64EncodedStringFromData malloc data =
     do {
       let buffer_size = (of_nat (length data) * 3 + 2) div 2;
       buffer \<leftarrow> malloc buffer_size;
       (buffer, len) \<leftarrow> f_b64_ntop data (of_nat (length data)) buffer buffer_size;
       if len = - 1 then Some None else Some (Some (take (nat len) buffer)) }"

subsection \<open>Decoding\<close>

text \<open>The \<open>switch\<close> on \<open>state\<close>: the target, and unless the function returns -1 the new \<open>tarindex\<close> and
  \<open>state\<close>. \<open>p\<close> is \<open>pos - Base64\<close>.\<close>

definition pton_digit :: "u64 \<Rightarrow> u8 \<Rightarrow> u8 list option \<Rightarrow> u32 \<Rightarrow> u32 \<Rightarrow> (u8 list option \<times> (u32 \<times> u32) option) option" where
  "pton_digit targsize p target tarindex state =
     (if state = 0 then
        (case target of None \<Rightarrow> Some (None, Some (tarindex, 1))
         | Some t \<Rightarrow>
             if ucast tarindex \<ge> targsize then Some (target, None)
             else do { t \<leftarrow> put t (unat tarindex) (push_bit 2 p); Some (Some t, Some (tarindex, 1)) })
      else if state = 1 then
        (case target of None \<Rightarrow> Some (None, Some (tarindex + 1, 2))
         | Some t \<Rightarrow>
             if ucast (tarindex + 1) \<ge> targsize then Some (target, None)
             else do {
               b \<leftarrow> fetch t (unat tarindex);
               t \<leftarrow> put t (unat tarindex) (b OR drop_bit 4 p);
               t \<leftarrow> put t (unat (tarindex + 1)) (push_bit 4 (p AND 0x0F));
               Some (Some t, Some (tarindex + 1, 2)) })
      else if state = 2 then
        (case target of None \<Rightarrow> Some (None, Some (tarindex + 1, 3))
         | Some t \<Rightarrow>
             if ucast (tarindex + 1) \<ge> targsize then Some (target, None)
             else do {
               b \<leftarrow> fetch t (unat tarindex);
               t \<leftarrow> put t (unat tarindex) (b OR drop_bit 2 p);
               t \<leftarrow> put t (unat (tarindex + 1)) (push_bit 6 (p AND 0x03));
               Some (Some t, Some (tarindex + 1, 3)) })
      else if state = 3 then
        (case target of None \<Rightarrow> Some (None, Some (tarindex + 1, 0))
         | Some t \<Rightarrow>
             if ucast tarindex \<ge> targsize then Some (target, None)
             else do {
               b \<leftarrow> fetch t (unat tarindex);
               t \<leftarrow> put t (unat tarindex) (b OR p);
               Some (Some t, Some (tarindex + 1, 0)) })
      else Some (target, Some (tarindex, state)))"

text \<open>The \<open>while\<close> loop: the target, and unless the function returns -1 the last character, the source
  behind it, \<open>tarindex\<close> and \<open>state\<close>.\<close>

fun pton_loop :: "u64 \<Rightarrow> u8 list \<Rightarrow> u8 list option \<Rightarrow> u32 \<Rightarrow> u32 \<Rightarrow>
    (u8 list option \<times> (u8 \<times> u8 list \<times> u32 \<times> u32) option) option" where
  "pton_loop targsize [] target tarindex state = None"
| "pton_loop targsize (ch # src) target tarindex state =
     (if ch = 0 then Some (target, Some (ch, src, tarindex, state))
      else do {
        space \<leftarrow> isspace ch;
        if space then pton_loop targsize src target tarindex state
        else if ch = Pad64 then Some (target, Some (ch, src, tarindex, state))
        else case strchr Base64 ch of
            None \<Rightarrow> Some (target, None)
          | Some pos \<Rightarrow> do {
              (target, result) \<leftarrow> pton_digit targsize (of_nat pos) target tarindex state;
              case result of
                None \<Rightarrow> Some (target, None)
              | Some (tarindex, state) \<Rightarrow> pton_loop targsize src target tarindex state } })"

text \<open>\<open>for (; ch != 0; ch = *src++) if (!isspace(ch)) break;\<close> and the same loop with \<open>return -1\<close>. The list
  begins with \<open>ch\<close>.\<close>

fun skip_spaces :: "u8 list \<Rightarrow> (u8 \<times> u8 list) option" where
  "skip_spaces [] = None"
| "skip_spaces (ch # src) =
     (if ch = 0 then Some (ch, src)
      else do { space \<leftarrow> isspace ch; if space then skip_spaces src else Some (ch, src) })"

fun only_spaces :: "u8 list \<Rightarrow> bool option" where
  "only_spaces [] = None"
| "only_spaces (ch # src) =
     (if ch = 0 then Some True
      else do { space \<leftarrow> isspace ch; if space then only_spaces src else Some False })"

text \<open>What follows a pad character: whether it is as it should be.\<close>

definition pton_pad :: "u8 list \<Rightarrow> u8 list option \<Rightarrow> u32 \<Rightarrow> u32 \<Rightarrow> bool option" where
  "pton_pad src target tarindex state =
     do {
       _ \<leftarrow> read_next src;
       if state = 0 \<or> state = 1 then Some False
       else if state = 2 \<or> state = 3 then do {
         (second, src) \<leftarrow> (if state = 2 then do { (ch, src) \<leftarrow> skip_spaces src; Some (ch = Pad64, src) }
                           else Some (True, src));
         if \<not> second then Some False
         else do {
           ok \<leftarrow> only_spaces src;
           if \<not> ok then Some False
           else case target of
               None \<Rightarrow> Some True
             | Some t \<Rightarrow> do { b \<leftarrow> fetch t (unat tarindex); Some (b = 0) } } }
       else Some True }"

definition f_b64_pton :: "u8 list \<Rightarrow> u8 list option \<Rightarrow> u64 \<Rightarrow> (u8 list option \<times> int) option" where
  "f_b64_pton src target targsize =
     do {
       (target, result) \<leftarrow> pton_loop targsize src target 0 0;
       case result of
         None \<Rightarrow> Some (target, - 1)
       | Some (ch, src, tarindex, state) \<Rightarrow> do {
           ok \<leftarrow> (if ch = Pad64 then pton_pad src target tarindex state else Some (state = 0));
           Some (target, if ok then sint tarindex else - 1) } }"

section \<open>The reference\<close>

text \<open>The four digits of a group of three bytes, read as a number of 24 bits.\<close>

definition sextets :: "u8 \<Rightarrow> u8 \<Rightarrow> u8 \<Rightarrow> nat list" where
  "sextets a b c =
     (let v = 65536 * unat a + 256 * unat b + unat c
      in [v div 262144, v div 4096 mod 64, v div 64 mod 64, v mod 64])"

definition b64_digits :: "nat list \<Rightarrow> u8 list" where
  "b64_digits = map (\<lambda>d. Base64 ! d)"

fun b64_encode :: "u8 list \<Rightarrow> u8 list" where
  "b64_encode [] = []"
| "b64_encode [a] = b64_digits (take 2 (sextets a 0 0)) @ [Pad64, Pad64]"
| "b64_encode [a, b] = b64_digits (take 3 (sextets a b 0)) @ [Pad64]"
| "b64_encode (a # b # c # bs) = b64_digits (sextets a b c) @ b64_encode bs"

lemma length_b64_encode: "length (b64_encode bs) = 4 * ((length bs + 2) div 3)"
proof (induction bs rule: b64_encode.induct)
  case (4 a b c bs)
  have "(length (a # b # c # bs) + 2) div 3 = Suc ((length bs + 2) div 3)" by simp
  with 4 show ?case by (simp add: b64_digits_def sextets_def Let_def)
qed (auto simp: b64_digits_def sextets_def Let_def)

section \<open>The encoder computes the reference\<close>

lemma Base64_length [simp]: "length Base64 = 65"
  by (simp add: Base64_def ascii_def)

lemma unat_low [simp]:
  "unat (b AND 0x03 :: u8) = unat b mod 4" "unat (b AND 0x0F :: u8) = unat b mod 16" "unat (b AND 0x3F :: u8) = unat b mod 64"
proof -
  have low: "unat (b AND mask n :: u8) = unat b mod 2 ^ n" for n
    by (simp only: take_bit_eq_mask [symmetric] unsigned_take_bit_eq take_bit_eq_mod [where ?'a = nat])
  show "unat (b AND 0x03 :: u8) = unat b mod 4" using low [of 2] by (simp add: mask_eq_exp_minus_1)
  show "unat (b AND 0x0F :: u8) = unat b mod 16" using low [of 4] by (simp add: mask_eq_exp_minus_1)
  show "unat (b AND 0x3F :: u8) = unat b mod 64" using low [of 6] by (simp add: mask_eq_exp_minus_1)
qed

lemma byte_less: "unat (b :: u8) < 256"
  using unat_less [of b] by simp

lemma unat_shift [simp]:
  "unat (drop_bit n b :: u8) = unat b div 2 ^ n" "unat (push_bit n b :: u8) = unat b * 2 ^ n mod 256"
proof -
  have *: "unat b mod 256 = unat b" using byte_less by simp
  show "unat (drop_bit n b :: u8) = unat b div 2 ^ n"
    by (simp add: unsigned_drop_bit_eq take_bit_eq_mod drop_bit_eq_div [where ?'a = nat] *)
  show "unat (push_bit n b :: u8) = unat b * 2 ^ n mod 256"
    by (simp add: unsigned_push_bit_eq take_bit_eq_mod push_bit_eq_mult [where ?'a = nat])
qed

lemma quad_digits:
  fixes d0 d1 d2 d3 :: nat
  assumes "v = 262144 * d0 + 4096 * d1 + 64 * d2 + d3" and "d1 < 64" "d2 < 64" "d3 < 64"
  shows "v div 262144 = d0" "v div 4096 mod 64 = d1" "v div 64 mod 64 = d2" "v mod 64 = d3"
proof -
  have *: "(64 * k + d) div 64 = k" "(64 * k + d) mod 64 = d" if "d < 64" for k d :: nat using that by simp_all
  have v: "v = 64 * (64 * (64 * d0 + d1) + d2) + d3" using assms(1) by simp
  have 1: "v div 64 = 64 * (64 * d0 + d1) + d2" unfolding v by (rule * [OF assms(4)])
  have 2: "v div 4096 = 64 * d0 + d1"
    using div_mult2_eq [of v 64 64] unfolding 1 * [OF assms(3)] by simp
  show "v div 262144 = d0" using div_mult2_eq [of v 4096 64] unfolding 2 * [OF assms(2)] by simp
  show "v div 4096 mod 64 = d1" unfolding 2 by (rule * [OF assms(2)])
  show "v div 64 mod 64 = d2" unfolding 1 by (rule * [OF assms(3)])
  show "v mod 64 = d3" unfolding v by (rule * [OF assms(4)])
qed

lemma sextet_bounds:
  "unat (a :: u8) div 4 < 64" "unat (a :: u8) mod 4 * 16 + unat (b :: u8) div 16 < 64"
  "unat (b :: u8) mod 16 * 4 + unat (c :: u8) div 64 < 64"
proof -
  have "unat a mod 4 < 4" "unat b mod 16 < 16" by simp_all
  moreover have "unat b div 16 < 16" "unat c div 64 < 4" "unat a div 4 < 64"
    using byte_less [of a] byte_less [of b] byte_less [of c] by simp_all
  ultimately show "unat a div 4 < 64" "unat a mod 4 * 16 + unat b div 16 < 64" "unat b mod 16 * 4 + unat c div 64 < 64"
    by linarith+
qed

lemma sextets_split:
  "sextets a b c =
     [unat a div 4, unat a mod 4 * 16 + unat b div 16, unat b mod 16 * 4 + unat c div 64, unat c mod 64]"
proof -
  have "65536 * unat a + 256 * unat b + unat c =
      262144 * (unat a div 4) + 4096 * (unat a mod 4 * 16 + unat b div 16) +
      64 * (unat b mod 16 * 4 + unat c div 64) + unat c mod 64"
  proof -
    have "v = 65536 * (x1 * 4 + x0) + 256 * (y1 * 16 + y0) + (z1 * 64 + z0) \<Longrightarrow>
        v = 262144 * x1 + 4096 * (x0 * 16 + y1) + 64 * (y0 * 4 + z1) + z0" for v x1 x0 y1 y0 z1 z0 :: nat
      by simp
    then show ?thesis by this (simp only: div_mult_mod_eq)
  qed
  from quad_digits [OF this sextet_bounds(2,3)] show ?thesis
    by (simp add: sextets_def Let_def)
qed

lemma sextets_small: "d \<in> set (sextets a b c) \<Longrightarrow> d < 64"
  using sextet_bounds(1) [of a] sextet_bounds(2) [of a b] sextet_bounds(3) [of b c] by (auto simp: sextets_split)

lemma outputs:
  "unat (output0 a) = sextets a b c ! 0" "unat (output1 a b) = sextets a b c ! 1"
  "unat (output2 b c) = sextets a b c ! 2" "unat (output3 c) = sextets a b c ! 3"
proof -
  have *: "unat a mod 4 * 16 mod 256 = unat a mod 4 * 16" "unat b mod 16 * 4 mod 256 = unat b mod 16 * 4"
    using sextet_bounds(2) [of a b] sextet_bounds(3) [of b c] by simp_all
  show "unat (output0 a) = sextets a b c ! 0" by (simp add: output0_def sextets_split)
  show "unat (output1 a b) = sextets a b c ! 1"
    using sextet_bounds(2) [of a b]
    by (simp add: sextets_split output1_def unat_word_ariths(1) unat_shift unat_low * del: push_bit_and)
  show "unat (output2 b c) = sextets a b c ! 2"
    using sextet_bounds(3) [of b c]
    by (simp add: sextets_split output2_def unat_word_ariths(1) unat_shift unat_low * del: push_bit_and)
  show "unat (output3 c) = sextets a b c ! 3" by (simp add: output3_def sextets_split)
qed

text \<open>Storing next behind what has been stored.\<close>

lemma put_at [simp]: "put (pre @ x # t) (length pre) b = Some (pre @ b # t)"
  by (simp add: put_def)

lemma fetch_at [simp]: "fetch (pre @ x # t) (length pre) = Some x"
  by (simp add: fetch_def)

lemma put_digit_at:
  assumes "unat i = length pre" and "unat out = d" and "d < 64"
  shows "put_digit (pre @ x # t) i out = Some (pre @ Base64 ! d # t)"
  using assms by (simp add: put_digit_def fetch_def)

lemma put_group:
  assumes "unat i = length pre" and "length pre + 4 < 2 ^ 64"
  shows
    "(do { t \<leftarrow> put_digit (pre @ x0 # x1 # x2 # x3 # t) i (output0 a);
          t \<leftarrow> put_digit t (i + 1) (output1 a b);
          t \<leftarrow> put_digit t (i + 2) (output2 b c);
          t \<leftarrow> put_digit t (i + 3) (output3 c); f t }) = f ((pre @ b64_digits (sextets a b c)) @ t)"
proof -
  have i: "unat (i + 1) = length (pre @ [y])" "unat (i + 2) = length (pre @ [y, z])" "unat (i + 3) = length (pre @ [y, z, w])" for y z w :: u8
    using assms by (simp_all add: unat_word_ariths)
  have d: "sextets a b c ! k < 64" if "k < 4" for k
    using sextets_small [of "sextets a b c ! k" a b c] nth_mem [of k "sextets a b c"] that by (simp add: sextets_split)
  have 1: "put_digit (pre @ y # z # w # u # t) (i + 1) (output1 a b) = Some (pre @ y # Base64 ! (sextets a b c ! 1) # w # u # t)" for y z w u
    using put_digit_at [OF i(1) outputs(2) d] by simp
  have 2: "put_digit (pre @ y # z # w # u # t) (i + 2) (output2 b c) = Some (pre @ y # z # Base64 ! (sextets a b c ! 2) # u # t)" for y z w u
    using put_digit_at [OF i(2) outputs(3) d] by simp
  have 3: "put_digit (pre @ y # z # w # u # t) (i + 3) (output3 c) = Some (pre @ y # z # w # Base64 ! (sextets a b c ! 3) # t)" for y z w u
    using put_digit_at [OF i(3) outputs(4) d] by simp
  show ?thesis
    by (simp add: put_digit_at [OF assms(1) outputs(1) d] 1 2 3) (simp add: b64_digits_def sextets_def Let_def)
qed

text \<open>The loop stores the digits of the whole groups, or returns -1 when there is no room for them.\<close>

lemma ntop_loop_gives:
  assumes "unat srclength = length src" and "unat datalength = length pre"
    and "length (pre @ t) = unat targsize" and "length (pre @ t) < 2 ^ 63"
  defines "n \<equiv> length src div 3"
  shows "if 4 * n \<le> length t
    then ntop_loop src srclength (pre @ t) targsize datalength =
        Some (pre @ b64_encode (take (3 * n) src) @ drop (4 * n) t,
          Some (drop (3 * n) src, of_nat (length src mod 3), datalength + of_nat (4 * n)))
    else \<exists>t'. ntop_loop src srclength (pre @ t) targsize datalength = Some (t', None) \<and> length t' = length (pre @ t)"
  using assms(1-4) unfolding n_def
proof (induction src arbitrary: pre t srclength datalength rule: b64_encode.induct)
  case (4 a b c src)
  define k where "k = length src div 3"
  have n: "length (a # b # c # src) div 3 = Suc k" "length (a # b # c # src) mod 3 = length src mod 3"
    by (simp_all add: k_def)
  have len: "2 < srclength" "unat (srclength - 3) = length src"
    using 4(2) by (auto simp: word_less_nat_alt unat_sub word_le_nat_alt)
  have room: "datalength + 4 > targsize \<longleftrightarrow> length t < 4"
    using 4(3-5) by (auto simp: word_less_nat_alt unat_word_ariths)
  show ?case
  proof (cases "length t < 4")
    case True
    then show ?thesis
      using room len unfolding n by (subst (1 2) ntop_loop.simps) auto
  next
    case False
    then obtain x0 x1 x2 x3 t' where t: "t = x0 # x1 # x2 # x3 # t'"
      by (metis Suc_le_length_iff eval_nat_numeral(2) linorder_not_less numeral_3_eq_3 semiring_norm(26-28))
    have three: "3 * Suc k = Suc (Suc (Suc (3 * k)))" and four: "4 * Suc k = Suc (Suc (Suc (Suc (4 * k))))" by simp_all
    have td: "take (3 * Suc k) (a # b # c # src) = a # b # c # take (3 * k) src"
      "drop (3 * Suc k) (a # b # c # src) = drop (3 * k) src" "drop (4 * Suc k) (x0 # x1 # x2 # x3 # t') = drop (4 * k) t'"
      using three four by (simp_all only: take_Suc_Cons drop_Suc_Cons)
    have "ntop_loop (a # b # c # src) srclength (pre @ t) targsize datalength =
        ntop_loop src (srclength - 3) ((pre @ b64_digits (sextets a b c)) @ t') targsize (datalength + 4)"
      using room False len put_group [OF 4(3), of x0 x1 x2 x3 t' a b c] 4(5)
      by (subst ntop_loop.simps) (simp add: t)
    moreover have "unat (datalength + 4) = length (pre @ b64_digits (sextets a b c))"
      using 4(3-5) by (simp add: t unat_word_ariths b64_digits_def sextets_def Let_def)
    moreover have "length ((pre @ b64_digits (sextets a b c)) @ t') = unat targsize"
      using 4(4) by (simp add: t b64_digits_def sextets_def Let_def)
    ultimately show ?thesis
      using 4(1) [of "srclength - 3" "datalength + 4" "pre @ b64_digits (sextets a b c)" t', folded k_def] len(2) 4(4,5)
      unfolding n t td by (auto simp: add.assoc)
  qed
qed (subst ntop_loop.simps, auto simp: word_less_nat_alt word_unat_eq_iff unat_of_nat_small)+

text \<open>The last group.\<close>

lemma ntop_rest_gives:
  assumes "unat srclength = length src" and "src = [a] \<or> src = [a, b]" and "unat datalength = length pre"
    and "length (pre @ t) = unat targsize" and "length (pre @ t) < 2 ^ 63"
  shows "if 4 \<le> length t
    then ntop_rest src srclength (pre @ t) targsize datalength =
        Some (pre @ b64_encode src @ drop 4 t, Some (datalength + 4))
    else ntop_rest src srclength (pre @ t) targsize datalength = Some (pre @ t, None)"
proof -
  have room: "datalength + 4 > targsize \<longleftrightarrow> length t < 4"
    using assms(3-5) by (auto simp: word_less_nat_alt unat_word_ariths)
  have i: "unat (datalength + 1) = length (pre @ [y])" "unat (datalength + 2) = length (pre @ [y, z])" "unat (datalength + 3) = length (pre @ [y, z, w])"
    if "4 \<le> length t" for y z w :: u8
    using assms(3,5) that by (simp_all add: unat_word_ariths)
  define b' where "b' = (if length src = 1 then 0 else b)"
  have one: "srclength = 1 \<longleftrightarrow> length src = 1" using assms(1) by (simp add: word_unat_eq_iff)
  have inputs: "get_rest (unat srclength) 0 src [0, 0, 0] = Some [a, b', 0]"
    using assms(1,2) by (auto simp: b'_def put_def numeral_2_eq_2)
  have d: "sextets a b' 0 ! k < 64" if "k < 4" for k
    using sextets_small [of "sextets a b' 0 ! k" a b' 0] nth_mem [of k "sextets a b' 0"] that by (simp add: sextets_split)
  show ?thesis
  proof (cases "4 \<le> length t")
    case True
    then obtain x0 x1 x2 x3 t' where t: "t = x0 # x1 # x2 # x3 # t'"
      by (metis Suc_le_length_iff eval_nat_numeral(2) numeral_3_eq_3 semiring_norm(26-28))
    have 1: "put_digit (pre @ y # z # t'') (datalength + 1) (output1 a b') = Some (pre @ y # Base64 ! (sextets a b' 0 ! 1) # t'')" for y z t''
      using put_digit_at [OF i(1) outputs(2) d] True by simp
    have 2: "put_digit (pre @ y # z # w # t'') (datalength + 2) (output2 b' 0) = Some (pre @ y # z # Base64 ! (sextets a b' 0 ! 2) # t'')" for y z w t''
      using put_digit_at [OF i(2) outputs(3) d] True by simp
    have 3: "put (pre @ y # z # w # t'') (unat (datalength + 2)) Pad64 = Some (pre @ y # z # Pad64 # t'')" for y z w t''
      using put_at [of "pre @ [y, z]" w t'' Pad64] i(2) True by simp
    have 4: "put (pre @ y # z # w # u # t'') (unat (datalength + 3)) Pad64 = Some (pre @ y # z # w # Pad64 # t'')" for y z w u t''
      using put_at [of "pre @ [y, z, w]" u t'' Pad64] i(3) True by simp
    have 0: "put_digit (pre @ y # t'') datalength (output0 a) = Some (pre @ Base64 ! (sextets a b' 0 ! 0) # t'')" for y t''
      using put_digit_at [OF assms(3) outputs(1) d] by simp
    have enc: "b64_encode src = [Base64 ! (sextets a b' 0 ! 0), Base64 ! (sextets a b' 0 ! 1),
        if length src = 1 then Pad64 else Base64 ! (sextets a b' 0 ! 2), Pad64]"
      using assms(2) by (auto simp: b'_def b64_digits_def sextets_def Let_def)
    show ?thesis
      unfolding ntop_rest_def inputs enc one using True room
      by (simp add: t 0 1 2 3 4 del: One_nat_def)
  next
    case False
    then show ?thesis using room by (auto simp: ntop_rest_def inputs)
  qed
qed

lemma b64_encode_append: "length xs = 3 * n \<Longrightarrow> b64_encode (xs @ ys) = b64_encode xs @ b64_encode ys"
proof (induction n arbitrary: xs)
  case (Suc n)
  then have "length xs = Suc (Suc (Suc (3 * n)))" by simp
  then obtain a b c xs' where "xs = a # b # c # xs'" "length xs' = 3 * n"
    by (auto simp: length_Suc_conv)
  with Suc.IH show ?case by simp
qed simp

lemma sint_of_nat_small: "k < 2 ^ 31 \<Longrightarrow> sint (of_nat k :: u32) = int k"
  by (simp add: signed_of_nat signed_take_bit_int_eq_self)

text \<open>Encoding, every branch.\<close>

lemma ntop_gives:
  assumes "length src < 2 ^ 29" and "length t = unat targsize" and "unat targsize < 2 ^ 63"
  shows "if length (b64_encode src) < length t
    then f_b64_ntop src (of_nat (length src)) t targsize =
        Some (b64_encode src @ [0] @ drop (length (b64_encode src) + 1) t, int (length (b64_encode src)))
    else \<exists>t'. f_b64_ntop src (of_nat (length src)) t targsize = Some (t', - 1) \<and> length t' = length t"
proof -
  define n where "n = length src div 3"
  define whole rest where "whole = take (3 * n) src" and "rest = drop (3 * n) src"
  have whole: "length whole = 3 * n" and src: "src = whole @ rest" by (simp_all add: whole_def rest_def n_def)
  have m: "length rest = length src mod 3" by (simp add: rest_def n_def minus_mult_div_eq_mod)
  have enc: "b64_encode src = b64_encode whole @ b64_encode rest"
    using b64_encode_append [OF whole] src by metis
  have lenw: "length (b64_encode whole) = 4 * n" by (simp add: length_b64_encode whole)
  have "3 * n \<le> length src" by (simp add: n_def)
  then have n4: "4 * n + 4 < 2 ^ 31" using assms(1) by simp
  have d: "unat (of_nat (4 * n) :: u64) = 4 * n"
    by (rule unat_of_nat_small) (use n4 in simp)
  have int_value: "sint (ucast (of_nat k :: u64) :: u32) = int k" if "k < 2 ^ 31" for k
    using that by (simp add: ucast_of_nat_small sint_of_nat_small)
  have loop: "if 4 * n \<le> length t
    then ntop_loop src (of_nat (length src)) t targsize 0 =
        Some (b64_encode whole @ drop (4 * n) t, Some (rest, of_nat (length rest), of_nat (4 * n)))
    else \<exists>t'. ntop_loop src (of_nat (length src)) t targsize 0 = Some (t', None) \<and> length t' = length t"
    using ntop_loop_gives [of "of_nat (length src)" src 0 "[]" t targsize, folded n_def, folded m whole_def rest_def] assms
    by (simp add: unat_of_nat_small del: of_nat_mult split: if_splits)
  show ?thesis
  proof (cases "4 * n \<le> length t")
    case False
    then show ?thesis using loop by (auto simp: f_b64_ntop_def enc lenw)
  next
    case room: True
    show ?thesis
    proof (cases "rest = []")
      case True
      then show ?thesis
        using room loop assms d n4 put_at [of "b64_encode whole"] int_value [of "4 * n"]
          Cons_nth_drop_Suc [of "4 * n" t, symmetric]
        by (auto simp: f_b64_ntop_def enc lenw word_le_nat_alt simp del: of_nat_mult)
    next
      case False
      have "length rest < 3" using m by simp
      with False obtain a b where ab: "rest = [a] \<or> rest = [a, b]"
        by (cases rest; cases "tl rest") auto
      have enc4: "length (b64_encode rest) = 4" using ab by (auto simp: b64_digits_def sextets_def Let_def)
      have "unat (of_nat (length rest) :: u64) = length rest" by (rule unat_of_nat_small) (use ab in auto)
      from ntop_rest_gives [OF this ab, of "of_nat (4 * n)" "b64_encode whole" "drop (4 * n) t" targsize]
      have last: "if 4 * n + 4 \<le> length t
          then ntop_rest rest (of_nat (length rest)) (b64_encode whole @ drop (4 * n) t) targsize (of_nat (4 * n)) =
              Some (b64_encode src @ drop (4 * n + 4) t, Some (of_nat (4 * n + 4)))
          else ntop_rest rest (of_nat (length rest)) (b64_encode whole @ drop (4 * n) t) targsize (of_nat (4 * n)) =
              Some (b64_encode whole @ drop (4 * n) t, None)"
        using room assms(2,3) d by (simp add: enc lenw add.commute split: if_splits del: of_nat_mult)
      have d4: "unat (of_nat (4 * n + 4) :: u64) = 4 * n + 4"
        by (rule unat_of_nat_small) (use n4 in simp)
      have "of_nat (length rest) \<noteq> (0 :: u64)" using ab by auto
      then show ?thesis
        using room loop last assms(2) d4 n4 put_at [of "b64_encode src"] int_value [of "4 * n + 4"]
          Cons_nth_drop_Suc [of "4 * n + 4" t, symmetric] enc lenw enc4
        by (auto simp: f_b64_ntop_def word_le_nat_alt simp del: of_nat_mult of_nat_add split: if_splits)
    qed
  qed
qed

section \<open>The decoder accepts what the encoder writes, and nothing else\<close>

text \<open>The codes of the alphabet.\<close>

definition codes :: "nat list" where
  "codes = [65..<91] @ [97..<123] @ [48..<58] @ [43, 47]"

lemma Base64_codes: "Base64 = map of_nat codes @ [0]"
  by (simp add: Base64_def ascii_def codes_def upt_rec)

lemma codes_bounds: "n \<in> set codes \<Longrightarrow> 43 \<le> n \<and> n \<le> 122 \<and> n \<noteq> 61"
  by (auto simp: codes_def)

lemma length_codes: "length codes = 64"
  by (simp add: codes_def)

lemma distinct_Base64: "distinct Base64"
proof -
  have "inj_on (of_nat :: nat \<Rightarrow> u8) (set codes)"
  proof (rule inj_on_inverseI)
    fix n assume "n \<in> set codes"
    from codes_bounds [OF this] show "unat (of_nat n :: u8) = n" by (intro byte_of_nat) simp
  qed
  moreover have "(of_nat n :: u8) \<noteq> 0" if "n \<in> set codes" for n
    using codes_bounds [OF that] byte_of_nat [of n] by (auto simp: word_unat_eq_iff)
  ultimately show ?thesis
    by (auto simp: Base64_codes distinct_map) (auto simp: codes_def)
qed

lemma strchr_distinct: "distinct bs \<Longrightarrow> i < length bs \<Longrightarrow> strchr bs (bs ! i) = Some i"
proof (induction bs arbitrary: i)
  case (Cons b bs)
  then show ?case by (cases i) (auto simp: nth_mem)
qed simp

lemma Base64_nth:
  assumes "d < 64"
  shows "strchr Base64 (Base64 ! d) = Some d" "isspace (Base64 ! d) = Some False" "Base64 ! d \<noteq> Pad64" "Base64 ! d \<noteq> 0"
proof -
  show "strchr Base64 (Base64 ! d) = Some d" using assms by (simp add: strchr_distinct distinct_Base64)
  have "codes ! d \<in> set codes" "Base64 ! d = of_nat (codes ! d)"
    using assms by (simp_all add: Base64_codes nth_append length_codes)
  then obtain n where "n \<in> set codes" and d: "Base64 ! d = of_nat n" by blast
  with codes_bounds have n: "43 \<le> n" "n \<le> 122" "n \<noteq> 61" by auto
  then have u: "unat (of_nat n :: u8) = n" by (simp add: byte_of_nat)
  have "sint (of_nat n :: u8) = int n" using n by (simp add: signed_of_nat signed_take_bit_int_eq_self)
  with n u show "isspace (Base64 ! d) = Some False"
    by (simp add: d isspace_def word_unat_eq_iff word_le_nat_alt)
  show "Base64 ! d \<noteq> Pad64" "Base64 ! d \<noteq> 0" using n u by (auto simp: d Pad64_def word_unat_eq_iff)
qed

lemma strchr_nth: "strchr bs c = Some i \<Longrightarrow> i < length bs \<and> bs ! i = c"
  by (induction bs c arbitrary: i rule: strchr.induct) (auto split: if_splits)

lemma strchr_Base64: "strchr Base64 c = Some d \<Longrightarrow> c \<noteq> 0 \<Longrightarrow> d < 64 \<and> c = Base64 ! d"
proof -
  assume *: "strchr Base64 c = Some d" and "c \<noteq> 0"
  have "Base64 ! 64 = 0" by (simp add: Base64_codes nth_append length_codes)
  with strchr_nth [OF *] \<open>c \<noteq> 0\<close> have "d \<noteq> 64" "d < 65" "c = Base64 ! d" by auto
  then show ?thesis by auto
qed

subsection \<open>Bytes from digits\<close>

definition byte0 :: "nat \<Rightarrow> nat \<Rightarrow> u8" where
  "byte0 p q = of_nat (4 * p + q div 16)"

definition byte1 :: "nat \<Rightarrow> nat \<Rightarrow> u8" where
  "byte1 q r = of_nat (16 * (q mod 16) + r div 4)"

definition byte2 :: "nat \<Rightarrow> nat \<Rightarrow> u8" where
  "byte2 r s = of_nat (64 * (r mod 4) + s)"

lemma digit_bits:
  assumes "q < 64"
  shows "drop_bit n (of_nat q :: u8) = of_nat (q div 2 ^ n)"
    "(of_nat q :: u8) AND 0x0F = of_nat (q mod 16)" "(of_nat q :: u8) AND 0x03 = of_nat (q mod 4)"
proof -
  have "q div 2 ^ n < 256" using assms by (intro le_less_trans [OF div_le_dividend]) simp
  with assms show "drop_bit n (of_nat q :: u8) = of_nat (q div 2 ^ n)"
    by (simp add: word_unat_eq_iff byte_of_nat del: of_nat_div)
  show "(of_nat q :: u8) AND 0x0F = of_nat (q mod 16)" "(of_nat q :: u8) AND 0x03 = of_nat (q mod 4)"
    using assms by (simp_all add: word_unat_eq_iff byte_of_nat)
qed

lemma stored_bytes:
  assumes "p < 64" "q < 64" "r < 64" "s < 64"
  shows "push_bit 2 (of_nat p) OR drop_bit 4 (of_nat q) = byte0 p q"
    "push_bit 4 (of_nat q AND 0x0F) OR drop_bit 2 (of_nat r) = byte1 q r"
    "push_bit 6 (of_nat r AND 0x03) OR of_nat s = byte2 r s"
    "push_bit 2 (of_nat p) = byte0 p 0" "push_bit 4 (of_nat q AND 0x0F) = byte1 q 0" "push_bit 6 (of_nat r AND 0x03) = byte2 r 0"
proof -
  have push: "push_bit n (of_nat k) = (of_nat (k * 2 ^ n) :: u8)" for n k
    by (simp add: push_bit_eq_mult)
  have join: "push_bit n (of_nat k) OR of_nat l = (of_nat (l + k * 2 ^ n) :: u8)" if "l < 2 ^ n" for n k l
    using word_or_of_nat [OF that, of k] unfolding push by (simp only: or.commute)
  have "q div 2 ^ 4 < 2 ^ 2" "r div 2 ^ 2 < 2 ^ 4" "s < 2 ^ 6" using assms by simp_all
  note join [OF this(1), of p] join [OF this(2), of "q mod 16"] join [OF this(3), of "r mod 4"]
  then show "push_bit 2 (of_nat p) OR drop_bit 4 (of_nat q) = byte0 p q"
    "push_bit 4 (of_nat q AND 0x0F) OR drop_bit 2 (of_nat r) = byte1 q r"
    "push_bit 6 (of_nat r AND 0x03) OR of_nat s = byte2 r s"
    unfolding digit_bits [OF assms(2)] digit_bits [OF assms(3)] byte0_def byte1_def byte2_def
    by (simp_all only: power2_eq_square mult.commute add.commute) simp_all
  show "push_bit 2 (of_nat p) = byte0 p 0" "push_bit 4 (of_nat q AND 0x0F) = byte1 q 0" "push_bit 6 (of_nat r AND 0x03) = byte2 r 0"
    unfolding digit_bits [OF assms(2)] digit_bits [OF assms(3)] byte0_def byte1_def byte2_def push
    by (simp_all add: mult.commute)
qed

lemma bytes_sextets:
  assumes "p < 64" "q < 64" "r < 64" "s < 64"
  shows "sextets (byte0 p q) (byte1 q r) (byte2 r s) = [p, q, r, s]"
proof -
  have "q div 16 < 4" "r div 4 < 16" "q mod 16 < 16" "r mod 4 < 4" using assms by simp_all
  then have "unat (byte0 p q) = 4 * p + q div 16" "unat (byte1 q r) = 16 * (q mod 16) + r div 4" "unat (byte2 r s) = 64 * (r mod 4) + s"
    unfolding byte0_def byte1_def byte2_def using assms by (simp_all add: byte_of_nat del: of_nat_add of_nat_mult)
  then show ?thesis
    using \<open>q div 16 < 4\<close> \<open>r div 4 < 16\<close> \<open>s < 64\<close> by (simp add: sextets_split)
qed

lemma sextets_bytes:
  assumes "sextets a b c = [p, q, r, s]"
  shows "byte0 p q = a" "byte1 q r = b" "byte2 r s = c"
proof -
  have b: "unat b div 16 < 16" "unat c div 64 < 4" using byte_less [of b] byte_less [of c] by simp_all
  have "p = unat a div 4" "q = unat a mod 4 * 16 + unat b div 16" "r = unat b mod 16 * 4 + unat c div 64" "s = unat c mod 64"
    using assms by (simp_all add: sextets_split)
  moreover have "4 * (unat a div 4) + unat a mod 4 = unat a" "16 * (unat b div 16) + unat b mod 16 = unat b" "64 * (unat c div 64) + unat c mod 64 = unat c"
    by simp_all
  ultimately have "4 * p + q div 16 = unat a" "16 * (q mod 16) + r div 4 = unat b" "64 * (r mod 4) + s = unat c"
    using b by simp_all
  then show "byte0 p q = a" "byte1 q r = b" "byte2 r s = c"
    by (simp_all add: byte0_def byte1_def byte2_def del: of_nat_add of_nat_mult)
qed

subsection \<open>The loop\<close>

text \<open>The bytes that digits stand for, the bits behind them, and the bytes of target they need.\<close>

fun decoded :: "nat list \<Rightarrow> u8 list" where
  "decoded (p # q # r # s # ds) = byte0 p q # byte1 q r # byte2 r s # decoded ds"
| "decoded [p, q, r] = [byte0 p q, byte1 q r]"
| "decoded [p, q] = [byte0 p q]"
| "decoded _ = []"

fun spare :: "nat list \<Rightarrow> u8 list" where
  "spare (p # q # r # s # ds) = spare ds"
| "spare [p, q, r] = [byte2 r 0]"
| "spare [p, q] = [byte1 q 0]"
| "spare [p] = [byte0 p 0]"
| "spare [] = []"

definition needed :: "nat list \<Rightarrow> nat" where
  "needed ds = 3 * (length ds div 4) + length ds mod 4"

lemma needed_simps [simp]:
  "needed (p # q # r # s # ds) = 3 + needed ds" "needed [p, q, r] = 3" "needed [p, q] = 2" "needed [p] = 1" "needed [] = 0"
proof -
  have "length (p # q # r # s # ds) div 4 = Suc (length ds div 4)" "length (p # q # r # s # ds) mod 4 = length ds mod 4" by simp_all
  then show "needed (p # q # r # s # ds) = 3 + needed ds" unfolding needed_def by simp
qed (simp_all add: needed_def)

lemma length_stored: "length (decoded ds @ spare ds) = needed ds"
  by (induction ds rule: spare.induct) simp_all

lemma pton_loop_digit:
  assumes "d < 64"
  shows "pton_loop targsize (Base64 ! d # src) target tarindex state =
     do { (target, result) \<leftarrow> pton_digit targsize (of_nat d) target tarindex state;
          case result of
            None \<Rightarrow> Some (target, None)
          | Some (tarindex, state) \<Rightarrow> pton_loop targsize src target tarindex state }"
  using assms by (simp add: Base64_nth)

text \<open>The four states, with the target split where they store.\<close>

lemma put_behind: "unat ti = length pre \<Longrightarrow> unat (ti + 1) = length pre + 1 \<Longrightarrow>
    put (pre @ b # x # t) (unat (ti + 1)) y = Some (pre @ b # y # t)"
  using put_at [of "pre @ [b]" x t y] by simp

lemma index_next: "unat ti = length pre \<Longrightarrow> length (pre @ b # t) < 2 ^ 32 \<Longrightarrow> unat (ti + 1 :: u32) = length pre + 1"
  by (simp add: unat_word_ariths)

lemma pton_digit_stores:
  assumes ti: "unat ti = length pre" and ts: "length (pre @ b # t) = unat ts"
  shows "pton_digit ts p (Some (pre @ b # t)) ti 0 = Some (Some (pre @ push_bit 2 p # t), Some (ti, 1))"
    "pton_digit ts p (Some (pre @ b # t)) ti 3 = Some (Some (pre @ (b OR p) # t), Some (ti + 1, 0))"
proof -
  have room: "\<not> ucast ti \<ge> ts" using ti ts by (simp add: word_le_nat_alt unat_ucast_u32)
  have "put (pre @ b # t) (unat ti) y = Some (pre @ y # t)" for y using ti by simp
  moreover have "fetch (pre @ b # t) (unat ti) = Some b" using ti by simp
  ultimately show
    "pton_digit ts p (Some (pre @ b # t)) ti 0 = Some (Some (pre @ push_bit 2 p # t), Some (ti, 1))"
    "pton_digit ts p (Some (pre @ b # t)) ti 3 = Some (Some (pre @ (b OR p) # t), Some (ti + 1, 0))"
    using room by (simp_all add: pton_digit_def)
qed

lemma pton_digit_spreads:
  assumes ti: "unat ti = length pre" and ts: "length (pre @ b # t) = unat ts" and small: "length (pre @ b # t) < 2 ^ 32"
  shows "pton_digit ts p (Some (pre @ b # t)) ti 1 =
      (case t of [] \<Rightarrow> Some (Some (pre @ [b]), None)
       | x # t' \<Rightarrow> Some (Some (pre @ (b OR drop_bit 4 p) # push_bit 4 (p AND 0x0F) # t'), Some (ti + 1, 2)))"
    "pton_digit ts p (Some (pre @ b # t)) ti 2 =
      (case t of [] \<Rightarrow> Some (Some (pre @ [b]), None)
       | x # t' \<Rightarrow> Some (Some (pre @ (b OR drop_bit 2 p) # push_bit 6 (p AND 0x03) # t'), Some (ti + 1, 3)))"
proof -
  note nxt = index_next [OF ti small]
  have room: "ucast (ti + 1) \<ge> ts \<longleftrightarrow> t = []"
    using nxt ts by (cases t) (auto simp: word_le_nat_alt unat_ucast_u32)
  have 1: "put (pre @ b # t) (unat ti) y = Some (pre @ y # t)" "fetch (pre @ b # t) (unat ti) = Some b" for y
    using ti by simp_all
  have 2: "put (pre @ y # x # t') (unat (ti + 1)) z = Some (pre @ y # z # t')" for y x t' z
    using ti nxt by (rule put_behind)
  show
    "pton_digit ts p (Some (pre @ b # t)) ti 1 =
      (case t of [] \<Rightarrow> Some (Some (pre @ [b]), None)
       | x # t' \<Rightarrow> Some (Some (pre @ (b OR drop_bit 4 p) # push_bit 4 (p AND 0x0F) # t'), Some (ti + 1, 2)))"
    "pton_digit ts p (Some (pre @ b # t)) ti 2 =
      (case t of [] \<Rightarrow> Some (Some (pre @ [b]), None)
       | x # t' \<Rightarrow> Some (Some (pre @ (b OR drop_bit 2 p) # push_bit 6 (p AND 0x03) # t'), Some (ti + 1, 3)))"
    using room 1 2 by (simp_all add: pton_digit_def del: push_bit_and split: list.splits)
qed

lemma pton_digit_full:
  "unat ti = length pre \<Longrightarrow> length pre = unat ts \<Longrightarrow> pton_digit ts p (Some pre) ti 0 = Some (Some pre, None)"
  by (simp add: pton_digit_def word_le_nat_alt unat_ucast_u32)

text \<open>One to four digits from the first state on.\<close>

lemma pton_one:
  assumes ti: "unat ti = length pre" and ts: "length (pre @ b # t) = unat ts" and d: "p < 64"
  shows "pton_loop ts (Base64 ! p # src) (Some (pre @ b # t)) ti 0 = pton_loop ts src (Some (pre @ byte0 p 0 # t)) ti 1"
  unfolding pton_loop_digit [OF d] pton_digit_stores(1) [OF ti ts] using stored_bytes(4) [OF d d d d] by simp

lemma pton_two:
  assumes ti: "unat ti = length pre" and ts: "length (pre @ b # t) = unat ts" and small: "length (pre @ b # t) < 2 ^ 32"
    and d: "p < 64" "q < 64"
  shows "pton_loop ts (Base64 ! p # Base64 ! q # src) (Some (pre @ b # t)) ti 0 =
    (case t of [] \<Rightarrow> Some (Some (pre @ [byte0 p 0]), None)
     | x # t \<Rightarrow> pton_loop ts src (Some (pre @ byte0 p q # byte1 q 0 # t)) (ti + 1) 2)"
proof -
  have ts': "length (pre @ byte0 p 0 # t) = unat ts" "length (pre @ byte0 p 0 # t) < 2 ^ 32" using ts small by simp_all
  have "byte0 p 0 OR drop_bit 4 (of_nat q) = byte0 p q" "push_bit 4 (of_nat q AND 0x0F) = byte1 q 0"
    using stored_bytes [OF d(1,2,2,2)] by simp_all
  then show ?thesis
    unfolding pton_one [OF ti ts d(1)] pton_loop_digit [OF d(2)] pton_digit_spreads(1) [OF ti ts'] by (simp split: list.splits)
qed

lemma pton_three:
  assumes ti: "unat ti = length pre" and ts: "length (pre @ b # x # t) = unat ts" and small: "length (pre @ b # x # t) < 2 ^ 32"
    and d: "p < 64" "q < 64" "r < 64"
  shows "pton_loop ts (Base64 ! p # Base64 ! q # Base64 ! r # src) (Some (pre @ b # x # t)) ti 0 =
    (case t of [] \<Rightarrow> Some (Some (pre @ [byte0 p q, byte1 q 0]), None)
     | y # t \<Rightarrow> pton_loop ts src (Some (pre @ byte0 p q # byte1 q r # byte2 r 0 # t)) (ti + 2) 3)"
proof -
  have ti': "unat (ti + 1) = length (pre @ [byte0 p q])" using index_next [OF ti small] by simp
  have ts': "length ((pre @ [byte0 p q]) @ byte1 q 0 # t) = unat ts" "length ((pre @ [byte0 p q]) @ byte1 q 0 # t) < 2 ^ 32"
    using ts small by simp_all
  have "byte1 q 0 OR drop_bit 2 (of_nat r) = byte1 q r" "push_bit 6 (of_nat r AND 0x03) = byte2 r 0"
    using stored_bytes [OF d d(3)] by simp_all
  then show ?thesis
    using pton_digit_spreads(2) [OF ti' ts', of "of_nat r"]
    unfolding pton_two [OF ti ts small d(1,2)] list.case pton_loop_digit [OF d(3)]
    by (simp add: add.assoc split: list.splits)
qed

lemma pton_four:
  assumes ti: "unat ti = length pre" and ts: "length (pre @ b # x # y # t) = unat ts" and small: "length (pre @ b # x # y # t) < 2 ^ 32"
    and d: "p < 64" "q < 64" "r < 64" "s < 64"
  shows "pton_loop ts (Base64 ! p # Base64 ! q # Base64 ! r # Base64 ! s # src) (Some (pre @ b # x # y # t)) ti 0 =
    pton_loop ts src (Some ((pre @ [byte0 p q, byte1 q r, byte2 r s]) @ t)) (ti + 3) 0"
proof -
  have ti': "unat (ti + 2) = length (pre @ [byte0 p q, byte1 q r])" using ti small by (simp add: unat_word_ariths)
  have ts': "length ((pre @ [byte0 p q, byte1 q r]) @ byte2 r 0 # t) = unat ts" using ts by simp
  have "byte2 r 0 OR of_nat s = byte2 r s"
    using stored_bytes [OF d] by simp
  then show ?thesis
    using pton_digit_stores(2) [OF ti' ts', of "of_nat s"]
    unfolding pton_three [OF ti ts small d(1-3)] list.case pton_loop_digit [OF d(4)]
    by (simp add: add.assoc)
qed

lemma pton_short:
  assumes ti: "unat ti = length pre" and ts: "length (pre @ t) = unat ts" "length (pre @ t) < 2 ^ 32" and d: "\<forall>d \<in> set ds. d < 64"
    and short: "length t < 3" "length t < length ds"
  shows "\<exists>t'. pton_loop ts (b64_digits ds @ src) (Some (pre @ t)) ti 0 = Some (Some t', None) \<and> length t' = length (pre @ t)"
proof -
  consider p ds' where "t = []" "ds = p # ds'" | x p q ds' where "t = [x]" "ds = p # q # ds'"
    | x y p q r ds' where "t = [x, y]" "ds = p # q # r # ds'"
    using short by (auto simp: less_Suc_eq numeral_3_eq_3 length_Suc_conv Suc_le_length_iff dest!: Suc_leI)
  then show ?thesis
  proof cases
    case 1
    then show ?thesis
      using pton_digit_full [OF ti, of ts "of_nat p"] pton_loop_digit [of p ts "b64_digits ds' @ src" "Some pre" ti 0] ts d
      by (simp add: b64_digits_def)
  next
    case 2
    then show ?thesis
      using pton_two [of ti pre x "[]" ts p q "b64_digits ds' @ src"] ti ts d by (simp add: b64_digits_def)
  next
    case 3
    then show ?thesis
      using pton_three [of ti pre x y "[]" ts p q r "b64_digits ds' @ src"] ti ts d by (simp add: b64_digits_def)
  qed
qed

lemma pton_digits:
  assumes "unat ti = length pre" and "length (pre @ t) = unat ts" and "length (pre @ t) < 2 ^ 32" and "\<forall>d \<in> set ds. d < 64"
  shows "if needed ds \<le> length t
    then pton_loop ts (b64_digits ds @ src) (Some (pre @ t)) ti 0 =
        pton_loop ts src (Some (pre @ decoded ds @ spare ds @ drop (needed ds) t))
          (ti + of_nat (length (decoded ds))) (of_nat (length ds mod 4))
    else \<exists>t'. pton_loop ts (b64_digits ds @ src) (Some (pre @ t)) ti 0 = Some (Some t', None) \<and> length t' = length (pre @ t)"
  using assms
proof (induction ds arbitrary: pre t ti rule: spare.induct)
  case (1 p q r s ds)
  have d: "p < 64" "q < 64" "r < 64" "s < 64" using 1(5) by simp_all
  have start: "b64_digits (p # q # r # s # ds) @ src = Base64 ! p # Base64 ! q # Base64 ! r # Base64 ! s # b64_digits ds @ src"
    by (simp add: b64_digits_def)
  show ?case
  proof (cases "3 \<le> length t")
    case True
    then obtain x y z t' where t: "t = x # y # z # t'"
      by (metis Suc_le_length_iff numeral_3_eq_3)
    have "drop (3 + needed ds) (x # y # z # t') = drop (needed ds) t'" by (simp add: numeral_3_eq_3)
    moreover have "unat (ti + 3) = length (pre @ [byte0 p q, byte1 q r, byte2 r s])"
      using 1(2,4) by (simp add: t unat_word_ariths)
    moreover have "length ((pre @ [byte0 p q, byte1 q r, byte2 r s]) @ t') = unat ts" "length ((pre @ [byte0 p q, byte1 q r, byte2 r s]) @ t') < 2 ^ 32"
      using 1(3,4) by (simp_all add: t)
    moreover have "length (p # q # r # s # ds) mod 4 = length ds mod 4" by simp
    ultimately show ?thesis
      using 1(1) [of "ti + 3" "pre @ [byte0 p q, byte1 q r, byte2 r s]" t'] 1(5)
      unfolding start t pton_four [OF 1(2) 1(3,4) [unfolded t] d]
      by (auto simp: add.assoc split: if_splits)
  next
    case False
    then show ?thesis
      using pton_short [OF 1(2-5), of src] by simp
  qed
next
  case (2 p q r)
  show ?case
  proof (cases "3 \<le> length t")
    case True
    then obtain x y z t' where "t = x # y # z # t'" by (metis Suc_le_length_iff numeral_3_eq_3)
    then show ?thesis
      using pton_three [of ti pre x y "z # t'" ts p q r src] 2 by (simp add: b64_digits_def)
  qed (use pton_short [OF 2(1-4), of src] in simp)
next
  case (3 p q)
  show ?case
  proof (cases "2 \<le> length t")
    case True
    then obtain x y t' where "t = x # y # t'" by (metis Suc_le_length_iff numeral_2_eq_2)
    then show ?thesis
      using pton_two [of ti pre x "y # t'" ts p q src] 3 by (simp add: b64_digits_def)
  qed (use pton_short [OF 3(1-4), of src] in simp)
next
  case (4 p)
  show ?case
  proof (cases t)
    case (Cons x t')
    then show ?thesis
      using pton_one [of ti pre x t' ts p src] 4 by (simp add: b64_digits_def)
  qed (use pton_short [OF 4(1-4), of src] in simp)
qed (simp add: b64_digits_def)

subsection \<open>The end of the text\<close>

text \<open>What has to follow the digits, and be left over in the last of them.\<close>

definition closing :: "nat list \<Rightarrow> u8 list \<Rightarrow> bool" where
  "closing ds s \<longleftrightarrow>
     length ds mod 4 = 0 \<and> s = [] \<or> length ds mod 4 = 2 \<and> s = [Pad64, Pad64] \<and> spare ds = [0]
     \<or> length ds mod 4 = 3 \<and> s = [Pad64] \<and> spare ds = [0]"

lemma mod4_cases:
  fixes n :: nat
  obtains "n mod 4 = 0" | "n mod 4 = 1" | "n mod 4 = 2" | "n mod 4 = 3"
  using mod_less_divisor [of 4 n] by fastforce

lemma spare_length: "length (spare ds) = (if length ds mod 4 = 0 then 0 else 1)"
  by (induction ds rule: spare.induct) simp_all

lemma only_spaces_end: "\<forall>c \<in> set s. c \<noteq> 0 \<and> isspace c = Some False \<Longrightarrow> only_spaces (s @ 0 # rest) = Some (s = [])"
  by (cases s) simp_all

lemma skip_spaces_none: "c = 0 \<or> isspace c = Some False \<Longrightarrow> skip_spaces (c # src) = Some (c, src)"
  by auto

lemma pton_ends:
  assumes t: "length t = unat ts" "length t < 2 ^ 31" and ds: "\<forall>d \<in> set ds. d < 64"
    and s: "\<forall>c \<in> set s. c \<noteq> 0 \<and> isspace c = Some False" "s = [] \<or> strchr Base64 (hd s) = None"
    and room: "needed ds \<le> length t"
  shows "f_b64_pton (b64_digits ds @ s @ 0 # rest) (Some t) ts =
    Some (Some (decoded ds @ spare ds @ drop (needed ds) t), if closing ds s then int (length (decoded ds)) else - 1)"
proof -
  define t' where "t' = decoded ds @ spare ds @ drop (needed ds) t"
  define n :: nat where "n = length (decoded ds)"
  have small: "length t < 2 ^ 32" using t(2) by simp
  have loop: "pton_loop ts (b64_digits ds @ s @ 0 # rest) (Some t) 0 0 =
      pton_loop ts (s @ 0 # rest) (Some t') (of_nat n) (of_nat (length ds mod 4))"
    using pton_digits [of 0 "[]" t ts ds "s @ 0 # rest"] t small ds room by (simp add: t'_def n_def)
  have "n \<le> length t" using length_stored [of ds] room by (simp add: n_def)
  then have ret: "sint (of_nat n :: u32) = int n" "unat (of_nat n :: u32) = n"
    using t(2) by (simp_all add: sint_of_nat_small unat_of_nat_small)
  have spare: "fetch t' n = Some (hd (spare ds))" "spare ds = [0] \<longleftrightarrow> hd (spare ds) = 0" if "length ds mod 4 \<noteq> 0"
    using spare_length [of ds] that by (auto simp: length_Suc_conv t'_def n_def)
  show ?thesis
  proof (cases "s = []")
    case True
    have "of_nat (length ds mod 4) = (0 :: u32) \<longleftrightarrow> length ds mod 4 = 0"
      by (cases rule: mod4_cases [of "length ds"]) simp_all
    moreover have "pton_loop ts (b64_digits ds @ 0 # rest) (Some t) 0 0 =
        Some (Some t', Some (0, rest, of_nat n, of_nat (length ds mod 4)))"
      using loop True by simp
    ultimately show ?thesis
      using True ret by (auto simp: f_b64_pton_def closing_def Pad64_def simp flip: t'_def n_def)
  next
    case False
    then obtain c s' where c: "s = c # s'" by (cases s) auto
    have c0: "c \<noteq> 0" "isspace c = Some False" "strchr Base64 c = None" using s by (auto simp: c)
    show ?thesis
    proof (cases "c = Pad64")
      case False
      then show ?thesis using c0 by (simp add: f_b64_pton_def loop [unfolded c append_Cons] c closing_def t'_def)
    next
      case True
      have s': "\<forall>c \<in> set s'. c \<noteq> 0 \<and> isspace c = Some False" using s by (simp add: c)
      have next_ch: "read_next (s' @ 0 # rest) = Some (hd (s' @ [0]), tl (s' @ 0 # rest))" by (cases s') simp_all
      have "pton_pad (s' @ 0 # rest) (Some t') (of_nat n) (of_nat (length ds mod 4)) = Some (closing ds s)"
      proof (cases rule: mod4_cases [of "length ds"])
        case three: 3
        show ?thesis
        proof (cases s')
          case Nil
          then show ?thesis using three by (simp add: pton_pad_def closing_def c Pad64_def)
        next
          case (Cons c' r)
          then have "only_spaces (r @ 0 # rest) = Some (r = [])" using s' by (intro only_spaces_end) simp
          moreover have "skip_spaces (c' # r @ 0 # rest) = Some (c', r @ 0 # rest)" using s' Cons by (intro skip_spaces_none) simp
          ultimately show ?thesis
            using three spare True ret by (auto simp: pton_pad_def closing_def c Cons)
        qed
      next
        case 4
        then show ?thesis
          using spare only_spaces_end [OF s', of rest] True ret by (auto simp: pton_pad_def next_ch closing_def c)
      qed (simp_all add: pton_pad_def next_ch closing_def c)
      then show ?thesis
        using c0 ret unfolding True by (simp add: f_b64_pton_def loop [unfolded c append_Cons True] c True t'_def n_def)
    qed
  qed
qed

text \<open>Digits and their closing are what the encoder writes.\<close>

lemma closing_encode: "\<forall>d \<in> set ds. d < 64 \<Longrightarrow> closing ds s \<Longrightarrow> b64_digits ds @ s = b64_encode (decoded ds)"
proof (induction ds rule: spare.induct)
  case (1 p q r s' ds)
  have "closing ds s" using 1(3) by (simp add: closing_def)
  then show ?case
    using 1(1,2) bytes_sextets [of p q r s'] by (simp add: b64_digits_def)
next
  case (2 p q r)
  then have "s = [Pad64]" "byte2 r 0 = 0" by (auto simp: closing_def)
  then show ?case
    using bytes_sextets [of p q r 0] 2(1) by (simp add: b64_digits_def)
next
  case (3 p q)
  then have "s = [Pad64, Pad64]" "byte1 q 0 = 0" by (auto simp: closing_def)
  moreover have "byte2 0 0 = 0" by (simp add: byte2_def)
  ultimately show ?case
    using bytes_sextets [of p q 0 0] 3(1) by (simp add: b64_digits_def)
qed (simp_all add: closing_def b64_digits_def)

lemma encode_closing:
  "\<exists>ds s. (\<forall>d \<in> set ds. d < 64) \<and> closing ds s \<and> b64_encode bs = b64_digits ds @ s \<and> decoded ds = bs"
proof (induction bs rule: b64_encode.induct)
  case 1
  show ?case by (intro exI [of _ "[]"]) (simp add: closing_def b64_digits_def)
next
  case (2 a)
  obtain p q r s where d: "sextets a 0 0 = [p, q, r, s]" by (simp add: sextets_def Let_def)
  moreover have "r = 0" using d by (simp add: sextets_split)
  moreover have "byte1 q r = 0" using sextets_bytes [OF d] by simp
  ultimately show ?case
    using sextets_bytes [OF d] sextets_small [of _ a 0 0]
    by (intro exI [of _ "[p, q]"] exI [of _ "[Pad64, Pad64]"]) (simp add: closing_def b64_digits_def)
next
  case (3 a b)
  obtain p q r s where d: "sextets a b 0 = [p, q, r, s]" by (simp add: sextets_def Let_def)
  moreover have "s = 0" using d by (simp add: sextets_split)
  ultimately show ?case
    using sextets_bytes [OF d] sextets_small [of _ a b 0]
    by (intro exI [of _ "[p, q, r]"] exI [of _ "[Pad64]"]) (simp add: closing_def b64_digits_def)
next
  case (4 a b c bs)
  then obtain ds s where ds: "\<forall>d \<in> set ds. d < 64" "closing ds s" "b64_encode bs = b64_digits ds @ s" "decoded ds = bs" by blast
  obtain p q r s' where d: "sextets a b c = [p, q, r, s']" by (simp add: sextets_def Let_def)
  have "closing (p # q # r # s' # ds) s" using ds(2) by (simp add: closing_def)
  with ds d show ?case
    using sextets_bytes [OF d] sextets_small [of _ a b c]
    by (intro exI [of _ "p # q # r # s' # ds"] exI [of _ s]) (simp add: b64_digits_def)
qed

lemma split_digits_unique:
  assumes "b64_digits ds @ s = b64_digits ds' @ s'" and "\<forall>d \<in> set ds. d < 64" "\<forall>d \<in> set ds'. d < 64"
    and "s = [] \<or> strchr Base64 (hd s) = None" "s' = [] \<or> strchr Base64 (hd s') = None"
  shows "ds = ds' \<and> s = s'"
  using assms
proof (induction ds arbitrary: ds')
  case Nil
  show ?case
  proof (cases ds')
    case (Cons d r)
    then show ?thesis using Nil Base64_nth(1) [of d] by (cases s) (auto simp: b64_digits_def)
  qed (use Nil in \<open>simp add: b64_digits_def\<close>)
next
  case (Cons d ds)
  have d: "strchr Base64 (Base64 ! d) = Some d" using Cons(3) by (simp add: Base64_nth)
  show ?case
  proof (cases ds')
    case Nil
    then show ?thesis using Cons d by (cases s') (auto simp: b64_digits_def)
  next
    case (Cons d' r)
    then have d': "strchr Base64 (Base64 ! d') = Some d'" using Cons.prems(3) by (simp add: Base64_nth)
    have eq: "Base64 ! d = Base64 ! d'" "b64_digits ds @ s = b64_digits r @ s'"
      using Cons.prems(1) Cons by (simp_all add: b64_digits_def)
    from d d' have "d = d'" unfolding eq(1) by simp
    moreover have "ds = r \<and> s = s'"
      using Cons.prems Cons by (intro Cons.IH [OF eq(2)]) simp_all
    ultimately show ?thesis using Cons by simp
  qed
qed

lemma strchr_Pad64: "strchr Base64 Pad64 = None"
  using strchr_Base64 [of Pad64] Base64_nth(3) by (cases "strchr Base64 Pad64") (force simp: Pad64_def)+

text \<open>A text is the encoding of at most one list of bytes, and its digits say which.\<close>

lemma encode_digits:
  assumes "b64_digits ds @ s = b64_encode bs" and "\<forall>d \<in> set ds. d < 64" and "s = [] \<or> strchr Base64 (hd s) = None"
  shows "closing ds s" "decoded ds = bs"
proof -
  obtain ds' s' where *: "\<forall>d \<in> set ds'. d < 64" "closing ds' s'" "b64_encode bs = b64_digits ds' @ s'" "decoded ds' = bs"
    using encode_closing by blast
  moreover have "s' = [] \<or> strchr Base64 (hd s') = None"
    using *(2) by (auto simp: closing_def strchr_Pad64)
  ultimately have "ds = ds' \<and> s = s'"
    using assms by (intro split_digits_unique) simp_all
  with * show "closing ds s" "decoded ds = bs" by simp_all
qed

lemma closing_chars: "closing ds s \<Longrightarrow> (s = [] \<or> strchr Base64 (hd s) = None) \<and> (\<forall>c \<in> set s. c \<noteq> 0 \<and> isspace c = Some False)"
  by (auto simp: closing_def strchr_Pad64) (simp_all add: Pad64_def isspace_def)

lemma b64_encode_inj: "b64_encode bs = b64_encode bs' \<Longrightarrow> bs = bs'"
proof -
  assume eq: "b64_encode bs = b64_encode bs'"
  obtain ds s where ds: "\<forall>d \<in> set ds. d < 64" "closing ds s" "b64_encode bs = b64_digits ds @ s" "decoded ds = bs"
    using encode_closing by blast
  from encode_digits(2) [OF _ ds(1), of s bs'] closing_chars [OF ds(2)] ds(3,4) eq show "bs = bs'" by simp
qed

subsection \<open>White space\<close>

definition strip :: "u8 list \<Rightarrow> u8 list" where
  "strip = filter (\<lambda>c. isspace c \<noteq> Some True)"

lemma strip_simps [simp]:
  "strip [] = []" "strip (c # s) = (if isspace c = Some True then strip s else c # strip s)" "strip (s @ s') = strip s @ strip s'"
  by (simp_all add: strip_def)

lemma isspace_zero [simp]: "isspace 0 = Some False"
  by (simp add: isspace_def)

lemma pton_loop_strip:
  "pton_loop ts (strip src) target ti state =
     map_option (map_prod id (map_option (map_prod id (map_prod strip id)))) (pton_loop ts src target ti state)"
  by (induction src arbitrary: target ti state)
    (auto simp: bind_eq_None_conv split: option.splits Option.bind_splits)

lemma skip_spaces_strip: "skip_spaces (strip src) = map_option (map_prod id strip) (skip_spaces src)"
  by (induction src) (auto split: Option.bind_splits)

lemma only_spaces_strip: "only_spaces (strip src) = only_spaces src"
  by (induction src) (auto split: Option.bind_splits)

lemma pton_loop_terminated:
  "pton_loop ts src target ti state = Some (target', Some (ch, src', ti', state')) \<Longrightarrow> 0 \<in> set src \<Longrightarrow> ch \<noteq> 0 \<Longrightarrow> 0 \<in> set src'"
  by (induction src arbitrary: target ti state) (auto split: if_splits Option.bind_splits option.splits)

lemma pton_pad_strip: "0 \<in> set src \<Longrightarrow> pton_pad (strip src) target ti state = pton_pad src target ti state"
proof -
  assume "0 \<in> set src"
  then have "0 \<in> set (strip src)" by (simp add: strip_def)
  with \<open>0 \<in> set src\<close> obtain c s c' s' where "src = c # s" "strip src = c' # s'" by (cases src; cases "strip src") auto
  then have "\<exists>x. read_next (strip src) = Some x" "\<exists>x. read_next src = Some x" by simp_all
  then show ?thesis
    by (auto simp: pton_pad_def skip_spaces_strip only_spaces_strip Option.bind_map_option split: Option.bind_splits)
qed

text \<open>White space anywhere has no effect.\<close>

lemma pton_strip: "0 \<in> set src \<Longrightarrow> f_b64_pton (strip src) target ts = f_b64_pton src target ts"
proof -
  assume z: "0 \<in> set src"
  show ?thesis
  proof (cases "pton_loop ts src target 0 0")
    case None
    then show ?thesis by (simp add: f_b64_pton_def pton_loop_strip)
  next
    case (Some r)
    obtain target' res where r: "r = (target', res)" by (cases r)
    show ?thesis
    proof (cases res)
      case None
      then show ?thesis using Some r by (simp add: f_b64_pton_def pton_loop_strip)
    next
      case (Some q)
      obtain ch src' ti state where q: "q = (ch, src', ti, state)" by (cases q) auto
      have "0 \<in> set src'" if "ch \<noteq> 0"
        using pton_loop_terminated [OF _ z that] \<open>pton_loop ts src target 0 0 = Some r\<close> r Some q by simp
      then show ?thesis
        using \<open>pton_loop ts src target 0 0 = Some r\<close> r Some q
        by (auto simp: f_b64_pton_def pton_loop_strip pton_pad_strip Pad64_def)
    qed
  qed
qed

text \<open>Decoding, every branch, of a text that ends.\<close>

definition target_room :: "u8 list \<Rightarrow> nat" where
  "target_room bs = (if length bs mod 3 = 0 then length bs else length bs + 1)"

lemma closing_room: "closing ds s \<Longrightarrow> needed ds = target_room (decoded ds)"
proof (induction ds rule: spare.induct)
  case (1 p q r s' ds)
  have "closing ds s" using 1(2) by (simp add: closing_def)
  moreover have "length (decoded (p # q # r # s' # ds)) mod 3 = length (decoded ds) mod 3" by simp
  ultimately show ?case using 1(1) by (simp add: target_room_def)
qed (auto simp: closing_def target_room_def)

lemma split_digits:
  assumes "\<forall>c \<in> set s. c \<noteq> 0"
  obtains ds s' where "s = b64_digits ds @ s'" "\<forall>d \<in> set ds. d < 64" "s' = [] \<or> strchr Base64 (hd s') = None"
  using assms
proof (induction s arbitrary: thesis)
  case Nil
  from Nil(1) [of "[]" "[]"] show ?case by (simp add: b64_digits_def)
next
  case (Cons c s)
  show ?case
  proof (cases "strchr Base64 c")
    case None
    then show ?thesis using Cons(2) [of "[]" "c # s"] by (simp add: b64_digits_def)
  next
    case (Some d)
    with strchr_Base64 Cons(3) have d: "d < 64" "c = Base64 ! d" by auto
    obtain ds s' where "s = b64_digits ds @ s'" "\<forall>d \<in> set ds. d < 64" "s' = [] \<or> strchr Base64 (hd s') = None"
      using Cons(1,3) by auto
    then show ?thesis using Cons(2) [of "d # ds" s'] d by (simp add: b64_digits_def)
  qed
qed

lemma pton_accepts:
  assumes t: "length t = unat ts" "length t < 2 ^ 31" and room: "target_room bs \<le> length t"
  shows "\<exists>t'. f_b64_pton (b64_encode bs @ 0 # rest) (Some t) ts = Some (Some t', int (length bs)) \<and> take (length bs) t' = bs \<and> length t' = length t"
proof -
  obtain ds s where ds: "\<forall>d \<in> set ds. d < 64" "closing ds s" "b64_encode bs = b64_digits ds @ s" "decoded ds = bs"
    using encode_closing by blast
  have len: "needed ds \<le> length t" using closing_room [OF ds(2)] room unfolding ds(4) by simp
  define t' where "t' = bs @ spare ds @ drop (needed ds) t"
  have "f_b64_pton (b64_encode bs @ 0 # rest) (Some t) ts = Some (Some t', int (length bs))"
    using pton_ends [OF t ds(1) _ _ len, of s rest] closing_chars [OF ds(2)] ds(2)
    unfolding ds(3,4) t'_def by simp
  moreover have "length t' = length t" using length_stored [of ds] len unfolding ds(4) by (simp add: t'_def)
  ultimately show ?thesis by (auto simp: t'_def)
qed

lemma pton_rejects:
  assumes t: "length t = unat ts" "length t < 2 ^ 31" and s: "\<forall>c \<in> set s. c \<noteq> 0 \<and> isspace c = Some False"
    and no: "\<And>bs. s = b64_encode bs \<Longrightarrow> length t < target_room bs"
  shows "\<exists>t'. f_b64_pton (s @ 0 # rest) (Some t) ts = Some (Some t', - 1) \<and> length t' = length t"
proof -
  have "\<forall>c \<in> set s. c \<noteq> 0" using s by simp
  then obtain ds s' where ds: "s = b64_digits ds @ s'" "\<forall>d \<in> set ds. d < 64" "s' = [] \<or> strchr Base64 (hd s') = None"
    by (rule split_digits)
  show ?thesis
  proof (cases "needed ds \<le> length t")
    case True
    have "\<not> closing ds s'"
    proof
      assume c: "closing ds s'"
      from no [OF closing_encode [OF ds(2) c, folded ds(1)]] closing_room [OF c] True show False by simp
    qed
    moreover have "\<forall>c \<in> set s'. c \<noteq> 0 \<and> isspace c = Some False" using s ds(1) by simp
    ultimately show ?thesis
      using pton_ends [OF t ds(2) _ ds(3) True, of rest] length_stored [of ds] True by (simp add: ds(1))
  next
    case False
    then show ?thesis
      using pton_digits [of 0 "[]" t ts ds "s' @ 0 # rest"] t ds(1,2) by (auto simp: f_b64_pton_def)
  qed
qed

section \<open>Properties\<close>

text \<open>The caller's buffer is too small for data of 1, 2, 4, 5, 7, 10 or 13 bytes.\<close>

lemma buffer_room: "4 * ((n + 2) div 3) < (3 * n + 2) div 2 \<longleftrightarrow> n \<notin> {1, 2, 4, 5, 7, 10, 13 :: nat}"
proof (cases "n < 14")
  case True
  then have "n \<in> set [0..<14]" by simp
  then show ?thesis by (auto simp: upt_rec)
next
  case False
  moreover have "3 * ((n + 2) div 3) \<le> n + 2" by simp
  moreover have "3 * n + 1 \<le> 2 * ((3 * n + 2) div 2)" by linarith
  ultimately have "4 * ((n + 2) div 3) < (3 * n + 2) div 2" by linarith
  with False show ?thesis by auto
qed

lemma buffer_size:
  assumes "n < 2 ^ 29"
  shows "unat ((of_nat n * 3 + 2) div 2 :: u64) = (3 * n + 2) div 2"
proof -
  have eq: "of_nat n * 3 + 2 = (of_nat (3 * n + 2) :: u64)" by simp
  have "unat (of_nat (3 * n + 2) :: u64) = 3 * n + 2" using assms by (intro unat_of_nat_small) simp
  then show ?thesis unfolding eq unat_div by simp
qed

text \<open>C36: The base64 string of data is its encoding, except for data of 1, 2, 4, 5, 7, 10 or 13
  bytes: for these the buffer is too small and the result is nil.\<close>

theorem base64_string_of_data:
  assumes "length data < 2 ^ 29"
    and "malloc ((of_nat (length data) * 3 + 2) div 2) = Some buffer" and "length buffer = (3 * length data + 2) div 2"
  shows "base64EncodedStringFromData malloc data =
    Some (if length data \<in> {1, 2, 4, 5, 7, 10, 13} then None else Some (b64_encode data))"
proof -
  define size where "size = ((of_nat (length data) * 3 + 2) div 2 :: u64)"
  have size: "unat size = (3 * length data + 2) div 2" using buffer_size [OF assms(1)] by (simp add: size_def)
  have "length buffer = unat size" "unat size < 2 ^ 63" using assms size by simp_all
  note enc = ntop_gives [OF assms(1) this]
  have "length (b64_encode data) < length buffer \<longleftrightarrow> length data \<notin> {1, 2, 4, 5, 7, 10, 13}"
    using buffer_room [of "length data"] assms(3) by (simp add: length_b64_encode)
  then show ?thesis
    using enc assms(2) by (auto simp: base64EncodedStringFromData_def simp flip: size_def split: if_splits)
qed

theorem base64_string_of_data_witness:
  "base64EncodedStringFromData (\<lambda>n. Some (replicate (unat n) 0)) [77, 97, 110] = Some (Some (b64_encode [77, 97, 110])) \<and>
   base64EncodedStringFromData (\<lambda>n. Some (replicate (unat n) 0)) [77, 97] = Some None"
  using base64_string_of_data [of "[77, 97, 110]" "\<lambda>n. Some (replicate (unat n) 0)" "replicate 5 0"]
    base64_string_of_data [of "[77, 97]" "\<lambda>n. Some (replicate (unat n) 0)" "replicate 4 0"]
  by simp

text \<open>C35: A text without bytes from 0x80 to 0xFE is decoded if and only if, with its white space
  taken out, it is the base64 encoding of bytes for which the target has room (one byte to spare
  unless their number is a multiple of three): then the target holds those bytes and their
  number is returned, and in every other case -1; bits to spare in the last digit, wrong padding
  and characters outside the alphabet are all refused.\<close>

theorem base64_decoder_exact:
  assumes "length t = unat ts" and "length t < 2 ^ 31" and "0 \<notin> set s" and "\<forall>c \<in> set s. isspace c \<noteq> None"
  shows "\<exists>t'. length t' = length t \<and>
    ((\<exists>bs. strip s = b64_encode bs \<and> target_room bs \<le> length t \<and> take (length bs) t' = bs \<and>
        f_b64_pton (s @ 0 # rest) (Some t) ts = Some (Some t', int (length bs))) \<or>
     (\<nexists>bs. strip s = b64_encode bs \<and> target_room bs \<le> length t) \<and>
        f_b64_pton (s @ 0 # rest) (Some t) ts = Some (Some t', - 1))"
proof -
  have s: "\<forall>c \<in> set (strip s). c \<noteq> 0 \<and> isspace c = Some False"
    using assms(3,4) by (auto simp: strip_def)
  have strip: "f_b64_pton (s @ 0 # rest) (Some t) ts = f_b64_pton (strip s @ 0 # strip rest) (Some t) ts"
    using pton_strip [of "s @ 0 # rest" "Some t" ts] by simp
  show ?thesis
  proof (cases "\<exists>bs. strip s = b64_encode bs \<and> target_room bs \<le> length t")
    case True
    then obtain bs where bs: "strip s = b64_encode bs" "target_room bs \<le> length t" by blast
    from pton_accepts [OF assms(1,2) bs(2), of "strip rest"] show ?thesis
      unfolding strip bs(1) using bs(2) by blast
  next
    case False
    then have "length t < target_room bs" if "strip s = b64_encode bs" for bs using that by (meson not_le)
    from pton_rejects [OF assms(1,2) s this, of "strip rest"] False show ?thesis
      unfolding strip by blast
  qed
qed

text \<open>A text with white space in it is accepted; one whose last digit has bits to spare is not.\<close>

lemma witness_chars:
  "b64_encode [77, 97] = [84, 87, 69, 61]" "strip [84, 87, 10, 69, 61] = [84, 87, 69, 61]"
  "\<forall>c \<in> set [84, 87, 10, 69, 61]. isspace c \<noteq> None"
  by (simp_all add: b64_digits_def sextets_def Base64_codes codes_def upt_rec Pad64_def isspace_def del: not_None_eq)

theorem base64_decoder_exact_witness:
  "\<exists>t'. f_b64_pton [84, 87, 10, 69, 61, 0] (Some [0, 0, 0]) 3 = Some (Some t', 2) \<and> take 2 t' = [77, 97]"
proof -
  have enc: "strip [84, 87, 10, 69, 61] = b64_encode [77, 97]" unfolding witness_chars ..
  have only: "strip [84, 87, 10, 69, 61] = b64_encode bs \<longleftrightarrow> bs = [77, 97]" for bs
    using b64_encode_inj [of "[77, 97]" bs] unfolding enc by auto
  have "target_room [77, 97] \<le> length [0, 0, 0 :: u8]" by (simp add: target_room_def)
  moreover have "0 \<notin> set [84, 87, 10, 69, 61 :: u8]" by simp
  note base64_decoder_exact [of "[0, 0, 0]" 3, OF _ _ this witness_chars(3), of "[]"]
  ultimately show ?thesis
    by (simp only: append_Cons append_Nil only) (auto simp flip: numeral_2_eq_2)
qed

theorem base64_roundtrip:
  assumes "length bs < 2 ^ 29"
    and "length u = unat us" and "unat us < 2 ^ 63" and "length (b64_encode bs) < length u"
    and "length t = unat ts" and "length t < 2 ^ 31" and "target_room bs \<le> length t"
  shows "do { (chars, n) \<leftarrow> f_b64_ntop bs (of_nat (length bs)) u us;
              (bytes, k) \<leftarrow> f_b64_pton chars (Some t) ts;
              Some (n, k, map_option (take (nat k)) bytes) } =
         Some (int (4 * ((length bs + 2) div 3)), int (length bs), Some bs)"
  using ntop_gives [OF assms(1-3)] assms(4) pton_accepts [OF assms(5-7), of "drop (length (b64_encode bs) + 1) u"]
  by (auto simp: length_b64_encode)

theorem base64_roundtrip_witness:
  "do { (chars, n) \<leftarrow> f_b64_ntop [77, 97] 2 (replicate 5 0) 5;
        (bytes, k) \<leftarrow> f_b64_pton chars (Some [0, 0, 0]) 3;
        Some (n, k, map_option (take (nat k)) bytes) } = Some (4, 2, Some [77, 97])"
  using base64_roundtrip [of "[77, 97]" "replicate 5 0" 5 "[0, 0, 0]" 3] by (simp add: length_b64_encode target_room_def del: b64_encode.simps)

text \<open>Without a target the bits to spare are not looked at: the length of \<open>TWF=\<close> is given as 2, and
  with a target the same text is refused.\<close>

lemma spare_bits_need_target:
  "f_b64_pton [84, 87, 70, 61, 0] None 0 = Some (None, 2)"
  "map_option snd (f_b64_pton [84, 87, 70, 61, 0] (Some [0, 0, 0]) 3) = Some (- 1)"
  by (simp_all add: f_b64_pton_def isspace_def Pad64_def Base64_codes codes_def upt_rec pton_digit_def put_def fetch_def
      pton_pad_def nth_Cons')

end
