(* ===== verification/Files.thy ===== *)
theory Files
  imports File
begin

text \<open>
  Opening and closing files: the first part of \<open>Helpers/FIRCLSFile.m\<close>, \<open>FIRCLSUnlinkIfExists\<close> of
  \<open>Helpers/FIRCLSUtility.m\<close> and the marker file of \<open>Components/FIRCLSCrashedMarkerFile.c\<close>.

  The state is the contents of the files by path, and the path of every open descriptor. The answers of
  the system are the record \<open>operating_system\<close>, a parameter. A \<open>FIRCLSFile*\<close> in the hands of its opener
  is a descriptor with the structure; while a file is open its contents are those of the structure, and
  they are the contents of the path again when it is closed.
\<close>

section \<open>The system\<close>

record file_system =
  files :: "string \<Rightarrow> string option"
  descriptors :: "int \<Rightarrow> string option"

text \<open>\<open>sys_open\<close> gives a descriptor or a negative number, \<open>sys_write\<close> is \<open>write\<close> on a file that holds the
  second argument, \<open>sys_close\<close> and \<open>sys_unlink\<close> say whether the call succeeds on what is there, and
  \<open>sys_statfs\<close> gives \<open>f_bavail\<close>, \<open>f_bsize\<close> and \<open>f_blocks\<close>.\<close>

record operating_system =
  sys_open :: "file_system \<Rightarrow> string \<Rightarrow> int"
  sys_write :: "string \<Rightarrow> string \<Rightarrow> string \<Rightarrow> int \<times> string"
  sys_close :: "int \<Rightarrow> bool"
  sys_unlink :: "string \<Rightarrow> bool"
  sys_malloc :: bool
  sys_statfs :: "string \<Rightarrow> (u64 \<times> u32 \<times> u64) option"
  sys_time :: u64
  open_max :: nat

definition FIRCLSUnlinkIfExists :: "operating_system \<Rightarrow> string \<Rightarrow> file_system \<Rightarrow> bool \<times> file_system" where
  "FIRCLSUnlinkIfExists OS path fs =
     (if files fs path = None then (True, fs)
      else if sys_unlink OS path then (True, fs\<lparr>files := (files fs)(path := None)\<rparr>)
      else (False, fs))"

section \<open>Opening\<close>

record open_file =
  descriptor :: int
  handle :: FIRCLSFile

text \<open>\<open>fstat\<close> is the length of what the file holds.\<close>

definition FIRCLSFileInit ::
    "operating_system \<Rightarrow> file_system \<Rightarrow> int \<Rightarrow> bool \<Rightarrow> bool \<Rightarrow> open_file option" where
  "FIRCLSFileInit OS fs fd appendMode buffered =
     (if fd < 0 then None
      else if buffered \<and> \<not> sys_malloc OS then None
      else case descriptors fs fd of
          None \<Rightarrow> None
        | Some path \<Rightarrow>
            let c = (case files fs path of Some c \<Rightarrow> c | None \<Rightarrow> []) in
            Some \<lparr>descriptor = fd, handle =
              \<lparr>fd_write = sys_write OS path, contents = c, collectionDepth = 0, needComma = False,
               bufferWrites = buffered, writeBuffer = [],
               writtenLength = (if appendMode then length c else 0)\<rparr>\<rparr>)"

definition FIRCLSFileInitWithPathMode ::
    "operating_system \<Rightarrow> string option \<Rightarrow> bool \<Rightarrow> bool \<Rightarrow> file_system \<Rightarrow> open_file option \<times> file_system" where
  "FIRCLSFileInitWithPathMode OS path appendMode buffered fs =
     (case path of
        None \<Rightarrow> (FIRCLSFileInit OS fs (- 1) appendMode buffered, fs)
      | Some p \<Rightarrow>
          let fd = sys_open OS fs p;
              fs = (if fd < 0 then fs
                    else \<lparr>files = (files fs)(p \<mapsto> (if appendMode then (case files fs p of Some c \<Rightarrow> c | None \<Rightarrow> []) else [])),
                          descriptors = (descriptors fs)(fd \<mapsto> p)\<rparr>)
          in (FIRCLSFileInit OS fs fd appendMode buffered, fs))"

definition FIRCLSFileInitWithPath ::
    "operating_system \<Rightarrow> string option \<Rightarrow> bool \<Rightarrow> file_system \<Rightarrow> open_file option \<times> file_system" where
  "FIRCLSFileInitWithPath OS path buffered fs = FIRCLSFileInitWithPathMode OS path True buffered fs"

section \<open>Closing\<close>

text \<open>The result, the final size, and the files.\<close>

definition FIRCLSFileCloseWithOffset ::
    "operating_system \<Rightarrow> open_file \<Rightarrow> file_system \<Rightarrow> bool \<times> nat \<times> file_system" where
  "FIRCLSFileCloseWithOffset OS file fs =
     (let f = handle file;
          f = (if bufferWrites f \<and> length (writeBuffer f) > 0 then FIRCLSFileFlushWriteBuffer f else f);
          fs = (case descriptors fs (descriptor file) of
                  Some path \<Rightarrow> fs\<lparr>files := (files fs)(path \<mapsto> contents f)\<rparr>
                | None \<Rightarrow> fs)
      in if \<not> sys_close OS (descriptor file) then (False, writtenLength f, fs)
         else (True, writtenLength f, fs\<lparr>descriptors := (descriptors fs)(descriptor file := None)\<rparr>))"

definition FIRCLSFileClose :: "operating_system \<Rightarrow> open_file \<Rightarrow> file_system \<Rightarrow> bool \<times> file_system" where
  "FIRCLSFileClose OS file fs = (let (ok, size, fs) = FIRCLSFileCloseWithOffset OS file fs in (ok, fs))"

definition FIRCLSFileIsOpen :: "open_file \<Rightarrow> bool" where
  "FIRCLSFileIsOpen file \<longleftrightarrow> descriptor file > - 1"

definition FIRCLSCreateCrashedMarkerFile :: "operating_system \<Rightarrow> string option \<Rightarrow> file_system \<Rightarrow> file_system" where
  "FIRCLSCreateCrashedMarkerFile OS path fs =
     (let (file, fs) = FIRCLSFileInitWithPath OS path False fs in
      case file of None \<Rightarrow> fs | Some file \<Rightarrow> snd (FIRCLSFileClose OS file fs))"

section \<open>Lemmas\<close>

text \<open>A system on which the file can be opened, while there are descriptors left, and written.\<close>

definition usable :: "operating_system \<Rightarrow> string \<Rightarrow> bool" where
  "usable OS path \<longleftrightarrow>
     (\<forall>fs. finite (dom (descriptors fs)) \<and> card (dom (descriptors fs)) < open_max OS \<longrightarrow>
        0 \<le> sys_open OS fs path \<and> descriptors fs (sys_open OS fs path) = None) \<and>
     (\<forall>c s. sys_write OS path c s = (int (length s), c @ s)) \<and> (\<forall>fd. sys_close OS fd) \<and> sys_malloc OS"

definition descriptors_left :: "operating_system \<Rightarrow> nat \<Rightarrow> file_system \<Rightarrow> bool" where
  "descriptors_left OS n fs \<longleftrightarrow> finite (dom (descriptors fs)) \<and> card (dom (descriptors fs)) + n \<le> open_max OS"

lemma usable_opens:
  assumes "usable OS path" and "descriptors_left OS (Suc n) fs"
  shows "0 \<le> sys_open OS fs path" "descriptors fs (sys_open OS fs path) = None"
    "descriptors_left OS n \<lparr>files = f, descriptors = (descriptors fs)(sys_open OS fs path \<mapsto> path)\<rparr>"
proof -
  show *: "0 \<le> sys_open OS fs path" "descriptors fs (sys_open OS fs path) = None"
    using assms by (simp_all add: usable_def descriptors_left_def)
  then have "card (insert (sys_open OS fs path) (dom (descriptors fs))) = Suc (card (dom (descriptors fs)))"
    using assms(2) by (intro card_insert_disjoint) (auto simp: descriptors_left_def)
  then show "descriptors_left OS n \<lparr>files = f, descriptors = (descriptors fs)(sys_open OS fs path \<mapsto> path)\<rparr>"
    using assms(2) by (simp add: descriptors_left_def)
qed

definition contents_of :: "file_system \<Rightarrow> string \<Rightarrow> string" where
  "contents_of fs path = (case files fs path of Some c \<Rightarrow> c | None \<Rightarrow> [])"

lemma open_gives:
  assumes "usable OS path" and "descriptors_left OS (Suc n) fs"
  obtains f fs' where
    "FIRCLSFileInitWithPathMode OS (Some path) app buffered fs = (Some \<lparr>descriptor = sys_open OS fs path, handle = f\<rparr>, fs')"
    "reliable f" "report f = (if app then contents_of fs path else [])" "collectionDepth f = 0" "\<not> needComma f"
    "fs' = \<lparr>files = (files fs)(path \<mapsto> report f), descriptors = (descriptors fs)(sys_open OS fs path \<mapsto> path)\<rparr>"
proof -
  define c where "c = (if app then contents_of fs path else [])"
  define f where "f = \<lparr>fd_write = sys_write OS path, contents = c, collectionDepth = 0, needComma = False,
               bufferWrites = buffered, writeBuffer = [], writtenLength = (if app then length c else 0)\<rparr>"
  have "reliable f" "report f = c"
    using assms by (simp_all add: f_def usable_def reliable_def report_def FIRCLSWriteBufferLength_def)
  moreover have "\<not> sys_open OS fs path < 0" "sys_malloc OS"
    using usable_opens(1) [OF assms] assms(1) by (auto simp: usable_def not_less)
  moreover have "FIRCLSFileInitWithPathMode OS (Some path) app buffered fs = (Some \<lparr>descriptor = sys_open OS fs path, handle = f\<rparr>,
      \<lparr>files = (files fs)(path \<mapsto> c), descriptors = (descriptors fs)(sys_open OS fs path \<mapsto> path)\<rparr>)"
    using calculation(3,4)
    by (simp add: FIRCLSFileInitWithPathMode_def FIRCLSFileInit_def f_def c_def contents_of_def Let_def)
  ultimately show ?thesis using that by (simp add: f_def c_def)
qed

lemma flush_reliable:
  assumes "reliable f"
  shows "contents (if bufferWrites f \<and> length (writeBuffer f) > 0 then FIRCLSFileFlushWriteBuffer f else f) = report f"
proof -
  have "\<forall>c s. fd_write f c s = (int (length s), c @ s)" using assms by (simp add: reliable_def)
  then obtain n where "FIRCLSFileWriteToFileDescriptor f (writeBuffer f) =
      f\<lparr>contents := contents f @ writeBuffer f, writtenLength := n\<rparr>"
    using write_fd_reliable by blast
  with assms show ?thesis
    by (auto simp: FIRCLSFileFlushWriteBuffer_def report_def reliable_def)
qed

lemma close_gives:
  assumes "sys_close OS fd" and "reliable f" and "descriptors fs fd = Some path"
  shows "FIRCLSFileClose OS \<lparr>descriptor = fd, handle = f\<rparr> fs =
    (True, \<lparr>files = (files fs)(path \<mapsto> report f), descriptors = (descriptors fs)(fd := None)\<rparr>)"
  using assms flush_reliable [OF assms(2)]
  by (simp add: FIRCLSFileClose_def FIRCLSFileCloseWithOffset_def Let_def)

lemma marker_gives:
  assumes "usable OS path" and "descriptors_left OS (Suc n) fs"
  shows "FIRCLSCreateCrashedMarkerFile OS (Some path) fs =
    fs\<lparr>files := (files fs)(path \<mapsto> contents_of fs path)\<rparr>"
proof -
  obtain f fs' where f:
    "FIRCLSFileInitWithPathMode OS (Some path) True False fs = (Some \<lparr>descriptor = sys_open OS fs path, handle = f\<rparr>, fs')"
    "reliable f" "report f = (if True then contents_of fs path else [])"
    "fs' = \<lparr>files = (files fs)(path \<mapsto> report f), descriptors = (descriptors fs)(sys_open OS fs path \<mapsto> path)\<rparr>"
    using open_gives [OF assms, of True False] by metis
  have "sys_close OS (sys_open OS fs path)" "descriptors fs (sys_open OS fs path) = None"
    using usable_opens [OF assms] assms(1) by (simp_all add: usable_def)
  then show ?thesis
    using f close_gives [of OS "sys_open OS fs path" f fs' path]
    by (simp add: FIRCLSCreateCrashedMarkerFile_def FIRCLSFileInitWithPath_def fun_upd_idem)
qed

text \<open>What is written between opening and closing is what the file holds afterwards, behind the old contents
  when it was opened to append.\<close>

lemma file_session:
  assumes "usable OS path" and "descriptors_left OS (Suc n) fs"
    and "\<And>f. reliable f \<Longrightarrow> collectionDepth f = 0 \<Longrightarrow> \<not> needComma f \<Longrightarrow> appends f (w f) s c d"
  shows "(let (file, fs') = FIRCLSFileInitWithPathMode OS (Some path) app buffered fs;
              file = the file
          in FIRCLSFileClose OS (file\<lparr>handle := w (handle file)\<rparr>) fs') =
    (True, fs\<lparr>files := (files fs)(path \<mapsto> (if app then contents_of fs path else []) @ s)\<rparr>)"
proof -
  obtain f fs' where f:
    "FIRCLSFileInitWithPathMode OS (Some path) app buffered fs = (Some \<lparr>descriptor = sys_open OS fs path, handle = f\<rparr>, fs')"
    "reliable f" "report f = (if app then contents_of fs path else [])" "collectionDepth f = 0" "\<not> needComma f"
    "fs' = \<lparr>files = (files fs)(path \<mapsto> report f), descriptors = (descriptors fs)(sys_open OS fs path \<mapsto> path)\<rparr>"
    using open_gives [OF assms(1,2), of app buffered] by metis
  have "appends f (w f) s c d" using assms(3) f(2,4,5) by blast
  then have w: "reliable (w f)" "report (w f) = report f @ s" by (simp_all add: appends_def)
  have "sys_close OS (sys_open OS fs path)" "descriptors fs (sys_open OS fs path) = None"
    using usable_opens [OF assms(1,2)] assms(1) by (simp_all add: usable_def)
  then show ?thesis
    using f(1,3,6) w close_gives [of OS "sys_open OS fs path" "w f" fs' path]
    by (simp add: fun_upd_idem)
qed

end
