(* ===== verification/SignalHandlers.thy ===== *)
theory SignalHandlers
  imports Files
begin

text \<open>
  Signal handlers: \<open>Handlers/FIRCLSSignal.h\<close> and \<open>Handlers/FIRCLSSignal.c\<close>, except for the recording of a
  signal, which is in the theory of the handlers.

  The state is what the kernel keeps for the process and the current thread: the action of every signal,
  the alternate stack, whether the thread is running on it, and the blocked signals. The numbers are those
  of Darwin. \<open>sigaltstack\<close> refuses to change the stack the thread is running on (\<open>EPERM\<close>), as documented.
\<close>

section \<open>The kernel\<close>

record sigaction =
  sa_sigaction :: addr
  sa_mask :: u32
  sa_flags :: u32

record stack_t =
  ss_sp :: addr
  ss_size :: u64
  ss_flags :: u32

record signal_state =
  actions :: "int \<Rightarrow> sigaction"
  altstack :: stack_t
  on_altstack :: bool
  sigmask :: u32

text \<open>What the kernel refuses: \<open>sigaction\<close> for a signal, a stack, and \<open>sigprocmask\<close>.\<close>

record signal_kernel =
  accepts_signal :: "int \<Rightarrow> bool"
  accepts_stack :: "stack_t \<Rightarrow> bool"
  accepts_mask :: bool

definition SIG_DFL :: addr where "SIG_DFL = 0"
definition SA_ONSTACK :: u32 where "SA_ONSTACK = 0x0001"
definition SA_SIGINFO :: u32 where "SA_SIGINFO = 0x0040"

definition SIGILL :: int where "SIGILL = 4"
definition SIGTRAP :: int where "SIGTRAP = 5"
definition SIGABRT :: int where "SIGABRT = 6"
definition SIGFPE :: int where "SIGFPE = 8"
definition SIGBUS :: int where "SIGBUS = 10"
definition SIGSEGV :: int where "SIGSEGV = 11"
definition SIGSYS :: int where "SIGSYS = 12"

lemmas signal_numbers = SIGILL_def SIGTRAP_def SIGABRT_def SIGFPE_def SIGBUS_def SIGSEGV_def SIGSYS_def

text \<open>\<open>sigaction\<close>: success, the previous action, and the state with the new one, if there is one.\<close>

definition sys_sigaction ::
    "signal_kernel \<Rightarrow> int \<Rightarrow> sigaction option \<Rightarrow> signal_state \<Rightarrow> (sigaction option) \<times> signal_state" where
  "sys_sigaction K sig act st =
     (if \<not> accepts_signal K sig then (None, st)
      else (Some (actions st sig),
            case act of None \<Rightarrow> st | Some a \<Rightarrow> st\<lparr>actions := (actions st)(sig := a)\<rparr>))"

definition sys_sigaltstack :: "signal_kernel \<Rightarrow> stack_t \<Rightarrow> signal_state \<Rightarrow> stack_t option \<times> signal_state" where
  "sys_sigaltstack K s st =
     (if on_altstack st \<or> \<not> accepts_stack K s then (None, st)
      else (Some (altstack st), st\<lparr>altstack := s\<rparr>))"

definition sys_unblock_all :: "signal_kernel \<Rightarrow> signal_state \<Rightarrow> bool \<times> signal_state" where
  "sys_unblock_all K st = (if accepts_mask K then (True, st\<lparr>sigmask := 0\<rparr>) else (False, st))"

section \<open>The context\<close>

record FIRCLSSignalReadContext =
  signal_path :: "string option"
  originalActions :: "sigaction list"
  originalStack :: stack_t

definition FIRCLSSignalCount :: nat where "FIRCLSSignalCount = 7"

definition CLS_SIGNAL_HANDLER_STACK_SIZE :: u64 where
  "CLS_SIGNAL_HANDLER_STACK_SIZE = 131072 * 2"

definition FIRCLSFatalSignals :: "int list" where
  "FIRCLSFatalSignals = [SIGABRT, SIGBUS, SIGFPE, SIGILL, SIGSEGV, SIGSYS, SIGTRAP]"

text \<open>The block is called with each index and signal; what it works on is threaded through.\<close>

definition FIRCLSSignalEnumerateHandledSignals :: "(nat \<Rightarrow> int \<Rightarrow> 's \<Rightarrow> 's) \<Rightarrow> 's \<Rightarrow> 's" where
  "FIRCLSSignalEnumerateHandledSignals block s =
     fold (\<lambda>i. block i (FIRCLSFatalSignals ! i)) [0..<FIRCLSSignalCount] s"

section \<open>Installing\<close>

definition FIRCLSSignalInstallAltStack ::
    "signal_kernel \<Rightarrow> addr \<Rightarrow> FIRCLSSignalReadContext \<times> signal_state \<Rightarrow> FIRCLSSignalReadContext \<times> signal_state" where
  "FIRCLSSignalInstallAltStack K signalStack s =
     (let (roContext, st) = s;
          (original, st) = sys_sigaltstack K
             \<lparr>ss_sp = signalStack, ss_size = CLS_SIGNAL_HANDLER_STACK_SIZE, ss_flags = 0\<rparr> st
      in case original of
          None \<Rightarrow> (roContext, st)
        | Some previous \<Rightarrow> (roContext\<lparr>originalStack := previous\<rparr>, st))"

text \<open>\<open>handler\<close> is the address of \<open>FIRCLSSignalHandler\<close>.\<close>

definition install_handler ::
    "signal_kernel \<Rightarrow> addr \<Rightarrow> nat \<Rightarrow> int \<Rightarrow> FIRCLSSignalReadContext \<times> signal_state \<Rightarrow>
       FIRCLSSignalReadContext \<times> signal_state" where
  "install_handler K handler idx sig s =
     (let (roContext, st) = s;
          action = \<lparr>sa_sigaction = handler, sa_mask = 0, sa_flags = SA_SIGINFO OR SA_ONSTACK\<rparr>;
          (previous, st) = sys_sigaction K sig (Some action) st;
          saved = (originalActions roContext)[idx := (originalActions roContext ! idx)\<lparr>sa_sigaction := 0\<rparr>];
          saved = (case previous of
                     Some previousAction \<Rightarrow> if sa_sigaction previousAction \<noteq> 0 then saved[idx := previousAction] else saved
                   | None \<Rightarrow> saved)
      in (roContext\<lparr>originalActions := saved\<rparr>, st))"

definition FIRCLSSignalInstallHandlers ::
    "signal_kernel \<Rightarrow> addr \<Rightarrow> FIRCLSSignalReadContext \<times> signal_state \<Rightarrow> FIRCLSSignalReadContext \<times> signal_state" where
  "FIRCLSSignalInstallHandlers K handler s = FIRCLSSignalEnumerateHandledSignals (install_handler K handler) s"

text \<open>In the simulator a flag of LLVM is set besides, which belongs to another library.\<close>

definition FIRCLSSignalInitialize ::
    "operating_system \<Rightarrow> signal_kernel \<Rightarrow> addr \<Rightarrow> addr \<Rightarrow> FIRCLSSignalReadContext \<Rightarrow> signal_state \<Rightarrow> file_system \<Rightarrow>
       FIRCLSSignalReadContext \<times> signal_state \<times> file_system" where
  "FIRCLSSignalInitialize OS K handler signalStack roContext st fs =
     (let fs = (case signal_path roContext of Some path \<Rightarrow> snd (FIRCLSUnlinkIfExists OS path fs) | None \<Rightarrow> fs);
          s = FIRCLSSignalInstallAltStack K signalStack (roContext, st);
          (roContext, st) = FIRCLSSignalInstallHandlers K handler s
      in (roContext, st, fs))"

section \<open>Removing and restoring\<close>

text \<open>\<open>sa.sa_flags\<close> is not initialised: \<open>junk\<close> is what the stack holds there.\<close>

fun remove_loop :: "signal_kernel \<Rightarrow> u32 \<Rightarrow> bool \<Rightarrow> int list \<Rightarrow> signal_state \<Rightarrow> signal_state" where
  "remove_loop K junk includingAbort [] st = st"
| "remove_loop K junk includingAbort (sig # sigs) st =
     (if \<not> includingAbort \<and> sig = SIGABRT then remove_loop K junk includingAbort sigs st
      else remove_loop K junk includingAbort sigs
             (snd (sys_sigaction K sig (Some \<lparr>sa_sigaction = SIG_DFL, sa_mask = 0, sa_flags = junk\<rparr>) st)))"

definition FIRCLSSignalSafeRemoveHandlers :: "signal_kernel \<Rightarrow> u32 \<Rightarrow> bool \<Rightarrow> signal_state \<Rightarrow> signal_state" where
  "FIRCLSSignalSafeRemoveHandlers K junk includingAbort st = remove_loop K junk includingAbort FIRCLSFatalSignals st"

fun restore_handlers_loop :: "signal_kernel \<Rightarrow> (int \<times> sigaction) list \<Rightarrow> bool \<Rightarrow> signal_state \<Rightarrow> bool \<times> signal_state" where
  "restore_handlers_loop K [] success st = (success, st)"
| "restore_handlers_loop K ((sig, original) # rest) success st =
     (if sa_sigaction original = 0 then restore_handlers_loop K rest success st
      else let (previous, st) = sys_sigaction K sig (Some original) st
           in restore_handlers_loop K rest (if previous = None then False else success) st)"

definition FIRCLSSignalSafeInstallPreexistingHandlers ::
    "signal_kernel \<Rightarrow> u32 \<Rightarrow> FIRCLSSignalReadContext \<Rightarrow> signal_state \<Rightarrow> bool \<times> signal_state" where
  "FIRCLSSignalSafeInstallPreexistingHandlers K junk roContext st =
     (let st = FIRCLSSignalSafeRemoveHandlers K junk True st;
          (ok, st) = (if ss_sp (originalStack roContext) \<noteq> 0
                      then let (previous, st) = sys_sigaltstack K (originalStack roContext) st in (previous \<noteq> None, st)
                      else (True, st))
      in if \<not> ok then (False, st)
         else restore_handlers_loop K (zip FIRCLSFatalSignals (originalActions roContext)) True st)"

section \<open>Names, and checking\<close>

text \<open>The strings behind the two pointers, \<open>None\<close> when one of them is null.\<close>

definition FIRCLSSignalNameLookup ::
    "int \<Rightarrow> int \<Rightarrow> (string option \<times> string option) option \<Rightarrow> (string option \<times> string option) option" where
  "FIRCLSSignalNameLookup number code pointers =
     (case pointers of
        None \<Rightarrow> None
      | Some (name, codeName) \<Rightarrow> Some (
          if number = SIGABRT then (Some ''SIGABRT'', Some ''ABORT'')
          else if number = SIGBUS then (Some ''SIGBUS'', None)
          else if number = SIGFPE then (Some ''SIGFPE'', None)
          else if number = SIGILL then (Some ''SIGILL'', None)
          else if number = SIGSEGV then (Some ''SIGSEGV'', None)
          else if number = SIGSYS then (Some ''SIGSYS'', None)
          else if number = SIGTRAP then (Some ''SIGTRAP'', None)
          else (Some ''UNKNOWN'', None)))"

text \<open>The warnings that go to \<open>stderr\<close>: a signal that cannot be read, or the name of the signal and of its
  foreign handler. \<open>dladdr\<close> is a parameter.\<close>

datatype handler_warning = Unreadable | Foreign "string option" "string option"

definition FIRCLSSignalCheckHandlers ::
    "signal_kernel \<Rightarrow> (addr \<Rightarrow> string option) \<Rightarrow> addr \<Rightarrow> bool \<Rightarrow> signal_state \<Rightarrow> handler_warning list" where
  "FIRCLSSignalCheckHandlers K dladdr handler debuggerAttached st =
     (if debuggerAttached then []
      else FIRCLSSignalEnumerateHandledSignals (\<lambda>idx sig warnings.
        case fst (sys_sigaction K sig None st) of
          None \<Rightarrow> warnings @ [Unreadable]
        | Some previous \<Rightarrow>
            (case FIRCLSSignalNameLookup sig 0 (Some (None, None)) of
               Some (signalName, codeName) \<Rightarrow>
                 if sa_sigaction previous = handler then warnings
                 else warnings @ [Foreign signalName (dladdr (sa_sigaction previous))]
             | None \<Rightarrow> warnings)) [])"

section \<open>What the operations do\<close>

definition our_action :: "addr \<Rightarrow> sigaction" where
  "our_action handler = \<lparr>sa_sigaction = handler, sa_mask = 0, sa_flags = SA_SIGINFO OR SA_ONSTACK\<rparr>"

definition default_action :: "u32 \<Rightarrow> sigaction" where
  "default_action junk = \<lparr>sa_sigaction = SIG_DFL, sa_mask = 0, sa_flags = junk\<rparr>"

text \<open>What is kept of the previous action: all of it, when it has a handler.\<close>

definition saved_action :: "signal_kernel \<Rightarrow> signal_state \<Rightarrow> sigaction \<Rightarrow> int \<Rightarrow> sigaction" where
  "saved_action K st old sig =
     (if accepts_signal K sig \<and> sa_sigaction (actions st sig) \<noteq> 0 then actions st sig else old\<lparr>sa_sigaction := 0\<rparr>)"

lemma install_handler_gives:
  "install_handler K handler idx sig (ro, st) =
    (ro\<lparr>originalActions := (originalActions ro)[idx := saved_action K st (originalActions ro ! idx) sig]\<rparr>,
     st\<lparr>actions := (actions st)(sig := if accepts_signal K sig then our_action handler else actions st sig)\<rparr>)"
  by (simp add: install_handler_def sys_sigaction_def saved_action_def our_action_def Let_def)

lemma actions_cong: "(\<And>s. f s = g s) \<Longrightarrow> st\<lparr>actions := f\<rparr> = st\<lparr>actions := g\<rparr>"
  by presburger

lemma install_all_gives:
  assumes "n \<le> length sigs" and "distinct sigs" and "length (originalActions ro) = length sigs"
  shows "fold (\<lambda>i. install_handler K handler i (sigs ! i)) [0..<n] (ro, st) =
    (ro\<lparr>originalActions := map (\<lambda>i. if i < n then saved_action K st (originalActions ro ! i) (sigs ! i) else originalActions ro ! i)
       [0..<length sigs]\<rparr>,
     st\<lparr>actions := \<lambda>s. if s \<in> set (take n sigs) \<and> accepts_signal K s then our_action handler else actions st s\<rparr>)"
  using assms(1)
proof (induction n)
  case 0
  then show ?case using assms(3) by (simp add: map_nth [of "originalActions ro", unfolded assms(3)])
next
  case (Suc n)
  have n: "n < length sigs" using Suc.prems by simp
  have take: "take (Suc n) sigs = take n sigs @ [sigs ! n]" using n by (rule take_Suc_conv_app_nth)
  have "distinct (take (Suc n) sigs)" using assms(2) by (rule distinct_take)
  then have new: "sigs ! n \<notin> set (take n sigs)" unfolding take by simp
  have saved: "(map (\<lambda>i. if i < n then saved_action K st (originalActions ro ! i) (sigs ! i) else originalActions ro ! i) [0..<length sigs])
      [n := saved_action K st (originalActions ro ! n) (sigs ! n)] =
    map (\<lambda>i. if i < Suc n then saved_action K st (originalActions ro ! i) (sigs ! i) else originalActions ro ! i) [0..<length sigs]"
    by (rule nth_equalityI) (auto simp: nth_list_update less_Suc_eq)
  have old: "saved_action K (st\<lparr>actions := f\<rparr>) a (sigs ! n) = saved_action K st a (sigs ! n)" if "f (sigs ! n) = actions st (sigs ! n)" for f a
    using that by (simp add: saved_action_def)
  show ?case
    using Suc.IH n new by (simp add: install_handler_gives old saved take) (auto intro!: actions_cong)
qed

lemma sigaction_sets: "snd (sys_sigaction K s (Some a) st) = st\<lparr>actions := (actions st)(s := if accepts_signal K s then a else actions st s)\<rparr>"
  by (simp add: sys_sigaction_def)

lemma remove_gives:
  "remove_loop K junk abrt sigs st =
     st\<lparr>actions := \<lambda>s. if s \<in> set sigs \<and> accepts_signal K s \<and> (abrt \<or> s \<noteq> SIGABRT) then default_action junk else actions st s\<rparr>"
proof (induction sigs arbitrary: st)
  case (Cons sig sigs)
  show ?case
    unfolding remove_loop.simps sigaction_sets Cons.IH
    by (auto simp: default_action_def intro!: actions_cong)
qed simp

lemma restore_gives:
  "distinct (map fst ps) \<Longrightarrow> restore_handlers_loop K ps success st =
     (success \<and> (\<forall>(s, a) \<in> set ps. sa_sigaction a \<noteq> 0 \<longrightarrow> accepts_signal K s),
      st\<lparr>actions := \<lambda>s. case map_of ps s of
           Some a \<Rightarrow> if sa_sigaction a \<noteq> 0 \<and> accepts_signal K s then a else actions st s
         | None \<Rightarrow> actions st s\<rparr>)"
proof (induction ps arbitrary: success st)
  case (Cons p ps)
  obtain sig a where p: "p = (sig, a)" by (cases p)
  have "map_of ps sig = None" using Cons.prems by (simp add: p map_of_eq_None_iff)
  moreover have "snd (sys_sigaction K sig (Some a) st) =
      st\<lparr>actions := (actions st)(sig := if accepts_signal K sig then a else actions st sig)\<rparr>"
    by (rule sigaction_sets)
  moreover have "fst (sys_sigaction K sig (Some a) st) = None \<longleftrightarrow> \<not> accepts_signal K sig"
    by (simp add: sys_sigaction_def)
  ultimately show ?case
    using Cons.IH Cons.prems
    by (auto simp: p split_def Let_def intro!: actions_cong split: option.splits)
qed simp

lemma fatal_distinct: "distinct FIRCLSFatalSignals" "length FIRCLSFatalSignals = FIRCLSSignalCount"
  by (simp_all add: FIRCLSFatalSignals_def FIRCLSSignalCount_def signal_numbers)

lemma initialize_gives:
  assumes "length (originalActions ro) = FIRCLSSignalCount"
    and "FIRCLSSignalInitialize OS K handler stk ro st fs = (ro', st', fs')"
  shows "originalActions ro' = map (\<lambda>i. saved_action K st (originalActions ro ! i) (FIRCLSFatalSignals ! i)) [0..<FIRCLSSignalCount]"
    "actions st' = (\<lambda>s. if s \<in> set FIRCLSFatalSignals \<and> accepts_signal K s then our_action handler else actions st s)"
    "signal_path ro' = signal_path ro"
proof -
  obtain ro1 st1 where alt: "FIRCLSSignalInstallAltStack K stk (ro, st) = (ro1, st1)" by fastforce
  then have same: "originalActions ro1 = originalActions ro" "signal_path ro1 = signal_path ro" "actions st1 = actions st"
    by (auto simp: FIRCLSSignalInstallAltStack_def sys_sigaltstack_def Let_def split: if_splits)
  have len: "length (originalActions ro1) = length FIRCLSFatalSignals" using assms(1) by (simp add: same fatal_distinct)
  have take: "set (take FIRCLSSignalCount FIRCLSFatalSignals) = set FIRCLSFatalSignals" by (simp add: fatal_distinct(2) [symmetric])
  have "saved_action K st1 = saved_action K st" by (auto simp: fun_eq_iff saved_action_def same)
  with install_all_gives [OF _ fatal_distinct(1) len, of FIRCLSSignalCount K handler st1]
  have "FIRCLSSignalInstallHandlers K handler (ro1, st1) =
    (ro1\<lparr>originalActions := map (\<lambda>i. saved_action K st (originalActions ro ! i) (FIRCLSFatalSignals ! i)) [0..<FIRCLSSignalCount]\<rparr>,
     st1\<lparr>actions := \<lambda>s. if s \<in> set FIRCLSFatalSignals \<and> accepts_signal K s then our_action handler else actions st s\<rparr>)"
    unfolding FIRCLSSignalInstallHandlers_def FIRCLSSignalEnumerateHandledSignals_def fatal_distinct(2) take same
    by (simp cong: map_cong)
  then show "originalActions ro' = map (\<lambda>i. saved_action K st (originalActions ro ! i) (FIRCLSFatalSignals ! i)) [0..<FIRCLSSignalCount]"
    "actions st' = (\<lambda>s. if s \<in> set FIRCLSFatalSignals \<and> accepts_signal K s then our_action handler else actions st s)"
    "signal_path ro' = signal_path ro"
    using assms(2) alt same by (auto simp: FIRCLSSignalInitialize_def Let_def)
qed

lemma saved_lookup:
  assumes "sig \<in> set FIRCLSFatalSignals"
  shows "\<exists>old. map_of (zip FIRCLSFatalSignals (map (\<lambda>i. saved_action K st (old_actions ! i) (FIRCLSFatalSignals ! i)) [0..<FIRCLSSignalCount])) sig =
    Some (saved_action K st old sig)"
proof -
  obtain i where i: "i < length FIRCLSFatalSignals" "sig = FIRCLSFatalSignals ! i" using assms by (auto simp: in_set_conv_nth)
  then have "map_of (zip FIRCLSFatalSignals (map (\<lambda>i. saved_action K st (old_actions ! i) (FIRCLSFatalSignals ! i)) [0..<FIRCLSSignalCount])) sig =
      Some (map (\<lambda>i. saved_action K st (old_actions ! i) (FIRCLSFatalSignals ! i)) [0..<FIRCLSSignalCount] ! i)"
    by (simp only: i(2)) (rule map_of_zip_nth; simp add: fatal_distinct)
  with i show ?thesis by (auto simp: fatal_distinct(2))
qed

lemma install_preexisting_gives:
  assumes "length (originalActions ro) = FIRCLSSignalCount"
    and "ss_sp (originalStack ro) \<noteq> 0 \<longrightarrow> \<not> on_altstack st \<and> accepts_stack K (originalStack ro)"
  shows "\<exists>st'. FIRCLSSignalSafeInstallPreexistingHandlers K junk ro st =
      (\<forall>(s, a) \<in> set (zip FIRCLSFatalSignals (originalActions ro)). sa_sigaction a \<noteq> 0 \<longrightarrow> accepts_signal K s, st') \<and>
    actions st' = (\<lambda>s. case map_of (zip FIRCLSFatalSignals (originalActions ro)) s of
      Some a \<Rightarrow> if accepts_signal K s then (if sa_sigaction a \<noteq> 0 then a else default_action junk) else actions st s
    | None \<Rightarrow> actions st s) \<and>
    (ss_sp (originalStack ro) \<noteq> 0 \<longrightarrow> altstack st' = originalStack ro) \<and> sigmask st' = sigmask st"
proof -
  define st1 where "st1 = FIRCLSSignalSafeRemoveHandlers K junk True st"
  have st1: "actions st1 = (\<lambda>s. if s \<in> set FIRCLSFatalSignals \<and> accepts_signal K s then default_action junk else actions st s)"
    "on_altstack st1 = on_altstack st" "sigmask st1 = sigmask st"
    by (simp_all add: st1_def FIRCLSSignalSafeRemoveHandlers_def remove_gives)
  define st2 where "st2 = (if ss_sp (originalStack ro) \<noteq> 0 then st1\<lparr>altstack := originalStack ro\<rparr> else st1)"
  have st2: "actions st2 = actions st1" "sigmask st2 = sigmask st1" by (simp_all add: st2_def)
  have zip: "distinct (map fst (zip FIRCLSFatalSignals (originalActions ro)))"
    using assms(1) fatal_distinct by simp
  have dom: "map_of (zip FIRCLSFatalSignals (originalActions ro)) s = None \<longleftrightarrow> s \<notin> set FIRCLSFatalSignals" for s
    using assms(1) fatal_distinct(2) by (simp add: map_of_zip_is_None)
  have "FIRCLSSignalSafeInstallPreexistingHandlers K junk ro st =
      restore_handlers_loop K (zip FIRCLSFatalSignals (originalActions ro)) True st2"
    using assms(2) st1(2)
    by (simp add: FIRCLSSignalSafeInstallPreexistingHandlers_def sys_sigaltstack_def Let_def st2_def flip: st1_def)
  also have "\<dots> = (\<forall>(s, a) \<in> set (zip FIRCLSFatalSignals (originalActions ro)). sa_sigaction a \<noteq> 0 \<longrightarrow> accepts_signal K s,
      st2\<lparr>actions := \<lambda>s. case map_of (zip FIRCLSFatalSignals (originalActions ro)) s of
           Some a \<Rightarrow> if sa_sigaction a \<noteq> 0 \<and> accepts_signal K s then a else actions st2 s
         | None \<Rightarrow> actions st2 s\<rparr>)"
    unfolding restore_gives [OF zip] by simp
  finally show ?thesis
  proof (intro exI conjI)
    show "actions (st2\<lparr>actions := \<lambda>s. case map_of (zip FIRCLSFatalSignals (originalActions ro)) s of
           Some a \<Rightarrow> if sa_sigaction a \<noteq> 0 \<and> accepts_signal K s then a else actions st2 s
         | None \<Rightarrow> actions st2 s\<rparr>) =
      (\<lambda>s. case map_of (zip FIRCLSFatalSignals (originalActions ro)) s of
      Some a \<Rightarrow> if accepts_signal K s then (if sa_sigaction a \<noteq> 0 then a else default_action junk) else actions st s
    | None \<Rightarrow> actions st s)"
    proof (rule ext)
      fix s
      show "actions (st2\<lparr>actions := \<lambda>s. case map_of (zip FIRCLSFatalSignals (originalActions ro)) s of
           Some a \<Rightarrow> if sa_sigaction a \<noteq> 0 \<and> accepts_signal K s then a else actions st2 s
         | None \<Rightarrow> actions st2 s\<rparr>) s =
      (case map_of (zip FIRCLSFatalSignals (originalActions ro)) s of
      Some a \<Rightarrow> if accepts_signal K s then (if sa_sigaction a \<noteq> 0 then a else default_action junk) else actions st s
    | None \<Rightarrow> actions st s)"
        using dom [of s] by (cases "map_of (zip FIRCLSFatalSignals (originalActions ro)) s") (simp_all add: st1 st2)
    qed
  qed (simp_all add: st2_def st1)
qed

text \<open>C13: Initialisation makes the handler of the library that of every fatal signal; the
  restoration, from any later state in which the alternate stack can be put back, succeeds and
  gives every signal that had a handler its action back unchanged, and leaves the others at the
  default.\<close>

theorem original_handlers_restored:
  assumes "length (originalActions ro) = FIRCLSSignalCount"
    and "FIRCLSSignalInitialize OS K handler stk ro st fs = (ro', st1, fs')"
    and "ss_sp (originalStack ro') \<noteq> 0 \<longrightarrow> \<not> on_altstack st2 \<and> accepts_stack K (originalStack ro')"
    and "sig \<in> set FIRCLSFatalSignals" "accepts_signal K sig"
  shows "actions st1 sig = our_action handler \<and>
    (\<exists>st3. FIRCLSSignalSafeInstallPreexistingHandlers K junk ro' st2 = (True, st3) \<and>
      sa_sigaction (actions st3 sig) = sa_sigaction (actions st sig) \<and>
      (sa_sigaction (actions st sig) \<noteq> 0 \<longrightarrow> actions st3 sig = actions st sig))"
proof -
  note init = initialize_gives [OF assms(1,2)]
  have len: "length (originalActions ro') = FIRCLSSignalCount" by (simp add: init(1))
  have ok: "\<forall>(s, a) \<in> set (zip FIRCLSFatalSignals (originalActions ro')). sa_sigaction a \<noteq> 0 \<longrightarrow> accepts_signal K s"
    by (auto simp: init(1) in_set_zip saved_action_def fatal_distinct(2) split: if_splits)
  obtain old where "map_of (zip FIRCLSFatalSignals (originalActions ro')) sig = Some (saved_action K st old sig)"
    using saved_lookup [OF assms(4)] unfolding init(1) by blast
  with install_preexisting_gives [OF len assms(3), of junk] ok assms(5) init(2) assms(4) show ?thesis
    by (auto simp: saved_action_def default_action_def SIG_DFL_def)
qed

definition quiet_kernel :: signal_kernel where
  "quiet_kernel = \<lparr>accepts_signal = (\<lambda>s. s \<noteq> 9), accepts_stack = (\<lambda>_. True), accepts_mask = True\<rparr>"

definition no_action :: sigaction where
  "no_action = \<lparr>sa_sigaction = 0, sa_mask = 0, sa_flags = 0\<rparr>"

text \<open>A process in which a library has a handler for \<open>SIGSEGV\<close>.\<close>

definition start_state :: signal_state where
  "start_state = \<lparr>actions = (\<lambda>s. if s = SIGSEGV then \<lparr>sa_sigaction = 0x5000, sa_mask = 1, sa_flags = 0x40\<rparr> else no_action),
     altstack = \<lparr>ss_sp = 0, ss_size = 0, ss_flags = 4\<rparr>, on_altstack = False, sigmask = 0\<rparr>"

definition start_context :: FIRCLSSignalReadContext where
  "start_context = \<lparr>signal_path = Some ''signal'', originalActions = replicate 7 no_action,
     originalStack = \<lparr>ss_sp = 0, ss_size = 0, ss_flags = 0\<rparr>\<rparr>"

definition quiet_system :: operating_system where
  "quiet_system = \<lparr>sys_open = (\<lambda>fs path. if descriptors fs 3 = None then 3 else 4), sys_write = (\<lambda>path c s. (int (length s), c @ s)),
     sys_close = (\<lambda>_. True), sys_unlink = (\<lambda>_. True), sys_malloc = True, sys_statfs = (\<lambda>_. Some (10, 4096, 100)), sys_time = 5,
     open_max = 2\<rparr>"

theorem original_handlers_restored_witness:
  "(let (ro, st1, fs) = FIRCLSSignalInitialize quiet_system quiet_kernel 0x9000 0x7000 start_context start_state
                          \<lparr>files = (\<lambda>_. None), descriptors = (\<lambda>_. None)\<rparr>;
        (ok, st3) = FIRCLSSignalSafeInstallPreexistingHandlers quiet_kernel 3 ro st1
    in sa_sigaction (actions st1 SIGSEGV) = 0x9000 \<and> ok \<and>
       actions st3 SIGSEGV = \<lparr>sa_sigaction = 0x5000, sa_mask = 1, sa_flags = 0x40\<rparr>)"
proof -
  obtain ro st1 fs where init: "FIRCLSSignalInitialize quiet_system quiet_kernel 0x9000 0x7000 start_context start_state
      \<lparr>files = (\<lambda>_. None), descriptors = (\<lambda>_. None)\<rparr> = (ro, st1, fs)" by (metis prod_cases3)
  have "length (originalActions start_context) = FIRCLSSignalCount"
    by (simp add: start_context_def FIRCLSSignalCount_def)
  moreover have "ss_sp (originalStack ro) = 0"
  proof -
    have "ss_sp (originalStack (fst (FIRCLSSignalInitialize quiet_system quiet_kernel 0x9000 0x7000 start_context start_state
      \<lparr>files = (\<lambda>_. None), descriptors = (\<lambda>_. None)\<rparr>))) = 0" by code_simp
    then show ?thesis using init by simp
  qed
  moreover have "SIGSEGV \<in> set FIRCLSFatalSignals" "accepts_signal quiet_kernel SIGSEGV"
    by (simp_all add: FIRCLSFatalSignals_def quiet_kernel_def SIGSEGV_def)
  ultimately have "actions st1 SIGSEGV = our_action 0x9000 \<and>
    (\<exists>st3. FIRCLSSignalSafeInstallPreexistingHandlers quiet_kernel 3 ro st1 = (True, st3) \<and>
      actions st3 SIGSEGV = actions start_state SIGSEGV)"
    using original_handlers_restored [OF _ init, of st1 SIGSEGV 3] by (auto simp: start_state_def)
  then show ?thesis unfolding init by (auto simp: our_action_def start_state_def)
qed

text \<open>C37: Restored on the alternate stack, as the signal handler does it, when there was another
  alternate stack before, the original handlers are not installed: the call fails and every
  fatal signal is at the default.\<close>

theorem handlers_lost_on_alternate_stack:
  assumes "ss_sp (originalStack ro) \<noteq> 0" and "on_altstack st"
    and "sig \<in> set FIRCLSFatalSignals" "accepts_signal K sig"
  shows "\<exists>st'. FIRCLSSignalSafeInstallPreexistingHandlers K junk ro st = (False, st') \<and> sa_sigaction (actions st' sig) = SIG_DFL"
  using assms
  by (auto simp: FIRCLSSignalSafeInstallPreexistingHandlers_def FIRCLSSignalSafeRemoveHandlers_def remove_gives sys_sigaltstack_def
      default_action_def)

text \<open>The library of the example had an alternate stack too.\<close>

theorem handlers_lost_on_alternate_stack_witness:
  "\<exists>st'. FIRCLSSignalSafeInstallPreexistingHandlers quiet_kernel 3
      \<lparr>signal_path = Some ''signal'', originalActions = replicate 7 (actions start_state SIGSEGV),
       originalStack = \<lparr>ss_sp = 0x6000, ss_size = 0x1000, ss_flags = 0\<rparr>\<rparr> (start_state\<lparr>on_altstack := True\<rparr>) = (False, st') \<and>
    sa_sigaction (actions st' SIGSEGV) = SIG_DFL"
  by (rule handlers_lost_on_alternate_stack)
    (simp_all add: quiet_kernel_def FIRCLSFatalSignals_def SIGSEGV_def)

end
