(* ===== verification/CrashHandler.thy ===== *)
theory CrashHandler
  imports Process SignalHandlers
begin

text \<open>
  The handler of a crash: \<open>Handlers/FIRCLSHandler.m\<close>, the crash mark of \<open>Components/FIRCLSContext.m\<close>, the
  disk usage of \<open>Components/FIRCLSHost.m\<close>, and the signal handler with its record, of
  \<open>Handlers/FIRCLSSignal.c\<close>. Here the process recorder, the report file and the signal actions meet.

  The context that is read only after the start is a record, \<open>None\<close> for a pointer that is not valid. A
  handler may end the process: the outcome is \<open>Returns\<close> or \<open>Exits\<close>, and \<open>None\<close> for a fault.
\<close>

section \<open>The state\<close>

datatype 'a outcome = Returns 'a | Exits int

record readonly_context =
  initialized :: bool
  debuggerAttached :: bool
  previouslyCrashedFileFullPath :: "string option"
  documentDirectoryPath :: string
  signal_context :: FIRCLSSignalReadContext

record crash_state =
  crash_files :: file_system
  crash_signals :: signal_state
  crashOccurred :: bool
  current_errno :: int

subsection \<open>The crash mark\<close>

definition FIRCLSContextIsInitialized :: "readonly_context option \<Rightarrow> bool" where
  "FIRCLSContextIsInitialized readonly = (case readonly of None \<Rightarrow> False | Some ro \<Rightarrow> initialized ro)"

definition FIRCLSContextHasCrashed :: "readonly_context option \<Rightarrow> crash_state \<Rightarrow> bool" where
  "FIRCLSContextHasCrashed readonly s = (if \<not> FIRCLSContextIsInitialized readonly then False else crashOccurred s)"

definition FIRCLSContextMarkHasCrashed :: "readonly_context option \<Rightarrow> crash_state \<Rightarrow> crash_state" where
  "FIRCLSContextMarkHasCrashed readonly s =
     (if \<not> FIRCLSContextIsInitialized readonly then s else s\<lparr>crashOccurred := True\<rparr>)"

definition FIRCLSContextMarkAndCheckIfCrashed :: "readonly_context option \<Rightarrow> crash_state \<Rightarrow> bool \<times> crash_state" where
  "FIRCLSContextMarkAndCheckIfCrashed readonly s =
     (if \<not> FIRCLSContextIsInitialized readonly then (False, s)
      else if crashOccurred s then (True, s)
      else (False, s\<lparr>crashOccurred := True\<rparr>))"

section \<open>Recording\<close>

definition FIRCLSHostWriteDiskUsage :: "operating_system \<Rightarrow> readonly_context \<Rightarrow> FIRCLSFile \<Rightarrow> FIRCLSFile" where
  "FIRCLSHostWriteDiskUsage OS ro f =
     (let f = FIRCLSFileWriteSectionStart f ''storage'';
          f = FIRCLSFileWriteHashStart f;
          f = (case sys_statfs OS (documentDirectoryPath ro) of
                 Some (f_bavail, f_bsize, f_blocks) \<Rightarrow>
                   let f = FIRCLSFileWriteHashEntryUint64 f ''free'' (f_bavail * ucast f_bsize)
                   in FIRCLSFileWriteHashEntryUint64 f ''total'' (f_blocks * ucast f_bsize)
               | None \<Rightarrow> f)
      in FIRCLSFileWriteSectionEnd (FIRCLSFileWriteHashEnd f))"

text \<open>The file, the files of the system, and the threads that were asked to stop and to go on.\<close>

definition FIRCLSHandler ::
    "operating_system \<Rightarrow> ('r, 'x) kernel \<Rightarrow> ('r, 'x) process_target \<Rightarrow> mem \<Rightarrow> images \<Rightarrow> readonly_context \<Rightarrow>
       FIRCLSFile \<Rightarrow> thread_t \<Rightarrow> ('r \<times> 'x) option \<Rightarrow> file_system \<Rightarrow>
       (FIRCLSFile \<times> file_system \<times> thread_t list \<times> thread_t list) option" where
  "FIRCLSHandler OS K T m ims ro f crashed uap fs =
     do {
       let (_, process) = FIRCLSProcessInit K crashed;
       let (_, suspended) = FIRCLSProcessSuspendAllOtherThreads K process;
       (_, f) \<leftarrow> FIRCLSProcessRecordAllThreads K T m ims uap process f;
       f \<leftarrow> FIRCLSProcessRecordRuntimeInfo K T m ims uap process f;
       f \<leftarrow> FIRCLSProcessRecordDispatchQueueNames K m process f;
       let f = FIRCLSProcessRecordThreadNames K process f;
       f \<leftarrow> FIRCLSProcessRecordStats K f;
       let f = FIRCLSHostWriteDiskUsage OS ro f;
       let fs = FIRCLSCreateCrashedMarkerFile OS (previouslyCrashedFileFullPath ro) fs;
       let (_, resumed) = FIRCLSProcessResumeAllOtherThreads K process;
       Some (f, fs, suspended, resumed) }"

section \<open>The signal handler\<close>

record siginfo =
  si_signo :: int
  si_code :: int
  si_addr :: addr

definition signal_section :: "u64 \<Rightarrow> int \<Rightarrow> siginfo option \<Rightarrow> FIRCLSFile \<Rightarrow> FIRCLSFile" where
  "signal_section time savedErrno info f =
     (let f = FIRCLSFileWriteSectionStart f ''signal'';
          f = FIRCLSFileWriteHashStart f;
          f = (case info of
                 None \<Rightarrow> f
               | Some info \<Rightarrow>
                   let f = FIRCLSFileWriteHashEntryUint64 f ''number'' (of_int (si_signo info));
                       f = FIRCLSFileWriteHashEntryUint64 f ''code'' (of_int (si_code info));
                       f = FIRCLSFileWriteHashEntryUint64 f ''address'' (si_addr info)
                   in (case FIRCLSSignalNameLookup (si_signo info) (si_code info) (Some (None, None)) of
                         Some (name, codeName) \<Rightarrow>
                           FIRCLSFileWriteHashEntryString (FIRCLSFileWriteHashEntryString f ''name'' name) ''code_name'' codeName
                       | None \<Rightarrow> f));
          f = FIRCLSFileWriteHashEntryUint64 f ''errno'' (of_int savedErrno);
          f = FIRCLSFileWriteHashEntryUint64 f ''time'' time
      in FIRCLSFileWriteSectionEnd (FIRCLSFileWriteHashEnd f))"

definition FIRCLSSignalRecordSignal ::
    "operating_system \<Rightarrow> ('r, 'x) kernel \<Rightarrow> ('r, 'x) process_target \<Rightarrow> mem \<Rightarrow> images \<Rightarrow> readonly_context option \<Rightarrow>
       int \<Rightarrow> siginfo option \<Rightarrow> ('r \<times> 'x) option \<Rightarrow> crash_state \<Rightarrow> crash_state outcome option" where
  "FIRCLSSignalRecordSignal OS K T m ims readonly savedErrno info uap s =
     (case readonly of
        None \<Rightarrow> Some (Returns s)
      | Some ro \<Rightarrow>
          let (crashed, s) = FIRCLSContextMarkAndCheckIfCrashed readonly s in
          if crashed then Some (Exits 1)
          else let (file, fs) = FIRCLSFileInitWithPath OS (signal_path (signal_context ro)) False (crash_files s) in
            (case file of
               None \<Rightarrow> Some (Returns (s\<lparr>crash_files := fs\<rparr>))
             | Some file \<Rightarrow> do {
                 let f = signal_section (sys_time OS) savedErrno info (handle file);
                 (f, fs, _) \<leftarrow> FIRCLSHandler OS K T m ims ro f (mach_thread_self K) uap fs;
                 let (_, fs) = FIRCLSFileClose OS (file\<lparr>handle := f\<rparr>) fs;
                 Some (Returns (s\<lparr>crash_files := fs\<rparr>)) }))"

definition FIRCLSSignalHandler ::
    "operating_system \<Rightarrow> signal_kernel \<Rightarrow> u32 \<Rightarrow> ('r, 'x) kernel \<Rightarrow> ('r, 'x) process_target \<Rightarrow> mem \<Rightarrow> images \<Rightarrow>
       readonly_context option \<Rightarrow> siginfo option \<Rightarrow> ('r \<times> 'x) option \<Rightarrow> crash_state \<Rightarrow> crash_state outcome option" where
  "FIRCLSSignalHandler OS SK junk K T m ims readonly info uap s =
     do {
       let savedErrno = current_errno s;
       let s = s\<lparr>current_errno := 0\<rparr>;
       let st = FIRCLSSignalSafeRemoveHandlers SK junk True (crash_signals s);
       let (_, st) = sys_unblock_all SK st;
       result \<leftarrow> FIRCLSSignalRecordSignal OS K T m ims readonly savedErrno info uap (s\<lparr>crash_signals := st\<rparr>);
       case result of
         Exits code \<Rightarrow> Some (Exits code)
       | Returns s \<Rightarrow>
           let st = (case readonly of
                       Some ro \<Rightarrow> snd (FIRCLSSignalSafeInstallPreexistingHandlers SK junk (signal_context ro) (crash_signals s))
                     | None \<Rightarrow> crash_signals s)
           in Some (Returns (s\<lparr>crash_signals := st, current_errno := savedErrno\<rparr>)) }"

section \<open>Sections in a row\<close>

definition section_line :: "string \<times> json \<Rightarrow> string" where
  "section_line s = json_text (Object [s]) @ [CHR 0x0A]"

text \<open>At the beginning of a line, the operation writes these sections and is at the beginning of a line.\<close>

definition logs :: "(FIRCLSFile \<Rightarrow> FIRCLSFile option) \<Rightarrow> (string \<times> json) list \<Rightarrow> bool" where
  "logs w ss \<longleftrightarrow>
     (\<forall>f. reliable f \<and> collectionDepth f = 0 \<and> \<not> needComma f \<longrightarrow>
        (\<exists>g. w f = Some g \<and> appends f g (concat (map section_line ss)) False 0))"

lemma logs_none: "logs Some []"
  by (simp add: logs_def appends_def)

lemma logs_then:
  assumes "logs w ss" and "logs w' ss'"
  shows "logs (\<lambda>f. w f \<bind> w') (ss @ ss')"
  unfolding logs_def
proof (intro allI impI)
  fix f assume f: "reliable f \<and> collectionDepth f = 0 \<and> \<not> needComma f"
  then obtain g where g: "w f = Some g" "appends f g (concat (map section_line ss)) False 0"
    using assms(1) by (auto simp: logs_def)
  then have "reliable g \<and> collectionDepth g = 0 \<and> \<not> needComma g" by (simp add: appends_def)
  then obtain h where h: "w' g = Some h" "appends g h (concat (map section_line ss')) False 0"
    using assms(2) by (auto simp: logs_def)
  from appends_trans [OF g(2) h(2)] g(1) h(1)
  show "\<exists>h. w f \<bind> w' = Some h \<and> appends f h (concat (map section_line (ss @ ss'))) False 0" by simp
qed

lemma logs_section:
  assumes "writes w (json_text v)"
  shows "logs (\<lambda>f. Some (FIRCLSFileWriteSectionEnd (w (FIRCLSFileWriteSectionStart f name)))) [(name, v)]"
  using section_text [OF _ _ _ assms, of _ name] by (auto simp: logs_def section_line_def)

lemma writes_members_nil: "writes_all (\<lambda>f. f) (map member_text [])"
  by (simp add: writes_all_Nil)

lemma writes_member_entries:
  "writes_all w (map member_text kvs) \<Longrightarrow> writes_all (\<lambda>f. w (FIRCLSFileWriteHashEntryUint64 f k v)) (map member_text ((k, Uint v) # kvs))"
  "writes_all w (map member_text kvs) \<Longrightarrow> writes_all (\<lambda>f. w (FIRCLSFileWriteHashEntryString f k s)) (map member_text ((k, Text s) # kvs))"
  using writes_all_Cons [OF writes_hash_entry(1)] writes_all_Cons [OF writes_hash_entry(2)] by simp_all

subsection \<open>Storage and signal\<close>

definition storage_value :: "operating_system \<Rightarrow> readonly_context \<Rightarrow> json" where
  "storage_value OS ro =
     Object (case sys_statfs OS (documentDirectoryPath ro) of
               Some (f_bavail, f_bsize, f_blocks) \<Rightarrow>
                 [(''free'', Uint (f_bavail * ucast f_bsize)), (''total'', Uint (f_blocks * ucast f_bsize))]
             | None \<Rightarrow> [])"

lemma logs_disk_usage: "logs (\<lambda>f. Some (FIRCLSHostWriteDiskUsage OS ro f)) [(''storage'', storage_value OS ro)]"
proof (cases "sys_statfs OS (documentDirectoryPath ro)")
  case None
  from logs_section [OF writes_hash [OF writes_members_nil], of "''storage''"] show ?thesis
    by (simp add: FIRCLSHostWriteDiskUsage_def storage_value_def None Let_def)
next
  case (Some a)
  obtain f_bavail f_bsize f_blocks where a: "a = (f_bavail, f_bsize, f_blocks)" by (cases a)
  from logs_section [OF writes_hash [OF writes_member_entries(1) [OF writes_member_entries(1) [OF writes_members_nil]]], of "''storage''"]
  show ?thesis
    by (simp add: FIRCLSHostWriteDiskUsage_def storage_value_def Some a Let_def)
qed

definition signal_value :: "u64 \<Rightarrow> int \<Rightarrow> siginfo option \<Rightarrow> json" where
  "signal_value time savedErrno info =
     Object ((case info of
                None \<Rightarrow> []
              | Some i \<Rightarrow>
                  [(''number'', Uint (of_int (si_signo i))), (''code'', Uint (of_int (si_code i))), (''address'', Uint (si_addr i)),
                   (''name'', Text (fst (the (FIRCLSSignalNameLookup (si_signo i) (si_code i) (Some (None, None)))))),
                   (''code_name'', Text (snd (the (FIRCLSSignalNameLookup (si_signo i) (si_code i) (Some (None, None))))))]) @
             [(''errno'', Uint (of_int savedErrno)), (''time'', Uint time)])"

lemma logs_signal: "logs (\<lambda>f. Some (signal_section time savedErrno info f)) [(''signal'', signal_value time savedErrno info)]"
proof (cases info)
  case None
  from logs_section [OF writes_hash [OF writes_member_entries(1) [OF writes_member_entries(1) [OF writes_members_nil]]], of "''signal''"]
  show ?thesis by (simp add: signal_section_def signal_value_def None Let_def)
next
  case (Some i)
  obtain name codeName where n: "FIRCLSSignalNameLookup (si_signo i) (si_code i) (Some (None, None)) = Some (name, codeName)"
    by (cases "the (FIRCLSSignalNameLookup (si_signo i) (si_code i) (Some (None, None)))") (simp add: FIRCLSSignalNameLookup_def)
  from logs_section [OF writes_hash [OF writes_member_entries(1) [OF writes_member_entries(1) [OF writes_member_entries(1)
    [OF writes_member_entries(2) [OF writes_member_entries(2)
    [OF writes_member_entries(1) [OF writes_member_entries(1) [OF writes_members_nil]]]]]]]], of "''signal''"]
  show ?thesis by (simp add: signal_section_def signal_value_def Some n Let_def)
qed

subsection \<open>Names of threads and queues\<close>

lemma writes_strings: "writes_all (fold (\<lambda>s f. FIRCLSFileWriteArrayEntryString f s) ss) (map json_text (map Text ss))"
  using writes_all_fold [of ss "\<lambda>s f. FIRCLSFileWriteArrayEntryString f s" "\<lambda>s. json_text (Text s)"] writes_array_entry(2)
  by (simp add: comp_def)

lemma writes_hex_strings: "writes_all (fold (\<lambda>s f. FIRCLSFileWriteArrayEntryHexEncodedString f s) ss) (map json_text (map Hex ss))"
  using writes_all_fold [of ss "\<lambda>s f. FIRCLSFileWriteArrayEntryHexEncodedString f s" "\<lambda>s. json_text (Hex s)"] writes_array_entry(3)
  by (simp add: comp_def)

definition threads_of :: "FIRCLSProcess \<Rightarrow> thread_t list" where
  "threads_of p = map (\<lambda>k. FIRCLSProcessGetThread p (of_nat k)) [0..<unat (threadCount p)]"

lemma record_names_gives:
  "record_names_loop n i name p f =
     fold (\<lambda>s f. FIRCLSFileWriteArrayEntryString f s) (map (\<lambda>k. Some (name (FIRCLSProcessGetThread p (i + of_nat k)))) [0..<n]) f"
proof (induction n arbitrary: i f)
  case (Suc n)
  have "[0..<Suc n] = 0 # map Suc [0..<n]" by (simp add: map_Suc_upt upt_conv_Cons del: upt_Suc)
  then show ?case by (simp add: Suc.IH comp_def add.assoc del: upt_Suc)
qed simp

lemma logs_thread_names:
  "logs (\<lambda>f. Some (FIRCLSProcessRecordThreadNames K p f)) [(''thread_names'', Array (map (\<lambda>t. Text (Some (thread_name K t))) (threads_of p)))]"
  using logs_section [OF writes_array [OF writes_strings], where name = "''thread_names''", of
      "map (\<lambda>k. Some (thread_name K (FIRCLSProcessGetThread p (of_nat k)))) [0..<unat (threadCount p)]"]
  by (simp add: FIRCLSProcessRecordThreadNames_def record_names_gives threads_of_def comp_def Let_def)

lemma record_queue_names_gives:
  assumes "\<And>k. k < n \<Longrightarrow> FIRCLSProcessGetThreadDispatchQueueName K m (FIRCLSProcessGetThread p (i + of_nat k)) = Some (name k)"
  shows "record_queue_names_loop n i K m p f = Some (fold (\<lambda>s f. FIRCLSFileWriteArrayEntryString f s) (map name [0..<n]) f)"
  using assms
proof (induction n arbitrary: i f name)
  case (Suc n)
  have "[0..<Suc n] = 0 # map Suc [0..<n]" by (simp add: map_Suc_upt upt_conv_Cons del: upt_Suc)
  moreover have "FIRCLSProcessGetThreadDispatchQueueName K m (FIRCLSProcessGetThread p ((i + 1) + of_nat k)) = Some (name (Suc k))" if "k < n" for k
    using Suc.prems [of "Suc k"] that by (simp add: add.assoc)
  ultimately show ?case
    using Suc.IH [of "i + 1" "\<lambda>k. name (Suc k)"] Suc.prems [of 0] by (simp add: comp_def del: upt_Suc)
qed simp

definition queue_names :: "('r, 'x) kernel \<Rightarrow> mem \<Rightarrow> FIRCLSProcess \<Rightarrow> string option list option" where
  "queue_names K m p = those (map (FIRCLSProcessGetThreadDispatchQueueName K m) (threads_of p))"

lemma logs_queue_names:
  assumes "queue_names K m p = Some names"
  shows "logs (FIRCLSProcessRecordDispatchQueueNames K m p) [(''dispatch_queue_names'', Array (map Text names))]"
proof -
  have len: "length names = unat (threadCount p)"
    and each: "\<And>k. k < unat (threadCount p) \<Longrightarrow>
      FIRCLSProcessGetThreadDispatchQueueName K m (FIRCLSProcessGetThread p (0 + of_nat k)) = Some (names ! k)"
    using those_nth [OF assms [unfolded queue_names_def]] by (simp_all add: threads_of_def)
  have "map ((!) names) [0..<unat (threadCount p)] = names" using len by (metis map_nth)
  with record_queue_names_gives [OF each, of "unat (threadCount p)"]
  have "record_queue_names_loop (unat (threadCount p)) 0 K m p f = Some (fold (\<lambda>s f. FIRCLSFileWriteArrayEntryString f s) names f)" for f
    by simp
  with logs_section [OF writes_array [OF writes_strings], where name = "''dispatch_queue_names''", of names] show ?thesis
    by (simp add: FIRCLSProcessRecordDispatchQueueNames_def [abs_def] Let_def)
qed

subsection \<open>Run-time information and statistics\<close>

text \<open>The messages of the images that have one, and whether reading them stays in readable memory.\<close>

fun crash_messages :: "FIRCLSBinaryImageRuntimeNode list \<Rightarrow> mem \<Rightarrow> string list option" where
  "crash_messages [] m = Some []"
| "crash_messages (node # nodes) m =
     (let info = FIRCLSReadMemory m (crashInfo node) 56;
          version = (of_nat (le_nat (take 4 (the info))) :: u32);
          message = (of_nat (le_nat (take 8 (drop 8 (the info)))) :: addr) in
      if crashInfo node = 0 \<or> info = None \<or> version > 5 \<or> message = 0 \<or> \<not> FIRCLSReadString m message 256
      then crash_messages nodes m
      else do { s \<leftarrow> c_string m message; ss \<leftarrow> crash_messages nodes m; Some (s # ss) })"

lemma crash_info_loop_gives:
  "crash_messages nodes m = Some ss \<Longrightarrow>
   crash_info_loop nodes m f = Some (fold (\<lambda>s f. FIRCLSFileWriteArrayEntryHexEncodedString f s) (map Some ss) f)"
proof (induction nodes arbitrary: ss f)
  case (Cons node nodes)
  then show ?case
    by (auto simp: Let_def bind_eq_Some_conv split: if_splits option.splits)
qed simp

definition image_messages :: "images \<Rightarrow> mem \<Rightarrow> string list option" where
  "image_messages ims m =
     (case ims of None \<Rightarrow> Some [] | Some nodes \<Rightarrow> crash_messages (take CLS_BINARY_IMAGE_RUNTIME_NODE_COUNT nodes) m)"

definition runtime_value :: "string \<Rightarrow> string list \<Rightarrow> json" where
  "runtime_value selector messages =
     Object [(''objc_selector'', Text (Some selector)), (''crash_info_entries'', Array (map (\<lambda>s. Hex (Some s)) messages))]"

lemma logs_runtime:
  assumes "FIRCLSProcessGetThreadState K T uap p (crashedThread p) = Some c"
    and "FIRCLSProcessGetObjCSelectorName T m c = Some selector" and "image_messages ims m = Some messages"
  shows "logs (FIRCLSProcessRecordRuntimeInfo K T m ims uap p) [(''runtime'', runtime_value selector messages)]"
proof -
  let ?w = "fold (\<lambda>s f. FIRCLSFileWriteArrayEntryHexEncodedString f s) (map Some messages)"
  have info: "FIRCLSProcessRecordCrashInfo m ims f = Some (?w f)" for f
    using assms(3) crash_info_loop_gives by (auto simp: FIRCLSProcessRecordCrashInfo_def image_messages_def split: option.splits)
  have "writes (\<lambda>f. FIRCLSFileWriteArrayEnd (?w (FIRCLSFileWriteArrayStart (FIRCLSFileWriteHashKey f ''crash_info_entries''))))
      (member_text (''crash_info_entries'', Array (map Hex (map Some messages))))"
    by (rule writes_member [OF writes_array [OF writes_hex_strings]])
  from writes_all_Cons [OF this writes_all_Nil]
  have "writes_all (\<lambda>f. FIRCLSFileWriteArrayEnd (?w (FIRCLSFileWriteArrayStart (FIRCLSFileWriteHashKey f ''crash_info_entries''))))
      (map member_text [(''crash_info_entries'', Array (map Hex (map Some messages)))])" by simp
  from logs_section [OF writes_hash [OF writes_member_entries(2) [OF this]],
      where name = "''runtime''", of "''objc_selector''" "Some selector"]
  show ?thesis
    using assms(1,2) by (simp add: FIRCLSProcessRecordRuntimeInfo_def [abs_def] info runtime_value_def Let_def comp_def)
qed

text \<open>The section of the statistics is left out when the kernel does not give them.\<close>

definition stats_sections :: "('r, 'x) kernel \<Rightarrow> (string \<times> json) list option" where
  "stats_sections K =
     (case (FIRCLSProcessGetMemoryUsage K, FIRCLSProcessGetInfo K) of
        (Some (active, inactive, wired, free), Some (virtual, resident, userTime, systemTime)) \<Rightarrow>
          do { user \<leftarrow> microseconds userTime; sys \<leftarrow> microseconds systemTime;
               Some [(''process_stats'', Object (stats_members active inactive wired free virtual user sys))] }
      | _ \<Rightarrow> Some [])"

lemma logs_stats:
  assumes "stats_sections K = Some ss"
  shows "logs (FIRCLSProcessRecordStats K) ss"
proof (cases "\<exists>a i. FIRCLSProcessGetMemoryUsage K = Some a \<and> FIRCLSProcessGetInfo K = Some i")
  case False
  then have "ss = []" "FIRCLSProcessRecordStats K = Some"
    using assms by (auto simp: stats_sections_def FIRCLSProcessRecordStats_def fun_eq_iff split: option.splits prod.splits)
  then show ?thesis using logs_none by simp
next
  case True
  then obtain active inactive wired free virtual resident userTime systemTime where
    i: "FIRCLSProcessGetMemoryUsage K = Some (active, inactive, wired, free)"
      "FIRCLSProcessGetInfo K = Some (virtual, resident, userTime, systemTime)" by force
  then obtain user sys where t: "microseconds userTime = Some user" "microseconds systemTime = Some sys"
      "ss = [(''process_stats'', Object (stats_members active inactive wired free virtual user sys))]"
    using assms by (auto simp: stats_sections_def bind_eq_Some_conv)
  from stats_report_active_as_resident [OF i t(1,2)] t(3) show ?thesis
    by (auto simp: logs_def section_line_def)
qed

lemma logs_threads:
  assumes "length vs = unat (threadCount p)"
    and "\<And>k. k < unat (threadCount p) \<Longrightarrow> thread_recorded K T m ims uap p (FIRCLSProcessGetThread p (of_nat k)) (vs ! k)"
  shows "logs (\<lambda>f. map_option snd (FIRCLSProcessRecordAllThreads K T m ims uap p f)) [(''threads'', Array vs)]"
proof -
  obtain w where w: "\<And>f. record_threads_loop (unat (threadCount p)) 0 K T m ims uap p f = Some (True, w f)"
      "writes_all w (map json_text vs)"
    using record_threads_loop_writer [of "unat (threadCount p)" K T m ims uap p 0 vs] assms by auto
  from logs_section [OF writes_array [OF w(2)], where name = "''threads''"] w(1) show ?thesis
    by (simp add: FIRCLSProcessRecordAllThreads_def Let_def)
qed

subsection \<open>The whole report\<close>

text \<open>What there is to report of a process: the process record, and the sections of the handler.\<close>

definition crash_sections ::
    "operating_system \<Rightarrow> ('r, 'x) kernel \<Rightarrow> ('r, 'x) process_target \<Rightarrow> mem \<Rightarrow> images \<Rightarrow> readonly_context \<Rightarrow> thread_t \<Rightarrow>
       ('r \<times> 'x) option \<Rightarrow> (string \<times> json) list \<Rightarrow> bool" where
  "crash_sections OS K T m ims ro crashed uap ss \<longleftrightarrow>
     (\<exists>p vs c selector messages names stats.
        p = snd (FIRCLSProcessInit K crashed) \<and>
        length vs = unat (threadCount p) \<and>
        (\<forall>k < unat (threadCount p). thread_recorded K T m ims uap p (FIRCLSProcessGetThread p (of_nat k)) (vs ! k)) \<and>
        FIRCLSProcessGetThreadState K T uap p crashed = Some c \<and>
        FIRCLSProcessGetObjCSelectorName T m c = Some selector \<and>
        image_messages ims m = Some messages \<and>
        queue_names K m p = Some names \<and>
        stats_sections K = Some stats \<and>
        ss = [(''threads'', Array vs), (''runtime'', runtime_value selector messages),
              (''dispatch_queue_names'', Array (map Text names)),
              (''thread_names'', Array (map (\<lambda>t. Text (Some (thread_name K t))) (threads_of p)))] @ stats @
             [(''storage'', storage_value OS ro)])"

lemma crashed_thread: "crashedThread (snd (FIRCLSProcessInit K crashed)) = crashed"
  by (simp add: FIRCLSProcessInit_def split: option.splits)

lemma handler_logs:
  assumes "crash_sections OS K T m ims ro crashed uap ss"
    and "reliable f" "collectionDepth f = 0" "\<not> needComma f"
  shows "\<exists>g suspended resumed. FIRCLSHandler OS K T m ims ro f crashed uap fs =
      Some (g, FIRCLSCreateCrashedMarkerFile OS (previouslyCrashedFileFullPath ro) fs, suspended, resumed) \<and>
    appends f g (concat (map section_line ss)) False 0"
proof -
  obtain p vs c selector messages names stats where p: "p = snd (FIRCLSProcessInit K crashed)"
    and s: "length vs = unat (threadCount p)"
      "\<forall>k < unat (threadCount p). thread_recorded K T m ims uap p (FIRCLSProcessGetThread p (of_nat k)) (vs ! k)"
      "FIRCLSProcessGetThreadState K T uap p crashed = Some c"
      "FIRCLSProcessGetObjCSelectorName T m c = Some selector"
      "image_messages ims m = Some messages" "queue_names K m p = Some names" "stats_sections K = Some stats"
    and ss: "ss = [(''threads'', Array vs), (''runtime'', runtime_value selector messages),
              (''dispatch_queue_names'', Array (map Text names)),
              (''thread_names'', Array (map (\<lambda>t. Text (Some (thread_name K t))) (threads_of p)))] @ stats @
             [(''storage'', storage_value OS ro)]"
    using assms(1) unfolding crash_sections_def by blast
  have state: "FIRCLSProcessGetThreadState K T uap p (crashedThread p) = Some c" using s(3) by (simp add: p crashed_thread)
  note all = logs_then [OF logs_threads [OF s(1), of K T m ims uap] logs_then [OF logs_runtime [OF state s(4,5)]
      logs_then [OF logs_queue_names [OF s(6)] logs_then [OF logs_thread_names
      logs_then [OF logs_stats [OF s(7)] logs_disk_usage [of OS ro]]]]]]
  have "logs (\<lambda>f. map_option snd (FIRCLSProcessRecordAllThreads K T m ims uap p f) \<bind> (\<lambda>f.
      FIRCLSProcessRecordRuntimeInfo K T m ims uap p f \<bind> (\<lambda>f. FIRCLSProcessRecordDispatchQueueNames K m p f \<bind> (\<lambda>f.
      Some (FIRCLSProcessRecordThreadNames K p f) \<bind> (\<lambda>f. FIRCLSProcessRecordStats K f \<bind> (\<lambda>f.
      Some (FIRCLSHostWriteDiskUsage OS ro f))))))) ss"
    using all s(2) by (simp add: ss)
  then obtain g where g: "map_option snd (FIRCLSProcessRecordAllThreads K T m ims uap p f) \<bind> (\<lambda>f.
      FIRCLSProcessRecordRuntimeInfo K T m ims uap p f \<bind> (\<lambda>f. FIRCLSProcessRecordDispatchQueueNames K m p f \<bind> (\<lambda>f.
      Some (FIRCLSProcessRecordThreadNames K p f) \<bind> (\<lambda>f. FIRCLSProcessRecordStats K f \<bind> (\<lambda>f.
      Some (FIRCLSHostWriteDiskUsage OS ro f)))))) = Some g"
    and app: "appends f g (concat (map section_line ss)) False 0"
    using assms(2-4) unfolding logs_def by blast
  obtain q where q: "FIRCLSProcessInit K crashed = (q, p)" using p by (cases "FIRCLSProcessInit K crashed") simp
  obtain b suspended where sus: "FIRCLSProcessSuspendAllOtherThreads K p = (b, suspended)" by fastforce
  obtain b' resumed where res: "FIRCLSProcessResumeAllOtherThreads K p = (b', resumed)" by fastforce
  have "FIRCLSHandler OS K T m ims ro f crashed uap fs =
      Some (g, FIRCLSCreateCrashedMarkerFile OS (previouslyCrashedFileFullPath ro) fs, suspended, resumed)"
    using g by (auto simp: FIRCLSHandler_def q sus res bind_eq_Some_conv Let_def)
  with app show ?thesis by blast
qed

section \<open>A crash is reported once\<close>

text \<open>A file is opened, a first section written, the handler called, and the file closed.\<close>

lemma record_session:
  assumes "usable OS path" "usable OS marker" "marker \<noteq> path"
    and "previouslyCrashedFileFullPath ro = Some marker"
    and "descriptors_left OS 2 fs"
    and "logs w first" and "crash_sections OS K T m ims ro crashed uap ss"
  shows "\<exists>file fs1 g h fs2 suspended resumed fs3.
    FIRCLSFileInitWithPath OS (Some path) False fs = (Some file, fs1) \<and> w (handle file) = Some g \<and>
    FIRCLSHandler OS K T m ims ro g crashed uap fs1 = Some (h, fs2, suspended, resumed) \<and>
    FIRCLSFileClose OS (file\<lparr>handle := h\<rparr>) fs2 = (True, fs3) \<and>
    files fs3 path = Some (contents_of fs path @ concat (map section_line (first @ ss))) \<and>
    files fs3 marker = Some (contents_of fs marker)"
proof -
  let ?fd = "sys_open OS fs path"
  have left: "descriptors_left OS (Suc 1) fs" using assms(5) by (simp add: numeral_2_eq_2)
  obtain f fs1 where f:
    "FIRCLSFileInitWithPathMode OS (Some path) True False fs = (Some \<lparr>descriptor = ?fd, handle = f\<rparr>, fs1)"
    "reliable f" "report f = (if True then contents_of fs path else [])" "collectionDepth f = 0" "\<not> needComma f"
    "fs1 = \<lparr>files = (files fs)(path \<mapsto> report f), descriptors = (descriptors fs)(?fd \<mapsto> path)\<rparr>"
    using open_gives [OF assms(1) left, of True False] by metis
  have left1: "descriptors_left OS (Suc 0) fs1"
    using usable_opens(3) [OF assms(1) left] by (simp add: f(6))
  obtain g where g: "w f = Some g" "appends f g (concat (map section_line first)) False 0"
    using assms(6) f(2,4,5) unfolding logs_def by blast
  then have "reliable g" "collectionDepth g = 0" "\<not> needComma g" by (simp_all add: appends_def)
  from handler_logs [OF assms(7) this, of fs1] obtain h suspended resumed where
    h: "FIRCLSHandler OS K T m ims ro g crashed uap fs1 =
      Some (h, FIRCLSCreateCrashedMarkerFile OS (previouslyCrashedFileFullPath ro) fs1, suspended, resumed)"
      "appends g h (concat (map section_line ss)) False 0" by blast
  define fs2 where "fs2 = fs1\<lparr>files := (files fs1)(marker \<mapsto> contents_of fs1 marker)\<rparr>"
  have marker: "FIRCLSCreateCrashedMarkerFile OS (previouslyCrashedFileFullPath ro) fs1 = fs2"
    using marker_gives [OF assms(2) left1] by (simp add: assms(4) fs2_def)
  have rep: "reliable h" "report h = contents_of fs path @ concat (map section_line (first @ ss))"
    using h(2) g f(3) by (simp_all add: appends_def)
  have "descriptors fs2 ?fd = Some path" "sys_close OS ?fd" using assms(1) by (simp_all add: fs2_def f(6) usable_def)
  note close = close_gives [OF this(2) rep(1) this(1)]
  have "files fs2 marker = Some (contents_of fs marker)"
    using assms(3) by (simp add: fs2_def f(6) contents_of_def)
  with f(1) g(1) h(1) close rep(2) assms(3) marker show ?thesis
    by (simp add: FIRCLSFileInitWithPath_def)
qed

lemma record_signal_gives:
  assumes "initialized ro" "\<not> crashOccurred s"
    and "signal_path (signal_context ro) = Some path" "usable OS path"
    and "previouslyCrashedFileFullPath ro = Some marker" "usable OS marker" "marker \<noteq> path"
    and "descriptors_left OS 2 (crash_files s)"
    and "crash_sections OS K T m ims ro (mach_thread_self K) uap ss"
  shows "\<exists>fs. FIRCLSSignalRecordSignal OS K T m ims (Some ro) savedErrno info uap s =
      Some (Returns (s\<lparr>crashOccurred := True, crash_files := fs\<rparr>)) \<and>
    files fs path = Some (contents_of (crash_files s) path @
      concat (map section_line ((''signal'', signal_value (sys_time OS) savedErrno info) # ss))) \<and>
    files fs marker = Some (contents_of (crash_files s) marker)"
  using record_session [OF assms(4,6,7,5,8) logs_signal [of "sys_time OS" savedErrno info] assms(9)] assms(1-3)
  by (auto simp: FIRCLSSignalRecordSignal_def FIRCLSContextMarkAndCheckIfCrashed_def FIRCLSContextIsInitialized_def Let_def)

text \<open>C6: When a fatal signal arrives, the handler appends to the signal file one line of JSON for
  each of the sections signal, threads, runtime, queue names, thread names, statistics and
  storage, creates the marker file, restores errno and returns; if a second crash comes, the
  process exits with 1.\<close>

theorem signal_crash_reported:
  assumes "initialized ro" "\<not> crashOccurred s"
    and "signal_path (signal_context ro) = Some path" "usable OS path"
    and "previouslyCrashedFileFullPath ro = Some marker" "usable OS marker" "marker \<noteq> path"
    and "descriptors_left OS 2 (crash_files s)"
    and "crash_sections OS K T m ims ro (mach_thread_self K) uap ss"
  shows "\<exists>s'. FIRCLSSignalHandler OS SK junk K T m ims (Some ro) info uap s = Some (Returns s') \<and>
    files (crash_files s') path = Some (contents_of (crash_files s) path @
      concat (map section_line ((''signal'', signal_value (sys_time OS) (current_errno s) info) # ss))) \<and>
    files (crash_files s') marker = Some (contents_of (crash_files s) marker) \<and>
    crashOccurred s' \<and> current_errno s' = current_errno s \<and>
    FIRCLSSignalHandler OS SK junk K T m ims (Some ro) info uap s' = Some (Exits 1)"
proof -
  define st where "st = snd (sys_unblock_all SK (FIRCLSSignalSafeRemoveHandlers SK junk True (crash_signals s)))"
  define s1 where "s1 = s\<lparr>current_errno := 0, crash_signals := st\<rparr>"
  have "\<not> crashOccurred s1" "descriptors_left OS 2 (crash_files s1)" using assms(2,8) by (simp_all add: s1_def)
  from record_signal_gives [OF assms(1) this(1) assms(3-7) this(2) assms(9), of "current_errno s" info]
  obtain fs where fs: "FIRCLSSignalRecordSignal OS K T m ims (Some ro) (current_errno s) info uap s1 =
      Some (Returns (s1\<lparr>crashOccurred := True, crash_files := fs\<rparr>))"
    "files fs path = Some (contents_of (crash_files s) path @
      concat (map section_line ((''signal'', signal_value (sys_time OS) (current_errno s) info) # ss)))"
    "files fs marker = Some (contents_of (crash_files s) marker)"
    by (auto simp: s1_def)
  define s' where "s' = s1\<lparr>crashOccurred := True, crash_files := fs,
    crash_signals := snd (FIRCLSSignalSafeInstallPreexistingHandlers SK junk (signal_context ro) st), current_errno := current_errno s\<rparr>"
  have "FIRCLSSignalHandler OS SK junk K T m ims (Some ro) info uap s = Some (Returns s')"
    using fs(1) by (simp add: FIRCLSSignalHandler_def Let_def split_def s'_def s1_def st_def)
  moreover have "FIRCLSSignalHandler OS SK junk K T m ims (Some ro) info uap s' = Some (Exits 1)"
    using assms(1)
    by (simp add: FIRCLSSignalHandler_def FIRCLSSignalRecordSignal_def FIRCLSContextMarkAndCheckIfCrashed_def
        FIRCLSContextIsInitialized_def s'_def Let_def split_def)
  ultimately show ?thesis using fs(2,3) by (auto simp: s'_def)
qed

text \<open>A process with one thread, which has crashed on the sample stack.\<close>

definition lone_kernel :: "thread_t \<Rightarrow> (arm64_context, u32) kernel" where
  "lone_kernel self = sample_kernel\<lparr>mach_thread_self := self, task_threads := Some [0x103],
     thread_get_state := \<lambda>_. Some (arm64_sample, 0)\<rparr>"

definition sample_stack :: mem where
  "sample_stack = mem_of 0x8000 (concat (map (le_bytes 8) [0x8010, 0x100003000, 0, 0x100004000]))"

definition sample_readonly :: readonly_context where
  "sample_readonly = \<lparr>initialized = True, debuggerAttached = False, previouslyCrashedFileFullPath = Some ''marker'',
     documentDirectoryPath = ''/'', signal_context = start_context\<rparr>"

definition sample_sections :: "(string \<times> json) list" where
  "sample_sections =
     [(''threads'', Array [thread_value (arm64_register_entries (arm64_sample, 0))
         [0x100001000, 0x100002000, 0x100003000, 0x100004000] True 0 0]),
      (''runtime'', runtime_value [] []),
      (''dispatch_queue_names'', Array [Text None]),
      (''thread_names'', Array [Text (Some ''main'')]),
      (''process_stats'', Object (stats_members 1638400 3276800 4915200 6553600 5 1000500 2000000)),
      (''storage'', Object [(''free'', Uint 40960), (''total'', Uint 409600)])]"

lemma quiet_usable: "usable quiet_system path"
proof -
  have "descriptors fs 4 = None"
    if "descriptors fs 3 = Some y" "finite (dom (descriptors fs))" "card (dom (descriptors fs)) < 2" for fs y
  proof (rule ccontr)
    assume "descriptors fs 4 \<noteq> None"
    then have "{3, 4} \<subseteq> dom (descriptors fs)" using that(1) by auto
    then have "card {3, 4 :: int} \<le> card (dom (descriptors fs))" using that(2) by (rule card_mono [rotated])
    with that(3) show False by simp
  qed
  then show ?thesis by (auto simp: usable_def quiet_system_def)
qed

text \<open>The context is that of the signal, or, for a Mach exception, that of the thread.\<close>

lemma sample_crash_sections:
  assumes "uap = Some (arm64_sample, 0) \<or> uap = None \<and> self = 0x203"
  shows "crash_sections quiet_system (lone_kernel self) (arm64_process sample_runtime mach_o_abi arm64_abi) sample_stack None
     sample_readonly 0x103 uap sample_sections"
proof -
  let ?T = "arm64_process sample_runtime mach_o_abi arm64_abi"
  let ?p = "\<lparr>thisThread = self, crashedThread = 0x103, process_threads = [0x103], threadCount = 1\<rparr> :: FIRCLSProcess"
  have p: "snd (FIRCLSProcessInit (lone_kernel self) 0x103) = ?p"
    by (simp add: FIRCLSProcessInit_def lone_kernel_def sample_kernel_def)
  have state: "FIRCLSProcessGetThreadState (lone_kernel self) ?T uap ?p 0x103 = Some (arm64_sample, 0)"
    using assms by (auto simp: FIRCLSProcessGetThreadState_def FIRCLSProcessIsCrashedThread_def FIRCLSProcessIsCurrentThread_def
        lone_kernel_def sample_kernel_def)
  have crashed: "FIRCLSProcessIsCrashedThread (lone_kernel self) ?p 0x103" by (simp add: FIRCLSProcessIsCrashedThread_def)
  have registers: "record_registers ?T = (\<lambda>c. write_uint64_entries (arm64_register_entries c))" by (simp add: arm64_process_def)
  have "recorded_as [0x100001000, 0x100002000, 0x100003000, 0x100004000]
      [0x100001000, 0x100002000, 0x100003000, 0x100004000] 0 0"
    by (intro recorded_plain) simp
  moreover have "unwinds (target_unwinder ?T) sample_stack None (FIRCLSUnwindInit (fst (arm64_sample, 0 :: u32)))
      [0x100001000, 0x100002000, 0x100003000, 0x100004000]"
    using arm64_sample_unwinds by (simp add: arm64_process_def sample_stack_def)
  ultimately have "thread_recorded (lone_kernel self) ?T sample_stack None uap ?p 0x103
      (thread_value (arm64_register_entries (arm64_sample, 0))
         [0x100001000, 0x100002000, 0x100003000, 0x100004000] True 0 0)"
    unfolding thread_recorded_def
    by (intro exI conjI) (auto simp: state crashed registers)
  moreover have "threads_of ?p = [0x103]" by (simp add: threads_of_def FIRCLSProcessGetThread_def)
  moreover have "FIRCLSProcessGetThread ?p 0 = 0x103" by (simp add: FIRCLSProcessGetThread_def)
  moreover have "stats_sections (lone_kernel self) = Some [(''process_stats'', Object (stats_members 1638400 3276800 4915200 6553600 5 1000500 2000000))]"
    by (simp add: stats_sections_def lone_kernel_def sample_kernel_def FIRCLSProcessGetMemoryUsage_def FIRCLSProcessGetInfo_def
      microseconds_def int32_def)
  moreover have "FIRCLSProcessGetObjCSelectorName ?T sample_stack (arm64_sample, 0) = Some []"
    by (simp add: FIRCLSProcessGetObjCSelectorName_def arm64_process_def arm64_selector_address_def in_msg_send_def
        sample_runtime_def arm64_sample_def arm64_GetPC_def)
  moreover note state
  moreover have "FIRCLSProcessGetThreadDispatchQueueName (lone_kernel self) sample_stack 0x103 = Some None"
    by (simp add: FIRCLSProcessGetThreadDispatchQueueName_def lone_kernel_def sample_kernel_def)
  moreover have "thread_name (lone_kernel self) 0x103 = ''main''" by (simp add: lone_kernel_def sample_kernel_def)
  ultimately show ?thesis
    unfolding crash_sections_def p sample_sections_def
    by (intro exI [of _ ?p] exI [of _ "[thread_value (arm64_register_entries (arm64_sample, 0))
         [0x100001000, 0x100002000, 0x100003000, 0x100004000] True 0 0]"] exI [of _ "(arm64_sample, 0)"] exI [of _ "[]"]
        exI [of _ "[]"] exI [of _ "[None]"] exI)
      (auto simp: image_messages_def queue_names_def storage_value_def quiet_system_def)
qed

theorem signal_crash_reported_witness:
  "\<exists>s'. FIRCLSSignalHandler quiet_system quiet_kernel 3 (lone_kernel 0x103) (arm64_process sample_runtime mach_o_abi arm64_abi) sample_stack None
       (Some sample_readonly) (Some \<lparr>si_signo = 11, si_code = 1, si_addr = 0x10\<rparr>) (Some (arm64_sample, 0))
       \<lparr>crash_files = \<lparr>files = [''signal'' \<mapsto> ''old''], descriptors = Map.empty\<rparr>, crash_signals = start_state,
        crashOccurred = False, current_errno = 2\<rparr> = Some (Returns s') \<and>
     files (crash_files s') ''signal'' = Some (''old'' @ concat (map section_line
       ((''signal'', signal_value 5 2 (Some \<lparr>si_signo = 11, si_code = 1, si_addr = 0x10\<rparr>)) # sample_sections))) \<and>
     crashOccurred s'"
proof -
  let ?s = "\<lparr>crash_files = \<lparr>files = [''signal'' \<mapsto> ''old''], descriptors = Map.empty\<rparr>, crash_signals = start_state,
        crashOccurred = False, current_errno = 2\<rparr>"
  have self: "mach_thread_self (lone_kernel 0x103) = 0x103" by (simp add: lone_kernel_def sample_kernel_def)
  have "initialized sample_readonly" "\<not> crashOccurred ?s" "signal_path (signal_context sample_readonly) = Some ''signal''"
    "previouslyCrashedFileFullPath sample_readonly = Some ''marker''" "''marker'' \<noteq> ''signal''"
    "descriptors_left quiet_system 2 (crash_files ?s)"
    by (simp_all add: sample_readonly_def start_context_def descriptors_left_def quiet_system_def)
  from signal_crash_reported [OF this(1,2,3) quiet_usable this(4) quiet_usable this(5,6),
      of "lone_kernel 0x103" "arm64_process sample_runtime mach_o_abi arm64_abi" sample_stack None "Some (arm64_sample, 0)" sample_sections
         quiet_kernel 3 "Some \<lparr>si_signo = 11, si_code = 1, si_addr = 0x10\<rparr>"] sample_crash_sections
  show ?thesis by (simp add: self contents_of_def quiet_system_def) (auto simp del: map_eq_conv)
qed

section \<open>Crashes at once\<close>

text \<open>The test of the mark and its setting are two accesses to \<open>crashOccurred\<close>. A thread that calls
  \<open>FIRCLSContextMarkAndCheckIfCrashed\<close> is at the test, at the setting, or has its answer;
  \<open>mark_access\<close> is its next access, and the accesses of threads interleave.\<close>

datatype mark_pc = Testing | Marking | Answered bool

fun mark_access :: "bool \<Rightarrow> mark_pc \<Rightarrow> (bool \<times> mark_pc) option" where
  "mark_access occurred Testing =
     (if occurred then Some (occurred, Answered True) else Some (occurred, Marking))"
| "mark_access occurred Marking = Some (True, Answered False)"
| "mark_access occurred (Answered crashed) = None"

inductive mark_step :: "bool \<times> (nat \<Rightarrow> mark_pc) \<Rightarrow> bool \<times> (nat \<Rightarrow> mark_pc) \<Rightarrow> bool" where
  access: "mark_access flag (pc i) = Some (flag', p) \<Longrightarrow> mark_step (flag, pc) (flag', pc(i := p))"

inductive_cases mark_stepE: "mark_step (flag, pc) s"

text \<open>Where each thread is after the calls have returned; a thread without an answer has not called.\<close>

definition answered :: "(nat \<Rightarrow> bool option) \<Rightarrow> nat \<Rightarrow> mark_pc" where
  "answered answers i = (case answers i of None \<Rightarrow> Testing | Some crashed \<Rightarrow> Answered crashed)"

lemma answered_simps:
  "answered answers i = Testing \<longleftrightarrow> answers i = None"
  "answered answers i = Answered b \<longleftrightarrow> answers i = Some b"
  "answered answers i \<noteq> Marking"
  by (auto simp: answered_def split: option.split)

text \<open>What holds after any accesses, before and after the mark is set.\<close>

lemma unmarked_invariant:
  assumes "mark_step\<^sup>*\<^sup>* (False, \<lambda>_. Testing) (flag, pc)"
  shows "finite {i. pc i \<noteq> Testing} \<and> (flag \<longleftrightarrow> (\<exists>i. pc i = Answered False)) \<and>
    ((\<exists>i. pc i = Answered True) \<longrightarrow> flag)"
  using assms
proof (induction rule: rtranclp_induct2)
  case (step f p f' p')
  then obtain i q where q: "mark_access f (p i) = Some (f', q)" and p': "p' = p(i := q)"
    by (elim mark_stepE) auto
  have "{j. p' j \<noteq> Testing} \<subseteq> insert i {j. p j \<noteq> Testing}" by (auto simp: p')
  then have fin: "finite {j. p' j \<noteq> Testing}" using step.IH by (auto intro: finite_subset)
  show ?case
  proof (cases "p i")
    case Testing
    then have "f' = f" "q = (if f then Answered True else Marking)" using q by (auto split: if_split_asm)
    then have "(\<exists>j. p' j = Answered False) \<longleftrightarrow> (\<exists>j. p j = Answered False)"
      "(\<exists>j. p' j = Answered True) \<longrightarrow> f \<or> (\<exists>j. p j = Answered True)"
      using Testing by (auto simp: p' split: if_split_asm) (metis mark_pc.distinct(3))+
    then show ?thesis using fin step.IH \<open>f' = f\<close> by blast
  next
    case Marking
    then have "f'" "q = Answered False" using q by auto
    then have "p' i = Answered False" by (simp add: p')
    then show ?thesis using fin \<open>f'\<close> by blast
  next
    case (Answered b)
    then show ?thesis using q by simp
  qed
qed simp

lemma marked_invariant:
  assumes "mark_step\<^sup>*\<^sup>* (True, \<lambda>_. Testing) (flag, pc)"
  shows "flag \<and> finite {i. pc i \<noteq> Testing} \<and> (\<forall>i. pc i \<noteq> Testing \<longrightarrow> pc i = Answered True)"
  using assms
proof (induction rule: rtranclp_induct2)
  case (step f p f' p')
  then obtain i q where q: "mark_access f (p i) = Some (f', q)" and p': "p' = p(i := q)"
    by (elim mark_stepE) auto
  have "{j. p' j \<noteq> Testing} \<subseteq> insert i {j. p j \<noteq> Testing}" by (auto simp: p')
  then have fin: "finite {j. p' j \<noteq> Testing}" using step.IH by (auto intro: finite_subset)
  have "p i \<noteq> Answered True" using q by auto
  then have "p i = Testing" using step.IH by blast
  then have "f'" "q = Answered True" using q step.IH by auto
  then show ?case using fin step.IH by (auto simp: p')
qed simp

text \<open>A schedule in which the threads of a set make the same access one after another.\<close>

lemma all_access:
  assumes "finite S" "mark_access flag p = Some (flag, q)" "\<forall>i \<in> S. pc i = p"
  shows "mark_step\<^sup>*\<^sup>* (flag, pc) (flag, \<lambda>i. if i \<in> S then q else pc i)"
  using assms(1,3)
proof (induction S rule: finite_induct)
  case (insert x S)
  then have "mark_step\<^sup>*\<^sup>* (flag, pc) (flag, \<lambda>i. if i \<in> S then q else pc i)" by simp
  also have "mark_step (flag, \<lambda>i. if i \<in> S then q else pc i)
      (flag, (\<lambda>i. if i \<in> S then q else pc i)(x := q))"
    using insert assms(2) by (intro access) simp
  also have "(\<lambda>i. if i \<in> S then q else pc i)(x := q) = (\<lambda>i. if i \<in> insert x S then q else pc i)"
    by auto
  finally show ?case .
qed simp

lemma marked_schedule:
  assumes "finite (dom answers)" "ran answers \<subseteq> {True}"
  shows "mark_step\<^sup>*\<^sup>* (True, \<lambda>_. Testing) (True, answered answers)"
proof -
  have "answered answers = (\<lambda>i. if i \<in> dom answers then Answered True else Testing)"
  proof
    fix i
    show "answered answers i = (if i \<in> dom answers then Answered True else Testing)"
      using assms(2) ranI [of answers i] by (cases "answers i") (auto simp: answered_def)
  qed
  with all_access [OF assms(1), of True Testing "Answered True" "\<lambda>_. Testing"] show ?thesis by simp
qed

lemma unmarked_schedule:
  assumes "finite (dom answers)" "answers w = Some False"
  shows "mark_step\<^sup>*\<^sup>* (False, \<lambda>_. Testing) (True, answered answers)"
proof -
  let ?W = "{i. answers i = Some False}" and ?R = "{i. answers i = Some True}"
  have fin: "finite ?W" "finite (?W - {w})" "finite ?R"
    using assms(1) by (auto intro: finite_subset [of _ "dom answers"])
  let ?marking = "\<lambda>i. if i \<in> ?W then Marking else Testing"
  let ?first = "?marking(w := Answered False)"
  let ?all = "\<lambda>i. if i \<in> ?W - {w} then Answered False else ?first i"
  have outcome: "answered answers = (\<lambda>i. if i \<in> ?R then Answered True else ?all i)"
    using assms(2) by (auto simp: answered_def split: option.split)
  have "mark_step\<^sup>*\<^sup>* (False, \<lambda>_. Testing) (False, ?marking)"
    by (rule all_access [OF fin(1), where p = Testing]) simp_all
  also have "mark_step (False, ?marking) (True, ?first)"
    using assms(2) by (intro access) simp
  also have "mark_step\<^sup>*\<^sup>* (True, ?first) (True, ?all)"
    by (rule all_access [OF fin(2), where p = Marking]) simp_all
  also have "mark_step\<^sup>*\<^sup>* (True, ?all) (True, answered answers)"
    unfolding outcome using assms(2) by (intro all_access [OF fin(3), where p = Testing]) auto
  finally show ?thesis .
qed

lemma unmarked_outcomes:
  "mark_step\<^sup>*\<^sup>* (False, \<lambda>_. Testing) (flag, answered answers) \<longleftrightarrow>
     finite (dom answers) \<and> (flag \<longleftrightarrow> dom answers \<noteq> {}) \<and> (flag \<longleftrightarrow> False \<in> ran answers)"
proof (cases "dom answers = {}")
  case True
  then have "answered answers = (\<lambda>_. Testing)" by (auto simp: answered_def)
  with True show ?thesis using unmarked_invariant [of flag "answered answers"]
    by (auto simp: answered_simps ran_def)
next
  case False
  have dom: "{i. answered answers i \<noteq> Testing} = dom answers" by (auto simp: answered_simps)
  show ?thesis
  proof
    assume "mark_step\<^sup>*\<^sup>* (False, \<lambda>_. Testing) (flag, answered answers)"
    from unmarked_invariant [OF this] have inv: "finite (dom answers)"
      "flag \<longleftrightarrow> (\<exists>i. answers i = Some False)" "(\<exists>i. answers i = Some True) \<longrightarrow> flag"
      unfolding dom answered_simps(2) by blast+
    from False obtain i b where "answers i = Some b" by blast
    with inv have "flag" by (cases b) auto
    with inv False show "finite (dom answers) \<and>
        (flag \<longleftrightarrow> dom answers \<noteq> {}) \<and> (flag \<longleftrightarrow> False \<in> ran answers)"
      by (simp add: ran_def)
  next
    assume "finite (dom answers) \<and> (flag \<longleftrightarrow> dom answers \<noteq> {}) \<and> (flag \<longleftrightarrow> False \<in> ran answers)"
    then show "mark_step\<^sup>*\<^sup>* (False, \<lambda>_. Testing) (flag, answered answers)"
      using False unmarked_schedule by (auto simp: ran_def)
  qed
qed

lemma marked_outcomes:
  "mark_step\<^sup>*\<^sup>* (True, \<lambda>_. Testing) (flag, answered answers) \<longleftrightarrow>
     finite (dom answers) \<and> flag \<and> ran answers \<subseteq> {True}"
proof
  have dom: "{i. answered answers i \<noteq> Testing} = dom answers" by (auto simp: answered_simps)
  assume "mark_step\<^sup>*\<^sup>* (True, \<lambda>_. Testing) (flag, answered answers)"
  from marked_invariant [OF this] show "finite (dom answers) \<and> flag \<and> ran answers \<subseteq> {True}"
    unfolding dom by (auto simp: answered_simps ran_def)
qed (use marked_schedule in auto)

text \<open>C38: The crash mark is tested and set by two accesses: when threads crash at once, before any
  mark, the calls can return with every assignment of answers in which at least one thread is
  told that there was no crash, and with no other; so all of them can go on to write a report.
  The mark is then set, once it is set every thread is told of it, and a call that runs alone
  gives what the function gives.\<close>

theorem crash_mark_race:
  assumes "initialized ro"
  shows "(mark_step\<^sup>*\<^sup>* (False, \<lambda>_. Testing) (flag, answered answers) \<longleftrightarrow>
       finite (dom answers) \<and> (flag \<longleftrightarrow> dom answers \<noteq> {}) \<and> (flag \<longleftrightarrow> False \<in> ran answers)) \<and>
    (mark_step\<^sup>*\<^sup>* (True, \<lambda>_. Testing) (flag, answered answers) \<longleftrightarrow>
       finite (dom answers) \<and> flag \<and> ran answers \<subseteq> {True}) \<and>
    (mark_step\<^sup>*\<^sup>* (crashOccurred s, \<lambda>_. Testing) (flag, answered [i \<mapsto> crashed]) \<longleftrightarrow>
       FIRCLSContextMarkAndCheckIfCrashed (Some ro) s = (crashed, s\<lparr>crashOccurred := flag\<rparr>))"
proof (intro conjI)
  show "mark_step\<^sup>*\<^sup>* (crashOccurred s, \<lambda>_. Testing) (flag, answered [i \<mapsto> crashed]) \<longleftrightarrow>
       FIRCLSContextMarkAndCheckIfCrashed (Some ro) s = (crashed, s\<lparr>crashOccurred := flag\<rparr>)"
    using assms unmarked_outcomes [of flag "[i \<mapsto> crashed]"] marked_outcomes [of flag "[i \<mapsto> crashed]"]
    by (cases s; cases "crashOccurred s")
      (auto simp: FIRCLSContextMarkAndCheckIfCrashed_def FIRCLSContextIsInitialized_def)
qed (rule unmarked_outcomes marked_outcomes)+

theorem crash_mark_race_witness:
  "\<exists>pc. mark_step\<^sup>*\<^sup>* (False, \<lambda>_. Testing) (True, pc) \<and> pc 1 = Answered False \<and> pc 2 = Answered False"
proof -
  have "initialized sample_readonly" by (simp add: sample_readonly_def)
  from crash_mark_race [OF this, where flag = True and answers = "[1 \<mapsto> False, 2 \<mapsto> False]", THEN conjunct1]
  show ?thesis by (auto simp: answered_def intro!: exI [of _ "answered [1 \<mapsto> False, 2 \<mapsto> False]"])
qed

end
