(* ===== verification/MachException.thy ===== *)
theory MachException
  imports CrashHandler
begin

text \<open>
  Mach exceptions: \<open>Handlers/FIRCLSMachException.h\<close> and \<open>Handlers/FIRCLSMachException.c\<close>.

  The state is which port, behaviour and flavor the task has for each type of exception. The four arrays of
  \<open>FIRCLSMachExceptionOriginalPorts\<close> are a list of their entries, whose length is \<open>count\<close>. What the kernel
  answers is the record \<open>mach_kernel\<close>, a parameter; port rights are not modelled. The numbers are those of
  Darwin.
\<close>

section \<open>The kernel\<close>

record exception_port =
  ep_port :: u32
  ep_behavior :: u32
  ep_flavor :: u32

type_synonym exception_ports = "nat \<Rightarrow> exception_port"

text \<open>\<open>swap_groups\<close> is what \<open>task_swap_exception_ports\<close> reports of the old ports, \<open>None\<close> when it fails; the
  four booleans are the calls that start the thread; \<open>THREAD_STATE_NONE\<close> depends on the processor (13 on
  x86, 5 on ARM).\<close>

record mach_kernel =
  task_self :: u32
  port_allocate :: "u32 option"
  insert_right_ok :: bool
  swap_groups :: "u32 \<Rightarrow> exception_ports \<Rightarrow> (u32 \<times> exception_port) list option"
  set_ports_ok :: "u32 \<Rightarrow> exception_port \<Rightarrow> bool"
  attr_init_ok :: bool
  setdetachstate_ok :: bool
  setstack_ok :: bool
  create_ok :: bool
  bits_remote :: "u32 \<Rightarrow> u32"
  THREAD_STATE_NONE :: u32

definition MACH_PORT_NULL :: u32 where "MACH_PORT_NULL = 0"
definition EXCEPTION_DEFAULT :: u32 where "EXCEPTION_DEFAULT = 1"
definition MACH_EXCEPTION_CODES :: u32 where "MACH_EXCEPTION_CODES = 0x80000000"
definition KERN_SUCCESS :: int where "KERN_SUCCESS = 0"
definition KERN_FAILURE :: int where "KERN_FAILURE = 5"
definition KERN_INVALID_ADDRESS :: u64 where "KERN_INVALID_ADDRESS = 1"
definition KERN_PROTECTION_FAILURE :: u64 where "KERN_PROTECTION_FAILURE = 2"

definition EXC_BAD_ACCESS :: nat where "EXC_BAD_ACCESS = 1"
definition EXC_BAD_INSTRUCTION :: nat where "EXC_BAD_INSTRUCTION = 2"
definition EXC_ARITHMETIC :: nat where "EXC_ARITHMETIC = 3"
definition EXC_BREAKPOINT :: nat where "EXC_BREAKPOINT = 6"
definition EXC_CRASH :: nat where "EXC_CRASH = 10"
definition EXC_GUARD :: nat where "EXC_GUARD = 12"

lemmas exception_numbers = EXC_BAD_ACCESS_def EXC_BAD_INSTRUCTION_def EXC_ARITHMETIC_def EXC_BREAKPOINT_def
  EXC_CRASH_def EXC_GUARD_def

definition EXC_MASK :: "nat \<Rightarrow> u32" where
  "EXC_MASK e = push_bit e 1"

definition task_set_exception_ports :: "mach_kernel \<Rightarrow> u32 \<Rightarrow> exception_port \<Rightarrow> exception_ports \<Rightarrow> bool \<times> exception_ports" where
  "task_set_exception_ports MK msk ep ports =
     (if set_ports_ok MK msk ep then (True, \<lambda>e. if bit msk e then ep else ports e) else (False, ports))"

definition task_swap_exception_ports ::
    "mach_kernel \<Rightarrow> u32 \<Rightarrow> exception_port \<Rightarrow> exception_ports \<Rightarrow> (u32 \<times> exception_port) list option \<times> exception_ports" where
  "task_swap_exception_ports MK msk ep ports =
     (case swap_groups MK msk ports of
        None \<Rightarrow> (None, ports)
      | Some groups \<Rightarrow> (Some groups, \<lambda>e. if bit msk e then ep else ports e))"

section \<open>The context\<close>

record FIRCLSMachExceptionReadContext =
  exception_server_port :: u32
  exception_path :: "string option"
  exception_mask :: u32
  originalPorts :: "(u32 \<times> exception_port) list"

definition FIRCLSMachExceptionMask :: u32 where
  "FIRCLSMachExceptionMask =
     EXC_MASK EXC_BAD_ACCESS OR EXC_MASK EXC_BAD_INSTRUCTION OR EXC_MASK EXC_ARITHMETIC OR
     EXC_MASK EXC_BREAKPOINT OR EXC_MASK EXC_GUARD"

definition FIRCLSMachExceptionMaskForSignal :: "int \<Rightarrow> u32" where
  "FIRCLSMachExceptionMaskForSignal sig =
     (if sig = SIGTRAP then EXC_MASK EXC_BREAKPOINT
      else if sig = SIGSEGV then EXC_MASK EXC_BAD_ACCESS
      else if sig = SIGBUS then EXC_MASK EXC_BAD_ACCESS
      else if sig = SIGILL then EXC_MASK EXC_BAD_INSTRUCTION
      else if sig = SIGABRT then EXC_MASK EXC_CRASH
      else if sig = SIGSYS then EXC_MASK EXC_CRASH
      else if sig = SIGFPE then EXC_MASK EXC_ARITHMETIC
      else 0)"

section \<open>Registration\<close>

definition FIRCLSMachExceptionRegister ::
    "mach_kernel \<Rightarrow> FIRCLSMachExceptionReadContext \<Rightarrow> u32 \<Rightarrow> exception_ports \<Rightarrow>
       bool \<times> FIRCLSMachExceptionReadContext \<times> exception_ports" where
  "FIRCLSMachExceptionRegister MK ctx ignoreMask ports =
     (case port_allocate MK of
        None \<Rightarrow> (False, ctx, ports)
      | Some port \<Rightarrow>
          let ctx = ctx\<lparr>exception_server_port := port\<rparr> in
          if \<not> insert_right_ok MK then (False, ctx, ports)
          else let ctx = ctx\<lparr>exception_mask := FIRCLSMachExceptionMask AND NOT ignoreMask\<rparr>;
                   (groups, ports) = task_swap_exception_ports MK (exception_mask ctx)
                     \<lparr>ep_port = port, ep_behavior = EXCEPTION_DEFAULT OR MACH_EXCEPTION_CODES, ep_flavor = THREAD_STATE_NONE MK\<rparr> ports
               in case groups of
                    None \<Rightarrow> (False, ctx, ports)
                  | Some groups \<Rightarrow> (True, ctx\<lparr>originalPorts := groups\<rparr>, ports))"

fun restore_ports_loop :: "mach_kernel \<Rightarrow> (u32 \<times> exception_port) list \<Rightarrow> u32 \<Rightarrow> exception_ports \<Rightarrow> u32 \<times> exception_ports" where
  "restore_ports_loop MK [] msk ports = (msk, ports)"
| "restore_ports_loop MK ((m, ep) # groups) msk ports =
     restore_ports_loop MK groups (msk AND NOT m) (snd (task_set_exception_ports MK m ep ports))"

definition FIRCLSMachExceptionUnregister ::
    "mach_kernel \<Rightarrow> (u32 \<times> exception_port) list \<Rightarrow> u32 \<Rightarrow> exception_ports \<Rightarrow> bool \<times> exception_ports" where
  "FIRCLSMachExceptionUnregister MK groups msk ports =
     (let (msk, ports) = restore_ports_loop MK groups msk ports
      in task_set_exception_ports MK msk
           \<lparr>ep_port = MACH_PORT_NULL, ep_behavior = EXCEPTION_DEFAULT OR MACH_EXCEPTION_CODES, ep_flavor = THREAD_STATE_NONE MK\<rparr> ports)"

text \<open>Whether the thread of the server runs.\<close>

definition FIRCLSMachExceptionThreadStart :: "mach_kernel \<Rightarrow> bool" where
  "FIRCLSMachExceptionThreadStart MK =
     (if \<not> attr_init_ok MK then False
      else if \<not> setdetachstate_ok MK then False
      else if \<not> setstack_ok MK then False
      else if \<not> create_ok MK then False
      else True)"

definition FIRCLSMachExceptionInit ::
    "operating_system \<Rightarrow> mach_kernel \<Rightarrow> u32 \<Rightarrow> FIRCLSMachExceptionReadContext \<Rightarrow> exception_ports \<Rightarrow> file_system \<Rightarrow>
       FIRCLSMachExceptionReadContext \<times> exception_ports \<times> file_system" where
  "FIRCLSMachExceptionInit OS MK ignoreMask ctx ports fs =
     (let fs = (case exception_path ctx of Some path \<Rightarrow> snd (FIRCLSUnlinkIfExists OS path fs) | None \<Rightarrow> fs);
          (registered, ctx, ports) = FIRCLSMachExceptionRegister MK ctx ignoreMask ports
      in if \<not> registered then (ctx, ports, fs)
         else if \<not> FIRCLSMachExceptionThreadStart MK
         then (ctx, snd (FIRCLSMachExceptionUnregister MK (originalPorts ctx) (exception_mask ctx) ports), fs)
         else (ctx, ports, fs))"

section \<open>Names\<close>

definition arithmetic_codes :: "(u64 \<times> string) list" where
  "arithmetic_codes =
     [(1, ''EXC_I386_DIV''), (2, ''EXC_I386_INTO''), (3, ''EXC_I386_NOEXT''), (4, ''EXC_I386_EXTOVR''), (5, ''EXC_I386_EXTERR''),
      (6, ''EXC_I386_EMERR''), (7, ''EXC_I386_BOUND''), (8, ''EXC_I386_SSEEXTERR'')]"

definition breakpoint_codes :: "(u64 \<times> string) list" where
  "breakpoint_codes =
     [(0, ''EXC_I386_DIVERR''), (1, ''EXC_I386_SGLSTP''), (2, ''EXC_I386_NMIFLT''), (3, ''EXC_I386_BPTFLT''), (4, ''EXC_I386_INTOFLT''),
      (5, ''EXC_I386_BOUNDFLT''), (6, ''EXC_I386_INVOPFLT''), (7, ''EXC_I386_NOEXTFLT''), (9, ''EXC_I386_EXTOVRFLT''),
      (10, ''EXC_I386_INVTSSFLT''), (11, ''EXC_I386_SEGNPFLT''), (12, ''EXC_I386_STKFLT''), (13, ''EXC_I386_GPFLT''),
      (14, ''EXC_I386_PGFLT''), (16, ''EXC_I386_EXTERRFLT''), (17, ''EXC_I386_ALIGNFLT''), (33, ''EXC_I386_ENDPERR''),
      (32, ''EXC_I386_ENOEXTFLT'')]"

text \<open>The two strings, \<open>None\<close> for \<open>NULL\<close>; \<open>x86\<close> is \<open>CLS_CPU_X86\<close>.\<close>

definition FIRCLSMachExceptionNameLookup :: "bool \<Rightarrow> nat \<Rightarrow> u64 \<Rightarrow> string option \<times> string option" where
  "FIRCLSMachExceptionNameLookup x86 number code =
     (if number = EXC_BAD_ACCESS then
        (Some ''EXC_BAD_ACCESS'',
         if code = KERN_INVALID_ADDRESS then Some ''KERN_INVALID_ADDRESS''
         else if code = KERN_PROTECTION_FAILURE then Some ''KERN_PROTECTION_FAILURE'' else None)
      else if number = EXC_BAD_INSTRUCTION then
        (Some ''EXC_BAD_INSTRUCTION'', if x86 then Some ''EXC_I386_INVOP'' else None)
      else if number = EXC_ARITHMETIC then
        (Some ''EXC_ARITHMETIC'', if x86 then map_of arithmetic_codes code else None)
      else if number = EXC_BREAKPOINT then
        (Some ''EXC_BREAKPOINT'', if x86 then map_of breakpoint_codes code else None)
      else if number = EXC_GUARD then (Some ''EXC_GUARD'', None)
      else (None, None))"

section \<open>Messages\<close>

definition EXCEPTION_CODE_MAX :: nat where "EXCEPTION_CODE_MAX = 2"

record MachExceptionMessage =
  msg_bits :: u32
  msg_remote_port :: u32
  msg_id :: u32
  msg_thread :: thread_t
  msg_task :: u32
  msg_exception :: u32
  codeCnt :: u32
  msg_code :: "u64 list"

record MachExceptionReply =
  reply_bits :: u32
  reply_remote_port :: u32
  reply_id :: u32
  retCode :: int

text \<open>The loop over the codes; reading behind the array is \<open>None\<close>.\<close>

fun record_codes_loop :: "nat \<Rightarrow> nat \<Rightarrow> u64 list \<Rightarrow> FIRCLSFile \<Rightarrow> FIRCLSFile option" where
  "record_codes_loop 0 i codes f = Some f"
| "record_codes_loop (Suc n) i codes f =
     (if i < length codes then record_codes_loop n (Suc i) codes (FIRCLSFileWriteArrayEntryUint64 f (codes ! i))
      else None)"

definition mach_exception_section ::
    "bool \<Rightarrow> u64 \<Rightarrow> FIRCLSMachExceptionReadContext \<Rightarrow> MachExceptionMessage \<Rightarrow> FIRCLSFile \<Rightarrow> FIRCLSFile option" where
  "mach_exception_section x86 time ctx msg f =
     do {
       let f = FIRCLSFileWriteSectionStart f ''mach_exception'';
       let f = FIRCLSFileWriteHashStart f;
       let f = FIRCLSFileWriteHashEntryUint64 f ''exception'' (scast (msg_exception msg));
       let f = FIRCLSFileWriteHashKey f ''codes'';
       let f = FIRCLSFileWriteArrayStart f;
       f \<leftarrow> record_codes_loop (unat (codeCnt msg)) 0 (msg_code msg) f;
       let f = FIRCLSFileWriteArrayEnd f;
       let (name, codeName) = FIRCLSMachExceptionNameLookup x86 (unat (msg_exception msg))
                                (if codeCnt msg > 0 then msg_code msg ! 0 else 0);
       let f = FIRCLSFileWriteHashEntryString f ''name'' name;
       let f = FIRCLSFileWriteHashEntryString f ''code_name'' codeName;
       let f = FIRCLSFileWriteHashEntryUint64 f ''original_ports'' (of_nat (length (originalPorts ctx)));
       let f = FIRCLSFileWriteHashEntryUint64 f ''time'' time;
       let f = FIRCLSFileWriteHashEnd f;
       Some (FIRCLSFileWriteSectionEnd f) }"

definition FIRCLSMachExceptionRecord ::
    "bool \<Rightarrow> operating_system \<Rightarrow> ('r, 'x) kernel \<Rightarrow> ('r, 'x) process_target \<Rightarrow> mem \<Rightarrow> images \<Rightarrow> readonly_context \<Rightarrow>
       FIRCLSMachExceptionReadContext \<Rightarrow> MachExceptionMessage \<Rightarrow> crash_state \<Rightarrow> (bool \<times> crash_state) outcome option" where
  "FIRCLSMachExceptionRecord x86 OS K T m ims ro ctx msg s =
     (let (crashed, s) = FIRCLSContextMarkAndCheckIfCrashed (Some ro) s in
      if crashed then Some (Exits 1)
      else let (file, fs) = FIRCLSFileInitWithPath OS (exception_path ctx) False (crash_files s) in
        (case file of
           None \<Rightarrow> Some (Returns (False, s\<lparr>crash_files := fs\<rparr>))
         | Some file \<Rightarrow> do {
             f \<leftarrow> mach_exception_section x86 (sys_time OS) ctx msg (handle file);
             (f, fs, _) \<leftarrow> FIRCLSHandler OS K T m ims ro f (msg_thread msg) None fs;
             let (_, fs) = FIRCLSFileClose OS (file\<lparr>handle := f\<rparr>) fs;
             Some (Returns (True, s\<lparr>crash_files := fs\<rparr>)) }))"

text \<open>The result code, the exception ports and the state.\<close>

definition FIRCLSMachExceptionDispatchMessage ::
    "bool \<Rightarrow> operating_system \<Rightarrow> signal_kernel \<Rightarrow> u32 \<Rightarrow> mach_kernel \<Rightarrow> ('r, 'x) kernel \<Rightarrow> ('r, 'x) process_target \<Rightarrow> mem \<Rightarrow>
       images \<Rightarrow> readonly_context \<Rightarrow> FIRCLSMachExceptionReadContext \<Rightarrow> MachExceptionMessage \<Rightarrow>
       exception_ports \<times> crash_state \<Rightarrow> (int \<times> exception_ports \<times> crash_state) outcome option" where
  "FIRCLSMachExceptionDispatchMessage x86 OS SK junk MK K T m ims ro ctx msg state =
     (let (ports, s) = state in
      if msg_task msg \<noteq> task_self MK then Some (Returns (KERN_FAILURE, ports, s))
      else let (ok, ports) = FIRCLSMachExceptionUnregister MK (originalPorts ctx) (exception_mask ctx) ports in
        if \<not> ok then Some (Returns (KERN_FAILURE, ports, s))
        else let (ok, st) = FIRCLSSignalSafeInstallPreexistingHandlers SK junk (signal_context ro) (crash_signals s);
                 s = s\<lparr>crash_signals := st\<rparr>
             in if \<not> ok then Some (Returns (KERN_FAILURE, ports, s))
                else do {
                  result \<leftarrow> FIRCLSMachExceptionRecord x86 OS K T m ims ro ctx msg s;
                  case result of
                    Exits code \<Rightarrow> Some (Exits code)
                  | Returns (ok, s) \<Rightarrow> Some (Returns (if ok then KERN_SUCCESS else KERN_FAILURE, ports, s)) })"

definition FIRCLSMachExceptionReply :: "mach_kernel \<Rightarrow> MachExceptionMessage \<Rightarrow> int \<Rightarrow> MachExceptionReply" where
  "FIRCLSMachExceptionReply MK msg result =
     \<lparr>reply_bits = bits_remote MK (msg_bits msg), reply_remote_port = msg_remote_port msg,
      reply_id = msg_id msg + 100, retCode = result\<rparr>"

text \<open>The server: what it receives, \<open>None\<close> for an error, and whether a reply can be sent, are parameters. It
  waits when there are no more messages, stops after an error, or the process exits; the replies sent are
  collected.\<close>

datatype server_end = Waiting | Stopped | Process_exit int

fun server_loop ::
    "(MachExceptionMessage \<Rightarrow> 's \<Rightarrow> (int \<times> 's) outcome option) \<Rightarrow> mach_kernel \<Rightarrow> (MachExceptionReply \<Rightarrow> bool) \<Rightarrow>
       MachExceptionMessage option list \<Rightarrow> MachExceptionReply list \<Rightarrow> 's \<Rightarrow> (server_end \<times> MachExceptionReply list \<times> 's) option" where
  "server_loop dispatch MK send_ok [] replies s = Some (Waiting, replies, s)"
| "server_loop dispatch MK send_ok (None # input) replies s = Some (Stopped, replies, s)"
| "server_loop dispatch MK send_ok (Some msg # input) replies s =
     do {
       result \<leftarrow> dispatch msg s;
       case result of
         Exits code \<Rightarrow> Some (Process_exit code, replies, s)
       | Returns (code, s) \<Rightarrow>
           let reply = FIRCLSMachExceptionReply MK msg code in
           if \<not> send_ok reply then Some (Stopped, replies, s)
           else server_loop dispatch MK send_ok input (replies @ [reply]) s }"

definition FIRCLSMachExceptionServer ::
    "bool \<Rightarrow> operating_system \<Rightarrow> signal_kernel \<Rightarrow> u32 \<Rightarrow> mach_kernel \<Rightarrow> ('r, 'x) kernel \<Rightarrow> ('r, 'x) process_target \<Rightarrow> mem \<Rightarrow>
       images \<Rightarrow> readonly_context \<Rightarrow> FIRCLSMachExceptionReadContext \<Rightarrow> (MachExceptionReply \<Rightarrow> bool) \<Rightarrow>
       MachExceptionMessage option list \<Rightarrow> exception_ports \<times> crash_state \<Rightarrow>
       (server_end \<times> MachExceptionReply list \<times> exception_ports \<times> crash_state) option" where
  "FIRCLSMachExceptionServer x86 OS SK junk MK K T m ims ro ctx send_ok input state =
     server_loop (FIRCLSMachExceptionDispatchMessage x86 OS SK junk MK K T m ims ro ctx) MK send_ok input [] state"

section \<open>The ports come back\<close>

text \<open>What the kernel reports of the old ports: every entry stands for types of exceptions in the mask and has
  their port, and a type in no entry had none.\<close>

definition reports_old :: "u32 \<Rightarrow> exception_ports \<Rightarrow> (u32 \<times> exception_port) list \<Rightarrow> bool" where
  "reports_old msk ports groups \<longleftrightarrow>
     (\<forall>(m, ep) \<in> set groups. \<forall>e. bit m e \<longrightarrow> bit msk e \<and> ports e = ep) \<and>
     (\<forall>e. bit msk e \<and> (\<forall>(m, ep) \<in> set groups. \<not> bit m e) \<longrightarrow> ep_port (ports e) = MACH_PORT_NULL)"

lemma EXC_MASK_bit: "bit (EXC_MASK e) i \<longleftrightarrow> i = e \<and> e < 32"
  by (auto simp: EXC_MASK_def bit_simps)

lemma mask_bits: "bit FIRCLSMachExceptionMask e \<longleftrightarrow> e \<in> {EXC_BAD_ACCESS, EXC_BAD_INSTRUCTION, EXC_ARITHMETIC, EXC_BREAKPOINT, EXC_GUARD}"
  by (auto simp: FIRCLSMachExceptionMask_def bit_or_iff EXC_MASK_bit exception_numbers)

lemma restore_ports_gives:
  assumes "\<forall>m ep. set_ports_ok MK m ep" and "\<forall>(m, ep) \<in> set groups. \<forall>e. bit m e \<longrightarrow> old e = ep"
  shows "snd (restore_ports_loop MK groups msk ports) e = (if \<exists>(m, ep) \<in> set groups. bit m e then old e else ports e) \<and>
    (bit (fst (restore_ports_loop MK groups msk ports)) e \<longleftrightarrow> bit msk e \<and> \<not> (\<exists>(m, ep) \<in> set groups. bit m e))"
  using assms(2)
proof (induction groups arbitrary: msk ports)
  case (Cons group groups)
  obtain m ep where g: "group = (m, ep)" by (cases group)
  have "\<forall>(m, ep) \<in> set groups. \<forall>e. bit m e \<longrightarrow> old e = ep" and "\<forall>e. bit m e \<longrightarrow> old e = ep"
    using Cons.prems by (auto simp: g)
  with Cons.IH [OF this(1), of "msk AND NOT m" "snd (task_set_exception_ports MK m ep ports)"] assms(1) show ?case
    by (auto simp: g task_set_exception_ports_def bit_simps dest: bit_imp_le_length)
qed simp

text \<open>C14: Registration gives exactly the handled, not ignored types of exceptions the port of the
  server; undoing it, as a dispatched exception or a failed thread start does, gives every type
  the port it had before, with behaviour and flavor where there was a port.\<close>

theorem exception_ports_restored:
  assumes "FIRCLSMachExceptionRegister MK ctx ignoreMask ports = (True, ctx', ports1)"
    and "\<And>groups. swap_groups MK (exception_mask ctx') ports = Some groups \<Longrightarrow> reports_old (exception_mask ctx') ports groups"
    and "\<forall>m ep. set_ports_ok MK m ep"
  shows "\<exists>ports2. FIRCLSMachExceptionUnregister MK (originalPorts ctx') (exception_mask ctx') ports1 = (True, ports2) \<and>
    (\<forall>e. if e \<in> {EXC_BAD_ACCESS, EXC_BAD_INSTRUCTION, EXC_ARITHMETIC, EXC_BREAKPOINT, EXC_GUARD} \<and> \<not> bit ignoreMask e
         then ep_port (ports1 e) = exception_server_port ctx' else ports1 e = ports e) \<and>
    (\<forall>e. ep_port (ports2 e) = ep_port (ports e) \<and> (ep_port (ports e) \<noteq> MACH_PORT_NULL \<longrightarrow> ports2 e = ports e)) \<and>
    (\<not> FIRCLSMachExceptionThreadStart MK \<longrightarrow>
       fst (FIRCLSMachExceptionInit OS MK ignoreMask ctx ports fs) = ctx' \<and>
       fst (snd (FIRCLSMachExceptionInit OS MK ignoreMask ctx ports fs)) = ports2)"
proof -
  let ?m = "FIRCLSMachExceptionMask AND NOT ignoreMask"
  let ?null = "\<lparr>ep_port = MACH_PORT_NULL, ep_behavior = EXCEPTION_DEFAULT OR MACH_EXCEPTION_CODES, ep_flavor = THREAD_STATE_NONE MK\<rparr>"
  obtain port groups where r: "port_allocate MK = Some port" "swap_groups MK ?m ports = Some groups"
    "ctx' = ctx\<lparr>exception_server_port := port, exception_mask := ?m, originalPorts := groups\<rparr>"
    "ports1 = (\<lambda>e. if bit ?m e then \<lparr>ep_port = port, ep_behavior = EXCEPTION_DEFAULT OR MACH_EXCEPTION_CODES,
        ep_flavor = THREAD_STATE_NONE MK\<rparr> else ports e)"
    using assms(1)
    by (auto simp: FIRCLSMachExceptionRegister_def task_swap_exception_ports_def Let_def split: option.splits if_splits)
  have old: "reports_old ?m ports groups" using assms(2) r(2,3) by simp
  then have groups: "\<forall>(m, ep) \<in> set groups. \<forall>e. bit m e \<longrightarrow> ports e = ep" by (auto simp: reports_old_def)
  obtain msk p where l: "restore_ports_loop MK groups ?m ports1 = (msk, p)" by fastforce
  note loop = restore_ports_gives [OF assms(3) groups, of ?m ports1, unfolded l fst_conv snd_conv]
  define ports2 where "ports2 = (\<lambda>e. if bit msk e then ?null else p e)"
  have un: "FIRCLSMachExceptionUnregister MK groups ?m ports1 = (True, ports2)"
    using assms(3) by (simp add: FIRCLSMachExceptionUnregister_def l task_set_exception_ports_def ports2_def)
  have first: "if e \<in> {EXC_BAD_ACCESS, EXC_BAD_INSTRUCTION, EXC_ARITHMETIC, EXC_BREAKPOINT, EXC_GUARD} \<and> \<not> bit ignoreMask e
      then ep_port (ports1 e) = port else ports1 e = ports e" for e
    using mask_bits [of e] by (auto simp: r(4) bit_simps dest: bit_imp_le_length)
  have restored: "ep_port (ports2 e) = ep_port (ports e) \<and> (ep_port (ports e) \<noteq> MACH_PORT_NULL \<longrightarrow> ports2 e = ports e)" for e
  proof (cases "\<exists>(m, ep) \<in> set groups. bit m e")
    case True
    then show ?thesis using loop [of e] by (auto simp: ports2_def)
  next
    case False
    show ?thesis
    proof (cases "bit ?m e")
      case bit: True
      then have "ep_port (ports e) = MACH_PORT_NULL" using old False by (auto simp: reports_old_def)
      moreover have "bit msk e" using loop [of e] bit False by simp
      ultimately show ?thesis by (simp add: ports2_def)
    next
      case bit: False
      then have "\<not> bit msk e" "p e = ports e" using loop [of e] False by (simp_all add: r(4) if_distrib cong: if_cong)
      then show ?thesis by (simp add: ports2_def)
    qed
  qed
  have init: "fst (FIRCLSMachExceptionInit OS MK ignoreMask ctx ports fs) = ctx' \<and>
      fst (snd (FIRCLSMachExceptionInit OS MK ignoreMask ctx ports fs)) = ports2" if "\<not> FIRCLSMachExceptionThreadStart MK"
    using that un by (simp add: FIRCLSMachExceptionInit_def assms(1) Let_def r(3))
  show ?thesis using un first restored init by (intro exI [of _ ports2] conjI) (auto simp: r(3))
qed

text \<open>A kernel that reports every type of exception by itself.\<close>

definition quiet_mach :: mach_kernel where
  "quiet_mach = \<lparr>task_self = 0x203, port_allocate = Some 0x1003, insert_right_ok = True,
     swap_groups = \<lambda>msk ports. Some (map (\<lambda>e. (EXC_MASK e, ports e)) (filter (bit msk) [0..<32])),
     set_ports_ok = \<lambda>_ _. True, attr_init_ok = True, setdetachstate_ok = True, setstack_ok = True, create_ok = False,
     bits_remote = \<lambda>b. b AND 0x1f, THREAD_STATE_NONE = 5\<rparr>"

lemma quiet_reports: "reports_old msk ports (map (\<lambda>e. (EXC_MASK e, ports e)) (filter (bit msk) [0..<32]))"
proof -
  have "\<exists>i < 32. bit msk i \<and> i = e" if "bit msk e" for e using that bit_imp_le_length [OF that] by auto
  then show ?thesis by (fastforce simp: reports_old_def EXC_MASK_bit)
qed

definition mach_context :: FIRCLSMachExceptionReadContext where
  "mach_context = \<lparr>exception_server_port = 0, exception_path = Some ''mach'', exception_mask = 0, originalPorts = []\<rparr>"

definition debugger_ports :: exception_ports where
  "debugger_ports e = (if e = EXC_BREAKPOINT then \<lparr>ep_port = 0x77, ep_behavior = 1, ep_flavor = 6\<rparr>
                       else \<lparr>ep_port = 0, ep_behavior = 0, ep_flavor = 0\<rparr>)"

theorem exception_ports_restored_witness:
  "\<exists>ctx' ports1 ports2. FIRCLSMachExceptionRegister quiet_mach mach_context (EXC_MASK EXC_GUARD) debugger_ports = (True, ctx', ports1) \<and>
     FIRCLSMachExceptionUnregister quiet_mach (originalPorts ctx') (exception_mask ctx') ports1 = (True, ports2) \<and>
     ports1 EXC_BREAKPOINT \<noteq> debugger_ports EXC_BREAKPOINT \<and> ports2 EXC_BREAKPOINT = debugger_ports EXC_BREAKPOINT \<and>
     ep_port (ports2 EXC_BAD_ACCESS) = MACH_PORT_NULL"
proof -
  obtain ctx' ports1 where r: "FIRCLSMachExceptionRegister quiet_mach mach_context (EXC_MASK EXC_GUARD) debugger_ports = (True, ctx', ports1)"
    and port: "exception_server_port ctx' = 0x1003"
    by (simp add: FIRCLSMachExceptionRegister_def quiet_mach_def task_swap_exception_ports_def Let_def)
  have "reports_old (exception_mask ctx') debugger_ports groups"
    if "swap_groups quiet_mach (exception_mask ctx') debugger_ports = Some groups" for groups
    using that quiet_reports by (auto simp: quiet_mach_def)
  moreover have "\<forall>m ep. set_ports_ok quiet_mach m ep" by (simp add: quiet_mach_def)
  ultimately obtain ports2 where p:
    "FIRCLSMachExceptionUnregister quiet_mach (originalPorts ctx') (exception_mask ctx') ports1 = (True, ports2)"
    "\<forall>e. if e \<in> {EXC_BAD_ACCESS, EXC_BAD_INSTRUCTION, EXC_ARITHMETIC, EXC_BREAKPOINT, EXC_GUARD} \<and> \<not> bit (EXC_MASK EXC_GUARD) e
         then ep_port (ports1 e) = 0x1003 else ports1 e = debugger_ports e"
    "\<forall>e. ep_port (ports2 e) = ep_port (debugger_ports e) \<and>
         (ep_port (debugger_ports e) \<noteq> MACH_PORT_NULL \<longrightarrow> ports2 e = debugger_ports e)"
    using exception_ports_restored [OF r] port by metis
  have "ep_port (ports1 EXC_BREAKPOINT) = 0x1003"
    using p(2) [rule_format, of EXC_BREAKPOINT] by (simp add: EXC_MASK_bit exception_numbers)
  moreover have "ep_port (debugger_ports EXC_BREAKPOINT) = 0x77" "ep_port (debugger_ports EXC_BAD_ACCESS) = MACH_PORT_NULL"
    by (simp_all add: debugger_ports_def exception_numbers MACH_PORT_NULL_def)
  ultimately show ?thesis using r p(1) p(3) [rule_format, of EXC_BREAKPOINT] p(3) [rule_format, of EXC_BAD_ACCESS]
    by (intro exI [of _ ctx'] exI [of _ ports1] exI [of _ ports2]) (auto simp: MACH_PORT_NULL_def)
qed

section \<open>A crash in this task is reported, the others are refused\<close>

definition mach_value :: "bool \<Rightarrow> u64 \<Rightarrow> FIRCLSMachExceptionReadContext \<Rightarrow> MachExceptionMessage \<Rightarrow> json" where
  "mach_value x86 time ctx msg =
     (let codes = take (unat (codeCnt msg)) (msg_code msg);
          names = FIRCLSMachExceptionNameLookup x86 (unat (msg_exception msg)) (if codes = [] then 0 else hd codes)
      in Object [(''exception'', Uint (scast (msg_exception msg))), (''codes'', Array (map Uint codes)),
                 (''name'', Text (fst names)), (''code_name'', Text (snd names)),
                 (''original_ports'', Uint (of_nat (length (originalPorts ctx)))), (''time'', Uint time)])"

lemma record_codes_gives:
  assumes "i + n \<le> length codes"
  shows "record_codes_loop n i codes f = Some (fold (\<lambda>v f. FIRCLSFileWriteArrayEntryUint64 f v) (take n (drop i codes)) f)"
  using assms
proof (induction n arbitrary: i f)
  case (Suc n)
  then have "drop i codes = codes ! i # drop (Suc i) codes" by (simp add: Cons_nth_drop_Suc)
  with Suc show ?case by simp
qed simp

lemma writes_numbers: "writes_all (fold (\<lambda>v f. FIRCLSFileWriteArrayEntryUint64 f v) vs) (map json_text (map Uint vs))"
  using writes_all_fold [of vs "\<lambda>v f. FIRCLSFileWriteArrayEntryUint64 f v" "\<lambda>v. json_text (Uint v)"] writes_array_entry(1)
  by (simp add: comp_def)

lemma logs_mach_exception:
  assumes "unat (codeCnt msg) \<le> length (msg_code msg)"
  shows "logs (mach_exception_section x86 time ctx msg) [(''mach_exception'', mach_value x86 time ctx msg)]"
proof -
  let ?n = "unat (codeCnt msg)"
  define codes where "codes = take ?n (msg_code msg)"
  let ?w = "fold (\<lambda>v f. FIRCLSFileWriteArrayEntryUint64 f v) codes"
  have loop: "record_codes_loop ?n 0 (msg_code msg) f = Some (?w f)" for f
    using record_codes_gives [of 0 ?n "msg_code msg" f] assms by (simp add: codes_def)
  have first: "(if codeCnt msg > 0 then msg_code msg ! 0 else 0) = (if codes = [] then 0 else hd codes)"
    using assms by (cases "msg_code msg"; cases ?n) (auto simp: codes_def word_gt_0 unat_eq_0)
  have member: "writes_all (\<lambda>f. w (FIRCLSFileWriteArrayEnd (?w (FIRCLSFileWriteArrayStart (FIRCLSFileWriteHashKey f ''codes'')))))
      (map member_text ((''codes'', Array (map Uint codes)) # kvs))" if "writes_all w (map member_text kvs)" for w kvs
    using writes_all_Cons [OF writes_member [OF writes_array [OF writes_numbers]] that] by simp
  obtain name codeName where names: "FIRCLSMachExceptionNameLookup x86 (unat (msg_exception msg))
      (if codes = [] then 0 else hd codes) = (name, codeName)" by fastforce
  note members = writes_member_entries(1) [OF member [OF writes_member_entries(2) [OF writes_member_entries(2)
      [OF writes_member_entries(1) [OF writes_member_entries(1) [OF writes_members_nil]]]]]]
  note result = logs_section [OF writes_hash [OF members], where name = "''mach_exception''",
      of "''exception''" "scast (msg_exception msg)" "''name''" name "''code_name''" codeName "''original_ports''"
         "of_nat (length (originalPorts ctx))" "''time''" time]
  from result show ?thesis
    by (simp add: mach_exception_section_def [abs_def] mach_value_def loop first names codes_def [symmetric] Let_def)
qed

text \<open>Codes behind the array are read: \<open>codeCnt\<close> is not compared with its size.\<close>

lemma too_many_codes:
  "i \<le> length codes \<Longrightarrow> length codes < i + n \<Longrightarrow> record_codes_loop n i codes f = None"
  by (induction n arbitrary: i f) auto

lemma codes_behind_the_array:
  "length codes = EXCEPTION_CODE_MAX \<Longrightarrow> n > EXCEPTION_CODE_MAX \<Longrightarrow> record_codes_loop n 0 codes f = None"
  by (rule too_many_codes) simp_all

lemma server_refuses:
  assumes "\<And>msg. msg \<in> set others \<Longrightarrow> dispatch msg s = Some (Returns (KERN_FAILURE, s))" and "\<And>r. send_ok r"
  shows "server_loop dispatch MK send_ok (map Some others @ input) replies s =
    server_loop dispatch MK send_ok input (replies @ map (\<lambda>msg. FIRCLSMachExceptionReply MK msg KERN_FAILURE) others) s"
  using assms(1)
proof (induction others arbitrary: replies)
  case (Cons msg others)
  then show ?case using assms(2) by simp
qed simp

lemma unregister_ok: "\<forall>m ep. set_ports_ok MK m ep \<Longrightarrow> fst (FIRCLSMachExceptionUnregister MK groups msk ports)"
  by (simp add: FIRCLSMachExceptionUnregister_def task_set_exception_ports_def split_def Let_def)

lemma mach_record_gives:
  assumes "initialized ro" "\<not> crashOccurred s"
    and "exception_path ctx = Some path" "usable OS path"
    and "previouslyCrashedFileFullPath ro = Some marker" "usable OS marker" "marker \<noteq> path"
    and "descriptors_left OS 2 (crash_files s)" "unat (codeCnt msg) \<le> length (msg_code msg)"
    and "crash_sections OS K T m ims ro (msg_thread msg) None ss"
  shows "\<exists>fs. FIRCLSMachExceptionRecord x86 OS K T m ims ro ctx msg s =
      Some (Returns (True, s\<lparr>crashOccurred := True, crash_files := fs\<rparr>)) \<and>
    files fs path = Some (contents_of (crash_files s) path @
      concat (map section_line ((''mach_exception'', mach_value x86 (sys_time OS) ctx msg) # ss))) \<and>
    files fs marker = Some (contents_of (crash_files s) marker)"
  using record_session [OF assms(4,6,7,5,8) logs_mach_exception [OF assms(9), of x86 "sys_time OS" ctx] assms(10)] assms(1-3)
  by (auto simp: FIRCLSMachExceptionRecord_def FIRCLSContextMarkAndCheckIfCrashed_def FIRCLSContextIsInitialized_def Let_def)

text \<open>C7: The exception server answers the messages of other tasks with KERN_FAILURE and does nothing
  else for them; the first exception of its own task it reports completely to the file, with the
  ports given back and the answer KERN_SUCCESS, and at a second one the process exits with 1.\<close>

theorem mach_crash_reported:
  assumes "initialized ro" "\<not> crashOccurred s"
    and "exception_path ctx = Some path" "usable OS path"
    and "previouslyCrashedFileFullPath ro = Some marker" "usable OS marker" "marker \<noteq> path"
    and "descriptors_left OS 2 (crash_files s)"
    and "\<forall>m ep. set_ports_ok MK m ep" and "\<forall>r. send_ok r"
    and "\<forall>st. fst (FIRCLSSignalSafeInstallPreexistingHandlers SK junk (signal_context ro) st)"
    and "\<forall>other \<in> set others. msg_task other \<noteq> task_self MK"
    and "msg_task msg = task_self MK" "unat (codeCnt msg) \<le> length (msg_code msg)"
    and "crash_sections OS K T m ims ro (msg_thread msg) None ss"
  shows "\<exists>s'. FIRCLSMachExceptionServer x86 OS SK junk MK K T m ims ro ctx send_ok (map Some others @ [Some msg]) (ports, s) =
      Some (Waiting, map (\<lambda>other. FIRCLSMachExceptionReply MK other KERN_FAILURE) others @ [FIRCLSMachExceptionReply MK msg KERN_SUCCESS],
            snd (FIRCLSMachExceptionUnregister MK (originalPorts ctx) (exception_mask ctx) ports), s') \<and>
    files (crash_files s') path = Some (contents_of (crash_files s) path @
      concat (map section_line ((''mach_exception'', mach_value x86 (sys_time OS) ctx msg) # ss))) \<and>
    files (crash_files s') marker = Some (contents_of (crash_files s) marker) \<and> crashOccurred s' \<and>
    (\<forall>again ports'. msg_task again = task_self MK \<longrightarrow>
       FIRCLSMachExceptionServer x86 OS SK junk MK K T m ims ro ctx send_ok [Some again] (ports', s') = Some (Process_exit 1, [], ports', s'))"
proof -
  let ?dispatch = "FIRCLSMachExceptionDispatchMessage x86 OS SK junk MK K T m ims ro ctx"
  define st where "st = snd (FIRCLSSignalSafeInstallPreexistingHandlers SK junk (signal_context ro) (crash_signals s))"
  have "\<not> crashOccurred (s\<lparr>crash_signals := st\<rparr>)" "descriptors_left OS 2 (crash_files (s\<lparr>crash_signals := st\<rparr>))"
    using assms(2,8) by simp_all
  from mach_record_gives [OF assms(1) this(1) assms(3-7) this(2) assms(14,15), of x86]
  obtain fs where fs: "FIRCLSMachExceptionRecord x86 OS K T m ims ro ctx msg (s\<lparr>crash_signals := st\<rparr>) =
      Some (Returns (True, s\<lparr>crash_signals := st, crashOccurred := True, crash_files := fs\<rparr>))"
    "files fs path = Some (contents_of (crash_files s) path @
      concat (map section_line ((''mach_exception'', mach_value x86 (sys_time OS) ctx msg) # ss)))"
    "files fs marker = Some (contents_of (crash_files s) marker)" by auto
  define s' where "s' = s\<lparr>crash_signals := st, crashOccurred := True, crash_files := fs\<rparr>"
  note unregister = unregister_ok [OF assms(9), of "originalPorts ctx" "exception_mask ctx"]
  have own: "?dispatch msg (ports, s) = Some (Returns (KERN_SUCCESS,
      snd (FIRCLSMachExceptionUnregister MK (originalPorts ctx) (exception_mask ctx) ports), s'))"
    using fs(1) unregister assms(11,13) by (simp add: FIRCLSMachExceptionDispatchMessage_def split_def Let_def st_def s'_def)
  have "?dispatch other (ports, s) = Some (Returns (KERN_FAILURE, ports, s))" if "other \<in> set others" for other
    using that assms(12) by (simp add: FIRCLSMachExceptionDispatchMessage_def)
  note refuses = server_refuses [where dispatch = ?dispatch and send_ok = send_ok and MK = MK, OF this assms(10) [rule_format]]
  have again: "?dispatch again (ports', s') = Some (Exits 1)" if "msg_task again = task_self MK" for again ports'
    using that unregister assms(1,11)
    by (simp add: FIRCLSMachExceptionDispatchMessage_def split_def Let_def s'_def FIRCLSMachExceptionRecord_def
        FIRCLSContextMarkAndCheckIfCrashed_def FIRCLSContextIsInitialized_def)
  show ?thesis
    using fs(2,3) own again assms(10)
    by (intro exI [of _ s']) (simp add: FIRCLSMachExceptionServer_def refuses, simp add: s'_def)
qed

text \<open>A child process and this one have crashed; the server is the thread \<open>0x203\<close>.\<close>

definition sample_message :: MachExceptionMessage where
  "sample_message = \<lparr>msg_bits = 0x1211, msg_remote_port = 0x2003, msg_id = 2405, msg_thread = 0x103, msg_task = 0x203,
     msg_exception = 1, codeCnt = 2, msg_code = [1, 0x10]\<rparr>"

theorem mach_crash_reported_witness:
  "\<exists>s'. FIRCLSMachExceptionServer False quiet_system quiet_kernel 3 quiet_mach (lone_kernel 0x203)
       (arm64_process sample_runtime mach_o_abi arm64_abi) sample_stack None sample_readonly mach_context (\<lambda>_. True)
       [Some (sample_message\<lparr>msg_task := 0x303\<rparr>), Some sample_message]
       (debugger_ports, \<lparr>crash_files = \<lparr>files = Map.empty, descriptors = Map.empty\<rparr>, crash_signals = start_state,
          crashOccurred = False, current_errno = 0\<rparr>) =
     Some (Waiting,
       [\<lparr>reply_bits = 0x11, reply_remote_port = 0x2003, reply_id = 2505, retCode = 5\<rparr>,
        \<lparr>reply_bits = 0x11, reply_remote_port = 0x2003, reply_id = 2505, retCode = 0\<rparr>],
       snd (FIRCLSMachExceptionUnregister quiet_mach [] 0 debugger_ports), s') \<and>
     files (crash_files s') ''mach'' = Some (concat (map section_line
       ((''mach_exception'', Object [(''exception'', Uint 1), (''codes'', Array [Uint 1, Uint 0x10]),
          (''name'', Text (Some ''EXC_BAD_ACCESS'')), (''code_name'', Text (Some ''KERN_INVALID_ADDRESS'')),
          (''original_ports'', Uint 0), (''time'', Uint 5)]) # sample_sections)))"
proof -
  let ?s = "\<lparr>crash_files = \<lparr>files = Map.empty, descriptors = Map.empty\<rparr>, crash_signals = start_state,
          crashOccurred = False, current_errno = 0\<rparr>"
  have "initialized sample_readonly" "\<not> crashOccurred ?s" "exception_path mach_context = Some ''mach''"
    "previouslyCrashedFileFullPath sample_readonly = Some ''marker''" "''marker'' \<noteq> ''mach''"
    "descriptors_left quiet_system 2 (crash_files ?s)"
    by (simp_all add: sample_readonly_def mach_context_def descriptors_left_def quiet_system_def)
  note start = mach_crash_reported [OF this(1,2,3) quiet_usable this(4) quiet_usable this(5,6)]
  have ports: "\<forall>m ep. set_ports_ok quiet_mach m ep" by (simp add: quiet_mach_def)
  have signals: "\<forall>st. fst (FIRCLSSignalSafeInstallPreexistingHandlers quiet_kernel 3 (signal_context sample_readonly) st)"
  proof
    fix st
    have "length (originalActions start_context) = FIRCLSSignalCount" "ss_sp (originalStack start_context) = 0"
      and none: "\<forall>(s, a) \<in> set (zip FIRCLSFatalSignals (originalActions start_context)). sa_sigaction a \<noteq> 0 \<longrightarrow> accepts_signal quiet_kernel s"
      by (auto simp: start_context_def FIRCLSSignalCount_def no_action_def in_set_zip)
    with install_preexisting_gives [of start_context st quiet_kernel 3]
    obtain st' where "FIRCLSSignalSafeInstallPreexistingHandlers quiet_kernel 3 start_context st = (True, st')" by auto
    then show "fst (FIRCLSSignalSafeInstallPreexistingHandlers quiet_kernel 3 (signal_context sample_readonly) st)"
      by (simp add: sample_readonly_def)
  qed
  have others: "\<forall>other \<in> set [sample_message\<lparr>msg_task := 0x303\<rparr>]. msg_task other \<noteq> task_self quiet_mach"
    "msg_task sample_message = task_self quiet_mach" "unat (codeCnt sample_message) \<le> length (msg_code sample_message)"
    by (simp_all add: sample_message_def quiet_mach_def)
  have sections: "crash_sections quiet_system (lone_kernel 0x203) (arm64_process sample_runtime mach_o_abi arm64_abi) sample_stack None
      sample_readonly (msg_thread sample_message) None sample_sections"
    using sample_crash_sections [of None "0x203"] by (simp add: sample_message_def)
  have recorded: "mach_value False (sys_time quiet_system) mach_context sample_message =
      Object [(''exception'', Uint 1), (''codes'', Array [Uint 1, Uint 0x10]), (''name'', Text (Some ''EXC_BAD_ACCESS'')),
        (''code_name'', Text (Some ''KERN_INVALID_ADDRESS'')), (''original_ports'', Uint 0), (''time'', Uint 5)]"
    by (simp add: mach_value_def sample_message_def mach_context_def quiet_system_def FIRCLSMachExceptionNameLookup_def
        exception_numbers KERN_INVALID_ADDRESS_def Let_def)
  have replies: "map (\<lambda>other. FIRCLSMachExceptionReply quiet_mach other KERN_FAILURE) [sample_message\<lparr>msg_task := 0x303\<rparr>] @
      [FIRCLSMachExceptionReply quiet_mach sample_message KERN_SUCCESS] =
      [\<lparr>reply_bits = 0x11, reply_remote_port = 0x2003, reply_id = 2505, retCode = 5\<rparr>,
       \<lparr>reply_bits = 0x11, reply_remote_port = 0x2003, reply_id = 2505, retCode = 0\<rparr>]"
    by (simp add: FIRCLSMachExceptionReply_def sample_message_def quiet_mach_def KERN_FAILURE_def KERN_SUCCESS_def)
  have at_start: "originalPorts mach_context = []" "exception_mask mach_context = 0" by (simp_all add: mach_context_def)
  have empty: "contents_of (crash_files ?s) ''mach'' = []" by (simp add: contents_of_def)
  note result = start [of quiet_mach "\<lambda>_. True" quiet_kernel 3 "[sample_message\<lparr>msg_task := 0x303\<rparr>]" sample_message, OF ports allI [OF TrueI] signals others sections,
      of False debugger_ports, unfolded recorded replies empty]
  then show ?thesis
    unfolding at_start by auto
qed

end
