(* ===== verification/InternalLogging.thy ===== *)
theory InternalLogging
  imports CrashHandler
begin

text \<open>
  The log of the crash reporter: \<open>Helpers/FIRCLSInternalLogging.c\<close> with the writers of numbers to a
  descriptor of \<open>Helpers/FIRCLSFile.m\<close>, and \<open>FIRCLSDwarfPointerEncodingShow\<close> of
  \<open>Unwind/Dwarf/FIRCLSDwarfUnwind.c\<close>, which is there in debug builds and logs with a format that the log does
  not know.

  The variable arguments are a list of slots of eight bytes, as both targets pass them; an \<open>int\<close> is the low
  half of its slot. Reading an argument that is not there is \<open>None\<close>, as is a string that is not readable.
\<close>

section \<open>Writing to a descriptor\<close>

text \<open>\<open>write\<close>, whose result the log ignores, and the loop of \<open>FIRCLSFileWriteWithRetries\<close>.\<close>

definition write_fd :: "operating_system \<Rightarrow> int \<Rightarrow> string \<Rightarrow> file_system \<Rightarrow> file_system" where
  "write_fd OS fd s fs =
     (case descriptors fs fd of
        None \<Rightarrow> fs
      | Some p \<Rightarrow> fs\<lparr>files := (files fs)(p \<mapsto> snd (sys_write OS p (contents_of fs p) s))\<rparr>)"

definition write_fd_with_retries :: "operating_system \<Rightarrow> int \<Rightarrow> string \<Rightarrow> file_system \<Rightarrow> file_system" where
  "write_fd_with_retries OS fd s fs =
     (case descriptors fs fd of
        None \<Rightarrow> fs
      | Some p \<Rightarrow> fs\<lparr>files := (files fs)(p \<mapsto> snd (FIRCLSFileLoopWithWriteBlock (sys_write OS p) (contents_of fs p) s))\<rparr>)"

definition FIRCLSFileFDWriteUInt64 :: "operating_system \<Rightarrow> int \<Rightarrow> u64 \<Rightarrow> bool \<Rightarrow> file_system \<Rightarrow> file_system" where
  "FIRCLSFileFDWriteUInt64 OS fd number hex fs = write_fd_with_retries OS fd (FIRCLSFilePrepareUInt64 number hex) fs"

definition FIRCLSFileFDWriteInt64 :: "operating_system \<Rightarrow> int \<Rightarrow> u64 \<Rightarrow> file_system \<Rightarrow> file_system" where
  "FIRCLSFileFDWriteInt64 OS fd number fs =
     (let (number, fs) = (if sint number < 0 then (number * - 1, write_fd_with_retries OS fd ''-'' fs) else (number, fs))
      in FIRCLSFileFDWriteUInt64 OS fd number False fs)"

section \<open>The log\<close>

definition FIRCLSInternalLogLevelWarn :: nat where "FIRCLSInternalLogLevelWarn = 3"

record log_context =
  logFd :: int
  logLevel :: nat

definition va_arg :: "u64 list \<Rightarrow> (u64 \<times> u64 list) option" where
  "va_arg args = (case args of [] \<Rightarrow> None | a # as \<Rightarrow> Some (a, as))"

text \<open>A \<open>%\<close> at the end of the format is written with the terminator, and the loop is over.\<close>

fun log_loop :: "operating_system \<Rightarrow> mem \<Rightarrow> int \<Rightarrow> string \<Rightarrow> u64 list \<Rightarrow> file_system \<Rightarrow> file_system option" where
  "log_loop OS m fd [] args fs = Some fs"
| "log_loop OS m fd (c # format) args fs =
     (if c \<noteq> CHR ''%'' then log_loop OS m fd format args (write_fd OS fd [c] fs)
      else case format of
        [] \<Rightarrow> Some (write_fd OS fd [CHR ''%'', CHR 0x00] fs)
      | f # format \<Rightarrow>
          if f = CHR ''d'' then do {
            (value, args) \<leftarrow> va_arg args;
            log_loop OS m fd format args (FIRCLSFileFDWriteInt64 OS fd (scast (ucast value :: u32)) fs) }
          else if f = CHR ''u'' then do {
            (value, args) \<leftarrow> va_arg args;
            log_loop OS m fd format args (FIRCLSFileFDWriteUInt64 OS fd (ucast (ucast value :: u32)) False fs) }
          else if f = CHR ''p'' then do {
            (value, args) \<leftarrow> va_arg args;
            log_loop OS m fd format args (FIRCLSFileFDWriteUInt64 OS fd value True (write_fd OS fd ''0x'' fs)) }
          else if f = CHR ''s'' then do {
            (pointer, args) \<leftarrow> va_arg args;
            s \<leftarrow> (if pointer = 0 then Some ''(null)'' else c_string m pointer);
            log_loop OS m fd format args (write_fd OS fd s fs) }
          else if f = CHR ''x'' then do {
            (value, args) \<leftarrow> va_arg args;
            log_loop OS m fd format args (FIRCLSFileFDWriteUInt64 OS fd (ucast (ucast value :: u32)) True fs) }
          else log_loop OS m fd format args (write_fd OS fd [CHR ''%'', f] fs))"

text \<open>\<open>readonly\<close> and \<open>writable\<close> are \<open>None\<close> for \<open>NULL\<close>, as is the path in \<open>readonly\<close>.\<close>

definition FIRCLSSDKFileLog ::
    "operating_system \<Rightarrow> mem \<Rightarrow> string option option \<Rightarrow> nat \<Rightarrow> string \<Rightarrow> u64 list \<Rightarrow>
       log_context option \<times> file_system \<Rightarrow> (log_context option \<times> file_system) option" where
  "FIRCLSSDKFileLog OS m readonly level format args state =
     (case (readonly, state) of
        (Some (Some path), (Some w, fs)) \<Rightarrow>
          if logLevel w > level then Some state
          else let (w, fs) =
                 (if logFd w = - 1
                  then let fd = sys_open OS fs path in
                    (w\<lparr>logFd := fd\<rparr>,
                     if fd < 0 then fs
                     else \<lparr>files = (files fs)(path \<mapsto> contents_of fs path), descriptors = (descriptors fs)(fd \<mapsto> path)\<rparr>)
                  else (w, fs))
               in if logFd w < 0 then Some (Some w, fs)
                  else do { fs \<leftarrow> log_loop OS m (logFd w) format args fs; Some (Some w, fs) }
      | _ \<Rightarrow> Some state)"

text \<open>The macro \<open>FIRCLSSDKLog\<close>, with the name of the function and the line.\<close>

definition FIRCLSSDKLog ::
    "operating_system \<Rightarrow> mem \<Rightarrow> string option option \<Rightarrow> addr \<Rightarrow> u64 \<Rightarrow> string \<Rightarrow> u64 list \<Rightarrow>
       log_context option \<times> file_system \<Rightarrow> (log_context option \<times> file_system) option" where
  "FIRCLSSDKLog OS m readonly function_name line format args =
     FIRCLSSDKFileLog OS m readonly FIRCLSInternalLogLevelWarn (''WARN  [%s:%d] '' @ format) (function_name # line # args)"

section \<open>A caller\<close>

definition pe_values :: "(u8 \<times> string) list" where
  "pe_values =
     [(0x00, ''DW_EH_PE_absptr''), (0x01, ''DW_EH_PE_uleb128''), (0x02, ''DW_EH_PE_udata2''), (0x03, ''DW_EH_PE_udata4''),
      (0x04, ''DW_EH_PE_udata8''), (0x08, ''DW_EH_PE_signed''), (0x09, ''DW_EH_PE_sleb128''), (0x0A, ''DW_EH_PE_sdata2''),
      (0x0B, ''DW_EH_PE_sdata4''), (0x0C, ''DW_EH_PE_sdata8'')]"

definition pe_offsets :: "(u8 \<times> string) list" where
  "pe_offsets =
     [(0x00, []), (0x10, '' + DW_EH_PE_pcrel''), (0x20, '' + DW_EH_PE_textrel''), (0x30, '' + DW_EH_PE_datarel''),
      (0x40, '' + DW_EH_PE_funcrel''), (0x50, '' + DW_EH_PE_aligned''), (0x80, '' + DW_EH_PE_indirect'')]"

text \<open>\<open>literal\<close> is where a string of the program is.\<close>

definition FIRCLSDwarfPointerEncodingShow ::
    "operating_system \<Rightarrow> mem \<Rightarrow> string option option \<Rightarrow> (string \<Rightarrow> addr) \<Rightarrow> addr \<Rightarrow> u8 \<Rightarrow>
       log_context option \<times> file_system \<Rightarrow> (log_context option \<times> file_system) option" where
  "FIRCLSDwarfPointerEncodingShow OS m readonly literal leadString enc state =
     (if enc = 0xFF
      then FIRCLSSDKLog OS m readonly (literal ''FIRCLSDwarfPointerEncodingShow'') 916 (''%s: 0x%02x (omit)'' @ [CHR 0x0A])
             [leadString, ucast enc] state
      else let peValue = (case map_of pe_values (enc AND 0x0F) of Some s \<Rightarrow> s | None \<Rightarrow> ''unknown'');
               peOffset = (case map_of pe_offsets (enc AND 0x70) of Some s \<Rightarrow> s | None \<Rightarrow> [])
           in FIRCLSSDKLog OS m readonly (literal ''FIRCLSDwarfPointerEncodingShow'') 982 (''%s: 0x%02x (%s%s)'' @ [CHR 0x0A])
                [leadString, ucast enc, literal peValue, literal peOffset] state)"

section \<open>What is logged\<close>

datatype log_piece = Literally string | Signed u64 | Unsigned u64 | Pointer u64 | Hexadecimal u64 | Zero_terminated addr

fun piece_format :: "log_piece \<Rightarrow> string" where
  "piece_format (Literally s) = s"
| "piece_format (Signed v) = ''%d''"
| "piece_format (Unsigned v) = ''%u''"
| "piece_format (Pointer v) = ''%p''"
| "piece_format (Hexadecimal v) = ''%x''"
| "piece_format (Zero_terminated a) = ''%s''"

fun piece_args :: "log_piece \<Rightarrow> u64 list" where
  "piece_args (Literally s) = []"
| "piece_args (Signed v) = [v]"
| "piece_args (Unsigned v) = [v]"
| "piece_args (Pointer v) = [v]"
| "piece_args (Hexadecimal v) = [v]"
| "piece_args (Zero_terminated a) = [a]"

definition int_text :: "int \<Rightarrow> string" where
  "int_text i = (if i < 0 then CHR ''-'' # numeral_text 10 (nat (- i)) else numeral_text 10 (nat i))"

text \<open>The text for a piece, \<open>None\<close> for a literal with \<open>%\<close> and for a string that is not readable.\<close>

fun piece_text :: "mem \<Rightarrow> log_piece \<Rightarrow> string option" where
  "piece_text m (Literally s) = (if CHR ''%'' \<in> set s then None else Some s)"
| "piece_text m (Signed v) = Some (int_text (sint (ucast v :: u32)))"
| "piece_text m (Unsigned v) = Some (numeral_text 10 (unat (ucast v :: u32)))"
| "piece_text m (Pointer v) = Some (''0x'' @ numeral_text 16 (unat v))"
| "piece_text m (Hexadecimal v) = Some (numeral_text 16 (unat (ucast v :: u32)))"
| "piece_text m (Zero_terminated a) = (if a = 0 then Some ''(null)'' else c_string m a)"

text \<open>With text added to the file of the descriptor.\<close>

definition logged :: "int \<Rightarrow> string \<Rightarrow> file_system \<Rightarrow> file_system" where
  "logged fd s fs =
     (case descriptors fs fd of
        None \<Rightarrow> fs
      | Some p \<Rightarrow> fs\<lparr>files := (files fs)(p \<mapsto> contents_of fs p @ s)\<rparr>)"

definition log_ready :: "operating_system \<Rightarrow> int \<Rightarrow> file_system \<Rightarrow> bool" where
  "log_ready OS fd fs \<longleftrightarrow> (\<exists>p. descriptors fs fd = Some p \<and> files fs p \<noteq> None \<and> usable OS p)"

lemma logged_ready [simp]: "log_ready OS fd fs \<Longrightarrow> log_ready OS fd (logged fd s fs)"
  by (auto simp: log_ready_def logged_def split: option.splits)

lemma logged_logged [simp]: "logged fd t (logged fd s fs) = logged fd (s @ t) fs"
  by (cases "descriptors fs fd") (simp_all add: logged_def contents_of_def)

lemma logged_none: "log_ready OS fd fs \<Longrightarrow> logged fd [] fs = fs"
  by (auto simp: log_ready_def logged_def contents_of_def fun_upd_idem)

lemma writes_logged:
  assumes "log_ready OS fd fs"
  shows "write_fd OS fd s fs = logged fd s fs" and "s \<noteq> [] \<Longrightarrow> write_fd_with_retries OS fd s fs = logged fd s fs"
  using assms
  by (auto simp: write_fd_def write_fd_with_retries_def logged_def log_ready_def usable_def FIRCLSFileLoopWithWriteBlock_def
      CLS_FILE_MAX_WRITE_ATTEMPTS_def numeral_eq_Suc)

lemma prepare_text: "FIRCLSFilePrepareUInt64 number hex = numeral_text (if hex then 16 else 10) (unat number)"
proof -
  have "unat number < 2 ^ 64" using unat_less [of number] by simp
  then have "unat number < 10 ^ Suc 19" "unat number < 16 ^ Suc 19" by simp_all
  moreover have "21 - 1 = Suc 19" by simp
  ultimately show ?thesis
    unfolding FIRCLSFilePrepareUInt64_def
    using prepare_loop_text [of 10 number 19 "[]"] prepare_loop_text [of 16 number 19 "[]"] by (cases hex) simp_all
qed

lemma numeral_nonempty: "numeral_text b n \<noteq> []"
  by (subst numeral_text.simps) simp

lemma number_logged: "log_ready OS fd fs \<Longrightarrow> FIRCLSFileFDWriteUInt64 OS fd v hex fs = logged fd (numeral_text (if hex then 16 else 10) (unat v)) fs"
  by (simp add: FIRCLSFileFDWriteUInt64_def prepare_text numeral_nonempty writes_logged(2))

lemma signed_logged:
  assumes "log_ready OS fd fs"
  shows "FIRCLSFileFDWriteInt64 OS fd (scast (v :: u32)) fs = logged fd (int_text (sint v)) fs"
proof -
  have s: "sint (scast v :: u64) = sint v" by (simp add: sint_up_scast is_up)
  have bounds: "- (2 ^ 31) \<le> sint v" "sint v < 2 ^ 31" using sint_ge [of v] sint_lt [of v] by simp_all
  have c: "(scast v :: u64) = of_int (sint v)" by (metis s of_int_sint)
  have u: "unat (of_int k :: u64) = nat k" if "0 \<le> k" "k < 2 ^ 64" for k
  proof -
    have "uint (of_int k :: u64) = k" using that by (simp add: uint_word_of_int)
    then show ?thesis by (metis nat_uint_eq)
  qed
  show ?thesis
  proof (cases "sint v < 0")
    case True
    have "(scast v :: u64) * - 1 = of_int (- sint v)" by (simp only: c of_int_minus mult_minus1_right)
    moreover have "unat (of_int (- sint v) :: u64) = nat (- sint v)" using True bounds by (intro u) simp_all
    ultimately show ?thesis
      using True assms by (simp add: FIRCLSFileFDWriteInt64_def s number_logged writes_logged(2) int_text_def)
  next
    case False
    have "unat (scast v :: u64) = nat (sint v)" unfolding c using False bounds by (intro u) simp_all
    then show ?thesis using False assms by (simp add: FIRCLSFileFDWriteInt64_def s number_logged int_text_def)
  qed
qed

lemma literal_logged:
  "CHR ''%'' \<notin> set s \<Longrightarrow> log_ready OS fd fs \<Longrightarrow> log_loop OS m fd (s @ format) args fs = log_loop OS m fd format args (logged fd s fs)"
  by (induction s arbitrary: fs) (auto simp: logged_none writes_logged(1))

lemma piece_logged:
  assumes "log_ready OS fd fs" "piece_text m p = Some t"
  shows "log_loop OS m fd (piece_format p @ format) (piece_args p @ args) fs = log_loop OS m fd format args (logged fd t fs)"
  using assms
  by (cases p) (auto simp: literal_logged va_arg_def signed_logged number_logged writes_logged(1) unat_ucast_u32 split: if_splits)

lemma pieces_logged:
  assumes "log_ready OS fd fs" "those (map (piece_text m) ps) = Some ts"
  shows "log_loop OS m fd (concat (map piece_format ps) @ format) (concat (map piece_args ps) @ args) fs =
    log_loop OS m fd format args (logged fd (concat ts) fs)"
  using assms
proof (induction ps arbitrary: fs ts)
  case (Cons p ps)
  then obtain t us where "piece_text m p = Some t" "those (map (piece_text m) ps) = Some us" "ts = t # us"
    by (auto split: option.splits)
  with Cons show ?case by (simp add: piece_logged)
qed (auto simp: logged_none)

text \<open>The descriptor of the log is open, or it can be opened.\<close>

definition log_open :: "operating_system \<Rightarrow> string \<Rightarrow> log_context \<Rightarrow> file_system \<Rightarrow> bool" where
  "log_open OS path w fs \<longleftrightarrow> usable OS path \<and>
     (logFd w = - 1 \<and> descriptors_left OS 1 fs \<or>
      0 \<le> logFd w \<and> descriptors fs (logFd w) = Some path \<and> files fs path \<noteq> None)"

lemma sdk_log_starts:
  assumes "log_open OS path w fs" "logLevel w \<le> level"
  shows "\<exists>w' fs'. (\<forall>format args. FIRCLSSDKFileLog OS m (Some (Some path)) level format args (Some w, fs) =
      do { fs \<leftarrow> log_loop OS m (logFd w') format args fs'; Some (Some w', fs) }) \<and>
    0 \<le> logFd w' \<and> logLevel w' = logLevel w \<and> log_ready OS (logFd w') fs' \<and> descriptors fs' (logFd w') = Some path \<and>
    files fs' = (files fs)(path \<mapsto> contents_of fs path)"
proof (cases "logFd w = - 1")
  case True
  let ?fd = "sys_open OS fs path"
  have "0 \<le> ?fd" using assms(1) True usable_opens(1) [of OS path 0 fs] by (simp add: log_open_def)
  with assms True show ?thesis
    by (intro exI [of _ "w\<lparr>logFd := ?fd\<rparr>"]
        exI [of _ "\<lparr>files = (files fs)(path \<mapsto> contents_of fs path), descriptors = (descriptors fs)(?fd \<mapsto> path)\<rparr>"])
      (simp add: FIRCLSSDKFileLog_def log_ready_def log_open_def Let_def)
next
  case False
  with assms show ?thesis
    by (intro exI [of _ w] exI [of _ fs])
      (auto simp: FIRCLSSDKFileLog_def log_ready_def log_open_def contents_of_def fun_upd_idem split: option.splits)
qed

text \<open>C33: The log opens its file when it is not open, and appends the text of a format made of plain
  text and the conversions d, u, p, s and x, with numbers in full and (null) for a null string;
  below the level of the log nothing is changed.\<close>

theorem sdk_log_appends:
  assumes "log_open OS path w fs" "logLevel w \<le> level" "those (map (piece_text m) ps) = Some ts"
  shows "\<exists>w' fs'. FIRCLSSDKFileLog OS m (Some (Some path)) level (concat (map piece_format ps)) (concat (map piece_args ps)) (Some w, fs) =
      Some (Some w', fs') \<and> files fs' = (files fs)(path \<mapsto> contents_of fs path @ concat ts) \<and>
    0 \<le> logFd w' \<and> descriptors fs' (logFd w') = Some path \<and> logLevel w' = logLevel w \<and>
    (\<forall>lower < logLevel w. \<forall>format args. FIRCLSSDKFileLog OS m (Some (Some path)) lower format args (Some w, fs) = Some (Some w, fs))"
proof -
  obtain w' fs' where w: "\<forall>format args. FIRCLSSDKFileLog OS m (Some (Some path)) level format args (Some w, fs) =
      do { fs \<leftarrow> log_loop OS m (logFd w') format args fs'; Some (Some w', fs) }"
    "0 \<le> logFd w'" "logLevel w' = logLevel w" "log_ready OS (logFd w') fs'" "descriptors fs' (logFd w') = Some path"
    "files fs' = (files fs)(path \<mapsto> contents_of fs path)"
    using sdk_log_starts [OF assms(1,2), of m] by blast
  have "log_loop OS m (logFd w') (concat (map piece_format ps)) (concat (map piece_args ps)) fs' =
      Some (logged (logFd w') (concat ts) fs')"
    using pieces_logged [OF w(4) assms(3), of "[]" "[]"] by simp
  with w show ?thesis
    by (intro exI [of _ w'] exI [of _ "logged (logFd w') (concat ts) fs'"])
      (auto simp: logged_def contents_of_def FIRCLSSDKFileLog_def)
qed

section \<open>A format the log does not know\<close>

text \<open>\<open>%02x\<close> takes no argument, so the encoding is the pointer of the next \<open>%s\<close>.\<close>

text \<open>C34: A debug build that shows a pointer encoding other than 0 (which the log takes for a null
  string) and 0xFF (whose line has no string after it) faults where no memory is mapped at that
  number: the log takes no argument for the format 02x, so the encoding is read as the address
  of a string.\<close>

theorem encoding_shown_as_string:
  assumes "log_open OS path w fs" "logLevel w \<le> FIRCLSInternalLogLevelWarn"
    and "c_string m (literal ''FIRCLSDwarfPointerEncodingShow'') = Some name" "literal ''FIRCLSDwarfPointerEncodingShow'' \<noteq> 0"
    and "c_string m leadString = Some lead" "leadString \<noteq> 0"
    and "enc \<noteq> 0" "enc \<noteq> 0xFF" "m (ucast enc) = None"
  shows "FIRCLSDwarfPointerEncodingShow OS m (Some (Some path)) literal leadString enc (Some w, fs) = None"
proof -
  obtain w' fs' where w: "\<forall>format args. FIRCLSSDKFileLog OS m (Some (Some path)) FIRCLSInternalLogLevelWarn format args (Some w, fs) =
      do { fs \<leftarrow> log_loop OS m (logFd w') format args fs'; Some (Some w', fs) }" "log_ready OS (logFd w') fs'"
    using sdk_log_starts [OF assms(1,2), of m] by blast
  define name' where "name' = literal ''FIRCLSDwarfPointerEncodingShow''"
  let ?ps = "[Literally ''WARN  ['', Zero_terminated name', Literally '':'', Signed 982, Literally ''] '',
      Zero_terminated leadString, Literally '': 0x'']"
  obtain ts where ts: "those (map (piece_text m) ?ps) = Some ts" using assms(3-6) by (simp add: name'_def)
  have "uint (ucast enc :: u64) = uint enc" by (rule uint_up_ucast) (simp add: is_up)
  then have nonzero: "(ucast enc :: u64) \<noteq> 0" using assms(7) by (metis unsigned_eq_0_iff)
  have fault: "c_string m (ucast enc) = None" using assms(9) by (simp add: c_string.simps)
  have "log_loop OS m (logFd w') (''%02x (%s%s)'' @ [CHR 0x0A]) (ucast enc # args) g = None" for args g
    using nonzero fault by (simp add: va_arg_def)
  with pieces_logged [OF w(2) ts]
  have "log_loop OS m (logFd w') (concat (map piece_format ?ps) @ ''%02x (%s%s)'' @ [CHR 0x0A])
      (concat (map piece_args ?ps) @ ucast enc # args) fs' = None" for args by metis
  then show ?thesis
    using w(1) assms(8) by (simp add: FIRCLSDwarfPointerEncodingShow_def FIRCLSSDKLog_def Let_def name'_def)
qed

lemma sample_string:
  "c_string (mem_of 0x100 [72, 105, 0]) 0x100 = Some ''Hi''" "mem_of 0x100 [72, 105, 0] 0x1B = None"
  by (simp_all add: c_string.simps mem_of_def char_of_def bit_0)

theorem sdk_log_appends_witness:
  "\<exists>w' fs'. FIRCLSSDKFileLog quiet_system (mem_of 0x100 [72, 105, 0]) (Some (Some ''log'')) 3 ''[%s:%d] 0x%x''
       [0x100, 0xFFFFFFFFFFFFFFFB, 0xFF] (Some \<lparr>logFd = - 1, logLevel = 1\<rparr>, \<lparr>files = [''log'' \<mapsto> ''old ''], descriptors = Map.empty\<rparr>) =
     Some (Some w', fs') \<and> files fs' ''log'' = Some ''old [Hi:-5] 0xff''"
proof -
  let ?m = "mem_of 0x100 [72, 105, 0]"
  let ?ps = "[Literally ''['', Zero_terminated 0x100, Literally '':'', Signed 0xFFFFFFFFFFFFFFFB, Literally ''] 0x'', Hexadecimal 0xFF]"
  let ?fs = "\<lparr>files = [''log'' \<mapsto> ''old ''], descriptors = Map.empty\<rparr>"
  have d: "sint (ucast (0xFFFFFFFFFFFFFFFB :: u64) :: u32) = - 5" by simp
  have "log_open quiet_system ''log'' \<lparr>logFd = - 1, logLevel = 1\<rparr> ?fs"
    using quiet_usable by (simp add: log_open_def descriptors_left_def quiet_system_def)
  moreover have "those (map (piece_text ?m) ?ps) = Some [''['', ''Hi'', '':'', ''-5'', ''] 0x'', ''ff'']"
    using sample_string(1) d by (simp add: int_text_def numeral_text.simps digit_char_def char_of_def bit_0)
  ultimately obtain w' fs' where "FIRCLSSDKFileLog quiet_system ?m (Some (Some ''log'')) 3 (concat (map piece_format ?ps))
      (concat (map piece_args ?ps)) (Some \<lparr>logFd = - 1, logLevel = 1\<rparr>, ?fs) = Some (Some w', fs')"
    "files fs' = (files ?fs)(''log'' \<mapsto> contents_of ?fs ''log'' @ concat [''['', ''Hi'', '':'', ''-5'', ''] 0x'', ''ff''])"
    using sdk_log_appends [of quiet_system "''log''" "\<lparr>logFd = - 1, logLevel = 1\<rparr>" ?fs 3 ?m ?ps] by fastforce
  then show ?thesis by (intro exI [of _ w'] exI [of _ fs']) (simp add: contents_of_def)
qed

text \<open>\<open>DW_EH_PE_pcrel | DW_EH_PE_sdata4\<close>, the encoding of every record of the toolchain.\<close>

theorem encoding_shown_as_string_witness:
  "FIRCLSDwarfPointerEncodingShow quiet_system (mem_of 0x100 [72, 105, 0]) (Some (Some ''log'')) (\<lambda>_. 0x100) 0x100 0x1B
     (Some \<lparr>logFd = - 1, logLevel = 1\<rparr>, \<lparr>files = Map.empty, descriptors = Map.empty\<rparr>) = None"
proof (rule encoding_shown_as_string)
  show "log_open quiet_system ''log'' \<lparr>logFd = - 1, logLevel = 1\<rparr> \<lparr>files = Map.empty, descriptors = Map.empty\<rparr>"
    using quiet_usable by (simp add: log_open_def descriptors_left_def quiet_system_def)
qed (simp_all add: FIRCLSInternalLogLevelWarn_def sample_string)

end
