(* ===== verification/Spec2Isabelle.thy ===== *)
theory Spec2Isabelle
  imports Process Allocator FirestoreNanopb FBase64 MachException InternalLogging
begin

text \<open>
  The crash reporter of the Grocery app: the C core of FirebaseCrashlytics
  (\<open>Grocery-App/Pods/FirebaseCrashlytics/Crashlytics/Crashlytics/\<close>, the paths below are relative to it),
  nanopb (\<open>Grocery-App/Pods/nanopb/\<close>), with which reports, log events and documents become the bytes that are
  sent and back, and the base64 codec of FirebaseDatabase.

  \<^bold>\<open>The program.\<close> At the start the crash reporter takes over the fatal signals and the Mach exception
  ports and keeps what was there (\<open>FIRCLSSignal.c\<close>, \<open>FIRCLSMachException.c\<close>). When the process crashes, one of
  the two handlers gives them back, marks the crash, opens its file, and calls the process
  recorder (by \<open>FIRCLSHandler.m\<close>), which suspends the other threads, unwinds the stack of every thread and writes what it
  finds as lines of JSON. All of it runs in a dying process, so it must neither fault nor hang.
  The recorder (\<open>FIRCLSProcess.c\<close>) calls the unwinder (\<open>FIRCLSUnwind.c\<close>) once per frame. The
  unwinder looks the program counter up among the loaded images, then in the compact unwind
  information of its image (\<open>FIRCLSCompactUnwind.c\<close>), which either says how to restore the registers
  (\<open>FIRCLSUnwind_arm.c\<close>, \<open>FIRCLSUnwind_x86.c\<close>) or refers to a DWARF record. That record is parsed and
  interpreted by \<open>FIRCLSDwarfUnwind.c\<close>, over the byte readers of \<open>FIRCLSDataParsing.c\<close> and the
  expression machine of \<open>FIRCLSDwarfExpressionMachine.c\<close>. When there is no such information the
  unwinder follows the frame pointer. Text goes out through the buffered writer of \<open>FIRCLSFile.m\<close>.
  What the handlers need they have allocated beforehand, in pages that are then protected
  (\<open>FIRCLSAllocate.c\<close>). At the next start the report adapter puts the files of the report into a C
  structure, and nanopb encodes it as a protocol buffers message, driven by a table of the fields of the
  structure; the transport does the same with its log requests and decodes the answer. The Firestore
  client reads and writes its documents with the same decoder and encoder (\<open>reader.cc\<close>, \<open>writer.cc\<close>).

  \<^bold>\<open>Theories\<close>, in the order in which they build on each other.

  \<^item> \<open>Prelude\<close>: machine integers, the memory model (a partial map from addresses to bytes, with
    little-endian loads), byte strings in memory, and the lemmas on words and options all others use.
  \<^item> \<open>DataParsing\<close>: \<open>Unwind/Dwarf/FIRCLSDataParsing.c\<close>. A cursor-based reader
    \<open>T parse(const void** cursor)\<close> is a function \<open>mem \<Rightarrow> addr \<Rightarrow> (T \<times> addr) option\<close>. LEB128 is decoded with
    the \<open>int\<close>-width shifts of the code. Lemmas: each reader against the encoding it reads; the LEB128
    round trip in the range where the code is right, and what it does beyond.
  \<^item> \<open>ThreadState\<close>: \<open>Helpers/FIRCLSThreadState.c\<close> and the DWARF register numbering. The \<open>#if\<close> selection
    is the record \<open>arch\<close>; the locale \<open>register_file\<close> states what the DWARF code relies on and is
    interpreted for arm64 and x86_64.
  \<^item> \<open>Utility\<close>: the pointer test and the fault-free reads of \<open>Helpers/FIRCLSUtility.m\<close>.
  \<^item> \<open>ExpressionMachine\<close>: \<open>Unwind/Dwarf/FIRCLSDwarfExpressionMachine.c\<close>, opcode by opcode. Its
    evaluation is refined to a reference semantics of DWARF expressions on a list stack. An access
    outside the buffer of the stack is a fault of the model, and no opcode makes one.
  \<^item> \<open>DwarfUnwind\<close>: \<open>Unwind/Dwarf/FIRCLSDwarfUnwind.c\<close>: CIE and FDE parsing (round trip with an
    encoder), the call-frame instruction interpreter (refined to a reference semantics of rows; an
    access outside the register table is a fault, and no instruction makes one), and the computation
    of the caller's registers.
  \<^item> \<open>CompactUnwind\<close>: \<open>Unwind/Compact/FIRCLSCompactUnwind.c\<close>. The two-level lookup is proved equal to a
    linear search in the abstract section.
  \<^item> \<open>BinaryImage\<close>: the image table lookups of \<open>Components/FIRCLSBinaryImage.m\<close> and the stack scan.
  \<^item> \<open>UnwindArm\<close>, \<open>UnwindX86\<close>: \<open>Unwind/FIRCLSUnwind_arm.c\<close> and \<open>Unwind/FIRCLSUnwind_x86.c\<close>, with the
    frame-pointer, link-register, stack-scan and frameless strategies. The permutation of the saved
    registers decodes to the order the compiler encoded.
  \<^item> \<open>Unwind\<close>: \<open>Unwind/FIRCLSUnwind.c\<close>. One frame step, its invariant, the locale \<open>unwind_target\<close> of
    what is asked of a target (interpreted for both), the relation \<open>unwinds\<close> of a context to the
    program counters it leads to, and frame chains.
  \<^item> \<open>File\<close>: the JSON writer of \<open>Helpers/FIRCLSFile.m\<close>. \<open>reliable\<close> is a file whose writes succeed;
    \<open>appends\<close> and \<open>writes\<close> say what text an operation adds and in what state it leaves the separators;
    \<open>json_text\<close> is the reference printer.
  \<^item> \<open>Process\<close>: \<open>Components/FIRCLSProcess.c\<close>: threads, their states, the recording of stacks with the
    suppression of infinite recursion, names, statistics and runtime information. The lemmas compose
    the unwinder and the writer: the file holds the JSON of the threads, the stack trace the program
    counters of the frame chain.
  \<^item> \<open>Allocator\<close>: \<open>Helpers/FIRCLSAllocate.c\<close>. The compare-and-swap allocation is a step relation of
    interleaved threads: blocks are disjoint and no schedule keeps all threads from returning.
  \<^item> \<open>PbTypes\<close>: the field types and descriptors of \<open>pb.h\<close> and the field iterator of \<open>pb_common.c\<close>.
    \<open>field_addresses\<close> says where the fields of a structure are; the iterator is proved to go there.
  \<^item> \<open>PbEncode\<close>: \<open>pb_encode.c\<close>, function by function, over streams whose callback is a parameter.
  \<^item> \<open>PbEncodeCorrect\<close>: the wire format of protocol buffers, \<open>message_records\<close>, which reads the records
    of a message off the memory of a structure, and the proof that the encoder writes them. The locale
    \<open>byte_sink\<close> states what the encoder asks of a callback and is interpreted by the memory buffer;
    \<open>emits\<close> says at once what an operation does on a counting stream, on one with enough room and on
    one that is too short, and composes.
  \<^item> \<open>PbMessages\<close>: the layout of C structures, the macros that make descriptors from it (proved to lead the
    iterator to the members of any structure laid out for its declared fields), the tables of
    the crash report and of the log request (\<open>crashlytics.nanopb.c\<close>, \<open>cct.nanopb.c\<close>), and the two-pass
    encoding of \<open>Models/Record/FIRCLSReportAdapter.m\<close>.
  \<^item> \<open>PbDecode\<close>: \<open>pb_decode.c\<close>, function by function. The input, the bytes not yet read or a callback, is
    apart from the memory the decoder changes.
  \<^item> \<open>PbDecodeCorrect\<close>: \<open>gives\<close> says which bytes come next on a stream; every reader takes exactly its
    wire format, and the decoder changes memory as a pure function on the records of the message says. \<open>covered\<close> says
    for which fields: optional ones and members of unions, in place or strings and bytes behind pointers, and arrays
    of strings, bytes and messages behind a pointer. Required and packed fields and extensions are modelled, and
    not part of these theorems.
  \<^item> \<open>PbRoundtrip\<close>: what the encoder wrote the decoder reads back, numbers on every branch, and the answer of the log
    server as the example.
  \<^item> \<open>FirestoreNanopb\<close>: the tables of documents and values, whose unions are views of the same bytes, and
    \<open>Firestore/core/src/nanopb/reader.cc\<close> and \<open>writer.cc\<close>. The hypothesis \<open>grows\<close> says that
    \<open>calloc\<close> and \<open>realloc\<close> give the memory asked for.
  \<^item> \<open>FBase64\<close>: \<open>fbase64.c\<close> and its caller. The decoder accepts the values of the reference encoder with
    white space anywhere, and nothing else.
  \<^item> \<open>Files\<close>: opening and closing a report (the first part of \<open>FIRCLSFile.m\<close>), over a state of files and
    descriptors, and the marker file. \<open>usable\<close> is a path the system can open and write.
  \<^item> \<open>SignalHandlers\<close>: \<open>Handlers/FIRCLSSignal.c\<close> but for the handler itself, over the record of the actions.
  \<^item> \<open>CrashHandler\<close>: \<open>Handlers/FIRCLSHandler.m\<close>, the crash mark of \<open>FIRCLSContext.m\<close> and the signal handler. \<open>logs\<close>
    says which sections an operation writes and composes, so a report is the list of its
    sections; the mark is also a step relation of interleaved threads, whose outcomes are determined.
  \<^item> \<open>MachException\<close>: \<open>Handlers/FIRCLSMachException.c\<close>: registration, the server over the messages it
    receives, and the record, with the same composition.
  \<^item> \<open>InternalLogging\<close>: \<open>Helpers/FIRCLSInternalLogging.c\<close>, the log with its own formats, and a caller in
    \<open>FIRCLSDwarfUnwind.c\<close> that uses one it does not know. \<open>piece_text\<close> is the reference for what a format means.

  \<^bold>\<open>Conventions.\<close> The model is of the 64-bit little-endian targets, arm64 on the device and x86_64 in
  the simulator. An option is \<open>None\<close> when the process faults, or does something C leaves undefined;
  a \<open>false\<close> the code returns is a value. Where both occur the option is nested. Structures that the
  code passes by pointer to update them are passed and returned by value.

  \<^bold>\<open>Parameters\<close>, for what is not in the repository: \<open>unwind_abi\<close>, \<open>arm_abi\<close> and \<open>x86_abi\<close> for the
  constants of the SDK's \<open>compact_unwind_encoding.h\<close>; \<open>kernel\<close> for what Mach and the system libraries
  answer; \<open>operating_system\<close>, \<open>signal_kernel\<close> and \<open>mach_kernel\<close> for the system calls of the handlers;
  \<open>fd_write\<close> for the \<open>write\<close> system call. Theorems that depend on them state what they ask.

  \<^bold>\<open>Bounds and loops.\<close> There is no fuel where the code has no bound: loops are functions with a
  termination proof, or iterate at most as often as the code does. The recursion of nanopb through
  submessages is bounded by a number for the depth, which the theorems take as large as the message is
  nested, for encoding and for decoding. LEB128 reading stops after the
  eight bytes its shifts allow. The image table has 512 nodes, a write is tried 50 times, a
  trace has at most 100000 frames on the device and 600000 elsewhere, and each frame step raises the
  count, so recording ends. Some loops have no bound of their own and are partial functions, which have
  no result where the loop does not end: the list of extensions of a message, the loops of the decoder over a
  message, which the theorems show to end on what it reads, over a packed array and over a callback, the call-frame
  interpreter, which may run for ever on corrupt input (a theorem shows such an input), the stack scan, which a
  theorem shows to end, and two string readers, which end at the terminator.

  \<^bold>\<open>What the properties found.\<close> Theorems name the places where the code does not do what it means to:
  wide LEB128 values, \<open>DW_CFA_advance_loc\<close>, the unchecked expression length, \<open>DW_OP_deref_size\<close>, the
  last entry of a compact page, the log line of the stack scan, the overwritten RBP, the resume loop,
  the \<open>resident\<close> statistic, eleven equal frames, the section left open on failure and unescaped strings; in the allocator a size that
  wraps; in nanopb a submessage that is dropped because of the address of its string, and in Firestore a union
  of which the decoder hands one member to \<open>realloc\<close> as the pointer of another; a base64 buffer that is too small; original
  signal handlers that are not put back on the alternate stack, a crash mark that all threads can pass, and a
  log format that makes a number a pointer.

  \<^bold>\<open>Not modelled.\<close> The Swift application and the Objective-C parts of the pods: their logic is calls
  into UIKit and Foundation. Filling the image table from Mach-O headers
  and reading reports back: system calls and Foundation. Signal numbers and Mach constants are
  those of Darwin; port rights, the attributes of the server's thread and the LLVM flag of the simulator are
  not part of the states. The other vendored libraries (BoringSSL,
  gRPC, upb, Abseil, LevelDB, the rest of the Firestore client) are third-party code the app only links. The 32-bit
  branches of the \<open>#if\<close>s are not built for the targets. The calls of the log are left out of the
  functions around them, whose state they do not change, except where evaluating an argument faults; what a call
  does is in \<open>InternalLogging\<close>.
\<close>

end
